(* ===== verification/Prelude.thy ===== *)
theory Prelude
  imports Main "HOL-Library.State_Monad" "HOL-Library.Word" "HOL-Library.AList"
begin

text \<open>
  What every component of the model shares: machine integers with their wrap-around, Go's error
  values, the state monad of the server's programs with a weakest-precondition calculus, tables as
  lists of rows, and the decimal notation of integers (\<^verbatim>\<open>strconv\<close>).
\<close>

section \<open>Machine integers\<close>

type_synonym byte = "8 word"
type_synonym bytes = "byte list"

text \<open>
  Go's \<^verbatim>\<open>int64\<close> (and \<^verbatim>\<open>int\<close>, 64 bits on every platform the server is built for) is an \<^typ>\<open>int\<close>
  with the wrap-around written out; Postgres' \<^verbatim>\<open>BIGINT\<close> and \<^verbatim>\<open>INTEGER\<close> raise an error instead.
\<close>

definition i64 :: "int \<Rightarrow> int" where
  "i64 x = (x + 2 ^ 63) mod 2 ^ 64 - 2 ^ 63"

definition i32 :: "int \<Rightarrow> int" where
  "i32 x = (x + 2 ^ 31) mod 2 ^ 32 - 2 ^ 31"

definition in_i64 :: "int \<Rightarrow> bool" where
  "in_i64 x \<longleftrightarrow> - (2 ^ 63) \<le> x \<and> x < 2 ^ 63"

definition in_i32 :: "int \<Rightarrow> bool" where
  "in_i32 x \<longleftrightarrow> - (2 ^ 31) \<le> x \<and> x < 2 ^ 31"

text \<open>Go's integer division truncates towards zero.\<close>

definition go_div :: "int \<Rightarrow> int \<Rightarrow> int" where
  "go_div a b = sgn a * sgn b * (\<bar>a\<bar> div \<bar>b\<bar>)"

lemma i64_id [simp]: "in_i64 x \<Longrightarrow> i64 x = x"
  by (simp add: i64_def in_i64_def)

lemma i64_wrap: "2 ^ 63 \<le> x \<Longrightarrow> x < 2 ^ 63 + 2 ^ 64 \<Longrightarrow> i64 x = x - 2 ^ 64"
proof -
  assume x: "2 ^ 63 \<le> x" "x < 2 ^ 63 + 2 ^ 64"
  have "(x + 2 ^ 63) mod 2 ^ 64 = (x + 2 ^ 63 - 2 ^ 64) mod 2 ^ 64" by (rule minus_mod_self2 [symmetric])
  also have "\<dots> = x + 2 ^ 63 - 2 ^ 64" using x by (intro mod_pos_pos_trivial) simp_all
  finally show ?thesis by (simp add: i64_def)
qed

lemma i64_range: "in_i64 (i64 x)"
  by (simp add: i64_def in_i64_def)

lemma i32_id [simp]: "in_i32 x \<Longrightarrow> i32 x = x"
  by (simp add: i32_def in_i32_def)

lemma in_i64_nonneg: "0 \<le> x \<Longrightarrow> x < 2 ^ 63 \<Longrightarrow> in_i64 x"
  by (simp add: in_i64_def)

lemma go_div_nonneg: "0 \<le> a \<Longrightarrow> 0 < b \<Longrightarrow> go_div a b = a div b"
  by (cases "a = 0") (simp_all add: go_div_def sgn_if)

text \<open>The number of pieces of \<open>c\<close> bytes that cover \<open>n\<close> bytes, as the code computes it.\<close>

lemma ceil_div_bounds:
  fixes n c :: int
  assumes "0 < n" "0 < c"
  defines "k \<equiv> (n + c - 1) div c"
  shows "1 \<le> k" "(k - 1) * c < n" "n \<le> k * c"
proof -
  have eq: "n + c - 1 = k * c + (n + c - 1) mod c"
    unfolding k_def by (simp add: mult.commute)
  have m: "0 \<le> (n + c - 1) mod c" "(n + c - 1) mod c < c"
    using assms(2) by simp_all
  show "(k - 1) * c < n" using eq m by (simp add: left_diff_distrib)
  show "n \<le> k * c" using eq m by linarith
  show "1 \<le> k"
    unfolding k_def using assms by (simp add: pos_imp_zdiv_pos_iff int_one_le_iff_zero_less)
qed

section \<open>Decimal notation\<close>

text \<open>\<^verbatim>\<open>strconv.FormatInt(x, 10)\<close> and \<^verbatim>\<open>strconv.ParseInt(s, 10, 64)\<close>. The parser returns the value and
  whether it failed: 0 for a malformed string, the nearest bound for one out of range.\<close>

definition digit :: "nat \<Rightarrow> char" where
  "digit d = char_of (48 + d)"

definition digit_val :: "char \<Rightarrow> nat option" where
  "digit_val c = (let n = (of_char c :: nat) in if 48 \<le> n \<and> n \<le> 57 then Some (n - 48) else None)"

fun fmt_nat :: "nat \<Rightarrow> string" where
  "fmt_nat n = (if n < 10 then [digit n] else fmt_nat (n div 10) @ [digit (n mod 10)])"

declare fmt_nat.simps [simp del]

fun parse_digits :: "nat \<Rightarrow> string \<Rightarrow> nat option" where
  "parse_digits a [] = Some a"
| "parse_digits a (c # cs) =
     (case digit_val c of None \<Rightarrow> None | Some d \<Rightarrow> parse_digits (10 * a + d) cs)"

definition FormatInt :: "int \<Rightarrow> string" where
  "FormatInt x = (if x < 0 then CHR ''-'' # fmt_nat (nat (- x)) else fmt_nat (nat x))"

definition ParseInt :: "string \<Rightarrow> int \<times> bool" where
  "ParseInt s =
     (let (neg, ds) = (case s of [] \<Rightarrow> (False, [])
                       | c # cs \<Rightarrow> if c = CHR ''-'' then (True, cs)
                                  else if c = CHR ''+'' then (False, cs) else (False, s))
      in if ds = [] then (0, True)
         else case parse_digits 0 ds of
                None \<Rightarrow> (0, True)
              | Some n \<Rightarrow> if \<not> neg \<and> 2 ^ 63 \<le> int n then (2 ^ 63 - 1, True)
                          else if neg \<and> 2 ^ 63 < int n then (- (2 ^ 63), True)
                          else (if neg then - int n else int n, False))"

lemma digit_val_digit [simp]: "d < 10 \<Longrightarrow> digit_val (digit d) = Some d"
  by (simp add: digit_val_def digit_def)

lemma digit_no_sign: "d < 10 \<Longrightarrow> digit d \<noteq> CHR ''-'' \<and> digit d \<noteq> CHR ''+''"
  by (cases d rule: nat.exhaust) (auto simp: digit_def dest!: arg_cong [where f = "of_char :: char \<Rightarrow> nat"])

lemma parse_digits_append:
  "parse_digits a (xs @ ys) = (case parse_digits a xs of None \<Rightarrow> None | Some b \<Rightarrow> parse_digits b ys)"
  by (induction a xs rule: parse_digits.induct) (auto split: option.splits)

lemma parse_fmt_nat: "parse_digits 0 (fmt_nat n) = Some n"
proof (induction n rule: fmt_nat.induct)
  case (1 n)
  show ?case
    by (subst fmt_nat.simps) (use 1 in \<open>auto simp: parse_digits_append\<close>)
qed

lemma fmt_nat_Cons: "\<exists>d cs. d < 10 \<and> fmt_nat n = digit d # cs"
proof (induction n rule: fmt_nat.induct)
  case (1 n)
  show ?case
  proof (cases "n < 10")
    case True
    then show ?thesis by (subst fmt_nat.simps) auto
  next
    case False
    then obtain d cs where "d < 10" "fmt_nat (n div 10) = digit d # cs" using 1 by blast
    with False show ?thesis by (subst fmt_nat.simps) auto
  qed
qed

text \<open>Round trip: parsing what was formatted returns the number, for every 64-bit integer.\<close>

lemma ParseInt_FormatInt: "in_i64 x \<Longrightarrow> ParseInt (FormatInt x) = (x, False)"
proof -
  assume x: "in_i64 x"
  obtain d cs where d: "d < 10" "fmt_nat (nat \<bar>x\<bar>) = digit d # cs"
    using fmt_nat_Cons by blast
  have p: "parse_digits 0 (digit d # cs) = Some (nat \<bar>x\<bar>)"
    using parse_fmt_nat [of "nat \<bar>x\<bar>"] d by simp
  show ?thesis
    using x d p digit_no_sign [OF d(1)]
    by (cases "x < 0") (auto simp: FormatInt_def ParseInt_def in_i64_def)
qed

lemma length_FormatInt_pos: "0 < length (FormatInt x)"
  using fmt_nat_Cons [of "nat x"] by (auto simp: FormatInt_def)

section \<open>Error values\<close>

text \<open>
  The sentinel errors of the packages that are modelled, an unnamed error (\<^verbatim>\<open>errors.New\<close> at the
  point of return) and the wrapper of \<^verbatim>\<open>fmt.Errorf("...: %w", err)\<close>. \<open>ErrIO\<close> is any failure of the
  database driver, the network or the file system; \<open>ErrConstraint\<close> and \<open>ErrOutOfRange\<close> are the
  errors of the database itself.
\<close>

datatype goerr =
    ErrNoRows | ErrIO | ErrConstraint | ErrOutOfRange
  | ErrBlobNotFound | ErrReferenceNotFound | ErrStorageBlobNotFound
  | ErrQuotaExceeded | ErrUserBanned | ErrUserNotFound
  | ErrUploadMimeTypeNotAllowed | ErrUploadFileTooLarge | ErrDailyUploadLimitReached
  | ErrMimeTypeNotAllowed | ErrFileSizeLimit | ErrHashRemoved
  | ErrUnauthorized | ErrMissingRule
  | ErrSessionNotFound | ErrSessionExpired | ErrSessionAborted | ErrSessionComplete
  | ErrChunkAlreadyUploaded | ErrChunkOutOfRange | ErrChunkSizeMismatch | ErrHashMismatch
  | ErrUploadIncomplete
  | ErrTusUploadNotFound | ErrTusOffsetConflict | ErrTusChunkTooLarge
  | ErrSweepSkipped | ErrSourceFetch | ErrDecrypt
  | ErrPaymentInvalid | ErrPaymentExpired | ErrPaymentNotFound | ErrPaymentAlreadyPaid
  | ErrLightningDisabled | ErrCashuDisabled | ErrInsufficientPayment
  | ErrReportNotFound | ErrPubkeyBlocked
  | ErrTusBlocklistUnavailable | ErrTusAccessDenied
  | Msg string
  | Wrap string goerr

text \<open>\<^verbatim>\<open>errors.Is\<close>: the target is found anywhere in the chain of wrapped errors.\<close>

fun errors_is :: "goerr \<Rightarrow> goerr \<Rightarrow> bool" where
  "errors_is (Wrap s e) t = (Wrap s e = t \<or> errors_is e t)"
| "errors_is e t = (e = t)"

lemma errors_is_refl [simp]: "errors_is e e"
  by (cases e) auto

lemma errors_is_NoRows_iff: "(\<And>s e'. e \<noteq> Wrap s e') \<Longrightarrow> errors_is e ErrNoRows \<longleftrightarrow> e = ErrNoRows"
  by (cases e) auto

type_synonym 'a result = "goerr + 'a"

section \<open>Programs: the state monad and weakest preconditions\<close>

abbreviation ret :: "'a \<Rightarrow> ('w, 'a) state" where
  "ret x \<equiv> State_Monad.return x"

text \<open>
  \<open>wp m Q w\<close>: running \<open>m\<close> from \<open>w\<close> ends with a value and a state that satisfy \<open>Q\<close>. Programs are
  total, so this is total correctness.
\<close>

definition wp :: "('w, 'a) state \<Rightarrow> ('a \<Rightarrow> 'w \<Rightarrow> bool) \<Rightarrow> 'w \<Rightarrow> bool" where
  "wp m Q w = (case run_state m w of (x, w') \<Rightarrow> Q x w')"

named_theorems wp_simp \<open>equations of the weakest precondition\<close>
named_theorems wp_intro \<open>introduction rules for calls that may fail\<close>

lemma wp_ret [wp_simp]: "wp (ret x) Q = Q x"
  by (rule ext) (simp add: wp_def)

lemma wp_bind [wp_simp]: "wp (State_Monad.bind m f) Q = wp m (\<lambda>x. wp (f x) Q)"
  by (rule ext) (simp add: wp_def split: prod.splits)

lemma wp_State [wp_simp]: "wp (State f) Q w = (case f w of (x, w') \<Rightarrow> Q x w')"
  by (simp add: wp_def)

lemma wp_get [wp_simp]: "wp State_Monad.get Q w = Q w w"
  by (simp add: wp_def)

lemma wp_set [wp_simp]: "wp (State_Monad.set s) Q w = Q () s"
  by (simp add: wp_def)

lemma wp_if [wp_simp]: "wp (if b then m else n) Q w = (if b then wp m Q w else wp n Q w)"
  by simp

lemma wp_case_sum [wp_simp]:
  "wp (case r of Inl e \<Rightarrow> f e | Inr x \<Rightarrow> g x) Q w
     = (case r of Inl e \<Rightarrow> wp (f e) Q w | Inr x \<Rightarrow> wp (g x) Q w)"
  by (cases r) simp_all

lemma wp_case_option [wp_simp]:
  "wp (case r of None \<Rightarrow> f | Some x \<Rightarrow> g x) Q w
     = (case r of None \<Rightarrow> wp f Q w | Some x \<Rightarrow> wp (g x) Q w)"
  by (cases r) simp_all

lemma wp_case_prod [wp_simp]:
  "wp (case p of (a, b) \<Rightarrow> f a b) Q w = (case p of (a, b) \<Rightarrow> wp (f a b) Q w)"
  by (cases p) simp

lemma wp_mono: "wp m Q w \<Longrightarrow> (\<And>x w'. Q x w' \<Longrightarrow> R x w') \<Longrightarrow> wp m R w"
  by (auto simp: wp_def split: prod.splits)

lemma wp_mono_pair:
  "wp m (\<lambda>(a, b) w'. P a b w') w \<Longrightarrow> (\<And>a b w'. P a b w' \<Longrightarrow> Q (a, b) w') \<Longrightarrow> wp m Q w"
  by (erule wp_mono) (auto split: prod.splits)

lemma wp_conj: "wp m Q w \<Longrightarrow> wp m R w \<Longrightarrow> wp m (\<lambda>x w'. Q x w' \<and> R x w') w"
  by (auto simp: wp_def split: prod.splits)

lemma wp_run: "wp m Q w \<Longrightarrow> run_state m w = (x, w') \<Longrightarrow> Q x w'"
  by (simp add: wp_def)

lemma run_Inr: "\<not> isl (fst (run_state m w)) \<Longrightarrow> \<exists>x w'. run_state m w = (Inr x, w')"
  by (cases "run_state m w"; cases "fst (run_state m w)") auto

lemma run_pair: "run_state m w = (fst (run_state m w), snd (run_state m w))"
  by simp

lemma wpI: "(\<And>x w'. run_state m w = (x, w') \<Longrightarrow> Q x w') \<Longrightarrow> wp m Q w"
  by (auto simp: wp_def split: prod.splits)

text \<open>
  \<open>keeps P m\<close>: \<open>m\<close> preserves the invariant \<open>P\<close>. The rules go through the structure of a program, so
  that a service keeps what each of the calls it makes keeps.
\<close>

definition keeps :: "('w \<Rightarrow> bool) \<Rightarrow> ('w, 'a) state \<Rightarrow> bool" where
  "keeps P m \<longleftrightarrow> (\<forall>w. P w \<longrightarrow> wp m (\<lambda>_. P) w)"

named_theorems keeps_rule \<open>structural rules of keeps\<close>

lemma keepsI: "(\<And>w. P w \<Longrightarrow> wp m (\<lambda>_. P) w) \<Longrightarrow> keeps P m"
  by (simp add: keeps_def)

lemma keepsD: "keeps P m \<Longrightarrow> P w \<Longrightarrow> wp m (\<lambda>_. P) w"
  by (simp add: keeps_def)

lemma keeps_run: "keeps P m \<Longrightarrow> P w \<Longrightarrow> P (snd (run_state m w))"
  by (cases "run_state m w") (auto simp: keeps_def wp_def)

lemma keeps_ret [keeps_rule]: "keeps P (ret x)"
  by (simp add: keeps_def wp_simp)

lemma keeps_get [keeps_rule]: "keeps P State_Monad.get"
  by (simp add: keeps_def wp_simp)

lemma keeps_bind [keeps_rule]:
  assumes "keeps P m" "\<And>x. keeps P (f x)"
  shows "keeps P (State_Monad.bind m f)"
  using assms unfolding keeps_def wp_simp by (blast intro: wp_mono)

lemma keeps_if [keeps_rule]: "keeps P m \<Longrightarrow> keeps P n \<Longrightarrow> keeps P (if b then m else n)"
  by simp

lemma keeps_case_sum [keeps_rule]:
  "(\<And>e. keeps P (f e)) \<Longrightarrow> (\<And>x. keeps P (g x))
     \<Longrightarrow> keeps P (case r of Inl e \<Rightarrow> f e | Inr x \<Rightarrow> g x)"
  by (cases r) simp_all

lemma keeps_case_option [keeps_rule]:
  "keeps P f \<Longrightarrow> (\<And>x. keeps P (g x)) \<Longrightarrow> keeps P (case r of None \<Rightarrow> f | Some x \<Rightarrow> g x)"
  by (cases r) simp_all

lemma keeps_case_prod [keeps_rule]:
  "(\<And>a b. keeps P (f a b)) \<Longrightarrow> keeps P (case p of (a, b) \<Rightarrow> f a b)"
  by (cases p) simp

text \<open>\<^verbatim>\<open>x, err := m(); if err != nil { return err }\<close>, and the wrapping of an error before it is returned.\<close>

definition and_then :: "('w, 'a result) state \<Rightarrow> ('a \<Rightarrow> ('w, 'b result) state) \<Rightarrow> ('w, 'b result) state" where
  "and_then m f = State_Monad.bind m (\<lambda>r. case r of Inl e \<Rightarrow> ret (Inl e) | Inr x \<Rightarrow> f x)"

definition wrap :: "string \<Rightarrow> ('w, 'a result) state \<Rightarrow> ('w, 'a result) state" where
  "wrap s m = State_Monad.bind m (\<lambda>r. ret (case r of Inl e \<Rightarrow> Inl (Wrap s e) | Inr x \<Rightarrow> Inr x))"

lemma wp_and_then [wp_simp]:
  "wp (and_then m f) Q = wp m (\<lambda>r. case r of Inl e \<Rightarrow> Q (Inl e) | Inr x \<Rightarrow> wp (f x) Q)"
  unfolding and_then_def wp_bind by (rule arg_cong [where f = "wp m"]) (auto simp: wp_ret split: sum.split)

lemma wp_wrap [wp_simp]: "wp (wrap s m) Q = wp m (\<lambda>r. Q (case r of Inl e \<Rightarrow> Inl (Wrap s e) | Inr x \<Rightarrow> Inr x))"
  by (simp add: wrap_def wp_bind wp_ret)

text \<open>The rule for a chain of calls: the errors of the first call end it, its results go to the rest.\<close>

lemma wp_chain:
  assumes "wp m (\<lambda>r w'. (case r of Inl e \<Rightarrow> Q (Inl e) w' | Inr x \<Rightarrow> P x w')) w" "\<And>x w'. P x w' \<Longrightarrow> wp (f x) Q w'"
  shows "wp (and_then m f) Q w"
  unfolding wp_and_then by (rule wp_mono [OF assms(1)]) (auto simp: assms(2) split: sum.splits)

lemma wp_then:
  assumes "wp m P s" "\<And>e s1. P (Inl e) s1 \<Longrightarrow> Q (Inl e) s1" "\<And>x s1. P (Inr x) s1 \<Longrightarrow> wp (f x) Q s1"
  shows "wp (and_then m f) Q s"
  unfolding wp_and_then by (rule wp_mono [OF assms(1)]) (use assms(2,3) in \<open>auto split: sum.split\<close>)

lemma wp_then_wrap:
  assumes "wp m P s" "\<And>e s1. P (Inl e) s1 \<Longrightarrow> Q (Inl (Wrap t e)) s1" "\<And>x s1. P (Inr x) s1 \<Longrightarrow> wp (f x) Q s1"
  shows "wp (and_then (wrap t m) f) Q s"
  unfolding wp_and_then wp_wrap by (rule wp_mono [OF assms(1)]) (use assms(2,3) in \<open>auto split: sum.split\<close>)

lemma keeps_and_then [keeps_rule]: "keeps P m \<Longrightarrow> (\<And>x. keeps P (f x)) \<Longrightarrow> keeps P (and_then m f)"
  unfolding and_then_def by (intro keeps_rule)

lemma keeps_wrap [keeps_rule]: "keeps P m \<Longrightarrow> keeps P (wrap s m)"
  unfolding wrap_def by (intro keeps_rule)

text \<open>A loop over a list whose body may change an accumulator.\<close>

fun for_each :: "'x list \<Rightarrow> ('x \<Rightarrow> 'a \<Rightarrow> ('w, 'a) state) \<Rightarrow> 'a \<Rightarrow> ('w, 'a) state" where
  "for_each [] body acc = ret acc"
| "for_each (x # xs) body acc = State_Monad.bind (body x acc) (for_each xs body)"

lemma keeps_for_each [keeps_rule]:
  "(\<And>x acc. keeps P (body x acc)) \<Longrightarrow> keeps P (for_each xs body acc)"
  by (induction xs arbitrary: acc) (auto intro: keeps_rule)

lemma wp_for_each:
  assumes step: "\<And>x acc w. x \<in> set xs \<Longrightarrow> J acc w \<Longrightarrow> wp (body x acc) J w"
    and init: "J acc w"
  shows "wp (for_each xs body acc) J w"
  using assms
proof (induction xs arbitrary: acc w)
  case Nil
  then show ?case by (simp add: wp_simp)
next
  case (Cons x xs)
  have "wp (body x acc) J w" using Cons.prems by simp
  then show ?case
    unfolding for_each.simps wp_simp
  proof (rule wp_mono)
    fix a w' assume "J a w'"
    then show "wp (for_each xs body a) J w'"
      using Cons.prems(1) by (intro Cons.IH) auto
  qed
qed

end
