(* ===== verification/Cache.thy ===== *)
theory Cache
  imports Prelude
begin

text \<open>
  \<^verbatim>\<open>internal/cache\<close>: the \<^verbatim>\<open>Cache\<close> and \<^verbatim>\<open>Counter\<close> interfaces and the in-process LRU cache
  \<^verbatim>\<open>MemoryCache\<close> (\<^verbatim>\<open>memory.go\<close>). The Go structure keeps every entry twice, in a map and in a linked
  list ordered by recency; the model keeps both. Times are nanoseconds; the clock is passed to the
  operations that read it. Cached data are byte strings.
\<close>

section \<open>The LRU cache\<close>

record mem_entry =
  e_key :: string
  e_data :: string
  e_expires :: "int option"  \<comment> \<open>\<open>None\<close> is the zero time\<close>

record mem_cache =
  c_items :: "(string \<times> mem_entry) list"
  c_lru :: "mem_entry list"  \<comment> \<open>front is the most recently used\<close>
  c_max :: int
  c_size :: int

definition NewMemoryCache :: "int \<Rightarrow> mem_cache" where
  "NewMemoryCache maxSize = \<lparr>c_items = [], c_lru = [], c_max = maxSize, c_size = 0\<rparr>"

definition removeEntry :: "mem_entry \<Rightarrow> mem_cache \<Rightarrow> mem_cache" where
  "removeEntry e c =
     c\<lparr>c_size := c_size c - int (length (e_data e)),
       c_lru := filter (\<lambda>x. e_key x \<noteq> e_key e) (c_lru c),
       c_items := AList.delete (e_key e) (c_items c)\<rparr>"

definition evictLRU :: "mem_cache \<Rightarrow> mem_cache" where
  "evictLRU c = (if c_lru c = [] then c else removeEntry (last (c_lru c)) c)"

text \<open>The eviction loop of \<^verbatim>\<open>Set\<close> and \<^verbatim>\<open>IncrBy\<close>: it runs until \<open>n\<close> more bytes fit or nothing is left.\<close>

function make_room :: "int \<Rightarrow> mem_cache \<Rightarrow> mem_cache" where
  "make_room n c =
     (if c_size c + n > c_max c \<and> c_lru c \<noteq> [] then make_room n (evictLRU c) else c)"
  by pat_completeness auto
termination
proof (relation "measure (\<lambda>(n, c). length (c_lru c))")
  fix n :: int and c :: mem_cache
  assume "c_size c + n > c_max c \<and> c_lru c \<noteq> []"
  then have ne: "c_lru c \<noteq> []" by simp
  have "length (filter (\<lambda>x. e_key x \<noteq> e_key (last (c_lru c))) (c_lru c)) < length (c_lru c)"
    by (rule length_filter_less [of "last (c_lru c)"]) (use ne in auto)
  with ne show "((n, evictLRU c), (n, c)) \<in> measure (\<lambda>(n, c). length (c_lru c))"
    by (simp add: evictLRU_def removeEntry_def)
qed auto

declare make_room.simps [simp del]

definition pushEntry :: "mem_entry \<Rightarrow> mem_cache \<Rightarrow> mem_cache" where
  "pushEntry e c =
     c\<lparr>c_lru := e # c_lru c, c_items := AList.update (e_key e) e (c_items c),
       c_size := c_size c + int (length (e_data e))\<rparr>"

definition expired_entry :: "int \<Rightarrow> mem_entry \<Rightarrow> bool" where
  "expired_entry now e = (case e_expires e of None \<Rightarrow> False | Some t \<Rightarrow> now > t)"

definition cache_Get :: "int \<Rightarrow> string \<Rightarrow> mem_cache \<Rightarrow> string option \<times> mem_cache" where
  "cache_Get now k c =
     (case map_of (c_items c) k of
        None \<Rightarrow> (None, c)
      | Some e \<Rightarrow>
          if expired_entry now e then (None, removeEntry e c)
          else (Some (e_data e),
                c\<lparr>c_lru := e # filter (\<lambda>x. e_key x \<noteq> e_key e) (c_lru c)\<rparr>))"

definition drop_key :: "string \<Rightarrow> mem_cache \<Rightarrow> mem_cache" where
  "drop_key k c = (case map_of (c_items c) k of None \<Rightarrow> c | Some e \<Rightarrow> removeEntry e c)"

definition cache_Set :: "int \<Rightarrow> string \<Rightarrow> string \<Rightarrow> int \<Rightarrow> mem_cache \<Rightarrow> mem_cache" where
  "cache_Set now k v ttl c =
     (let newSize = int (length v);
          c1 = make_room newSize (drop_key k c)
      in if newSize > c_max c1 then c1
         else pushEntry \<lparr>e_key = k, e_data = v,
                         e_expires = (if ttl > 0 then Some (now + ttl) else None)\<rparr> c1)"

definition cache_Delete :: "string \<Rightarrow> mem_cache \<Rightarrow> mem_cache" where
  "cache_Delete k c = drop_key k c"

definition cache_Close :: "mem_cache \<Rightarrow> mem_cache" where
  "cache_Close c = c\<lparr>c_items := [], c_lru := [], c_size := 0\<rparr>"

definition cache_Stats :: "mem_cache \<Rightarrow> int \<times> nat" where
  "cache_Stats c = (c_size c, length (c_items c))"

text \<open>
  \<^verbatim>\<open>IncrBy\<close>: the value is read with \<^verbatim>\<open>ParseInt\<close>, whose error is ignored; the sum wraps as Go's
  \<^verbatim>\<open>int64\<close> does. An entry is live here while \<open>now < expiry\<close>, in \<^verbatim>\<open>Get\<close> while \<open>now \<le> expiry\<close>. Unlike
  \<^verbatim>\<open>Set\<close>, a counter is stored even when it is larger than the whole cache.
\<close>

definition live_counter :: "int \<Rightarrow> mem_entry \<Rightarrow> bool" where
  "live_counter now e = (case e_expires e of None \<Rightarrow> True | Some t \<Rightarrow> now < t)"

definition cache_IncrBy :: "int \<Rightarrow> string \<Rightarrow> int \<Rightarrow> int \<Rightarrow> mem_cache \<Rightarrow> int \<times> mem_cache" where
  "cache_IncrBy now k n ttl c =
     (let (cur, expiresAt) =
            (case map_of (c_items c) k of
               None \<Rightarrow> (0, None)
             | Some e \<Rightarrow> if live_counter now e then (fst (ParseInt (e_data e)), e_expires e)
                         else (0, None));
          c1 = drop_key k c;
          expiresAt = (if cur = 0 \<and> expiresAt = None \<and> ttl > 0 then Some (now + ttl) else expiresAt);
          cur = i64 (cur + n);
          data = FormatInt cur;
          c2 = make_room (int (length data)) c1
      in (cur, pushEntry \<lparr>e_key = k, e_data = data, e_expires = expiresAt\<rparr> c2))"

section \<open>The invariant\<close>

text \<open>
  The map and the list hold the same entries under their own keys, no key twice, and the size field
  is the sum of the data held.
\<close>

definition cache_inv :: "mem_cache \<Rightarrow> bool" where
  "cache_inv c \<longleftrightarrow>
     distinct (map e_key (c_lru c)) \<and> distinct (map fst (c_items c)) \<and>
     (\<forall>k. map_of (c_items c) k = map_of (map (\<lambda>e. (e_key e, e)) (c_lru c)) k) \<and>
     c_size c = sum_list (map (\<lambda>e. int (length (e_data e))) (c_lru c))"

lemma map_of_lru_filter:
  "map_of (map (\<lambda>e. (e_key e, e)) (filter (\<lambda>x. e_key x \<noteq> k') es)) k
     = (if k = k' then None else map_of (map (\<lambda>e. (e_key e, e)) es) k)"
  by (induction es) auto

lemma map_of_lru_Some:
  "map_of (map (\<lambda>e. (e_key e, e)) es) k = Some e \<Longrightarrow> e \<in> set es \<and> e_key e = k"
  by (induction es) (auto split: if_splits)

lemma sum_lru_filter:
  assumes "distinct (map e_key es)" "e \<in> set es"
  shows "sum_list (map f (filter (\<lambda>x. e_key x \<noteq> e_key e) es)) = sum_list (map f es) - (f e :: int)"
  using assms
proof (induction es)
  case (Cons x xs)
  show ?case
  proof (cases "x = e")
    case True
    with Cons.prems(1) have "filter (\<lambda>y. e_key y \<noteq> e_key e) xs = xs"
      by (auto simp: filter_id_conv image_iff)
    with True show ?thesis by simp
  next
    case False
    with Cons.prems have "e \<in> set xs" "e_key x \<noteq> e_key e" by auto
    with Cons show ?thesis by simp
  qed
qed simp

lemma cache_inv_empty: "cache_inv (NewMemoryCache m)"
  by (simp add: cache_inv_def NewMemoryCache_def)

lemma cache_inv_close: "cache_inv (cache_Close c)"
  by (simp add: cache_inv_def cache_Close_def)

lemma distinct_map_filter': "distinct (map f xs) \<Longrightarrow> distinct (map f (filter P xs))"
  by (induction xs) auto

lemma cache_inv_removeEntry:
  assumes "cache_inv c" "e \<in> set (c_lru c)"
  shows "cache_inv (removeEntry e c)"
  using assms
  by (auto simp: cache_inv_def removeEntry_def map_of_lru_filter delete_conv sum_lru_filter
      distinct_map_filter' intro: distinct_delete)

lemma cache_inv_lookup:
  "cache_inv c \<Longrightarrow> map_of (c_items c) k = Some e \<Longrightarrow> e \<in> set (c_lru c) \<and> e_key e = k"
  by (auto simp: cache_inv_def dest: map_of_lru_Some)

lemma cache_inv_drop_key: "cache_inv c \<Longrightarrow> cache_inv (drop_key k c)"
  by (auto simp: drop_key_def split: option.splits dest: cache_inv_lookup intro: cache_inv_removeEntry)

lemma cache_inv_evictLRU: "cache_inv c \<Longrightarrow> cache_inv (evictLRU c)"
  by (simp add: evictLRU_def cache_inv_removeEntry)

lemma cache_inv_make_room: "cache_inv c \<Longrightarrow> cache_inv (make_room n c)"
proof (induction n c rule: make_room.induct)
  case (1 n c)
  then show ?case by (subst make_room.simps) (simp add: cache_inv_evictLRU)
qed

lemma cache_inv_pushEntry:
  assumes "cache_inv c" "map_of (c_items c) (e_key e) = None"
  shows "cache_inv (pushEntry e c)"
proof -
  have "e_key e \<notin> e_key ` set (c_lru c)"
    using assms by (auto simp: cache_inv_def map_of_eq_None_iff image_iff)
  with assms show ?thesis
    by (auto simp: cache_inv_def pushEntry_def update_conv distinct_update)
qed

lemma map_of_drop_key:
  assumes "cache_inv c"
  shows "map_of (c_items (drop_key k c)) k' = (if k' = k then None else map_of (c_items c) k')"
  using cache_inv_lookup [OF assms]
  by (auto simp: drop_key_def removeEntry_def delete_conv split: option.splits)

lemma c_max_ops [simp]:
  "c_max (removeEntry e c) = c_max c" "c_max (evictLRU c) = c_max c"
  "c_max (drop_key k c) = c_max c" "c_max (pushEntry e c) = c_max c"
  by (simp_all add: removeEntry_def evictLRU_def drop_key_def pushEntry_def split: option.split)

lemma c_max_make_room [simp]: "c_max (make_room n c) = c_max c"
proof (induction n c rule: make_room.induct)
  case (1 n c)
  then show ?case by (subst make_room.simps) simp
qed

lemma items_evictLRU:
  assumes "cache_inv c"
  shows "map_of (c_items (evictLRU c)) k = None \<or> map_of (c_items (evictLRU c)) k = map_of (c_items c) k"
  by (auto simp: evictLRU_def removeEntry_def delete_conv)

lemma items_make_room:
  assumes "cache_inv c"
  shows "map_of (c_items (make_room n c)) k = None
         \<or> map_of (c_items (make_room n c)) k = map_of (c_items c) k"
  using assms
proof (induction n c rule: make_room.induct)
  case (1 n c)
  show ?case
  proof (cases "c_size c + n > c_max c \<and> c_lru c \<noteq> []")
    case True
    with 1 items_evictLRU [of c k] cache_inv_evictLRU [of c] show ?thesis
      by (subst (1 2) make_room.simps) auto
  next
    case False
    then show ?thesis by (subst (1 2) make_room.simps) auto
  qed
qed

lemma make_room_None:
  "cache_inv c \<Longrightarrow> map_of (c_items c) k = None \<Longrightarrow> map_of (c_items (make_room n c)) k = None"
  using items_make_room [of c n k] by simp

lemmas make_room_drop = make_room_None [OF cache_inv_drop_key]

lemma cache_inv_Get: "cache_inv c \<Longrightarrow> cache_inv (snd (cache_Get now k c))"
proof -
  assume c: "cache_inv c"
  have push: "cache_inv (c\<lparr>c_lru := e # filter (\<lambda>x. e_key x \<noteq> e_key e) (c_lru c)\<rparr>)"
    if "map_of (c_items c) k = Some e" for e
    using c cache_inv_lookup [OF c that] that
    by (auto simp: cache_inv_def map_of_lru_filter sum_lru_filter distinct_map_filter')
  show ?thesis
    using c push
    by (auto simp: cache_Get_def split: option.splits dest: cache_inv_lookup intro: cache_inv_removeEntry)
qed

lemma cache_inv_Set: "cache_inv c \<Longrightarrow> cache_inv (cache_Set now k v ttl c)"
  by (auto simp: cache_Set_def Let_def map_of_drop_key
      intro!: cache_inv_pushEntry cache_inv_make_room cache_inv_drop_key make_room_drop)

lemma cache_inv_IncrBy: "cache_inv c \<Longrightarrow> cache_inv (snd (cache_IncrBy now k n ttl c))"
  by (auto simp: cache_IncrBy_def Let_def map_of_drop_key split: prod.splits
      intro!: cache_inv_pushEntry cache_inv_make_room cache_inv_drop_key make_room_drop)

section \<open>What eviction does\<close>

lemma filter_key_butlast:
  assumes "distinct (map e_key es)" "es \<noteq> []"
  shows "filter (\<lambda>x. e_key x \<noteq> e_key (last es)) es = butlast es"
proof -
  have es: "es = butlast es @ [last es]" using assms(2) by simp
  have "distinct (map e_key (butlast es @ [last es]))" using assms by simp
  then have "filter (\<lambda>x. e_key x \<noteq> e_key (last es)) (butlast es) = butlast es"
    by (auto simp: filter_id_conv image_iff)
  then show ?thesis by (subst es) simp
qed

lemma lru_evict: "cache_inv c \<Longrightarrow> c_lru (evictLRU c) = butlast (c_lru c)"
  by (simp add: evictLRU_def removeEntry_def filter_key_butlast cache_inv_def)

lemma make_room_suffix:
  assumes "cache_inv c"
  shows "\<exists>gone. c_lru c = c_lru (make_room n c) @ gone \<and>
           (gone \<noteq> [] \<longrightarrow> c_size (make_room n c) + int (length (e_data (hd gone))) + n > c_max c)"
  using assms
proof (induction n c rule: make_room.induct)
  case (1 n c)
  show ?case
  proof (cases "c_size c + n > c_max c \<and> c_lru c \<noteq> []")
    case False
    then show ?thesis by (subst (1 2) make_room.simps) auto
  next
    case True
    have inv: "cache_inv (evictLRU c)" using 1 by (simp add: cache_inv_evictLRU)
    obtain g where g: "c_lru (evictLRU c) = c_lru (make_room n (evictLRU c)) @ g"
      "g \<noteq> [] \<longrightarrow> c_size (make_room n (evictLRU c)) + int (length (e_data (hd g))) + n > c_max c"
      using 1(1) [OF True inv] by auto
    have lru: "c_lru c = c_lru (evictLRU c) @ [last (c_lru c)]"
      using True by (simp add: lru_evict 1(2))
    have size: "c_size (evictLRU c) + int (length (e_data (last (c_lru c)))) = c_size c"
      using True by (simp add: evictLRU_def removeEntry_def)
    have same: "c_size (make_room n (evictLRU c)) = c_size (evictLRU c)" if "g = []"
      using inv cache_inv_make_room [OF inv, of n] g(1) that by (simp add: cache_inv_def)
    have "c_lru c = c_lru (make_room n (evictLRU c)) @ (g @ [last (c_lru c)])"
      using lru g(1) by simp
    moreover have "c_size (make_room n (evictLRU c))
        + int (length (e_data (hd (g @ [last (c_lru c)])))) + n > c_max c"
      using g(2) same size True by (cases "g = []") auto
    ultimately show ?thesis
      using True by (subst (1 2) make_room.simps) auto
  qed
qed

lemma make_room_fits:
  assumes "cache_inv c"
  shows "c_size (make_room n c) + n \<le> c_max c \<or> c_lru (make_room n c) = []"
proof (induction n c rule: make_room.induct)
  case (1 n c)
  then show ?case by (subst (1 2) make_room.simps) (auto simp: not_less)
qed

lemma size_empty: "cache_inv c \<Longrightarrow> c_lru c = [] \<Longrightarrow> c_size c = 0"
  by (simp add: cache_inv_def)

section \<open>The cache's contract\<close>

text \<open>Every operation of the in-process cache (creation, \<open>Get\<close>, \<open>Set\<close>, \<open>Delete\<close>, \<open>Close\<close>, \<open>IncrBy\<close>)
  keeps its representation invariant: the key map and the recency list hold the same entries, no key
  is held twice, and the size counter is exactly the number of bytes held.\<close>

theorem cache_operations_keep_invariant:
  assumes "cache_inv c"
  shows "cache_inv (NewMemoryCache m) \<and> cache_inv (snd (cache_Get now k c)) \<and>
    cache_inv (cache_Set now k v ttl c) \<and> cache_inv (cache_Delete k c) \<and>
    cache_inv (cache_Close c) \<and> cache_inv (snd (cache_IncrBy now k n ttl c))"
  using assms
  by (simp_all add: cache_inv_empty cache_inv_Get cache_inv_Set cache_inv_close cache_inv_IncrBy
      cache_Delete_def cache_inv_drop_key)

theorem cache_operations_keep_invariant_witness:
  "cache_inv (cache_Set 5 ''k'' ''abc'' 10 (NewMemoryCache 100))"
  using cache_operations_keep_invariant [OF cache_inv_empty [of 100]] by blast

lemma lookup_Set:
  assumes "cache_inv c" "int (length v) \<le> c_max c"
  shows "map_of (c_items (cache_Set now k v ttl c)) k
           = Some \<lparr>e_key = k, e_data = v, e_expires = (if ttl > 0 then Some (now + ttl) else None)\<rparr>"
  using assms by (simp add: cache_Set_def Let_def pushEntry_def update_conv)

text \<open>A value that fits in the cache is returned by \<open>Get\<close> from the moment it was stored until its
  time to live has passed (for ever when no time to live was given), and not after it.\<close>

theorem cache_Get_after_Set:
  assumes "cache_inv c" "int (length v) \<le> c_max c"
  shows "fst (cache_Get now' k (cache_Set now k v ttl c))
           = (if ttl > 0 \<and> now' > now + ttl then None else Some v)"
  using lookup_Set [OF assms] by (simp add: cache_Get_def expired_entry_def)

theorem cache_Get_after_Set_witness:
  "fst (cache_Get 14 ''k'' (cache_Set 5 ''k'' ''abc'' 10 (NewMemoryCache 100))) = Some ''abc''"
  using cache_Get_after_Set [OF cache_inv_empty, of "''abc''" 100 14 "''k''" 5 10]
  by (simp add: NewMemoryCache_def)

text \<open>\<open>Set\<close> never leaves more bytes than the configured maximum, and makes room in least recently used
  order only: of the other entries, the most recently used ones stay, in their order, and if any was
  evicted then keeping the next one as well would have passed the maximum.\<close>

theorem cache_Set_evicts_least_recent:
  assumes inv: "cache_inv c" and fits: "int (length v) \<le> c_max c"
  shows "c_size (cache_Set now k v ttl c) \<le> c_max c \<and>
    (\<exists>kept gone. filter (\<lambda>e. e_key e \<noteq> k) (c_lru c) = kept @ gone \<and>
       map e_data (c_lru (cache_Set now k v ttl c)) = v # map e_data kept \<and>
       tl (c_lru (cache_Set now k v ttl c)) = kept \<and>
       (gone \<noteq> [] \<longrightarrow>
          c_size (cache_Set now k v ttl c) + int (length (e_data (hd gone))) > c_max c))"
proof -
  let ?d = "drop_key k c" and ?n = "int (length v)"
    and ?others = "filter (\<lambda>e. e_key e \<noteq> k) (c_lru c)" and ?c' = "cache_Set now k v ttl c"
  have d: "cache_inv ?d" using inv by (rule cache_inv_drop_key)
  have lru: "c_lru ?d = ?others"
  proof (cases "map_of (c_items c) k")
    case None
    then have "map_of (map (\<lambda>e. (e_key e, e)) (c_lru c)) k = None"
      using inv by (simp add: cache_inv_def)
    then have "\<forall>e \<in> set (c_lru c). e_key e \<noteq> k"
      by (auto simp: map_of_eq_None_iff image_iff)
    with None show ?thesis by (simp add: drop_key_def filter_id_conv)
  next
    case (Some e)
    with cache_inv_lookup [OF inv this] show ?thesis
      by (simp add: drop_key_def removeEntry_def)
  qed
  obtain gone where g: "?others = c_lru (make_room ?n ?d) @ gone"
    "gone \<noteq> [] \<longrightarrow> c_size (make_room ?n ?d) + int (length (e_data (hd gone))) + ?n > c_max c"
    using make_room_suffix [OF d, of ?n] lru by auto
  have sz: "c_size (make_room ?n ?d) + ?n \<le> c_max c"
    using make_room_fits [OF d, of ?n] size_empty [OF cache_inv_make_room [OF d]] fits by auto
  have c': "c_lru ?c' = \<lparr>e_key = k, e_data = v, e_expires = (if ttl > 0 then Some (now + ttl) else None)\<rparr>
      # c_lru (make_room ?n ?d)" "c_size ?c' = c_size (make_room ?n ?d) + ?n"
    using fits by (simp_all add: cache_Set_def Let_def pushEntry_def)
  show ?thesis
    using g sz c' by (intro conjI exI [of _ "c_lru (make_room ?n ?d)"] exI [of _ gone]) auto
qed

theorem cache_Set_evicts_least_recent_witness:
  "c_size (cache_Set 7 ''c'' ''xyz'' 0 (cache_Set 6 ''b'' ''yy'' 0 (cache_Set 5 ''a'' ''xx'' 0
      (NewMemoryCache 5)))) \<le> 5"
proof -
  let ?c = "cache_Set 6 ''b'' ''yy'' 0 (cache_Set 5 ''a'' ''xx'' 0 (NewMemoryCache 5))"
  have i: "cache_inv ?c" by (intro cache_inv_Set cache_inv_empty)
  have m: "c_max (cache_Set now k v ttl c) = c_max c" for now k v ttl c
    by (simp add: cache_Set_def Let_def)
  have "int (length ''xyz'') \<le> c_max ?c" by (simp add: m NewMemoryCache_def)
  from cache_Set_evicts_least_recent [OF i this, of 7 "''c''" 0] show ?thesis
    by (simp add: m NewMemoryCache_def)
qed

section \<open>The Counter interface\<close>

text \<open>
  \<^verbatim>\<open>cache.Counter\<close>: \<open>val now k c\<close> is the live value of a counter (0 when there is none), and \<open>lasts D k c\<close>
  says that the counter at \<open>k\<close>, if there is one, is not dropped by its time to live before \<open>D\<close>.
  The laws are the ones the interface's comment promises: an increment adds to the live value (as
  \<^verbatim>\<open>int64\<close>), a counter is created with the given time to live, and later increments do not extend it.
\<close>

locale atomic_counter =
  fixes incr :: "int \<Rightarrow> string \<Rightarrow> int \<Rightarrow> int \<Rightarrow> 'c \<Rightarrow> int result \<times> 'c"
    and val :: "int \<Rightarrow> string \<Rightarrow> 'c \<Rightarrow> int"
    and lasts :: "int \<Rightarrow> string \<Rightarrow> 'c \<Rightarrow> bool"
    and ok :: "'c \<Rightarrow> bool"
  assumes incr_ok: "ok c \<Longrightarrow> ok (snd (incr now k n ttl c))"
    and incr_result: "ok c \<Longrightarrow> fst (incr now k n ttl c) = Inr (i64 (val now k c + n))"
    and incr_val: "ok c \<Longrightarrow> 0 < ttl \<Longrightarrow> val now k (snd (incr now k n ttl c)) = i64 (val now k c + n)"
    and incr_lasts: "ok c \<Longrightarrow> lasts D k c \<Longrightarrow> D \<le> now + ttl \<Longrightarrow> 0 < ttl
                      \<Longrightarrow> lasts D k (snd (incr now k n ttl c))"
    and val_stable: "ok c \<Longrightarrow> lasts D k c \<Longrightarrow> now < D \<Longrightarrow> now' < D \<Longrightarrow> val now k c = val now' k c"
begin

lemma incr_steps:
  assumes "ok c" "lasts D k c" "now < D" "now' < D" "D \<le> now + ttl" "0 < ttl"
    and "in_i64 (val now k c + n)"
  shows "val now' k (snd (incr now k n ttl c)) = val now k c + n"
    "ok (snd (incr now k n ttl c))" "lasts D k (snd (incr now k n ttl c))"
    "fst (incr now k n ttl c) = Inr (val now k c + n)"
proof -
  show o: "ok (snd (incr now k n ttl c))" and l: "lasts D k (snd (incr now k n ttl c))"
    using assms by (auto intro: incr_ok incr_lasts)
  show "val now' k (snd (incr now k n ttl c)) = val now k c + n"
    using val_stable [OF o l, of now now'] incr_val [of c ttl now k n] assms by simp
  show "fst (incr now k n ttl c) = Inr (val now k c + n)"
    using assms by (simp add: incr_result)
qed

end

text \<open>The in-process cache as a \<^verbatim>\<open>Counter\<close>: it never fails.\<close>

definition mem_incr :: "int \<Rightarrow> string \<Rightarrow> int \<Rightarrow> int \<Rightarrow> mem_cache \<Rightarrow> int result \<times> mem_cache" where
  "mem_incr now k n ttl c = (let (v, c') = cache_IncrBy now k n ttl c in (Inr v, c'))"

definition counter_val :: "int \<Rightarrow> string \<Rightarrow> mem_cache \<Rightarrow> int" where
  "counter_val now k c =
     (case map_of (c_items c) k of
        None \<Rightarrow> 0
      | Some e \<Rightarrow> if live_counter now e then fst (ParseInt (e_data e)) else 0)"

definition counter_lasts :: "int \<Rightarrow> string \<Rightarrow> mem_cache \<Rightarrow> bool" where
  "counter_lasts D k c =
     (case map_of (c_items c) k of
        None \<Rightarrow> True
      | Some e \<Rightarrow> (case e_expires e of None \<Rightarrow> True | Some t \<Rightarrow> D \<le> t))"

lemma lookup_IncrBy:
  assumes "cache_inv c"
  shows "\<exists>ex. map_of (c_items (snd (cache_IncrBy now k n ttl c))) k
      = Some \<lparr>e_key = k, e_data = FormatInt (i64 (counter_val now k c + n)), e_expires = ex\<rparr>
    \<and> (0 < ttl \<longrightarrow> (case ex of None \<Rightarrow> True | Some t \<Rightarrow> now < t))
    \<and> (counter_lasts D k c \<longrightarrow> D \<le> now + ttl \<longrightarrow> (case ex of None \<Rightarrow> True | Some t \<Rightarrow> D \<le> t))"
  using assms
  by (auto simp: cache_IncrBy_def counter_val_def counter_lasts_def live_counter_def pushEntry_def
      update_conv Let_def split: option.split if_splits)

lemma mem_incr_eqs:
  "fst (mem_incr now k n ttl c) = Inr (i64 (counter_val now k c + n))"
  "snd (mem_incr now k n ttl c) = snd (cache_IncrBy now k n ttl c)"
  by (auto simp: mem_incr_def cache_IncrBy_def counter_val_def Let_def split: option.split)

interpretation mem: atomic_counter mem_incr counter_val counter_lasts cache_inv
proof unfold_locales
  fix c :: mem_cache and now k n ttl
  assume c: "cache_inv c"
  show "cache_inv (snd (mem_incr now k n ttl c))"
    using c by (simp add: mem_incr_eqs cache_inv_IncrBy)
  show "fst (mem_incr now k n ttl c) = Inr (i64 (counter_val now k c + n))"
    by (simp add: mem_incr_eqs)
next
  fix c :: mem_cache and now k n ttl
  assume c: "cache_inv c" and ttl: "(0::int) < ttl"
  obtain ex where "map_of (c_items (snd (cache_IncrBy now k n ttl c))) k
      = Some \<lparr>e_key = k, e_data = FormatInt (i64 (counter_val now k c + n)), e_expires = ex\<rparr>"
    "case ex of None \<Rightarrow> True | Some t \<Rightarrow> now < t"
    using lookup_IncrBy [OF c, of now k n ttl] ttl by blast
  then show "counter_val now k (snd (mem_incr now k n ttl c)) = i64 (counter_val now k c + n)"
    by (auto simp: mem_incr_eqs counter_val_def [of _ _ "snd _"] live_counter_def
        ParseInt_FormatInt i64_range split: option.splits)
next
  fix c :: mem_cache and D k now ttl n
  assume "cache_inv c" "counter_lasts D k c" "D \<le> now + ttl" "(0::int) < ttl"
  with lookup_IncrBy [of c now k n ttl D]
  show "counter_lasts D k (snd (mem_incr now k n ttl c))"
    by (auto simp: mem_incr_eqs counter_lasts_def [of _ _ "snd _"])
next
  fix c :: mem_cache and D k now now'
  assume "counter_lasts D k c" "now < D" "now' < D"
  then show "counter_val now k c = counter_val now' k c"
    by (auto simp: counter_val_def counter_lasts_def live_counter_def split: option.splits)
qed

end
