(* ===== verification/RateLimit.thy ===== *)
theory RateLimit
  imports Cache
begin

text \<open>
  \<^verbatim>\<open>internal/ratelimit/ratelimit.go\<close>: the request limiter and the bandwidth limiter, both counting per
  fixed window. With a cache that is a \<^verbatim>\<open>Counter\<close> the count is one atomic increment; with no cache the
  limiter counts in a local map, which a background loop cleans up. The path for a cache that is not
  a \<^verbatim>\<open>Counter\<close> is not modelled: both caches of the repository are counters. A limiter's methods
  hold its mutex, so each is one step. Times and durations are nanoseconds.
\<close>

section \<open>Windows\<close>

definition second :: int where "second = 10 ^ 9"
definition minute :: int where "minute = 60 * second"
definition hour :: int where "hour = 60 * minute"

text \<open>\<^verbatim>\<open>time.Time.Truncate\<close> rounds down to a multiple of the duration since the zero time (year 1).\<close>

definition Truncate :: "int \<Rightarrow> int \<Rightarrow> int" where
  "Truncate t d = (if d \<le> 0 then t else t - (t + 62135596800 * second) mod d)"

definition UnixMilli :: "int \<Rightarrow> int" where
  "UnixMilli t = t div 10 ^ 6"

definition Unix :: "int \<Rightarrow> int" where
  "Unix t = t div 10 ^ 9"

lemma Truncate_bounds: "0 < d \<Longrightarrow> Truncate t d \<le> t \<and> t < Truncate t d + d"
  using pos_mod_bound [of d "t + 62135596800 * second"] pos_mod_sign [of d "t + 62135596800 * second"]
  by (simp add: Truncate_def del: pos_mod_bound pos_mod_sign)

lemma Truncate_same:
  assumes "0 < d" "Truncate t d \<le> t'" "t' < Truncate t d + d"
  shows "Truncate t' d = Truncate t d"
proof -
  let ?z = "62135596800 * second"
  have t: "Truncate t d + ?z = d * ((t + ?z) div d)"
    using assms(1) by (simp add: Truncate_def minus_mod_eq_mult_div algebra_simps)
  have "t' + ?z = d * ((t + ?z) div d) + (t' - Truncate t d)"
    using t by simp
  moreover have "0 \<le> t' - Truncate t d" "t' - Truncate t d < d" using assms by auto
  ultimately have "(t' + ?z) mod d = t' - Truncate t d"
    by (metis mod_mult_self4 mod_pos_pos_trivial add.commute mult.commute)
  then show ?thesis using assms(1) by (simp add: Truncate_def)
qed

section \<open>The limiter's state\<close>

record local_bucket =
  lb_count :: int
  lb_windowAt :: int

text \<open>The fail-open recorder: the metric, the window of the last warning per window length, the warnings.\<close>

record 'c limiter =
  lm_cache :: "'c option"
  lm_local :: "string \<Rightarrow> local_bucket option"
  lm_failed :: nat
  lm_logged :: "int \<Rightarrow> int option"
  lm_warned :: nat

definition NewRateLimiter :: "'c option \<Rightarrow> 'c limiter" where
  "NewRateLimiter c = \<lparr>lm_cache = c, lm_local = (\<lambda>_. None), lm_failed = 0,
                       lm_logged = (\<lambda>_. None), lm_warned = 0\<rparr>"

definition failOpen_record :: "int \<Rightarrow> int \<Rightarrow> 'c limiter \<Rightarrow> 'c limiter" where
  "failOpen_record window resetAt l =
     (let windowStart = resetAt - window;
          first = (case lm_logged l window of None \<Rightarrow> True | Some t \<Rightarrow> windowStart > t)
      in l\<lparr>lm_failed := Suc (lm_failed l),
           lm_logged := (if first then (lm_logged l)(window := Some windowStart) else lm_logged l),
           lm_warned := (if first then Suc (lm_warned l) else lm_warned l)\<rparr>)"

definition cleanup :: "int \<Rightarrow> 'c limiter \<Rightarrow> 'c limiter" where
  "cleanup now l =
     (let cutoff = now - 10 * minute
      in l\<lparr>lm_local := (\<lambda>k. case lm_local l k of
               None \<Rightarrow> None
             | Some b \<Rightarrow> if lb_windowAt b < cutoff then None else Some b)\<rparr>)"

section \<open>Counting requests\<close>

text \<open>A decision: whether it is allowed, what remains of the limit, when the window ends.\<close>

type_synonym decision = "bool \<times> int \<times> int"

definition allowWithCounter ::
  "(string \<Rightarrow> int \<Rightarrow> int \<Rightarrow> 'c \<Rightarrow> int result \<times> 'c) \<Rightarrow> string \<Rightarrow> int \<Rightarrow> int \<Rightarrow> int \<Rightarrow> int
     \<Rightarrow> 'c \<Rightarrow> 'c limiter \<Rightarrow> decision \<times> 'c limiter" where
  "allowWithCounter incr cacheKey n limit window resetAt c l =
     (case incr cacheKey n (window + second) c of
        (Inl e, c') \<Rightarrow> ((True, limit, resetAt), failOpen_record window resetAt (l\<lparr>lm_cache := Some c'\<rparr>))
      | (Inr count, c') \<Rightarrow> ((count \<le> limit, max 0 (i64 (limit - count)), resetAt), l\<lparr>lm_cache := Some c'\<rparr>))"

definition current_bucket :: "string \<Rightarrow> int \<Rightarrow> 'c limiter \<Rightarrow> local_bucket" where
  "current_bucket key windowStart l =
     (case lm_local l key of
        None \<Rightarrow> \<lparr>lb_count = 0, lb_windowAt = windowStart\<rparr>
      | Some b \<Rightarrow> if lb_windowAt b < windowStart then \<lparr>lb_count = 0, lb_windowAt = windowStart\<rparr> else b)"

definition allowLocal ::
  "string \<Rightarrow> int \<Rightarrow> int \<Rightarrow> int \<Rightarrow> int \<Rightarrow> 'c limiter \<Rightarrow> decision \<times> 'c limiter" where
  "allowLocal key n limit windowStart resetAt l =
     (let b = current_bucket key windowStart l;
          newCount = i64 (lb_count b + n)
      in if newCount > limit
         then ((False, max 0 (i64 (limit - lb_count b)), resetAt), l\<lparr>lm_local := (lm_local l)(key := Some b)\<rparr>)
         else ((True, i64 (limit - newCount), resetAt),
               l\<lparr>lm_local := (lm_local l)(key := Some (b\<lparr>lb_count := newCount\<rparr>))\<rparr>))"

definition rl_key :: "string \<Rightarrow> string \<Rightarrow> int \<Rightarrow> string" where
  "rl_key prefix key windowStart = prefix @ key @ '':'' @ FormatInt (UnixMilli windowStart)"

definition AllowN ::
  "(int \<Rightarrow> string \<Rightarrow> int \<Rightarrow> int \<Rightarrow> 'c \<Rightarrow> int result \<times> 'c)
     \<Rightarrow> int \<Rightarrow> string \<Rightarrow> int \<Rightarrow> int \<Rightarrow> int \<Rightarrow> 'c limiter \<Rightarrow> decision \<times> 'c limiter" where
  "AllowN incr now key n limit window l =
     (let windowStart = Truncate now window;
          resetAt = windowStart + window;
          cacheKey = rl_key ''rl:'' key windowStart
      in case lm_cache l of
           Some c \<Rightarrow> allowWithCounter (incr now) cacheKey n limit window resetAt c l
         | None \<Rightarrow> allowLocal key n limit windowStart resetAt l)"

definition Allow ::
  "(int \<Rightarrow> string \<Rightarrow> int \<Rightarrow> int \<Rightarrow> 'c \<Rightarrow> int result \<times> 'c)
     \<Rightarrow> int \<Rightarrow> string \<Rightarrow> int \<Rightarrow> int \<Rightarrow> 'c limiter \<Rightarrow> decision \<times> 'c limiter" where
  "Allow incr now key limit window l = AllowN incr now key 1 limit window l"

section \<open>Counting bytes\<close>

text \<open>
  The bandwidth limiter has the same state; its counter path hands refused bytes back with a second
  increment, whose error is ignored (the total is then Go's zero value).
\<close>

definition bw_allowWithCounter ::
  "(string \<Rightarrow> int \<Rightarrow> int \<Rightarrow> 'c \<Rightarrow> int result \<times> 'c) \<Rightarrow> string \<Rightarrow> int \<Rightarrow> int \<Rightarrow> int \<Rightarrow> int
     \<Rightarrow> 'c \<Rightarrow> 'c limiter \<Rightarrow> decision \<times> 'c limiter" where
  "bw_allowWithCounter incr cacheKey bs limitBytes window resetAt c l =
     (case incr cacheKey bs (window + second) c of
        (Inl e, c') \<Rightarrow> ((True, limitBytes, resetAt), failOpen_record window resetAt (l\<lparr>lm_cache := Some c'\<rparr>))
      | (Inr tot, c') \<Rightarrow>
          if tot > limitBytes
          then (case incr cacheKey (i64 (- bs)) (window + second) c' of
                  (Inl e, c'') \<Rightarrow> ((False, max 0 limitBytes, resetAt), l\<lparr>lm_cache := Some c''\<rparr>)
                | (Inr tot', c'') \<Rightarrow>
                    ((False, max 0 (i64 (limitBytes - tot')), resetAt), l\<lparr>lm_cache := Some c''\<rparr>))
          else ((True, i64 (limitBytes - tot), resetAt), l\<lparr>lm_cache := Some c'\<rparr>))"

definition bw_allowLocal ::
  "string \<Rightarrow> int \<Rightarrow> int \<Rightarrow> int \<Rightarrow> int \<Rightarrow> 'c limiter \<Rightarrow> decision \<times> 'c limiter" where
  "bw_allowLocal key bs limitBytes windowStart resetAt l =
     (let b = current_bucket key windowStart l;
          newBytes = i64 (lb_count b + bs)
      in if newBytes > limitBytes
         then ((False, max 0 (i64 (limitBytes - lb_count b)), resetAt),
               l\<lparr>lm_local := (lm_local l)(key := Some b)\<rparr>)
         else ((True, i64 (limitBytes - newBytes), resetAt),
               l\<lparr>lm_local := (lm_local l)(key := Some (b\<lparr>lb_count := newBytes\<rparr>))\<rparr>))"

definition AllowBytes ::
  "(int \<Rightarrow> string \<Rightarrow> int \<Rightarrow> int \<Rightarrow> 'c \<Rightarrow> int result \<times> 'c)
     \<Rightarrow> int \<Rightarrow> string \<Rightarrow> int \<Rightarrow> int \<Rightarrow> int \<Rightarrow> 'c limiter \<Rightarrow> decision \<times> 'c limiter" where
  "AllowBytes incr now key bs limitBytes window l =
     (let windowStart = Truncate now window;
          resetAt = windowStart + window;
          cacheKey = rl_key ''bw:'' key windowStart
      in case lm_cache l of
           Some c \<Rightarrow> bw_allowWithCounter (incr now) cacheKey bs limitBytes window resetAt c l
         | None \<Rightarrow> bw_allowLocal key bs limitBytes windowStart resetAt l)"

section \<open>A stream of requests in one window\<close>

text \<open>The decisions for a list of requests of one key, made at the given times.\<close>

fun allow_all ::
  "(int \<Rightarrow> string \<Rightarrow> int \<Rightarrow> int \<Rightarrow> 'c \<Rightarrow> int result \<times> 'c)
     \<Rightarrow> string \<Rightarrow> int \<Rightarrow> int \<Rightarrow> int list \<Rightarrow> 'c limiter \<Rightarrow> bool list \<times> 'c limiter" where
  "allow_all incr key limit window [] l = ([], l)"
| "allow_all incr key limit window (t # ts) l =
     (let ((a, _), l1) = Allow incr t key limit window l;
          (as, l2) = allow_all incr key limit window ts l1
      in (a # as, l2))"

fun bw_all ::
  "(int \<Rightarrow> string \<Rightarrow> int \<Rightarrow> int \<Rightarrow> 'c \<Rightarrow> int result \<times> 'c)
     \<Rightarrow> string \<Rightarrow> int \<Rightarrow> int \<Rightarrow> (int \<times> int) list \<Rightarrow> 'c limiter \<Rightarrow> bool list \<times> 'c limiter" where
  "bw_all incr key limit window [] l = ([], l)"
| "bw_all incr key limit window ((t, b) # rs) l =
     (let ((a, _), l1) = AllowBytes incr t key b limit window l;
          (as, l2) = bw_all incr key limit window rs l1
      in (a # as, l2))"

text \<open>The specification of a byte budget: a transfer passes when it still fits, and only then uses it up.\<close>

fun greedy :: "int \<Rightarrow> int \<Rightarrow> int list \<Rightarrow> bool list" where
  "greedy limit used [] = []"
| "greedy limit used (b # bs) =
     (if used + b \<le> limit then True # greedy limit (used + b) bs else False # greedy limit used bs)"

lemma greedy_within_limit:
  "used \<le> limit \<Longrightarrow> used + sum_list (map snd (filter fst (zip (greedy limit used bs) bs))) \<le> limit"
proof (induction bs arbitrary: used)
  case (Cons b bs)
  show ?case
  proof (cases "used + b \<le> limit")
    case True
    from Cons.IH [OF this] True show ?thesis by simp
  next
    case False
    with Cons show ?thesis by simp
  qed
qed simp

lemma limit_list_Suc:
  "map (\<lambda>i. v + int i < limit) [0..<Suc n] = (v < limit) # map (\<lambda>i. v + 1 + int i < limit) [0..<n]"
  by (simp add: map_upt_Suc algebra_simps del: upt_Suc)

lemma limit_list_over:
  "limit \<le> v \<Longrightarrow> map (\<lambda>i. v + int i < limit) [0..<n] = map (\<lambda>i. v + 1 + int i < limit) [0..<n]"
  by auto

context atomic_counter
begin

lemma AllowN_counter:
  assumes "lm_cache l = Some c" "ok c" "Truncate t window = W" "0 < window"
    and "lasts (W + window) (rl_key ''rl:'' key W) c" "in_i64 (val t (rl_key ''rl:'' key W) c + n)"
  shows "AllowN incr t key n limit window l
    = ((val t (rl_key ''rl:'' key W) c + n \<le> limit,
        max 0 (i64 (limit - (val t (rl_key ''rl:'' key W) c + n))), W + window),
       l\<lparr>lm_cache := Some (snd (incr t (rl_key ''rl:'' key W) n (window + second) c))\<rparr>)"
  using incr_result [OF assms(2), of t "rl_key ''rl:'' key W" n "window + second"] assms
  by (cases "incr t (rl_key ''rl:'' key W) n (window + second) c")
    (auto simp: AllowN_def allowWithCounter_def Let_def)

lemma allow_all_counter:
  assumes "lm_cache l = Some c" "ok c" "0 < window"
    and "lasts (W + window) (rl_key ''rl:'' key W) c"
    and "\<forall>t \<in> set ts. Truncate t window = W"
    and "\<forall>t \<in> set ts. val t (rl_key ''rl:'' key W) c = v"
    and "0 \<le> v" "v + int (length ts) < 2 ^ 63"
  shows "fst (allow_all incr key limit window ts l)
           = map (\<lambda>i. v + int i < limit) [0..<length ts]"
  using assms
proof (induction ts arbitrary: l c v)
  case Nil
  then show ?case by simp
next
  case (Cons t ts)
  let ?k = "rl_key ''rl:'' key W"
  let ?c = "snd (incr t ?k 1 (window + second) c)"
  have b: "W \<le> t \<and> t < W + window" using Truncate_bounds [of window t] Cons.prems by auto
  have vt: "val t ?k c = v" using Cons.prems by simp
  have i: "in_i64 (val t ?k c + 1)" using Cons.prems by (simp add: in_i64_def)
  have step: "Allow incr t key limit window l
      = ((v + 1 \<le> limit, max 0 (i64 (limit - (v + 1))), W + window), l\<lparr>lm_cache := Some ?c\<rparr>)"
    unfolding Allow_def using AllowN_counter [OF Cons.prems(1,2) _ Cons.prems(3,4) i] Cons.prems(5) vt
    by simp
  have win: "t < W + window" "W + window \<le> t + (window + second)" "0 < window + second"
    using b Cons.prems(3) by (auto simp: second_def)
  have after: "ok ?c" "lasts (W + window) ?k ?c"
    and val': "val t' ?k ?c = v + 1" if "t' < W + window" for t'
    using incr_steps [OF Cons.prems(2,4) win(1) _ win(2,3) i] that vt win(1) by auto
  have vs: "\<forall>t' \<in> set ts. val t' ?k ?c = v + 1"
  proof
    fix t' assume "t' \<in> set ts"
    then have "Truncate t' window = W" using Cons.prems(5) by simp
    with Truncate_bounds [OF Cons.prems(3), of t'] show "val t' ?k ?c = v + 1"
      by (intro val') simp
  qed
  have "fst (allow_all incr key limit window ts (l\<lparr>lm_cache := Some ?c\<rparr>))
      = map (\<lambda>i. v + 1 + int i < limit) [0..<length ts]"
    using Cons.prems after [OF win(1)] vs by (intro Cons.IH) auto
  then show ?case
    by (simp add: step Let_def limit_list_Suc add1_zle_eq case_prod_beta del: upt_Suc)
qed

lemma AllowBytes_counter:
  assumes "lm_cache l = Some c" "ok c" "Truncate t window = W" "0 < window"
    and "lasts (W + window) (rl_key ''bw:'' key W) c"
    and "val t (rl_key ''bw:'' key W) c = v" "0 \<le> v" "v \<le> limit" "0 \<le> b" "limit + b < 2 ^ 63"
  shows "\<exists>r c'. AllowBytes incr t key b limit window l = ((v + b \<le> limit, r), l\<lparr>lm_cache := Some c'\<rparr>)
    \<and> ok c' \<and> lasts (W + window) (rl_key ''bw:'' key W) c'
    \<and> (\<forall>t'. t' < W + window
          \<longrightarrow> val t' (rl_key ''bw:'' key W) c' = (if v + b \<le> limit then v + b else v))"
proof -
  let ?k = "rl_key ''bw:'' key W"
  let ?c1 = "snd (incr t ?k b (window + second) c)"
  let ?c2 = "snd (incr t ?k (- b) (window + second) ?c1)"
  have t: "W \<le> t \<and> t < W + window" using Truncate_bounds [of window t] assms by auto
  then have ttl: "W + window \<le> t + (window + second)" "0 < window + second"
    using assms(4) by (auto simp: second_def)
  have i: "in_i64 (v + b)" "i64 (- b) = - b"
    using assms by (auto simp: in_i64_def i64_id)
  have s1: "val t' ?k ?c1 = v + b" "ok ?c1" "lasts (W + window) ?k ?c1"
      "fst (incr t ?k b (window + second) c) = Inr (v + b)" if "t' < W + window" for t'
    using incr_steps [OF assms(2,5) _ that ttl] t i assms(6) by auto
  have w: "t < W + window" using t by simp
  have s2: "val t' ?k ?c2 = v" "ok ?c2" "lasts (W + window) ?k ?c2"
      "fst (incr t ?k (- b) (window + second) ?c1) = Inr v" if "t' < W + window" for t'
    using incr_steps [OF s1(2,3) [OF w] w that ttl, of "- b"] s1(1) [OF w] assms
    by (auto simp: in_i64_def)
  show ?thesis
  proof (cases "v + b \<le> limit")
    case True
    then show ?thesis
      using s1 w assms(1,3,4)
      by (cases "incr t ?k b (window + second) c")
        (force simp: AllowBytes_def bw_allowWithCounter_def Let_def)
  next
    case False
    have "\<exists>r. AllowBytes incr t key b limit window l = ((False, r), l\<lparr>lm_cache := Some ?c2\<rparr>)"
      using s1(4) [OF w] s2(4) [OF w] assms(1,3,4) False i
      by (cases "incr t ?k b (window + second) c"; cases "incr t ?k (- b) (window + second) ?c1")
        (auto simp: AllowBytes_def bw_allowWithCounter_def Let_def)
    with s2 [OF w] s2(1) False show ?thesis by (elim exE, intro exI [of _ ?c2] exI) auto
  qed
qed

lemma bw_all_counter:
  assumes "lm_cache l = Some c" "ok c" "0 < window"
    and "lasts (W + window) (rl_key ''bw:'' key W) c"
    and "\<forall>(t, b) \<in> set rs. Truncate t window = W \<and> 0 \<le> b \<and> limit + b < 2 ^ 63"
    and "\<forall>t. t < W + window \<longrightarrow> val t (rl_key ''bw:'' key W) c = v"
    and "0 \<le> v" "v \<le> limit"
  shows "fst (bw_all incr key limit window rs l) = greedy limit v (map snd rs)"
  using assms
proof (induction rs arbitrary: l c v)
  case Nil
  then show ?case by simp
next
  case (Cons tb rs)
  obtain t b where tb: "tb = (t, b)" by force
  have p: "Truncate t window = W" "0 \<le> b" "limit + b < 2 ^ 63" using Cons.prems(5) tb by auto
  have vt: "val t (rl_key ''bw:'' key W) c = v"
    using Cons.prems(6) Truncate_bounds [OF Cons.prems(3), of t] p(1) by auto
  obtain r c' where r: "AllowBytes incr t key b limit window l = ((v + b \<le> limit, r), l\<lparr>lm_cache := Some c'\<rparr>)"
      "ok c'" "lasts (W + window) (rl_key ''bw:'' key W) c'"
      "\<forall>t'. t' < W + window
          \<longrightarrow> val t' (rl_key ''bw:'' key W) c' = (if v + b \<le> limit then v + b else v)"
    using AllowBytes_counter [OF Cons.prems(1,2) p(1) Cons.prems(3,4) vt Cons.prems(7,8) p(2,3)]
    by blast
  have "fst (bw_all incr key limit window rs (l\<lparr>lm_cache := Some c'\<rparr>))
      = greedy limit (if v + b \<le> limit then v + b else v) (map snd rs)"
    using Cons.prems r p by (intro Cons.IH [of _ c']) auto
  then show ?case
    by (auto simp: tb r(1) Let_def case_prod_beta split: if_splits)
qed

end

lemma current_bucket_same:
  "lm_local l key = Some b \<Longrightarrow> \<not> lb_windowAt b < W \<Longrightarrow> current_bucket key W l = b"
  by (simp add: current_bucket_def)

lemma allow_all_local:
  assumes "lm_cache l = None" "0 < window" "\<forall>t \<in> set ts. Truncate t window = W"
    and "current_bucket key W l = b" "lb_count b = v" "\<not> lb_windowAt b < W"
    and "0 \<le> v" "v + int (length ts) < 2 ^ 63"
  shows "fst (allow_all incr key limit window ts l)
           = map (\<lambda>i. v + int i < limit) [0..<length ts]"
  using assms
proof (induction ts arbitrary: l b v)
  case Nil
  then show ?case by simp
next
  case (Cons t ts)
  let ?b = "if v + 1 > limit then b else b\<lparr>lb_count := v + 1\<rparr>"
  let ?l = "l\<lparr>lm_local := (lm_local l)(key := Some ?b)\<rparr>"
  have i: "i64 (v + 1) = v + 1" using Cons.prems by (simp add: in_i64_def)
  have step: "\<exists>r. Allow incr t key limit window l = ((v < limit, r), ?l)"
    using Cons.prems i by (auto simp: Allow_def AllowN_def allowLocal_def Let_def)
  have rest: "fst (allow_all incr key limit window ts ?l)
      = map (\<lambda>i. lb_count ?b + int i < limit) [0..<length ts]"
    using Cons.prems by (intro Cons.IH [where b = ?b]) (auto simp: current_bucket_def)
  obtain r where r: "Allow incr t key limit window l = ((v < limit, r), ?l)" using step by blast
  have "fst (allow_all incr key limit window ts ?l)
      = map (\<lambda>i. v + 1 + int i < limit) [0..<length ts]"
    using rest limit_list_over [of limit v "length ts"] Cons.prems(5) by (simp split: if_splits)
  then show ?case
    by (simp add: r Let_def limit_list_Suc case_prod_beta del: upt_Suc)
qed

text \<open>With the in-process cache as counter, exactly the first \<open>limit\<close> requests of a key in one window
  are allowed and every later one of the window is refused: a burst cannot pass the limit.\<close>

theorem counter_limit_exact:
  assumes "cache_inv c" "0 < window" "lm_cache l = Some c"
    and "map_of (c_items c) (rl_key ''rl:'' key W) = None"
    and "\<forall>t \<in> set ts. Truncate t window = W" "int (length ts) < 2 ^ 63"
  shows "fst (allow_all mem_incr key limit window ts l) = map (\<lambda>i. int i < limit) [0..<length ts]"
  using mem.allow_all_counter [of l c window W key ts 0 limit] assms
  by (simp add: counter_lasts_def counter_val_def)

theorem counter_limit_exact_witness:
  "fst (allow_all mem_incr ''k'' 2 60 [0, 5, 9] (NewRateLimiter (Some (NewMemoryCache 1000))))
     = [True, True, False]"
proof -
  have "\<forall>t \<in> set [0, 5, 9]. Truncate t 60 = 0"
    by (simp add: Truncate_def second_def)
  from counter_limit_exact [where c = "NewMemoryCache 1000" and window = 60 and W = 0
      and l = "NewRateLimiter (Some (NewMemoryCache 1000))" and key = "''k''" and limit = 2,
      OF cache_inv_empty _ _ _ this]
  show ?thesis by (simp add: NewRateLimiter_def NewMemoryCache_def upt_rec)
qed

text \<open>The local fallback decides a stream of requests in one window exactly as the counter does, so
  running without a cache does not change who is admitted (as long as no cleanup runs).\<close>

theorem local_agrees_with_counter:
  assumes "cache_inv c" "0 < window"
    and "map_of (c_items c) (rl_key ''rl:'' key W) = None"
    and "\<forall>t \<in> set ts. Truncate t window = W" "int (length ts) < 2 ^ 63"
  shows "fst (allow_all mem_incr key limit window ts (NewRateLimiter None))
           = fst (allow_all mem_incr key limit window ts (NewRateLimiter (Some c)))"
  using allow_all_local [of "NewRateLimiter None" window ts W key _ 0 mem_incr limit]
    mem.allow_all_counter [of "NewRateLimiter (Some c)" c window W key ts 0 limit] assms
  by (simp add: counter_lasts_def counter_val_def NewRateLimiter_def current_bucket_def)

theorem local_agrees_with_counter_witness:
  "fst (allow_all mem_incr ''k'' 1 60 [0, 5] (NewRateLimiter None))
     = fst (allow_all mem_incr ''k'' 1 60 [0, 5] (NewRateLimiter (Some (NewMemoryCache 1000))))"
proof -
  have "\<forall>t \<in> set [0, 5]. Truncate t 60 = 0"
    by (simp add: Truncate_def second_def)
  from local_agrees_with_counter [OF cache_inv_empty _ _ this] show ?thesis
    by (simp add: NewMemoryCache_def)
qed

lemma bw_all_local:
  assumes "lm_cache l = None" "0 < window"
    and "\<forall>(t, b) \<in> set rs. Truncate t window = W \<and> 0 \<le> b \<and> limit + b < 2 ^ 63"
    and "current_bucket key W l = bk" "lb_count bk = v" "\<not> lb_windowAt bk < W"
    and "0 \<le> v" "v \<le> limit"
  shows "fst (bw_all incr key limit window rs l) = greedy limit v (map snd rs)"
  using assms
proof (induction rs arbitrary: l bk v)
  case Nil
  then show ?case by simp
next
  case (Cons tb rs)
  obtain t b where tb: "tb = (t, b)" by force
  have p: "Truncate t window = W" "0 \<le> b" "limit + b < 2 ^ 63" using Cons.prems(3) tb by auto
  let ?b = "if v + b > limit then bk else bk\<lparr>lb_count := v + b\<rparr>"
  let ?l = "l\<lparr>lm_local := (lm_local l)(key := Some ?b)\<rparr>"
  have i: "i64 (v + b) = v + b" using Cons.prems p by (simp add: in_i64_def)
  have step: "\<exists>r. AllowBytes incr t key b limit window l = ((v + b \<le> limit, r), ?l)"
    using Cons.prems p i by (auto simp: AllowBytes_def bw_allowLocal_def Let_def)
  have "fst (bw_all incr key limit window rs ?l) = greedy limit (lb_count ?b) (map snd rs)"
    using Cons.prems p by (intro Cons.IH [where bk = ?b]) (auto simp: current_bucket_def)
  with step show ?case
    using Cons.prems(5) by (auto simp: tb Let_def case_prod_beta split: if_splits)
qed

text \<open>The bandwidth limiter, on the in-process counter or on its local fallback, admits a transfer
  exactly when it still fits in what the admitted transfers of the window have left (refused bytes are
  handed back), so the bytes admitted in a window never pass the limit.\<close>

theorem bandwidth_within_limit:
  assumes "cache_inv c" "0 < window" "0 \<le> limit"
    and "map_of (c_items c) (rl_key ''bw:'' key W) = None"
    and "\<forall>(t, b) \<in> set rs. Truncate t window = W \<and> 0 \<le> b \<and> limit + b < 2 ^ 63"
    and "l = NewRateLimiter None \<or> l = NewRateLimiter (Some c)"
  shows "fst (bw_all mem_incr key limit window rs l) = greedy limit 0 (map snd rs) \<and>
    sum_list (map snd (filter fst (zip (fst (bw_all mem_incr key limit window rs l)) (map snd rs)))) \<le> limit"
proof
  show eq: "fst (bw_all mem_incr key limit window rs l) = greedy limit 0 (map snd rs)"
    using bw_all_local [of "NewRateLimiter None" window rs W limit key _ 0 mem_incr]
      mem.bw_all_counter [of "NewRateLimiter (Some c)" c window W key rs limit 0] assms
    by (auto simp: counter_lasts_def counter_val_def NewRateLimiter_def current_bucket_def)
  show "sum_list (map snd (filter fst (zip (fst (bw_all mem_incr key limit window rs l)) (map snd rs)))) \<le> limit"
    using greedy_within_limit [OF assms(3), of "map snd rs"] eq by simp
qed

theorem bandwidth_within_limit_witness:
  "fst (bw_all mem_incr ''ip'' 10 60 [(0, 6), (1, 7), (2, 4)] (NewRateLimiter (Some (NewMemoryCache 1000))))
     = [True, False, True]"
proof -
  have "\<forall>(t, b) \<in> set [(0, 6), (1, 7), (2, 4)]. Truncate t 60 = 0 \<and> (0::int) \<le> b \<and> 10 + b < 2 ^ 63"
    by (simp add: Truncate_def second_def)
  from bandwidth_within_limit [OF cache_inv_empty _ _ _ this, of "1000" "''ip''"] show ?thesis
    by (simp add: NewMemoryCache_def)
qed

text \<open>What the hypothesis on the sizes excludes: a request that declares \<open>2^63 - 1\<close> bytes while some bytes of
  the window are already counted overflows the 64-bit counter, is admitted, and leaves the counter
  negative, so that about \<open>2^63\<close> further bytes are admitted in the window.\<close>

theorem bandwidth_overflow_admitted:
  assumes "lm_cache l = None" "0 < window" "0 \<le> limit" "limit < 2 ^ 63"
    and "lm_local l key = Some b" "lb_windowAt b = Truncate t window"
    and "0 < lb_count b" "lb_count b \<le> limit"
  shows "fst (fst (AllowBytes incr t key (2 ^ 63 - 1) limit window l)) \<and>
    lb_count (current_bucket key (Truncate t window)
       (snd (AllowBytes incr t key (2 ^ 63 - 1) limit window l))) = lb_count b - 1 - 2 ^ 63"
proof -
  have "(lb_count b - 1 + 2 ^ 64) mod 2 ^ 64 = lb_count b - 1"
    unfolding mod_add_self2 using assms by (intro mod_pos_pos_trivial) simp_all
  then have "i64 (lb_count b + (2 ^ 63 - 1)) = lb_count b - 1 - 2 ^ 63"
    by (simp add: i64_def algebra_simps)
  with assms show ?thesis
    by (auto simp: AllowBytes_def bw_allowLocal_def Let_def current_bucket_def)
qed

theorem bandwidth_overflow_admitted_witness:
  "fst (fst (AllowBytes mem_incr 5 ''ip'' (2 ^ 63 - 1) 100 60
     ((NewRateLimiter None)\<lparr>lm_local := (\<lambda>k. Some \<lparr>lb_count = 100, lb_windowAt = Truncate 5 60\<rparr>)\<rparr>)))"
  by (rule bandwidth_overflow_admitted [where b = "\<lparr>lb_count = 100, lb_windowAt = Truncate 5 60\<rparr>", THEN conjunct1])
    (simp_all add: NewRateLimiter_def)

section \<open>The background cleanup\<close>

text \<open>For windows of at most ten minutes, a cleanup that runs before a request never changes the decision:
  it drops buckets of past windows only.\<close>

theorem cleanup_keeps_decisions:
  assumes "0 < window" "window \<le> 10 * minute" "tc \<le> t"
  shows "fst (AllowN incr t key n limit window (cleanup tc l)) = fst (AllowN incr t key n limit window l)"
proof -
  have "t < Truncate t window + window" using Truncate_bounds [OF assms(1)] by simp
  then have "current_bucket key (Truncate t window) (cleanup tc l) = current_bucket key (Truncate t window) l"
    using assms by (auto simp: current_bucket_def cleanup_def Let_def split: option.split)
  moreover have "lm_cache (cleanup tc l) = lm_cache l" by (simp add: cleanup_def Let_def)
  ultimately show ?thesis
    by (auto simp: AllowN_def allowLocal_def allowWithCounter_def Let_def split: option.split sum.split prod.split)
qed

theorem cleanup_keeps_decisions_witness:
  "fst (AllowN mem_incr 7 ''k'' 1 5 60 (cleanup 6 (NewRateLimiter None)))
     = fst (AllowN mem_incr 7 ''k'' 1 5 60 (NewRateLimiter None))"
  by (rule cleanup_keeps_decisions) (simp_all add: minute_def second_def)

text \<open>For a longer window (the daily upload limit uses 24 hours) the fixed ten minute cutoff drops the bucket
  of the current window: with no cache, a key whose limit is used up is refused, and is allowed again in
  the same window after a cleanup that runs ten minutes into it.\<close>

theorem cleanup_resets_long_window:
  assumes "lm_cache l = None" "0 < window" "Truncate t window = W" "W + 10 * minute < tc"
    and "lm_local l key = Some b" "lb_windowAt b = W" "lb_count b = limit"
    and "1 \<le> limit" "limit < 2 ^ 62"
  shows "\<not> fst (fst (Allow incr t key limit window l)) \<and>
    fst (fst (Allow incr t key limit window (cleanup tc l)))"
  using assms
  by (auto simp: Allow_def AllowN_def allowLocal_def current_bucket_def cleanup_def Let_def in_i64_def)

theorem cleanup_resets_long_window_witness:
  "fst (fst (Allow mem_incr (Truncate 0 (24 * hour) + 12 * minute) ''k'' 3 (24 * hour)
     (cleanup (Truncate 0 (24 * hour) + 11 * minute) ((NewRateLimiter None)\<lparr>lm_local :=
        (\<lambda>k. Some \<lparr>lb_count = 3, lb_windowAt = Truncate 0 (24 * hour)\<rparr>)\<rparr>))))"
  by (rule cleanup_resets_long_window [where W = "Truncate 0 (24 * hour)"
        and b = "\<lparr>lb_count = 3, lb_windowAt = Truncate 0 (24 * hour)\<rparr>", THEN conjunct2])
    (simp_all add: NewRateLimiter_def Truncate_def hour_def minute_def second_def)

section \<open>Failing open\<close>

lemma allow_all_failed:
  assumes "\<And>now k n ttl c. \<exists>e c'. incr now k n ttl c = (Inl e, c')"
    and "lm_cache l \<noteq> None" "\<forall>t \<in> set ts. Truncate t window = W"
  shows "fst (allow_all incr key limit window ts l) = replicate (length ts) True
    \<and> lm_failed (snd (allow_all incr key limit window ts l)) = lm_failed l + length ts
    \<and> lm_warned (snd (allow_all incr key limit window ts l))
        = lm_warned l + (if ts = [] \<or> (\<exists>s. lm_logged l window = Some s \<and> W \<le> s) then 0 else 1)"
  using assms(2,3)
proof (induction ts arbitrary: l)
  case Nil
  then show ?case by simp
next
  case (Cons t ts)
  obtain c where c: "lm_cache l = Some c" using Cons.prems by auto
  obtain e c' where i: "incr t (rl_key ''rl:'' key W) 1 (window + second) c = (Inl e, c')"
    using assms(1) by blast
  let ?l = "failOpen_record window (W + window) (l\<lparr>lm_cache := Some c'\<rparr>)"
  have a: "Allow incr t key limit window l = ((True, limit, W + window), ?l)"
    using c i Cons.prems by (simp add: Allow_def AllowN_def allowWithCounter_def Let_def)
  have "lm_cache ?l \<noteq> None" "lm_failed ?l = Suc (lm_failed l)"
    "lm_warned ?l = lm_warned l + (if \<exists>s. lm_logged l window = Some s \<and> W \<le> s then 0 else 1)"
    "\<exists>s. lm_logged ?l window = Some s \<and> W \<le> s"
    by (auto simp: failOpen_record_def Let_def split: option.split)
  with Cons.IH [of ?l] Cons.prems show ?case
    by (auto simp: a case_prod_beta Let_def)
qed

text \<open>While the cache fails, every request is allowed and counted as a fail-open, and at most one warning
  is logged per window, so an outage of the limiter's store neither blocks requests nor floods the log.\<close>

theorem fail_open_stream:
  assumes "\<And>now k n ttl c. \<exists>e c'. incr now k n ttl c = (Inl e, c')"
    and "lm_cache l \<noteq> None" "\<forall>t \<in> set ts. Truncate t window = W" "ts \<noteq> []"
    and "\<forall>s. lm_logged l window = Some s \<longrightarrow> s < W"
  shows "fst (allow_all incr key limit window ts l) = replicate (length ts) True \<and>
    lm_failed (snd (allow_all incr key limit window ts l)) = lm_failed l + length ts \<and>
    lm_warned (snd (allow_all incr key limit window ts l)) = lm_warned l + 1"
  using allow_all_failed [of incr l ts window W key limit, OF assms(1)] assms(2-)
  by (auto simp: linorder_not_le [symmetric])

theorem fail_open_stream_witness:
  "fst (allow_all (\<lambda>_ _ _ _ c. (Inl ErrIO, c)) ''k'' 1 60 [0, 5, 9] (NewRateLimiter (Some ())))
     = [True, True, True]"
proof -
  have "\<forall>t \<in> set [0, 5, 9]. Truncate t 60 = 0" by (simp add: Truncate_def second_def)
  from fail_open_stream [where incr = "\<lambda>_ _ _ _ c. (Inl ErrIO, c)" and key = "''k''" and limit = 1
      and l = "NewRateLimiter (Some ())", OF _ _ this]
  show ?thesis by (simp add: NewRateLimiter_def numeral_3_eq_3)
qed

end
