(* ===== verification/Database.thy ===== *)
theory Database
  imports RateLimit
begin

text \<open>
  The relational database under \<^verbatim>\<open>db/\<close>: its tables (the Postgres migrations), one operation per generated
  query of \<^verbatim>\<open>blobs.sql.go\<close>, \<^verbatim>\<open>blob_references.sql.go\<close>, \<^verbatim>\<open>gc.sql.go\<close>, \<^verbatim>\<open>users.sql.go\<close>,
  \<^verbatim>\<open>expiration.sql.go\<close> and \<^verbatim>\<open>removed_blobs.sql.go\<close>, and the world the services run in: database, open
  transaction, storage backend, clock, source of randomness and the failures that are still to come.

  A table is the list of its rows in insertion order. A query is a function of the database that returns
  its result or error; an error leaves the database as it was. Primary keys, the foreign key from
  \<^verbatim>\<open>blob_references\<close> to \<^verbatim>\<open>blobs\<close> with \<^verbatim>\<open>ON DELETE CASCADE\<close>, and the ranges of \<^verbatim>\<open>BIGINT\<close> and
  \<^verbatim>\<open>INTEGER\<close> are checked as Postgres does. A \<^verbatim>\<open>SELECT\<close> without \<^verbatim>\<open>ORDER BY\<close> returns table order.
\<close>

section \<open>Rows\<close>

record blob_row =
  b_pubkey :: string
  b_hash :: string
  b_type :: string
  b_size :: int
  b_blob :: bytes
  b_created :: int
  b_mode :: string
  b_dek :: "string option"
  b_nonce :: "string option"
  b_orig :: "int option"
  b_refcount :: int
  b_expires :: "int option"

record ref_row =
  r_pubkey :: string
  r_hash :: string
  r_created :: int

record user_row =
  u_pubkey :: string
  u_quota :: int
  u_used :: int
  u_banned :: bool
  u_created :: int
  u_updated :: int
  u_free_used :: int
  u_free_limit :: int

record policy_row =
  p_id :: int
  p_name :: string
  p_prefix :: "string option"
  p_ttl :: int
  p_max :: "int option"
  p_pubkey :: "string option"
  p_priority :: int
  p_enabled :: bool
  p_created :: int
  p_updated :: int

record removed_row =
  x_hash :: string
  x_reason :: string
  x_by :: string
  x_report :: "int option"
  x_created :: int

record session_row =
  s_id :: string
  s_pubkey :: string
  s_hash :: "string option"
  s_total :: int
  s_chunk_size :: int
  s_mime :: "string option"
  s_chunks :: int
  s_bytes :: int
  s_status :: string
  s_mode :: string
  s_created :: int
  s_updated :: int
  s_expires :: int

record chunk_row =
  k_session :: string
  k_num :: int
  k_size :: int
  k_offset :: int
  k_hash :: string
  k_received :: int

record tus_row =
  tu_id :: string
  tu_pubkey :: string
  tu_size :: int
  tu_offset :: int
  tu_metadata :: string
  tu_created :: int
  tu_expires :: int

record tus_chunk_row =
  tc_upload :: string
  tc_offset :: int
  tc_size :: int
  tc_key :: string

record report_row =
  rp_id :: int
  rp_reporter :: "string option"
  rp_hash :: string
  rp_url :: string
  rp_reason :: string
  rp_details :: "string option"
  rp_status :: string
  rp_action :: "string option"
  rp_by :: "string option"
  rp_created :: int
  rp_reviewed :: "int option"

record block_row =
  bl_pubkey :: string
  bl_reason :: string
  bl_by :: string
  bl_created :: int

record dbstate =
  t_blobs :: "blob_row list"
  t_refs :: "ref_row list"
  t_users :: "user_row list"
  t_policies :: "policy_row list"
  t_next_policy :: int
  t_removed :: "removed_row list"
  t_sessions :: "session_row list"
  t_chunks :: "chunk_row list"
  t_tus :: "tus_row list"
  t_tus_chunks :: "tus_chunk_row list"
  t_reports :: "report_row list"
  t_next_report :: int
  t_blocklist :: "block_row list"

definition empty_db :: dbstate where
  "empty_db = \<lparr>t_blobs = [], t_refs = [], t_users = [], t_policies = [], t_next_policy = 1,
               t_removed = [], t_sessions = [], t_chunks = [], t_tus = [], t_tus_chunks = [],
               t_reports = [], t_next_report = 1, t_blocklist = []\<rparr>"

type_synonym 'a query = "dbstate \<Rightarrow> 'a result \<times> dbstate"

section \<open>SQL\<close>

definition update_where :: "('r \<Rightarrow> bool) \<Rightarrow> ('r \<Rightarrow> 'r) \<Rightarrow> 'r list \<Rightarrow> 'r list" where
  "update_where P f rows = map (\<lambda>r. if P r then f r else r) rows"

lemma map_update_where: "(\<And>r. k (f r) = k r) \<Longrightarrow> map k (update_where P f rows) = map k rows"
  by (simp add: update_where_def)

lemma set_update_where: "(\<And>r. k (f r) = k r) \<Longrightarrow> k ` set (update_where P f rows) = k ` set rows"
  by (simp flip: set_map add: map_update_where)

definition first_row :: "('r \<Rightarrow> bool) \<Rightarrow> 'r list \<Rightarrow> 'r result" where
  "first_row P rows = (case find P rows of None \<Rightarrow> Inl ErrNoRows | Some r \<Rightarrow> Inr r)"

text \<open>\<^verbatim>\<open>s LIKE p\<close>, with the wildcards \<^verbatim>\<open>%\<close> and \<^verbatim>\<open>_\<close> and the backslash as escape.\<close>

fun like_match :: "string \<Rightarrow> string \<Rightarrow> bool" where
  "like_match [] s = (s = [])"
| "like_match (c # p) s =
     (if c = CHR ''%'' then like_match p s \<or> (case s of [] \<Rightarrow> False | _ # s' \<Rightarrow> like_match (c # p) s')
      else if c = CHR ''_'' then (case s of [] \<Rightarrow> False | _ # s' \<Rightarrow> like_match p s')
      else if c = CHR 0x5C then
        (case p of [] \<Rightarrow> False
         | d # p' \<Rightarrow> (case s of [] \<Rightarrow> False | x # s' \<Rightarrow> x = d \<and> like_match p' s'))
      else (case s of [] \<Rightarrow> False | x # s' \<Rightarrow> x = c \<and> like_match p s'))"

declare like_match.simps(2) [simp del]

definition plain_char :: "char \<Rightarrow> bool" where
  "plain_char c \<longleftrightarrow> c \<noteq> CHR ''%'' \<and> c \<noteq> CHR ''_'' \<and> c \<noteq> CHR 0x5C"

lemma like_percent: "like_match ''%'' s"
  by (induction s) (simp_all add: like_match.simps(2))

lemma like_prefix: "\<forall>c \<in> set p. plain_char c \<Longrightarrow> like_match (p @ ''%'') s \<longleftrightarrow> take (length p) s = p"
proof (induction p arbitrary: s)
  case Nil
  then show ?case by (simp add: like_percent)
next
  case (Cons c p)
  then show ?case by (cases s) (simp_all add: like_match.simps(2) plain_char_def)
qed

section \<open>Queries on blobs\<close>

definition has_hash :: "string \<Rightarrow> blob_row \<Rightarrow> bool" where
  "has_hash h b \<longleftrightarrow> b_hash b = h"

definition is_ref :: "string \<Rightarrow> string \<Rightarrow> ref_row \<Rightarrow> bool" where
  "is_ref pk h r \<longleftrightarrow> r_pubkey r = pk \<and> r_hash r = h"

definition blob_of :: "string \<Rightarrow> dbstate \<Rightarrow> blob_row option" where
  "blob_of h d = find (has_hash h) (t_blobs d)"

definition owners :: "string \<Rightarrow> dbstate \<Rightarrow> string list" where
  "owners h d = map r_pubkey (filter (\<lambda>r. r_hash r = h) (t_refs d))"

text \<open>Deleting blob rows takes their references with them (\<^verbatim>\<open>ON DELETE CASCADE\<close>).\<close>

definition delete_blobs :: "(blob_row \<Rightarrow> bool) \<Rightarrow> dbstate \<Rightarrow> dbstate" where
  "delete_blobs P d =
     d\<lparr>t_blobs := filter (\<lambda>b. \<not> P b) (t_blobs d),
       t_refs := filter (\<lambda>r. \<forall>b \<in> set (t_blobs d). P b \<longrightarrow> b_hash b \<noteq> r_hash r) (t_refs d)\<rparr>"

definition add_ref_count :: "int \<Rightarrow> string \<Rightarrow> unit query" where
  "add_ref_count k h d =
     (if \<exists>b \<in> set (t_blobs d). b_hash b = h \<and> \<not> in_i32 (b_refcount b + k) then (Inl ErrOutOfRange, d)
      else (Inr (), d\<lparr>t_blobs := update_where (has_hash h) (\<lambda>b. b\<lparr>b_refcount := b_refcount b + k\<rparr>) (t_blobs d)\<rparr>))"

definition q_DecrementBlobRefCount :: "string \<Rightarrow> int query" where
  "q_DecrementBlobRefCount h d =
     (case add_ref_count (-1) h d of
        (Inl e, d') \<Rightarrow> (Inl e, d')
      | (Inr _, d') \<Rightarrow> (case blob_of h d' of None \<Rightarrow> Inl ErrNoRows | Some b \<Rightarrow> Inr (b_refcount b), d'))"

definition q_IncrementBlobRefCount :: "string \<Rightarrow> unit query" where
  "q_IncrementBlobRefCount h d = add_ref_count 1 h d"

definition q_DeleteBlobFromHash :: "string \<Rightarrow> unit query" where
  "q_DeleteBlobFromHash h d = (Inr (), delete_blobs (has_hash h) d)"

definition q_GetBlobFromHash :: "string \<Rightarrow> blob_row query" where
  "q_GetBlobFromHash h d = (first_row (has_hash h) (t_blobs d), d)"

definition q_GetBlobRefCount :: "string \<Rightarrow> int query" where
  "q_GetBlobRefCount h d =
     (case blob_of h d of None \<Rightarrow> Inl ErrNoRows | Some b \<Rightarrow> Inr (b_refcount b), d)"

text \<open>The rows of the join of \<^verbatim>\<open>blobs\<close> with the references of one key, in the order of the blobs.\<close>

definition join_refs :: "string \<Rightarrow> dbstate \<Rightarrow> blob_row list" where
  "join_refs pk d = concat (map (\<lambda>b. map (\<lambda>_. b) (filter (is_ref pk (b_hash b)) (t_refs d))) (t_blobs d))"

definition q_GetBlobsFromPubkey :: "string \<Rightarrow> blob_row list query" where
  "q_GetBlobsFromPubkey pk d = (Inr (join_refs pk d), d)"

definition q_GetBlobsFromPubkeyLegacy :: "string \<Rightarrow> blob_row list query" where
  "q_GetBlobsFromPubkeyLegacy pk d = (Inr (filter (\<lambda>b. b_pubkey b = pk) (t_blobs d)), d)"

definition q_InsertBlob :: "blob_row \<Rightarrow> blob_row query" where
  "q_InsertBlob b d =
     (if \<not> in_i64 (b_size b) \<or> \<not> in_i64 (b_created b) \<or> \<not> in_i32 (b_refcount b) then (Inl ErrOutOfRange, d)
      else if \<exists>b' \<in> set (t_blobs d). b_hash b' = b_hash b then (Inl ErrConstraint, d)
      else (Inr (b\<lparr>b_expires := None\<rparr>), d\<lparr>t_blobs := t_blobs d @ [b\<lparr>b_expires := None\<rparr>]\<rparr>))"

definition q_LockBlobRow :: "string \<Rightarrow> int query" where
  "q_LockBlobRow h d = (Inr (int (length (filter (has_hash h) (t_blobs d)))), d)"

section \<open>Queries on references\<close>

definition q_CountBlobReferences :: "string \<Rightarrow> int query" where
  "q_CountBlobReferences h d = (Inr (int (length (owners h d))), d)"

definition q_CreateBlobReference :: "string \<Rightarrow> string \<Rightarrow> int \<Rightarrow> ref_row query" where
  "q_CreateBlobReference pk h created d =
     (if \<exists>r \<in> set (t_refs d). is_ref pk h r then (Inl ErrNoRows, d)
      else if \<not> (\<exists>b \<in> set (t_blobs d). b_hash b = h) then (Inl ErrConstraint, d)
      else (let r = \<lparr>r_pubkey = pk, r_hash = h, r_created = created\<rparr>
            in (Inr r, d\<lparr>t_refs := t_refs d @ [r]\<rparr>)))"

definition q_DeleteBlobReference :: "string \<Rightarrow> string \<Rightarrow> int query" where
  "q_DeleteBlobReference pk h d =
     (Inr (int (length (filter (is_ref pk h) (t_refs d)))),
      d\<lparr>t_refs := filter (\<lambda>r. \<not> is_ref pk h r) (t_refs d)\<rparr>)"

definition q_GetBlobReference :: "string \<Rightarrow> string \<Rightarrow> ref_row query" where
  "q_GetBlobReference pk h d = (first_row (is_ref pk h) (t_refs d), d)"

definition q_GetBlobReferencesByHash :: "string \<Rightarrow> ref_row list query" where
  "q_GetBlobReferencesByHash h d = (Inr (filter (\<lambda>r. r_hash r = h) (t_refs d)), d)"

definition q_GetBlobReferencesByPubkey :: "string \<Rightarrow> ref_row list query" where
  "q_GetBlobReferencesByPubkey pk d = (Inr (filter (\<lambda>r. r_pubkey r = pk) (t_refs d)), d)"

definition q_HasBlobReference :: "string \<Rightarrow> string \<Rightarrow> bool query" where
  "q_HasBlobReference pk h d = (Inr (\<exists>r \<in> set (t_refs d). is_ref pk h r), d)"

section \<open>Queries of the garbage collector\<close>

definition ownerless :: "dbstate \<Rightarrow> blob_row \<Rightarrow> bool" where
  "ownerless d b \<longleftrightarrow> (\<forall>r \<in> set (t_refs d). r_hash r \<noteq> b_hash b)"

definition q_CountOwnerlessBlobs :: "int query" where
  "q_CountOwnerlessBlobs d = (Inr (int (length (filter (ownerless d) (t_blobs d)))), d)"

definition q_CountZeroRefBlobs :: "int query" where
  "q_CountZeroRefBlobs d = (Inr (int (length (filter (\<lambda>b. b_refcount b \<le> 0) (t_blobs d)))), d)"

definition q_DeleteOwnerlessBlob :: "string \<Rightarrow> string query" where
  "q_DeleteOwnerlessBlob h d =
     (if \<exists>b \<in> set (t_blobs d). b_hash b = h \<and> ownerless d b
      then (Inr h, delete_blobs (\<lambda>b. b_hash b = h \<and> ownerless d b) d)
      else (Inl ErrNoRows, d))"

text \<open>A negative \<^verbatim>\<open>LIMIT\<close> is an error.\<close>

definition q_ListOwnerlessBlobs :: "int \<Rightarrow> (string \<times> int) list query" where
  "q_ListOwnerlessBlobs limit d =
     (if limit < 0 then (Inl ErrConstraint, d)
      else (Inr (map (\<lambda>b. (b_hash b, b_size b))
              (take (nat limit) (sort_key b_created (filter (ownerless d) (t_blobs d))))), d))"

section \<open>Queries on users\<close>

definition update_user :: "string \<Rightarrow> (user_row \<Rightarrow> user_row) \<Rightarrow> dbstate \<Rightarrow> dbstate" where
  "update_user pk f d = d\<lparr>t_users := update_where (\<lambda>u. u_pubkey u = pk) f (t_users d)\<rparr>"

definition user_of :: "string \<Rightarrow> dbstate \<Rightarrow> user_row option" where
  "user_of pk d = find (\<lambda>u. u_pubkey u = pk) (t_users d)"

definition new_user :: "string \<Rightarrow> int \<Rightarrow> int \<Rightarrow> int \<Rightarrow> user_row" where
  "new_user pk quota created updated =
     \<lparr>u_pubkey = pk, u_quota = quota, u_used = 0, u_banned = False, u_created = created,
      u_updated = updated, u_free_used = 0, u_free_limit = 0\<rparr>"

definition q_BanUser :: "int \<Rightarrow> string \<Rightarrow> unit query" where
  "q_BanUser now pk d = (Inr (), update_user pk (\<lambda>u. u\<lparr>u_banned := True, u_updated := now\<rparr>) d)"

definition q_UnbanUser :: "int \<Rightarrow> string \<Rightarrow> unit query" where
  "q_UnbanUser now pk d = (Inr (), update_user pk (\<lambda>u. u\<lparr>u_banned := False, u_updated := now\<rparr>) d)"

definition q_CreateUser :: "string \<Rightarrow> int \<Rightarrow> int \<Rightarrow> int \<Rightarrow> user_row query" where
  "q_CreateUser pk quota created updated d =
     (if user_of pk d \<noteq> None then (Inl ErrConstraint, d)
      else (let u = new_user pk quota created updated
            in (Inr u, d\<lparr>t_users := t_users d @ [u]\<rparr>)))"

definition q_DecrementUserUsage :: "int \<Rightarrow> int \<Rightarrow> int \<Rightarrow> string \<Rightarrow> unit query" where
  "q_DecrementUserUsage b b2 now pk d =
     (if \<exists>u \<in> set (t_users d). u_pubkey u = pk \<and> b \<le> u_used u \<and> \<not> in_i64 (u_used u - b2)
      then (Inl ErrOutOfRange, d)
      else (Inr (), update_user pk
              (\<lambda>u. u\<lparr>u_used := (if b \<le> u_used u then u_used u - b2 else 0), u_updated := now\<rparr>) d))"

definition q_GetOrCreateUser :: "string \<Rightarrow> int \<Rightarrow> int \<Rightarrow> int \<Rightarrow> user_row query" where
  "q_GetOrCreateUser pk quota created updated d =
     (case user_of pk d of
        None \<Rightarrow> (let u = new_user pk quota created updated in (Inr u, d\<lparr>t_users := t_users d @ [u]\<rparr>))
      | Some u \<Rightarrow> (Inr (u\<lparr>u_updated := updated\<rparr>), update_user pk (\<lambda>u. u\<lparr>u_updated := updated\<rparr>) d))"

definition q_GetUser :: "string \<Rightarrow> user_row query" where
  "q_GetUser pk d = (first_row (\<lambda>u. u_pubkey u = pk) (t_users d), d)"

definition q_GetUserCount :: "int query" where
  "q_GetUserCount d = (Inr (int (length (t_users d))), d)"

definition q_GetUserQuota :: "string \<Rightarrow> (int \<times> int) query" where
  "q_GetUserQuota pk d =
     (case user_of pk d of None \<Rightarrow> Inl ErrNoRows | Some u \<Rightarrow> Inr (u_quota u, u_used u), d)"

definition q_IncrementUserUsage :: "int \<Rightarrow> int \<Rightarrow> string \<Rightarrow> unit query" where
  "q_IncrementUserUsage b now pk d =
     (if \<exists>u \<in> set (t_users d). u_pubkey u = pk \<and> \<not> in_i64 (u_used u + b) then (Inl ErrOutOfRange, d)
      else (Inr (), update_user pk (\<lambda>u. u\<lparr>u_used := u_used u + b, u_updated := now\<rparr>) d))"

definition q_ListUsers :: "int \<Rightarrow> int \<Rightarrow> user_row list query" where
  "q_ListUsers limit offset d =
     (if limit < 0 \<or> offset < 0 then (Inl ErrConstraint, d)
      else (Inr (take (nat limit) (drop (nat offset) (sort_key (\<lambda>u. - u_created u) (t_users d)))), d))"

definition q_RecalculateUserUsage :: "int \<Rightarrow> string \<Rightarrow> unit query" where
  "q_RecalculateUserUsage now pk d =
     (let total = sum_list (map b_size (join_refs pk d))
      in if user_of pk d \<noteq> None \<and> \<not> in_i64 total then (Inl ErrOutOfRange, d)
         else (Inr (), update_user pk (\<lambda>u. u\<lparr>u_used := total, u_updated := now\<rparr>) d))"

definition q_UpdateUserQuota :: "int \<Rightarrow> int \<Rightarrow> string \<Rightarrow> unit query" where
  "q_UpdateUserQuota quota now pk d =
     (Inr (), update_user pk (\<lambda>u. u\<lparr>u_quota := quota, u_updated := now\<rparr>) d)"

definition q_UpdateUserUsage :: "int \<Rightarrow> int \<Rightarrow> string \<Rightarrow> unit query" where
  "q_UpdateUserUsage used now pk d =
     (Inr (), update_user pk (\<lambda>u. u\<lparr>u_used := used, u_updated := now\<rparr>) d)"

end
