(* ===== verification/World.thy ===== *)
theory World
  imports Database
begin

text \<open>
  The world the services run in: the database with its open transaction (\<^verbatim>\<open>BeginTx\<close>, \<^verbatim>\<open>Commit\<close> and the
  deferred \<^verbatim>\<open>Rollback\<close>), the storage backend (\<^verbatim>\<open>internal/storage/interface.go\<close>), the clock, the
  randomness used so far, the daily upload counter, the temporary files of the chunked uploads (by
  session directory and chunk number), and the failures to come. Every call that can fail
  for a reason outside the program takes the next element of \<open>w_faults\<close>: \<open>True\<close> means that the call
  returns an error and has no effect. With no element left, calls succeed. A theorem about all values of
  \<open>w_faults\<close> holds whichever calls fail.
\<close>

section \<open>The state\<close>

record world =
  w_db :: dbstate
  w_saved :: "dbstate option"
  w_objects :: "string \<Rightarrow> bytes option"
  w_faults :: "bool list"
  w_now :: int
  w_rng :: nat
  w_lim :: "mem_cache limiter"
  w_files :: "string \<Rightarrow> (nat \<Rightarrow> bytes option) option"

type_synonym 'a prog = "(world, 'a) state"

definition start_world :: "dbstate \<Rightarrow> world" where
  "start_world d = \<lparr>w_db = d, w_saved = None, w_objects = (\<lambda>_. None), w_faults = [], w_now = 0,
                    w_rng = 0, w_lim = NewRateLimiter None, w_files = (\<lambda>_. None)\<rparr>"

lemma start_world_simps [simp]:
  "w_db (start_world d) = d" "w_saved (start_world d) = None" "w_objects (start_world d) = (\<lambda>_. None)"
 "w_files (start_world d) = (\<lambda>_. None)"
  "w_faults (start_world d) = []" "w_now (start_world d) = 0" "w_lim (start_world d) = NewRateLimiter None"
  by (simp_all add: start_world_def)

definition tick :: "bool prog" where
  "tick = State (\<lambda>w. case w_faults w of
                       [] \<Rightarrow> (False, w)
                     | f # fs \<Rightarrow> (f, w\<lparr>w_faults := fs\<rparr>))"

definition now :: "int prog" where
  "now = State (\<lambda>w. (w_now w, w))"

section \<open>Database calls\<close>

definition exec_sql :: "'a query \<Rightarrow> 'a result prog" where
  "exec_sql f = do {
     failed \<leftarrow> tick;
     if failed then ret (Inl ErrIO)
     else State (\<lambda>w. let (r, d) = f (w_db w) in (r, w\<lparr>w_db := d\<rparr>))
   }"

definition begin_tx :: "unit result prog" where
  "begin_tx = do {
     failed \<leftarrow> tick;
     if failed then ret (Inl ErrIO)
     else State (\<lambda>w. (Inr (), w\<lparr>w_saved := Some (w_db w)\<rparr>))
   }"

fun restored :: "dbstate option \<Rightarrow> dbstate \<Rightarrow> dbstate" where
  "restored None d = d"
| "restored (Some d') d = d'"

text \<open>A failed commit has rolled the transaction back; a rollback after a commit does nothing.\<close>

definition commit_tx :: "unit result prog" where
  "commit_tx = do {
     failed \<leftarrow> tick;
     State (\<lambda>w. if failed
       then (Inl ErrIO, w\<lparr>w_db := restored (w_saved w) (w_db w), w_saved := None\<rparr>)
       else (Inr (), w\<lparr>w_saved := None\<rparr>))
   }"

definition rollback_tx :: "unit prog" where
  "rollback_tx = State (\<lambda>w. ((), w\<lparr>w_db := restored (w_saved w) (w_db w),
                                   w_saved := None\<rparr>))"

text \<open>\<^verbatim>\<open>tx, err := db.BeginTx(...)\<close>, a return on error, and \<^verbatim>\<open>defer tx.Rollback()\<close> around the body.\<close>

definition with_tx :: "'a result prog \<Rightarrow> 'a result prog" where
  "with_tx body = do {
     b \<leftarrow> begin_tx;
     case b of
       Inl e \<Rightarrow> ret (Inl (Wrap ''begin'' e))
     | Inr _ \<Rightarrow> do { r \<leftarrow> body; _ \<leftarrow> rollback_tx; ret r }
   }"

section \<open>Storage calls\<close>

definition st_Put :: "string \<Rightarrow> bytes \<Rightarrow> unit result prog" where
  "st_Put h data = do {
     failed \<leftarrow> tick;
     if failed then ret (Inl ErrIO)
     else State (\<lambda>w. (Inr (), w\<lparr>w_objects := (w_objects w)(h := Some data)\<rparr>))
   }"

definition st_Get :: "string \<Rightarrow> bytes result prog" where
  "st_Get h = do {
     failed \<leftarrow> tick;
     if failed then ret (Inl ErrIO)
     else State (\<lambda>w. (case w_objects w h of None \<Rightarrow> Inl ErrStorageBlobNotFound | Some b \<Rightarrow> Inr b, w))
   }"

definition st_Delete :: "string \<Rightarrow> unit result prog" where
  "st_Delete h = do {
     failed \<leftarrow> tick;
     if failed then ret (Inl ErrIO)
     else State (\<lambda>w. (Inr (), w\<lparr>w_objects := (w_objects w)(h := None)\<rparr>))
   }"

section \<open>Their weakest preconditions\<close>

text \<open>Whatever fails: the call either fails with no effect or does its work; in both cases some faults remain.\<close>

lemma wp_tick: "(\<And>f fs. Q f (w\<lparr>w_faults := fs\<rparr>)) \<Longrightarrow> wp tick Q w"
proof -
  assume *: "\<And>f fs. Q f (w\<lparr>w_faults := fs\<rparr>)"
  have "w\<lparr>w_faults := w_faults w\<rparr> = w" by simp
  with * [of False "w_faults w"] * show ?thesis
    by (auto simp: tick_def wp_simp split: list.split)
qed

lemma wp_exec [wp_intro]:
  assumes "\<And>fs. Q (Inl ErrIO) (w\<lparr>w_faults := fs\<rparr>)"
    and "\<And>fs r d. f (w_db w) = (r, d) \<Longrightarrow> Q r (w\<lparr>w_faults := fs, w_db := d\<rparr>)"
  shows "wp (exec_sql f) Q w"
  unfolding exec_sql_def wp_simp
  by (rule wp_tick) (auto simp: assms wp_simp split: prod.split)

lemma wp_begin [wp_intro]:
  assumes "\<And>fs. Q (Inl ErrIO) (w\<lparr>w_faults := fs\<rparr>)"
    and "\<And>fs. Q (Inr ()) (w\<lparr>w_faults := fs, w_saved := Some (w_db w)\<rparr>)"
  shows "wp begin_tx Q w"
  unfolding begin_tx_def wp_simp
  by (rule wp_tick) (auto simp: assms wp_simp)

lemma wp_commit [wp_intro]:
  assumes "\<And>fs. Q (Inl ErrIO) (w\<lparr>w_faults := fs,
               w_db := restored (w_saved w) (w_db w), w_saved := None\<rparr>)"
    and "\<And>fs. Q (Inr ()) (w\<lparr>w_faults := fs, w_saved := None\<rparr>)"
  shows "wp commit_tx Q w"
  unfolding commit_tx_def wp_simp
  by (rule wp_tick) (auto simp: assms wp_simp)

lemma wp_rollback [wp_simp]:
  "wp rollback_tx Q w
     = Q () (w\<lparr>w_db := restored (w_saved w) (w_db w), w_saved := None\<rparr>)"
  by (simp add: rollback_tx_def wp_simp)

lemma wp_now [wp_simp]: "wp now Q w = Q (w_now w) w"
  by (simp add: now_def wp_simp)

lemma wp_Put [wp_intro]:
  assumes "\<And>fs. Q (Inl ErrIO) (w\<lparr>w_faults := fs\<rparr>)"
    and "\<And>fs. Q (Inr ()) (w\<lparr>w_faults := fs, w_objects := (w_objects w)(h := Some data)\<rparr>)"
  shows "wp (st_Put h data) Q w"
  unfolding st_Put_def wp_simp
  by (rule wp_tick) (auto simp: assms wp_simp)

lemma wp_Get [wp_intro]:
  assumes "\<And>fs. Q (Inl ErrIO) (w\<lparr>w_faults := fs\<rparr>)"
    and "\<And>fs. w_objects w h = None \<Longrightarrow> Q (Inl ErrStorageBlobNotFound) (w\<lparr>w_faults := fs\<rparr>)"
    and "\<And>fs b. w_objects w h = Some b \<Longrightarrow> Q (Inr b) (w\<lparr>w_faults := fs\<rparr>)"
  shows "wp (st_Get h) Q w"
  unfolding st_Get_def wp_simp
  by (rule wp_tick) (auto simp: assms wp_simp split: option.split)

lemma wp_Delete [wp_intro]:
  assumes "\<And>fs. Q (Inl ErrIO) (w\<lparr>w_faults := fs\<rparr>)"
    and "\<And>fs. Q (Inr ()) (w\<lparr>w_faults := fs, w_objects := (w_objects w)(h := None)\<rparr>)"
  shows "wp (st_Delete h) Q w"
  unfolding st_Delete_def wp_simp
  by (rule wp_tick) (auto simp: assms wp_simp)

section \<open>Transactions\<close>

text \<open>Clock and upload counter.\<close>

definition same_env :: "world \<Rightarrow> world \<Rightarrow> bool" where
  "same_env w w' \<longleftrightarrow> w_now w' = w_now w \<and> w_lim w' = w_lim w"

lemma same_env_refl [simp]: "same_env w w"
  by (simp add: same_env_def)

lemma same_env_trans: "same_env w w' \<Longrightarrow> same_env w' w'' \<Longrightarrow> same_env w w''"
  by (simp add: same_env_def)

text \<open>
  \<open>txp body P d\<^sub>0 d\<close>: whatever fails, running the body of a transaction that began in \<open>d\<^sub>0\<close> and has reached
  \<open>d\<close> makes \<open>P\<close> true of the result and of the database the transaction leaves: \<open>d\<^sub>0\<close> unless it committed.
\<close>

definition txp :: "'a prog \<Rightarrow> ('a \<Rightarrow> dbstate \<Rightarrow> bool) \<Rightarrow> dbstate \<Rightarrow> dbstate \<Rightarrow> bool" where
  "txp body P d0 d \<longleftrightarrow>
     (\<forall>w. w_db w = d \<longrightarrow> w_saved w = Some d0 \<longrightarrow>
        wp body (\<lambda>r w'. w_objects w' = w_objects w \<and> same_env w w' \<and> P r (restored (w_saved w') (w_db w'))) w)"

named_theorems txp_rule \<open>rules for the body of a transaction\<close>

lemma txp_ret [txp_rule]: "P r d0 \<Longrightarrow> txp (ret r) P d0 d"
  by (simp add: txp_def wp_simp)

lemma txp_exec [txp_rule]:
  assumes "txp (g (Inl ErrIO)) P d0 d" "\<And>r d'. f d = (r, d') \<Longrightarrow> txp (g r) P d0 d'"
  shows "txp (State_Monad.bind (exec_sql f) g) P d0 d"
  unfolding txp_def wp_simp
proof (intro allI impI wp_exec)
  fix w :: world and fs assume w: "w_db w = d" "w_saved w = Some d0"
  show "wp (g (Inl ErrIO)) (\<lambda>r w'. w_objects w' = w_objects w \<and> same_env w w'
      \<and> P r (restored (w_saved w') (w_db w'))) (w\<lparr>w_faults := fs\<rparr>)"
    by (rule wp_mono [OF assms(1) [unfolded txp_def, rule_format]]) (simp_all add: w same_env_def)
next
  fix w :: world and fs r d' assume w: "w_db w = d" "w_saved w = Some d0" and f: "f (w_db w) = (r, d')"
  show "wp (g r) (\<lambda>r w'. w_objects w' = w_objects w \<and> same_env w w'
      \<and> P r (restored (w_saved w') (w_db w'))) (w\<lparr>w_faults := fs, w_db := d'\<rparr>)"
    by (rule wp_mono [OF assms(2) [unfolded txp_def, rule_format]]) (use w f in \<open>simp_all add: same_env_def\<close>)
qed

lemma txp_exec_eq:
  assumes "f d = (r, d')" "txp (g (Inl ErrIO)) P d0 d" "txp (g r) P d0 d'"
  shows "txp (State_Monad.bind (exec_sql f) g) P d0 d"
  using assms by (intro txp_exec) auto

lemma txp_commit [txp_rule]:
  assumes "P (g (Inl ErrIO)) d0" "P (g (Inr ())) d"
  shows "txp (State_Monad.bind commit_tx (\<lambda>k. ret (g k))) P d0 d"
  unfolding txp_def wp_simp using assms by (auto intro!: wp_commit simp: same_env_def)

lemma txp_now [txp_rule]: "(\<And>t. txp (g t) P d0 d) \<Longrightarrow> txp (State_Monad.bind now g) P d0 d"
  by (simp add: txp_def wp_simp)

lemma txp_if [txp_rule]: "(b \<Longrightarrow> txp m P d0 d) \<Longrightarrow> (\<not> b \<Longrightarrow> txp n P d0 d) \<Longrightarrow> txp (if b then m else n) P d0 d"
  by simp

lemma txp_case_sum [txp_rule]:
  "(\<And>e. r = Inl e \<Longrightarrow> txp (f e) P d0 d) \<Longrightarrow> (\<And>x. r = Inr x \<Longrightarrow> txp (g x) P d0 d)
     \<Longrightarrow> txp (case r of Inl e \<Rightarrow> f e | Inr x \<Rightarrow> g x) P d0 d"
  by (cases r) simp_all

lemma wp_with_tx:
  assumes "w_saved w = None" "P (Inl (Wrap ''begin'' ErrIO)) (w_db w)" "txp body P (w_db w) (w_db w)"
  shows "wp (with_tx body) (\<lambda>r w'. w_saved w' = None \<and> same_env w w' \<and> w_objects w' = w_objects w \<and> P r (w_db w')) w"
  unfolding with_tx_def wp_simp
proof (rule wp_begin; simp add: wp_simp assms(1,2) same_env_def)
  fix fs
  let ?w = "w\<lparr>w_faults := fs, w_saved := Some (w_db w)\<rparr>"
  have "wp body (\<lambda>r w'. w_objects w' = w_objects ?w \<and> same_env ?w w' \<and> P r (restored (w_saved w') (w_db w'))) ?w"
    using assms(3) [unfolded txp_def, rule_format, of ?w] by simp
  then show "wp body (\<lambda>r w'. w_now w' = w_now w \<and> w_lim w' = w_lim w \<and> w_objects w' = w_objects w
      \<and> P r (restored (w_saved w') (w_db w'))) ?w"
    by (rule wp_mono) (simp add: same_env_def)
qed

text \<open>With no failure to come, each call is one equation.\<close>

named_theorems no_fault \<open>weakest preconditions of the calls when nothing fails\<close>

lemma wp_tick_ok [no_fault]: "w_faults w = [] \<Longrightarrow> wp tick Q w = Q False w"
  by (simp add: tick_def wp_simp)

lemma wp_exec_ok [no_fault]:
  "w_faults w = [] \<Longrightarrow> wp (exec_sql f) Q w = (case f (w_db w) of (r, d) \<Rightarrow> Q r (w\<lparr>w_db := d\<rparr>))"
  by (simp add: exec_sql_def wp_simp no_fault split: prod.split)

lemma wp_begin_ok [no_fault]:
  "w_faults w = [] \<Longrightarrow> wp begin_tx Q w = Q (Inr ()) (w\<lparr>w_saved := Some (w_db w)\<rparr>)"
  by (simp add: begin_tx_def wp_simp no_fault)

lemma wp_commit_ok [no_fault]: "w_faults w = [] \<Longrightarrow> wp commit_tx Q w = Q (Inr ()) (w\<lparr>w_saved := None\<rparr>)"
  by (simp add: commit_tx_def wp_simp no_fault)

lemma wp_Put_ok [no_fault]:
  "w_faults w = [] \<Longrightarrow> wp (st_Put h data) Q w = Q (Inr ()) (w\<lparr>w_objects := (w_objects w)(h := Some data)\<rparr>)"
  by (simp add: st_Put_def wp_simp no_fault)

lemma wp_Get_ok [no_fault]:
  "w_faults w = [] \<Longrightarrow> wp (st_Get h) Q w
     = Q (case w_objects w h of None \<Rightarrow> Inl ErrStorageBlobNotFound | Some b \<Rightarrow> Inr b) w"
  by (simp add: st_Get_def wp_simp no_fault)

lemma wp_Delete_ok [no_fault]:
  "w_faults w = [] \<Longrightarrow> wp (st_Delete h) Q w = Q (Inr ()) (w\<lparr>w_objects := (w_objects w)(h := None)\<rparr>)"
  by (simp add: st_Delete_def wp_simp no_fault)

section \<open>Invariants of the database\<close>

text \<open>\<open>db_keeps J f\<close>: the query \<open>f\<close> preserves \<open>J\<close>; and \<open>on_db J\<close> is \<open>J\<close> for the database of a world, also for
  the copy an open transaction would return to.\<close>

definition db_keeps :: "(dbstate \<Rightarrow> bool) \<Rightarrow> 'a query \<Rightarrow> bool" where
  "db_keeps J f \<longleftrightarrow> (\<forall>d. J d \<longrightarrow> J (snd (f d)))"

definition on_db :: "(dbstate \<Rightarrow> bool) \<Rightarrow> world \<Rightarrow> bool" where
  "on_db J w \<longleftrightarrow> J (w_db w) \<and> (\<forall>d. w_saved w = Some d \<longrightarrow> J d)"

lemma keeps_exec: "db_keeps J f \<Longrightarrow> keeps (on_db J) (exec_sql f)"
  by (rule keepsI, rule wp_exec) (auto simp: on_db_def db_keeps_def dest: spec)

lemma restored_inv: "J d \<Longrightarrow> (\<forall>d'. s = Some d' \<longrightarrow> J d') \<Longrightarrow> J (restored s d)"
  by (cases s) auto

lemma keeps_on_db [keeps_rule]:
  "keeps (on_db J) tick" "keeps (on_db J) now" "keeps (on_db J) begin_tx" "keeps (on_db J) commit_tx"
  "keeps (on_db J) rollback_tx" "keeps (on_db J) (st_Put h data)" "keeps (on_db J) (st_Get h)"
  "keeps (on_db J) (st_Delete h)"
  by (auto intro!: keepsI wp_intro wp_tick simp: on_db_def wp_simp restored_inv)

lemma keeps_draw [keeps_rule]: "keeps (on_db J) (State (\<lambda>w. (f w, w\<lparr>w_rng := g w\<rparr>)))"
  by (rule keepsI) (simp add: wp_simp on_db_def)

lemma keeps_with_tx [keeps_rule]: "keeps (on_db J) body \<Longrightarrow> keeps (on_db J) (with_tx body)"
  unfolding with_tx_def by (intro keeps_rule)

text \<open>Read-only queries.\<close>

definition read_only :: "'a query \<Rightarrow> bool" where
  "read_only f \<longleftrightarrow> (\<forall>d. snd (f d) = d)"

lemma read_only_keeps: "read_only f \<Longrightarrow> db_keeps J f"
  by (simp add: read_only_def db_keeps_def)

named_theorems reads \<open>read-only queries\<close>

lemma read_only_queries [reads]:
  "read_only (q_GetBlobFromHash h)" "read_only (q_GetBlobRefCount h)" "read_only (q_GetBlobsFromPubkey pk)"
  "read_only (q_GetBlobsFromPubkeyLegacy pk)" "read_only (q_LockBlobRow h)"
  "read_only (q_CountBlobReferences h)" "read_only (q_GetBlobReference pk h)"
  "read_only (q_GetBlobReferencesByHash h)" "read_only (q_GetBlobReferencesByPubkey pk)"
  "read_only (q_HasBlobReference pk h)" "read_only q_CountOwnerlessBlobs" "read_only q_CountZeroRefBlobs"
  "read_only (q_ListOwnerlessBlobs n)" "read_only (q_GetUser pk)" "read_only q_GetUserCount"
  "read_only (q_GetUserQuota pk)" "read_only (q_ListUsers n m)"
  by (simp_all add: read_only_def q_GetBlobFromHash_def q_GetBlobRefCount_def q_GetBlobsFromPubkey_def
      q_GetBlobsFromPubkeyLegacy_def q_LockBlobRow_def q_CountBlobReferences_def q_GetBlobReference_def
      q_GetBlobReferencesByHash_def q_GetBlobReferencesByPubkey_def q_HasBlobReference_def
      q_CountOwnerlessBlobs_def q_CountZeroRefBlobs_def q_ListOwnerlessBlobs_def q_GetUser_def
      q_GetUserCount_def q_GetUserQuota_def q_ListUsers_def)

text \<open>A world with no failure to come stays one.\<close>

definition quiet :: "world \<Rightarrow> bool" where
  "quiet w \<longleftrightarrow> w_faults w = []"

lemma keeps_quiet [keeps_rule]:
  "keeps quiet tick" "keeps quiet now" "keeps quiet (exec_sql f)" "keeps quiet begin_tx" "keeps quiet commit_tx"
  "keeps quiet rollback_tx" "keeps quiet (st_Put h data)" "keeps quiet (st_Get h)" "keeps quiet (st_Delete h)"
  by (auto intro!: keepsI simp: quiet_def wp_simp no_fault split: prod.split)

lemma keeps_quiet_tx [keeps_rule]: "keeps quiet body \<Longrightarrow> keeps quiet (with_tx body)"
  unfolding with_tx_def by (intro keeps_rule)

text \<open>A call that fails only in a world with failures to come.\<close>

lemma wp_exec_either:
  assumes "f (w_db w) = (r, d)" "\<And>fs. \<not> quiet w \<Longrightarrow> Q (Inl ErrIO) (w\<lparr>w_faults := fs\<rparr>)"
    and "\<And>fs. (quiet w \<Longrightarrow> fs = []) \<Longrightarrow> Q r (w\<lparr>w_faults := fs, w_db := d\<rparr>)"
  shows "wp (exec_sql f) Q w"
proof (cases "quiet w")
  case True
  then have e: "w\<lparr>w_db := d\<rparr> = w\<lparr>w_faults := [], w_db := d\<rparr>" by (simp add: quiet_def)
  have "wp (exec_sql f) Q w = Q r (w\<lparr>w_db := d\<rparr>)" using True assms(1) by (simp add: no_fault quiet_def)
  then show ?thesis using assms(3) unfolding e by blast
qed (use assms in \<open>auto intro!: wp_exec\<close>)

end
