(* ===== verification/Encryption.thy ===== *)
theory Encryption
  imports World
begin

text \<open>
  \<^verbatim>\<open>internal/encryption/encryption.go\<close>: envelope encryption at rest. Every blob is sealed under a data key
  of its own, which is sealed under the master key and kept with the nonce, base64 encoded, in the blob's
  row. The cipher (AES-256-GCM of Go's \<^verbatim>\<open>crypto\<close> library) and the random source are parameters of the
  encryptor; \<open>aead_ok\<close> states what the code relies on. Hexadecimal and base64 (Go's standard library) are
  written out.
\<close>

section \<open>Hexadecimal and base64\<close>

definition hex_val :: "char \<Rightarrow> nat option" where
  "hex_val c = (let n = (of_char c :: nat) in
     if 48 \<le> n \<and> n \<le> 57 then Some (n - 48)
     else if 97 \<le> n \<and> n \<le> 102 then Some (n - 87)
     else if 65 \<le> n \<and> n \<le> 70 then Some (n - 55) else None)"

fun hex_decode :: "string \<Rightarrow> bytes option" where
  "hex_decode [] = Some []"
| "hex_decode [c] = None"
| "hex_decode (c # d # cs) =
     (case (hex_val c, hex_val d, hex_decode cs) of
        (Some x, Some y, Some bs) \<Rightarrow> Some (word_of_nat (16 * x + y) # bs)
      | _ \<Rightarrow> None)"

definition b64_alphabet :: string where
  "b64_alphabet = ''ABCDEFGHIJKLMNOPQRSTUVWXYZabcdefghijklmnopqrstuvwxyz0123456789+/''"

definition b64_char :: "nat \<Rightarrow> char" where
  "b64_char n = b64_alphabet ! n"

definition b64_val :: "char \<Rightarrow> nat option" where
  "b64_val c = find (\<lambda>n. b64_char n = c) [0..<64]"

fun b64_encode :: "bytes \<Rightarrow> string" where
  "b64_encode [] = []"
| "b64_encode [a] = [b64_char (unat a div 4), b64_char (unat a mod 4 * 16), CHR ''='', CHR ''='']"
| "b64_encode [a, b] =
     [b64_char (unat a div 4), b64_char (unat a mod 4 * 16 + unat b div 16),
      b64_char (unat b mod 16 * 4), CHR ''='']"
| "b64_encode (a # b # c # cs) =
     [b64_char (unat a div 4), b64_char (unat a mod 4 * 16 + unat b div 16),
      b64_char (unat b mod 16 * 4 + unat c div 64), b64_char (unat c mod 64)] @ b64_encode cs"

definition b64_bytes :: "nat list \<Rightarrow> bytes" where
  "b64_bytes vs = map word_of_nat
     (case vs of
        [x, y] \<Rightarrow> [x * 4 + y div 16]
      | [x, y, z] \<Rightarrow> [x * 4 + y div 16, y mod 16 * 16 + z div 4]
      | [x, y, z, t] \<Rightarrow> [x * 4 + y div 16, y mod 16 * 16 + z div 4, z mod 4 * 64 + t]
      | _ \<Rightarrow> [])"

fun b64_decode4 :: "string \<Rightarrow> bytes option" where
  "b64_decode4 [] = Some []"
| "b64_decode4 (x # y # z # t # cs) =
     (case (b64_val x, b64_val y) of
        (Some a, Some b) \<Rightarrow>
          if z = CHR ''='' then (if t = CHR ''='' \<and> cs = [] then Some (b64_bytes [a, b]) else None)
          else (case b64_val z of
                  None \<Rightarrow> None
                | Some c \<Rightarrow>
                    if t = CHR ''='' then (if cs = [] then Some (b64_bytes [a, b, c]) else None)
                    else (case (b64_val t, b64_decode4 cs) of
                            (Some d, Some bs) \<Rightarrow> Some (b64_bytes [a, b, c, d] @ bs)
                          | _ \<Rightarrow> None))
      | _ \<Rightarrow> None)"
| "b64_decode4 cs = None"

text \<open>The decoder skips line breaks.\<close>

definition b64_decode :: "string \<Rightarrow> bytes option" where
  "b64_decode s = b64_decode4 (filter (\<lambda>c. c \<noteq> CHR 0x0A \<and> c \<noteq> CHR 0x0D) s)"

lemma b64_table:
  "\<forall>n < 64. b64_val (b64_char n) = Some n \<and> b64_char n \<noteq> CHR ''=''
     \<and> b64_char n \<noteq> CHR 0x0A \<and> b64_char n \<noteq> CHR 0x0D"
proof -
  have "list_all (\<lambda>n. b64_val (b64_char n) = Some n \<and> b64_char n \<noteq> CHR ''=''
     \<and> b64_char n \<noteq> CHR 0x0A \<and> b64_char n \<noteq> CHR 0x0D) [0..<64]"
    by code_simp
  then show ?thesis by (simp add: list_all_iff)
qed

lemmas b64_val_char [simp] = b64_table [rule_format, THEN conjunct1]

lemma b64_char_plain [simp]:
  "n < 64 \<Longrightarrow> b64_char n \<noteq> CHR ''=''" "n < 64 \<Longrightarrow> b64_char n \<noteq> CHR 0x0A"
  "n < 64 \<Longrightarrow> b64_char n \<noteq> CHR 0x0D"
  using b64_table by auto

lemma unat_byte: "unat (a :: byte) < 256"
proof -
  have "unat a < 2 ^ LENGTH(8)" by (rule unsigned_less)
  then show ?thesis by simp
qed

lemma b64_arith:
  fixes x y z :: nat
  assumes "x < 256" "y < 256" "z < 256"
  shows "x div 4 < 64" "x mod 4 * 16 < 64" "x mod 4 * 16 + y div 16 < 64" "y mod 16 * 4 < 64"
    "y mod 16 * 4 + z div 64 < 64" "z mod 64 < 64"
    "x div 4 * 4 + (x mod 4 * 16) div 16 = x" "x div 4 * 4 + (x mod 4 * 16 + y div 16) div 16 = x"
    "(x mod 4 * 16 + y div 16) mod 16 * 16 + (y mod 16 * 4) div 4 = y"
    "(x mod 4 * 16 + y div 16) mod 16 * 16 + (y mod 16 * 4 + z div 64) div 4 = y"
    "(y mod 16 * 4 + z div 64) mod 4 * 64 + z mod 64 = z"
proof -
  have d: "y div 16 < 16" "z div 64 < 4" using assms by auto
  show "x div 4 < 64" "x mod 4 * 16 < 64" "x mod 4 * 16 + y div 16 < 64" "y mod 16 * 4 < 64"
    "y mod 16 * 4 + z div 64 < 64" "z mod 64 < 64"
    using assms d by linarith+
  show "x div 4 * 4 + (x mod 4 * 16) div 16 = x" by simp
  show "x div 4 * 4 + (x mod 4 * 16 + y div 16) div 16 = x" using d by simp
  show "(x mod 4 * 16 + y div 16) mod 16 * 16 + (y mod 16 * 4) div 4 = y" using d by simp
  show "(x mod 4 * 16 + y div 16) mod 16 * 16 + (y mod 16 * 4 + z div 64) div 4 = y" using d by simp
  show "(y mod 16 * 4 + z div 64) mod 4 * 64 + z mod 64 = z" using d by simp
qed

lemmas b64_byte = b64_arith [OF unat_byte unat_byte unat_byte]

lemma b64_bytes_inverse:
  "b64_bytes [unat a div 4, unat a mod 4 * 16] = [a]"
  "b64_bytes [unat a div 4, unat a mod 4 * 16 + unat b div 16, unat b mod 16 * 4] = [a, b]"
  "b64_bytes [unat a div 4, unat a mod 4 * 16 + unat b div 16, unat b mod 16 * 4 + unat c div 64,
     unat c mod 64] = [a, b, c]"
  unfolding b64_bytes_def by (simp_all only: list.case list.map b64_byte) simp_all

text \<open>Base64 round trip: decoding an encoded byte string returns it.\<close>

lemma b64_roundtrip: "b64_decode (b64_encode bs) = Some bs"
proof (induction bs rule: b64_encode.induct)
  case 1
  show ?case by (simp add: b64_decode_def)
next
  case (2 a)
  show ?case by (simp add: b64_decode_def b64_bytes_inverse b64_byte)
next
  case (3 a b)
  show ?case by (simp add: b64_decode_def b64_bytes_inverse b64_byte)
next
  case (4 a b c cs)
  then show ?case by (simp add: b64_decode_def b64_bytes_inverse b64_byte)
qed

section \<open>Envelope encryption\<close>

record encryptor =
  e_kek :: bytes
  e_seal :: "bytes \<Rightarrow> bytes \<Rightarrow> bytes \<Rightarrow> bytes"
  e_open :: "bytes \<Rightarrow> bytes \<Rightarrow> bytes \<Rightarrow> bytes option"
  e_random :: "nat \<Rightarrow> nat \<Rightarrow> bytes"

record enc_blob =
  eb_ciphertext :: bytes
  eb_dek :: string
  eb_nonce :: string
  eb_size :: int
  eb_mode :: string

definition nonce_size :: nat where
  "nonce_size = 12"

text \<open>What is relied on: opening undoes sealing under the same key and nonce, and the random source
  returns as many bytes as it is asked for.\<close>

definition aead_ok :: "encryptor \<Rightarrow> bool" where
  "aead_ok e \<longleftrightarrow> (\<forall>k n p. e_open e k n (e_seal e k n p) = Some p) \<and> (\<forall>i n. length (e_random e i n) = n)"

text \<open>\<^verbatim>\<open>io.ReadFull(rand.Reader, buf)\<close>.\<close>

definition read_random :: "encryptor \<Rightarrow> nat \<Rightarrow> bytes result prog" where
  "read_random e n = do {
     failed \<leftarrow> tick;
     if failed then ret (Inl ErrIO)
     else State (\<lambda>w. (Inr (e_random e (w_rng w) n), w\<lparr>w_rng := Suc (w_rng w)\<rparr>))
   }"

definition NewEncryptor ::
  "(bytes \<Rightarrow> bytes \<Rightarrow> bytes \<Rightarrow> bytes) \<Rightarrow> (bytes \<Rightarrow> bytes \<Rightarrow> bytes \<Rightarrow> bytes option)
     \<Rightarrow> (nat \<Rightarrow> nat \<Rightarrow> bytes) \<Rightarrow> string \<Rightarrow> encryptor result" where
  "NewEncryptor seal open' random hex =
     (if hex = [] then Inl (Msg ''encryption is not enabled'')
      else case hex_decode hex of
             None \<Rightarrow> Inl (Msg ''key must be valid hex-encoded 32 bytes'')
           | Some k \<Rightarrow>
               if length k \<noteq> 32 then Inl (Msg ''key must be 32 bytes (256 bits)'')
               else Inr \<lparr>e_kek = k, e_seal = seal, e_open = open', e_random = random\<rparr>)"

text \<open>\<^verbatim>\<open>aes.NewCipher\<close> fails for a key that is not 16, 24 or 32 bytes long.\<close>

definition NewCipher :: "bytes \<Rightarrow> unit result" where
  "NewCipher k = (if length k \<in> {16, 24, 32} then Inr () else Inl (Msg ''crypto/aes: invalid key size''))"

definition Encrypt :: "encryptor \<Rightarrow> bytes \<Rightarrow> enc_blob result prog" where
  "Encrypt e plaintext = do {
     r1 \<leftarrow> read_random e 32;
     case r1 of
       Inl er \<Rightarrow> ret (Inl (Wrap ''failed to generate DEK'' er))
     | Inr dek \<Rightarrow>
         (case NewCipher dek of
            Inl er \<Rightarrow> ret (Inl (Wrap ''failed to create data cipher'' er))
          | Inr _ \<Rightarrow> do {
              r2 \<leftarrow> read_random e nonce_size;
              case r2 of
                Inl er \<Rightarrow> ret (Inl (Wrap ''failed to generate data nonce'' er))
              | Inr dataNonce \<Rightarrow> do {
                  r3 \<leftarrow> read_random e nonce_size;
                  case r3 of
                    Inl er \<Rightarrow> ret (Inl (Wrap ''failed to generate KEK nonce'' er))
                  | Inr kekNonce \<Rightarrow>
                      ret (Inr \<lparr>eb_ciphertext = e_seal e dek dataNonce plaintext,
                                eb_dek = b64_encode (kekNonce @ e_seal e (e_kek e) kekNonce dek),
                                eb_nonce = b64_encode dataNonce,
                                eb_size = int (length plaintext),
                                eb_mode = ''server''\<rparr>)
                }
            })
   }"

definition Decrypt :: "encryptor \<Rightarrow> enc_blob \<Rightarrow> bytes result" where
  "Decrypt e b =
     (if eb_mode b = ''none'' \<or> eb_mode b = ''e2e'' then Inr (eb_ciphertext b)
      else case b64_decode (eb_dek b) of
        None \<Rightarrow> Inl (Wrap ''failed to decode encrypted DEK'' ErrDecrypt)
      | Some encryptedDEK \<Rightarrow>
          if length encryptedDEK < nonce_size then Inl ErrDecrypt
          else (case e_open e (e_kek e) (take nonce_size encryptedDEK) (drop nonce_size encryptedDEK) of
            None \<Rightarrow> Inl ErrDecrypt
          | Some dek \<Rightarrow>
              (case NewCipher dek of
                 Inl er \<Rightarrow> Inl (Wrap ''failed to create data cipher'' er)
               | Inr _ \<Rightarrow>
                   (case b64_decode (eb_nonce b) of
                      None \<Rightarrow> Inl (Wrap ''failed to decode nonce'' ErrDecrypt)
                    | Some dataNonce \<Rightarrow>
                        if length dataNonce \<noteq> nonce_size then Inl ErrDecrypt
                        else (case e_open e dek dataNonce (eb_ciphertext b) of
                                None \<Rightarrow> Inl ErrDecrypt
                              | Some p \<Rightarrow> Inr p)))))"

definition IsEnabled :: "encryptor option \<Rightarrow> bool" where
  "IsEnabled e = (case e of None \<Rightarrow> False | Some e \<Rightarrow> length (e_kek e) = 32)"

text \<open>Only \<open>w_faults\<close> and \<open>w_rng\<close> change.\<close>

lemma wp_read_random [wp_intro]:
  assumes "\<And>fs. Q (Inl ErrIO) (w\<lparr>w_faults := fs\<rparr>)"
    and "\<And>fs. Q (Inr (e_random e (w_rng w) n)) (w\<lparr>w_faults := fs, w_rng := Suc (w_rng w)\<rparr>)"
  shows "wp (read_random e n) Q w"
  unfolding read_random_def wp_simp
  by (rule wp_tick) (auto simp: assms wp_simp)

lemma wp_read_random_ok [no_fault]:
  "w_faults w = [] \<Longrightarrow> wp (read_random e n) Q w
     = Q (Inr (e_random e (w_rng w) n)) (w\<lparr>w_rng := Suc (w_rng w)\<rparr>)"
  by (simp add: read_random_def wp_simp no_fault)

lemma wp_Encrypt:
  assumes ok: "aead_ok e"
    and err: "\<And>er fs g. Q (Inl er) (w\<lparr>w_faults := fs, w_rng := g\<rparr>)"
    and good: "\<And>b fs g. Decrypt e b = Inr p \<Longrightarrow> eb_size b = int (length p) \<Longrightarrow> eb_mode b = ''server''
                 \<Longrightarrow> Q (Inr b) (w\<lparr>w_faults := fs, w_rng := g\<rparr>)"
  shows "wp (Encrypt e p) Q w"
proof -
  have e': "Q (Inl er) (w\<lparr>w_faults := fs\<rparr>)" for er fs
    using err [where er = er and fs = fs and g = "w_rng w"] by simp
  have e'': "Q (Inl er) (w\<lparr>w_rng := g, w_faults := fs\<rparr>)" for er fs g
  proof -
    have eq: "w\<lparr>w_rng := g, w_faults := fs\<rparr> = w\<lparr>w_faults := fs, w_rng := g\<rparr>" by (cases w) simp
    show ?thesis unfolding eq by (rule err)
  qed
  have len: "length (e_random e i n) = n" and
    opn: "e_open e k n' (e_seal e k n' q) = Some q" for i n k n' q
    using ok by (auto simp: aead_ok_def)
  show ?thesis
    unfolding Encrypt_def wp_simp
    by (intro wp_intro)
      (auto simp: wp_simp NewCipher_def len e' e'' err intro!: wp_intro good
        simp: Decrypt_def b64_roundtrip opn nonce_size_def)
qed

lemma keeps_quiet_Encrypt [keeps_rule]: "keeps quiet (Encrypt e p)"
proof -
  have "keeps quiet (read_random e n)" for n
    by (auto intro!: keepsI simp: quiet_def wp_simp no_fault)
  then show ?thesis unfolding Encrypt_def by (intro keeps_rule)
qed

text \<open>Envelope encryption round trip: when nothing fails, \<open>Encrypt\<close> returns a blob that \<open>Decrypt\<close> turns back
  into the plaintext, with the plaintext's length as its original size.\<close>

theorem encrypt_decrypt:
  assumes "aead_ok e" "w_faults w = []"
  shows "\<exists>b. fst (run_state (Encrypt e p) w) = Inr b \<and> Decrypt e b = Inr p \<and> eb_size b = int (length p)"
proof -
  have len: "length (e_random e i n) = n" and
    opn: "e_open e k n' (e_seal e k n' q) = Some q" for i n k n' q
    using assms(1) by (auto simp: aead_ok_def)
  have "wp (Encrypt e p) (\<lambda>r w'. \<exists>b. r = Inr b \<and> Decrypt e b = Inr p \<and> eb_size b = int (length p)) w"
    using assms(2)
    by (simp add: Encrypt_def wp_simp no_fault NewCipher_def len Decrypt_def b64_roundtrip opn nonce_size_def)
  then show ?thesis by (auto simp: wp_def split: prod.splits)
qed

definition null_cipher :: encryptor where
  "null_cipher = \<lparr>e_kek = replicate 32 0, e_seal = (\<lambda>k n p. n @ p), e_open = (\<lambda>k n c. Some (drop (length n) c)),
                  e_random = (\<lambda>i n. replicate n (word_of_nat i))\<rparr>"

lemma null_cipher_ok: "aead_ok null_cipher"
  by (simp add: aead_ok_def null_cipher_def)

theorem encrypt_decrypt_witness:
  "\<exists>b. fst (run_state (Encrypt null_cipher [1, 2, 3]) (start_world empty_db)) = Inr b
     \<and> Decrypt null_cipher b = Inr [1, 2, 3] \<and> eb_size b = 3"
  using encrypt_decrypt [OF null_cipher_ok, of "start_world empty_db" "[1, 2, 3]"]
  by (simp add: start_world_def)

end
