(* ===== verification/BlobState.thy ===== *)
theory BlobState
  imports World
begin

text \<open>
  What the tables \<^verbatim>\<open>blobs\<close> and \<^verbatim>\<open>blob_references\<close> stand for: a map from hashes to a blob and the set of
  the keys that own it. The invariant of the tables, what each query does to the map, and that each
  query keeps the invariant.
\<close>

section \<open>The invariant\<close>

text \<open>Primary keys are unique and every reference points to a blob.\<close>

definition db_keys :: "dbstate \<Rightarrow> bool" where
  "db_keys d \<longleftrightarrow>
     distinct (map b_hash (t_blobs d)) \<and>
     distinct (map (\<lambda>r. (r_pubkey r, r_hash r)) (t_refs d)) \<and>
     (\<forall>r \<in> set (t_refs d). r_hash r \<in> b_hash ` set (t_blobs d)) \<and>
     distinct (map u_pubkey (t_users d))"

definition n_refs :: "string \<Rightarrow> dbstate \<Rightarrow> int" where
  "n_refs h d = int (length (filter (\<lambda>r. r_hash r = h) (t_refs d)))"

text \<open>The counter of a blob is the number of its references, or one more: a blob is inserted with count 1
  before its first reference, and stays so when that insert fails.\<close>

definition ref_counts :: "dbstate \<Rightarrow> bool" where
  "ref_counts d \<longleftrightarrow> (\<forall>b \<in> set (t_blobs d). n_refs (b_hash b) d \<le> b_refcount b \<and> b_refcount b \<le> n_refs (b_hash b) d + 1)"

definition db_inv :: "dbstate \<Rightarrow> bool" where
  "db_inv d \<longleftrightarrow> db_keys d \<and> ref_counts d"

lemma empty_db_simps [simp]:
  "t_blobs empty_db = []" "t_refs empty_db = []" "t_users empty_db = []" "t_policies empty_db = []"
  "t_removed empty_db = []" "t_sessions empty_db = []" "t_chunks empty_db = []" "t_tus empty_db = []"
  "t_tus_chunks empty_db = []" "t_reports empty_db = []" "t_blocklist empty_db = []"
  by (simp_all add: empty_db_def)

lemma db_inv_empty [simp]: "db_inv empty_db"
  by (simp add: db_inv_def db_keys_def ref_counts_def)

section \<open>The map of owned blobs\<close>

text \<open>The counter is not part of what a blob stands for.\<close>

definition bare :: "blob_row \<Rightarrow> blob_row" where
  "bare b = b\<lparr>b_refcount := 0\<rparr>"

lemma bare_simps [simp]:
  "b_hash (bare b) = b_hash b" "b_size (bare b) = b_size b" "b_blob (bare b) = b_blob b"
  "b_orig (bare b) = b_orig b" "b_mode (bare b) = b_mode b" "b_dek (bare b) = b_dek b"
  "b_nonce (bare b) = b_nonce b" "b_created (bare b) = b_created b" "b_type (bare b) = b_type b"
  "b_pubkey (bare b) = b_pubkey b" "b_expires (bare b) = b_expires b" "bare (bare b) = bare b"
  by (simp_all add: bare_def)

definition owner_set :: "string \<Rightarrow> dbstate \<Rightarrow> string set" where
  "owner_set h d = set (owners h d)"

definition owned :: "dbstate \<Rightarrow> string \<Rightarrow> (blob_row \<times> string set) option" where
  "owned d h = map_option (\<lambda>b. (bare b, owner_set h d)) (blob_of h d)"

text \<open>The tables other than \<^verbatim>\<open>blobs\<close> and \<^verbatim>\<open>blob_references\<close>.\<close>

definition others :: "dbstate \<Rightarrow> dbstate" where
  "others d = d\<lparr>t_blobs := [], t_refs := []\<rparr>"

lemma others_update [simp]:
  "others (d\<lparr>t_blobs := bs\<rparr>) = others d" "others (d\<lparr>t_refs := rs\<rparr>) = others d"
  "others (delete_blobs P d) = others d"
  by (simp_all add: others_def delete_blobs_def)

lemma others_users: "others d' = others d \<Longrightarrow> t_users d' = t_users d"
  by (auto simp: others_def dest: arg_cong [where f = t_users])

lemma owner_set_iff: "pk \<in> owner_set h d \<longleftrightarrow> (\<exists>r \<in> set (t_refs d). is_ref pk h r)"
  by (auto simp: owner_set_def owners_def is_ref_def)

lemma find_hash_Some: "find (has_hash h) bs = Some b \<Longrightarrow> b \<in> set bs \<and> b_hash b = h"
  by (induction bs) (auto simp: has_hash_def split: if_splits)

lemma find_hash_None: "find (has_hash h) bs = None \<longleftrightarrow> h \<notin> b_hash ` set bs"
  by (auto simp: find_None_iff has_hash_def)

lemma blob_of_Some: "blob_of h d = Some b \<Longrightarrow> b \<in> set (t_blobs d) \<and> b_hash b = h"
  by (auto simp: blob_of_def dest: find_hash_Some)

lemma blob_of_None: "blob_of h d = None \<longleftrightarrow> h \<notin> b_hash ` set (t_blobs d)"
  by (simp add: blob_of_def find_hash_None)

lemma blob_of_mem: "db_keys d \<Longrightarrow> b \<in> set (t_blobs d) \<Longrightarrow> blob_of (b_hash b) d = Some b"
proof -
  assume k: "db_keys d" and b: "b \<in> set (t_blobs d)"
  then obtain b' where b': "blob_of (b_hash b) d = Some b'"
    using blob_of_None [of "b_hash b" d] by (cases "blob_of (b_hash b) d") auto
  with k b blob_of_Some [OF b'] have "b' = b"
    by (auto simp: db_keys_def distinct_map dest: inj_onD)
  with b' show ?thesis by simp
qed

lemma first_row_blob: "first_row (has_hash h) (t_blobs d) = (case blob_of h d of None \<Rightarrow> Inl ErrNoRows | Some b \<Rightarrow> Inr b)"
  by (simp add: first_row_def blob_of_def)

text \<open>The size an owner is charged for a blob: that of the uploaded bytes, not of the ciphertext.\<close>

definition charge :: "blob_row \<Rightarrow> int" where
  "charge b = (case b_orig b of Some n \<Rightarrow> n | None \<Rightarrow> b_size b)"

lemma charge_bare [simp]: "charge (bare b) = charge b"
  by (simp add: charge_def split: option.split)

text \<open>The abstract operations: one more owner, one owner less (the last one takes the blob with it).\<close>

type_synonym owner_map = "string \<Rightarrow> (blob_row \<times> string set) option"

definition add_owner :: "string \<Rightarrow> string \<Rightarrow> owner_map \<Rightarrow> owner_map" where
  "add_owner pk h m = m(h := map_option (\<lambda>(b, S). (b, insert pk S)) (m h))"

definition drop_owner :: "string \<Rightarrow> string \<Rightarrow> owner_map \<Rightarrow> owner_map" where
  "drop_owner pk h m =
     m(h := (case m h of None \<Rightarrow> None
             | Some (b, S) \<Rightarrow> if S - {pk} = {} then None else Some (b, S - {pk})))"

definition owns :: "string \<Rightarrow> string \<Rightarrow> owner_map \<Rightarrow> bool" where
  "owns pk h m \<longleftrightarrow> (case m h of None \<Rightarrow> False | Some (b, S) \<Rightarrow> pk \<in> S)"

lemma add_owner_idem: "owns pk h m \<Longrightarrow> add_owner pk h m = m"
  by (auto simp: owns_def add_owner_def insert_absorb split: option.splits)

lemma owned_None: "owned d h = None \<longleftrightarrow> h \<notin> b_hash ` set (t_blobs d)"
  by (simp add: owned_def blob_of_None)

lemma owned_blob: "owned d h = Some (x, S) \<Longrightarrow> \<exists>b. blob_of h d = Some b \<and> x = bare b \<and> S = owner_set h d"
  by (auto simp: owned_def)

lemma no_blob_no_owner: "db_keys d \<Longrightarrow> h \<notin> b_hash ` set (t_blobs d) \<Longrightarrow> owner_set h d = {}"
  by (auto simp: db_keys_def owner_set_def owners_def)

lemma owns_owned: "db_keys d \<Longrightarrow> owns pk h (owned d) \<longleftrightarrow> pk \<in> owner_set h d"
  using no_blob_no_owner [of d h]
  by (auto simp: owns_def owned_def blob_of_None split: option.splits)

lemma n_refs_zero: "n_refs h d = 0 \<longleftrightarrow> owner_set h d = {}"
  by (auto simp: n_refs_def owner_set_def owners_def filter_empty_conv)

section \<open>Inserting a blob\<close>

lemma q_InsertBlob_cases:
  assumes "q_InsertBlob b d = (r, d')"
  obtains e where "r = Inl e" "d' = d"
  | "r = Inr (b\<lparr>b_expires := None\<rparr>)" "b_hash b \<notin> b_hash ` set (t_blobs d)"
      "d' = d\<lparr>t_blobs := t_blobs d @ [b\<lparr>b_expires := None\<rparr>]\<rparr>"
proof (cases "\<exists>e. q_InsertBlob b d = (Inl e, d)")
  case True
  with assms that(1) show ?thesis by auto
next
  case False
  then have "b_hash b \<notin> b_hash ` set (t_blobs d)"
    "q_InsertBlob b d = (Inr (b\<lparr>b_expires := None\<rparr>), d\<lparr>t_blobs := t_blobs d @ [b\<lparr>b_expires := None\<rparr>]\<rparr>)"
    by (auto simp: q_InsertBlob_def split: if_splits)
  with assms that(2) show ?thesis by simp
qed

lemma insert_blob:
  assumes "db_keys d" "b_hash b \<notin> b_hash ` set (t_blobs d)"
  shows "db_keys (d\<lparr>t_blobs := t_blobs d @ [b]\<rparr>)"
    "owned (d\<lparr>t_blobs := t_blobs d @ [b]\<rparr>) = (owned d)(b_hash b := Some (bare b, {}))"
    "ref_counts d \<Longrightarrow> b_refcount b = 1 \<Longrightarrow> ref_counts (d\<lparr>t_blobs := t_blobs d @ [b]\<rparr>)"
proof -
  let ?d = "d\<lparr>t_blobs := t_blobs d @ [b]\<rparr>"
  have o: "owner_set h ?d = owner_set h d" "n_refs h ?d = n_refs h d" for h
    by (simp_all add: owner_set_def owners_def n_refs_def)
  have e: "owner_set (b_hash b) d = {}" using assms by (rule no_blob_no_owner)
  have f: "find (has_hash h) (xs @ [b]) = (case find (has_hash h) xs of None \<Rightarrow>
      if b_hash b = h then Some b else None | Some x \<Rightarrow> Some x)" for h xs
    by (induction xs) (auto simp: has_hash_def)
  show "db_keys ?d" using assms by (auto simp: db_keys_def)
  show "owned ?d = (owned d)(b_hash b := Some (bare b, {}))"
  proof
    fix h show "owned ?d h = ((owned d)(b_hash b := Some (bare b, {}))) h"
      using assms(2) e by (auto simp: owned_def blob_of_def o f find_hash_None [symmetric] split: option.splits)
  qed
  show "ref_counts d \<Longrightarrow> b_refcount b = 1 \<Longrightarrow> ref_counts ?d"
    using e n_refs_zero [of "b_hash b" d] by (auto simp: ref_counts_def o)
qed

section \<open>References\<close>

lemma q_CreateBlobReference_cases:
  assumes "q_CreateBlobReference pk h t d = (r, d')"
  obtains "r = Inl ErrNoRows" "d' = d" "pk \<in> owner_set h d"
  | "r = Inl ErrConstraint" "d' = d" "pk \<notin> owner_set h d" "h \<notin> b_hash ` set (t_blobs d)"
  | x where "r = Inr x" "pk \<notin> owner_set h d" "h \<in> b_hash ` set (t_blobs d)"
      "d' = d\<lparr>t_refs := t_refs d @ [\<lparr>r_pubkey = pk, r_hash = h, r_created = t\<rparr>]\<rparr>"
proof -
  note q = assms [unfolded q_CreateBlobReference_def owner_set_iff [symmetric] Let_def]
  consider "pk \<in> owner_set h d" | "pk \<notin> owner_set h d" "h \<notin> b_hash ` set (t_blobs d)"
    | "pk \<notin> owner_set h d" "h \<in> b_hash ` set (t_blobs d)" by blast
  then show ?thesis
  proof cases
    case 1
    from q 1 have "r = Inl ErrNoRows" "d' = d" by auto
    then show ?thesis using 1 by (rule that(1))
  next
    case 2
    from q 2 have "r = Inl ErrConstraint" "d' = d" by (auto split: if_splits)
    then show ?thesis using 2 by (rule that(2))
  next
    case 3
    then have "\<exists>b \<in> set (t_blobs d). b_hash b = h" by auto
    with q 3 have "r = Inr \<lparr>r_pubkey = pk, r_hash = h, r_created = t\<rparr>"
      "d' = d\<lparr>t_refs := t_refs d @ [\<lparr>r_pubkey = pk, r_hash = h, r_created = t\<rparr>]\<rparr>" by auto
    then show ?thesis using 3 by (intro that(3))
  qed
qed

lemma insert_ref:
  fixes t :: int
  assumes "db_keys d" "pk \<notin> owner_set h d" "h \<in> b_hash ` set (t_blobs d)"
  defines "d' \<equiv> d\<lparr>t_refs := t_refs d @ [\<lparr>r_pubkey = pk, r_hash = h, r_created = t\<rparr>]\<rparr>"
  shows "db_keys d'"
    "owned d' = (owned d)(h := map_option (\<lambda>(b, S). (b, insert pk S)) (owned d h))"
    "n_refs h' d' = n_refs h' d + (if h' = h then 1 else 0)"
proof -
  have o: "owner_set h' d' = (if h' = h then insert pk (owner_set h d) else owner_set h' d)" for h'
    by (auto simp: owner_set_def owners_def d'_def)
  show "db_keys d'"
    using assms by (auto simp: db_keys_def owner_set_iff is_ref_def)
  show "owned d' = (owned d)(h := map_option (\<lambda>(b, S). (b, insert pk S)) (owned d h))"
  proof
    fix h' show "owned d' h' = ((owned d)(h := map_option (\<lambda>(b, S). (b, insert pk S)) (owned d h))) h'"
      by (auto simp: owned_def o blob_of_def option.map_comp comp_def) (auto simp: d'_def)
  qed
  show "n_refs h' d' = n_refs h' d + (if h' = h then 1 else 0)"
    by (simp add: n_refs_def d'_def)
qed

lemma insert_blob_ref:
  fixes t :: int
  assumes "db_inv d" "h \<notin> b_hash ` set (t_blobs d)" "b_hash b = h" "b_refcount b = 1"
    and "d1 = d\<lparr>t_blobs := t_blobs d @ [b]\<rparr>"
    and "d2 = d1\<lparr>t_refs := t_refs d1 @ [\<lparr>r_pubkey = pk, r_hash = h, r_created = t\<rparr>]\<rparr>"
  shows "db_inv d2" "owned d2 = (owned d)(h := Some (bare b, {pk}))" "others d2 = others d"
proof -
  have k: "db_keys d" "ref_counts d" using assms(1) by (auto simp: db_inv_def)
  have ins: "db_keys d1" "owned d1 = (owned d)(h := Some (bare b, {}))"
    using insert_blob [OF k(1), of b] assms by simp_all
  have e: "owner_set h d = {}" using k(1) assms(2) by (rule no_blob_no_owner)
  then have e1: "owner_set h d1 = {}" "n_refs h d = 0" using n_refs_zero [of h d]
    by (simp_all add: owner_set_def owners_def assms(5))
  have h1: "h \<in> b_hash ` set (t_blobs d1)" using assms(3) by (simp add: assms(5))
  have pk1: "pk \<notin> owner_set h d1" using e1 by simp
  note ref = insert_ref [OF ins(1) pk1 h1, where t = t, folded assms(6)]
  have n: "n_refs h' d2 = n_refs h' d + (if h' = h then 1 else 0)" for h'
    by (simp add: n_refs_def assms(5,6))
  have "ref_counts d2"
    using k(2) assms(2,3,4) e1(2) by (auto simp: ref_counts_def n) (auto simp: assms(5,6) image_iff)
  with ref(1) show "db_inv d2" by (simp add: db_inv_def)
  show "owned d2 = (owned d)(h := Some (bare b, {pk}))" using ref(2) ins(2) by simp
  show "others d2 = others d" by (simp add: assms(5,6))
qed

lemma filter_ref_count:
  assumes "distinct (map (\<lambda>r. (r_pubkey r, r_hash r)) rs)"
  shows "length (filter (is_ref pk h) rs) = (if \<exists>r \<in> set rs. is_ref pk h r then 1 else 0)"
  using assms
proof (induction rs)
  case (Cons r rs)
  show ?case
  proof (cases "is_ref pk h r")
    case True
    with Cons.prems have "\<forall>r' \<in> set rs. \<not> is_ref pk h r'" by (auto simp: is_ref_def image_iff)
    then have "filter (is_ref pk h) rs = []" by (simp add: filter_empty_conv)
    with True show ?thesis by simp
  next
    case False
    with Cons show ?thesis by simp
  qed
qed simp

lemma filter_not_ref_count:
  "length (filter (\<lambda>r. r_hash r = h') (filter (\<lambda>r. \<not> is_ref pk h r) rs))
     + (if h' = h then length (filter (is_ref pk h) rs) else 0) = length (filter (\<lambda>r. r_hash r = h') rs)"
  by (induction rs) (auto simp: is_ref_def [abs_def])

lemma delete_ref:
  fixes pk h :: string
  assumes "db_keys d"
  defines "d' \<equiv> d\<lparr>t_refs := filter (\<lambda>r. \<not> is_ref pk h r) (t_refs d)\<rparr>"
  shows "db_keys d'"
    "owned d' = (owned d)(h := map_option (\<lambda>(b, S). (b, S - {pk})) (owned d h))"
    "n_refs h' d' = n_refs h' d - (if h' = h \<and> pk \<in> owner_set h d then 1 else 0)"
    "owner_set h' d' = (if h' = h then owner_set h d - {pk} else owner_set h' d)"
proof -
  have o: "owner_set h' d' = (if h' = h then owner_set h d - {pk} else owner_set h' d)" for h'
    by (auto simp: owner_set_def owners_def d'_def is_ref_def)
  then show "owner_set h' d' = (if h' = h then owner_set h d - {pk} else owner_set h' d)" .
  show "db_keys d'"
    using assms(1) by (auto simp: db_keys_def d'_def intro: distinct_map_filter')
  show "owned d' = (owned d)(h := map_option (\<lambda>(b, S). (b, S - {pk})) (owned d h))"
  proof
    fix h' show "owned d' h' = ((owned d)(h := map_option (\<lambda>(b, S). (b, S - {pk})) (owned d h))) h'"
      by (auto simp: owned_def o blob_of_def option.map_comp comp_def) (auto simp: d'_def)
  qed
  show "n_refs h' d' = n_refs h' d - (if h' = h \<and> pk \<in> owner_set h d then 1 else 0)"
  proof -
    have "length (filter (is_ref pk h) (t_refs d)) = (if pk \<in> owner_set h d then 1 else 0)"
      using filter_ref_count [of "t_refs d" pk h] assms(1) by (simp add: db_keys_def owner_set_iff)
    then show ?thesis
      using filter_not_ref_count [of h' pk h "t_refs d"]
      by (cases "pk \<in> owner_set h d"; cases "h' = h") (simp_all add: n_refs_def d'_def)
  qed
qed

section \<open>Counters\<close>

lemma add_ref_count_cases:
  assumes "add_ref_count k h d = (r, d')"
  obtains "r = Inl ErrOutOfRange" "d' = d"
  | "r = Inr ()" "d' = d\<lparr>t_blobs := update_where (has_hash h) (\<lambda>b. b\<lparr>b_refcount := b_refcount b + k\<rparr>) (t_blobs d)\<rparr>"
  using assms that unfolding add_ref_count_def
  by (cases "\<exists>b \<in> set (t_blobs d). b_hash b = h \<and> \<not> in_i32 (b_refcount b + k)") simp_all

lemma find_update_where:
  assumes "\<And>b. b_hash (f b) = b_hash b"
  shows "find (has_hash h') (update_where (has_hash h) f bs)
           = map_option (\<lambda>b. if b_hash b = h then f b else b) (find (has_hash h') bs)"
  by (induction bs) (auto simp: update_where_def has_hash_def assms)

lemma update_counts:
  fixes h :: string and k :: int and d :: dbstate
  defines "d' \<equiv> d\<lparr>t_blobs := update_where (has_hash h) (\<lambda>b. b\<lparr>b_refcount := b_refcount b + k\<rparr>) (t_blobs d)\<rparr>"
  shows "db_keys d' = db_keys d" "owned d' = owned d" "n_refs h' d' = n_refs h' d"
    "owner_set h' d' = owner_set h' d"
    "b_hash ` set (t_blobs d') = b_hash ` set (t_blobs d)"
proof -
  let ?f = "\<lambda>b. if has_hash h b then b\<lparr>b_refcount := b_refcount b + k\<rparr> else b"
  have m: "map b_hash (t_blobs d') = map b_hash (t_blobs d)"
    by (simp add: d'_def update_where_def)
  then show s: "b_hash ` set (t_blobs d') = b_hash ` set (t_blobs d)"
    by (metis list.set_map)
  show o: "owner_set h' d' = owner_set h' d" for h' by (simp add: owner_set_def owners_def d'_def)
  show "db_keys d' = db_keys d" using m s by (simp add: db_keys_def) (simp add: d'_def)
  show "owned d' = owned d"
    by (rule ext) (auto simp: owned_def o blob_of_def, auto simp: d'_def find_update_where bare_def
        option.map_comp comp_def intro!: map_option_cong)
  show "n_refs h' d' = n_refs h' d" by (simp add: n_refs_def d'_def)
qed

text \<open>Adding a reference together with one on the counter, and removing both, keep the counters right.\<close>

lemma ref_counts_shift:
  assumes "ref_counts d" and refs: "\<And>h'. n_refs h' d' = n_refs h' d + (if h' = h then k else 0)"
    and blobs: "t_blobs d' = update_where (has_hash h) (\<lambda>b. b\<lparr>b_refcount := b_refcount b + k\<rparr>) (t_blobs d)"
  shows "ref_counts d'"
  using assms(1) by (auto simp: ref_counts_def refs blobs update_where_def has_hash_def)

section \<open>Deleting blobs\<close>

lemma delete_blob:
  assumes "db_keys d" "\<And>b. P b \<Longrightarrow> b \<in> set (t_blobs d) \<Longrightarrow> b_hash b = h"
    "\<And>b. b \<in> set (t_blobs d) \<Longrightarrow> b_hash b = h \<Longrightarrow> P b"
  shows "db_keys (delete_blobs P d)" "owned (delete_blobs P d) = (owned d)(h := None)"
    "ref_counts d \<Longrightarrow> ref_counts (delete_blobs P d)"
proof -
  let ?d = "delete_blobs P d"
  have P: "P b \<longleftrightarrow> b_hash b = h" if "b \<in> set (t_blobs d)" for b using assms that by blast
  have b: "t_blobs ?d = filter (\<lambda>b. b_hash b \<noteq> h) (t_blobs d)"
    by (auto simp: delete_blobs_def P intro: filter_cong)
  have r: "t_refs ?d = filter (\<lambda>r. r_hash r \<noteq> h) (t_refs d)"
  proof -
    have "(\<forall>b \<in> set (t_blobs d). P b \<longrightarrow> b_hash b \<noteq> r_hash r) \<longleftrightarrow> r_hash r \<noteq> h"
      if r: "r \<in> set (t_refs d)" for r
    proof -
      have "r_hash r \<in> b_hash ` set (t_blobs d)" using assms(1) r by (simp add: db_keys_def)
      then obtain b where "b \<in> set (t_blobs d)" "b_hash b = r_hash r" by auto
      with P show ?thesis by force
    qed
    then show ?thesis by (simp add: delete_blobs_def cong: filter_cong)
  qed
  have o: "owner_set h' ?d = (if h' = h then {} else owner_set h' d)" for h'
    by (simp add: owner_set_def owners_def r conj_commute) (auto)
  have n: "h' \<noteq> h \<Longrightarrow> n_refs h' ?d = n_refs h' d" for h'
    by (auto simp: n_refs_def r intro!: arg_cong [where f = length] filter_cong)
  have f: "find (has_hash h') (filter (\<lambda>b. b_hash b \<noteq> h) bs)
      = (if h' = h then None else find (has_hash h') bs)" for h' bs
    by (induction bs) (auto simp: has_hash_def [abs_def])
  have u: "t_users ?d = t_users d" by (simp add: delete_blobs_def)
  show "db_keys ?d"
    using assms(1) unfolding db_keys_def b r u
    by (auto simp: distinct_map inj_on_def)
  show "owned ?d = (owned d)(h := None)"
    by (rule ext) (auto simp: owned_def blob_of_def o b f)
  show "ref_counts d \<Longrightarrow> ref_counts ?d"
    by (auto simp: ref_counts_def b n)
qed

lemma q_DeleteOwnerlessBlob_cases:
  assumes "q_DeleteOwnerlessBlob h d = (r, d')" "db_keys d"
  obtains "r = Inl ErrNoRows" "d' = d" "h \<notin> b_hash ` set (t_blobs d) \<or> owner_set h d \<noteq> {}"
  | "r = Inr h" "h \<in> b_hash ` set (t_blobs d)" "owner_set h d = {}" "db_keys d'"
      "owned d' = (owned d)(h := None)" "ref_counts d \<longrightarrow> ref_counts d'" "others d' = others d"
proof (cases "\<exists>b \<in> set (t_blobs d). b_hash b = h \<and> ownerless d b")
  case True
  then have e: "owner_set h d = {}" "h \<in> b_hash ` set (t_blobs d)"
    by (auto simp: ownerless_def owner_set_def owners_def)
  have q: "d' = delete_blobs (\<lambda>b. b_hash b = h \<and> ownerless d b) d" "r = Inr h"
    using True assms(1) unfolding q_DeleteOwnerlessBlob_def by simp_all
  have ow: "ownerless d b" if "b_hash b = h" for b
    using e that by (auto simp: ownerless_def owner_set_def owners_def)
  have "db_keys d'" "owned d' = (owned d)(h := None)" "ref_counts d \<longrightarrow> ref_counts d'"
    unfolding q(1) using delete_blob [OF assms(2), of "\<lambda>b. b_hash b = h \<and> ownerless d b" h] ow by auto
  moreover have "others d' = others d" unfolding q(1) by simp
  ultimately show ?thesis by (rule that(2) [OF q(2) e(2,1)])
next
  case False
  then have n: "h \<notin> b_hash ` set (t_blobs d) \<or> owner_set h d \<noteq> {}"
    by (auto simp: ownerless_def owner_set_def owners_def)
  have "r = Inl ErrNoRows" "d' = d"
    using False assms(1) unfolding q_DeleteOwnerlessBlob_def by (simp_all only: if_False prod.inject)
  then show ?thesis using n by (rule that(1))
qed

text \<open>Removing a reference and one from the counter, as the transaction of \<^verbatim>\<open>DeleteReference\<close> does.\<close>

lemma q_DecrementBlobRefCount_cases:
  assumes "q_DecrementBlobRefCount h d = (r, d')"
  obtains e where "r = Inl e" "d' = d" "e = ErrOutOfRange \<or> e = ErrNoRows \<and> h \<notin> b_hash ` set (t_blobs d)"
  | m where "r = Inr m" "h \<in> b_hash ` set (t_blobs d)"
      "d' = d\<lparr>t_blobs := update_where (has_hash h) (\<lambda>b. b\<lparr>b_refcount := b_refcount b + -1\<rparr>) (t_blobs d)\<rparr>"
proof -
  obtain x d1 where a: "add_ref_count (-1) h d = (x, d1)" by (cases "add_ref_count (-1) h d")
  show ?thesis
  proof (cases rule: add_ref_count_cases [OF a])
    case 1
    with a assms have "r = Inl ErrOutOfRange" "d' = d" by (auto simp: q_DecrementBlobRefCount_def)
    then show ?thesis using that(1) by blast
  next
    case 2
    have hs: "b_hash ` set (t_blobs d1) = b_hash ` set (t_blobs d)"
      unfolding 2(2) by (rule update_counts)
    show ?thesis
    proof (cases "blob_of h d1")
      case None
      then have n: "h \<notin> b_hash ` set (t_blobs d)" using hs by (simp add: blob_of_None)
      then have "d1 = d"
        unfolding 2(2) by (auto simp: update_where_def has_hash_def intro!: map_idI dbstate.equality)
      moreover have "r = Inl ErrNoRows" "d' = d1"
        using None a 2(1) assms by (simp_all add: q_DecrementBlobRefCount_def)
      ultimately show ?thesis using that(1) n by blast
    next
      case (Some b)
      then have "h \<in> b_hash ` set (t_blobs d)" using hs blob_of_None [of h d1] by auto
      moreover have "r = Inr (b_refcount b)" "d' = d1"
        using Some a 2(1) assms by (simp_all add: q_DecrementBlobRefCount_def)
      ultimately show ?thesis using that(2) 2(2) by blast
    qed
  qed
qed

lemma remove_chain:
  assumes "db_inv d" "pk \<in> owner_set h d"
    and "d1 = d\<lparr>t_refs := filter (\<lambda>r. \<not> is_ref pk h r) (t_refs d)\<rparr>"
    and "d2 = d1\<lparr>t_blobs := update_where (has_hash h) (\<lambda>b. b\<lparr>b_refcount := b_refcount b + -1\<rparr>) (t_blobs d1)\<rparr>"
  shows "db_inv d2" "owned d2 = (owned d)(h := map_option (\<lambda>(b, S). (b, S - {pk})) (owned d h))"
    "owner_set h d2 = owner_set h d - {pk}" "others d2 = others d"
    "b_hash ` set (t_blobs d2) = b_hash ` set (t_blobs d)"
proof -
  have k: "db_keys d" "ref_counts d" using assms(1) by (auto simp: db_inv_def)
  note del = delete_ref [OF k(1), where pk = pk and h = h, folded assms(3)]
  note upd = update_counts [where d = d1 and h = h and k = "-1", folded assms(4)]
  have "n_refs h' d2 = n_refs h' d + (if h' = h then -1 else 0)" for h'
    using assms(2) by (simp add: upd(3) del(3))
  then have "ref_counts d2"
    by (rule ref_counts_shift [OF k(2)]) (simp add: assms(3,4))
  then show "db_inv d2" using upd(1) del(1) by (simp add: db_inv_def)
  show "owned d2 = (owned d)(h := map_option (\<lambda>(b, S). (b, S - {pk})) (owned d h))"
    using upd(2) del(2) by simp
  show "owner_set h d2 = owner_set h d - {pk}" using upd(4) del(4) by simp
  show "others d2 = others d" by (simp add: assms(3,4))
  show "b_hash ` set (t_blobs d2) = b_hash ` set (t_blobs d)"
    using upd(5) by (simp add: assms(3))
qed

lemma add_chain:
  assumes "db_inv d" "pk \<notin> owner_set h d" "h \<in> b_hash ` set (t_blobs d)"
    and "d1 = d\<lparr>t_refs := t_refs d @ [\<lparr>r_pubkey = pk, r_hash = h, r_created = t\<rparr>]\<rparr>"
    and "d2 = d1\<lparr>t_blobs := update_where (has_hash h) (\<lambda>b. b\<lparr>b_refcount := b_refcount b + 1\<rparr>) (t_blobs d1)\<rparr>"
  shows "db_inv d2" "owned d2 = add_owner pk h (owned d)"
    "others d2 = others d"
proof -
  have k: "db_keys d" "ref_counts d" using assms(1) by (auto simp: db_inv_def)
  note ins = insert_ref [OF k(1) assms(2,3), where t = t, folded assms(4)]
  note upd = update_counts [where d = d1 and h = h and k = 1, folded assms(5)]
  have "n_refs h' d2 = n_refs h' d + (if h' = h then 1 else 0)" for h'
    by (simp add: upd(3) ins(3))
  then have "ref_counts d2"
    by (rule ref_counts_shift [OF k(2)]) (simp add: assms(4,5))
  then show "db_inv d2" using upd(1) ins(1) by (simp add: db_inv_def)
  show "owned d2 = add_owner pk h (owned d)"
    using upd(2) ins(2) by (simp add: add_owner_def)
  show "others d2 = others d" by (simp add: assms(4,5))
qed

lemma q_DeleteBlobReference_eq:
  assumes "db_keys d" "q_DeleteBlobReference pk h d = (r, d')"
  shows "r = Inr (if pk \<in> owner_set h d then 1 else 0)"
    "d' = d\<lparr>t_refs := filter (\<lambda>r. \<not> is_ref pk h r) (t_refs d)\<rparr>"
    "pk \<notin> owner_set h d \<Longrightarrow> d' = d"
proof -
  have c: "length (filter (is_ref pk h) (t_refs d)) = (if pk \<in> owner_set h d then 1 else 0)"
    using filter_ref_count [of "t_refs d" pk h] assms(1) by (simp add: db_keys_def owner_set_iff)
  show "r = Inr (if pk \<in> owner_set h d then 1 else 0)"
    using c assms(2) by (auto simp: q_DeleteBlobReference_def)
  show d': "d' = d\<lparr>t_refs := filter (\<lambda>r. \<not> is_ref pk h r) (t_refs d)\<rparr>"
    using assms(2) by (simp add: q_DeleteBlobReference_def)
  show "pk \<notin> owner_set h d \<Longrightarrow> d' = d"
    unfolding d' owner_set_iff by (auto intro!: dbstate.equality filter_True)
qed

lemma q_DeleteBlobFromHash_effect:
  assumes "db_keys d"
  shows "db_keys (snd (q_DeleteBlobFromHash h d))" "owned (snd (q_DeleteBlobFromHash h d)) = (owned d)(h := None)"
    "ref_counts d \<Longrightarrow> ref_counts (snd (q_DeleteBlobFromHash h d))"
    "others (snd (q_DeleteBlobFromHash h d)) = others d"
  using delete_blob [OF assms, of "has_hash h" h] by (auto simp: q_DeleteBlobFromHash_def has_hash_def)

section \<open>The blobs of a key\<close>

lemma mem_join_refs: "b \<in> set (join_refs pk d) \<longleftrightarrow> b \<in> set (t_blobs d) \<and> pk \<in> owner_set (b_hash b) d"
  by (auto simp: join_refs_def owner_set_iff)

lemma concat_filter: "concat (map (\<lambda>x. if P x then [x] else []) xs) = filter P xs"
  by (induction xs) auto

lemma join_refs_filter:
  assumes "db_keys d"
  shows "join_refs pk d = filter (\<lambda>b. pk \<in> owner_set (b_hash b) d) (t_blobs d)"
proof -
  have r: "length (filter (is_ref pk h) (t_refs d)) = (if pk \<in> owner_set h d then 1 else 0)" for h
    using filter_ref_count [of "t_refs d" pk h] assms by (simp add: db_keys_def owner_set_iff)
  have c: "map (\<lambda>_. b) (filter (is_ref pk (b_hash b)) (t_refs d)) = (if pk \<in> owner_set (b_hash b) d then [b] else [])" for b
    using r [of "b_hash b"] by (cases "filter (is_ref pk (b_hash b)) (t_refs d)") (auto split: if_splits)
  show ?thesis unfolding join_refs_def c by (rule concat_filter)
qed

lemma distinct_join_refs: "db_keys d \<Longrightarrow> distinct (map b_hash (join_refs pk d))"
  by (simp add: join_refs_filter) (simp add: db_keys_def distinct_map_filter)

section \<open>An example\<close>

text \<open>A database with one blob of two bytes, owned by two keys.\<close>

definition sample_blob :: blob_row where
  "sample_blob = \<lparr>b_pubkey = ''a'', b_hash = ''h'', b_type = ''image/png'', b_size = 2, b_blob = [1, 2],
     b_created = 5, b_mode = ''none'', b_dek = None, b_nonce = None, b_orig = None, b_refcount = 2,
     b_expires = None\<rparr>"

definition sample_db :: dbstate where
  "sample_db = empty_db\<lparr>t_blobs := [sample_blob],
     t_refs := [\<lparr>r_pubkey = ''a'', r_hash = ''h'', r_created = 5\<rparr>, \<lparr>r_pubkey = ''b'', r_hash = ''h'', r_created = 6\<rparr>]\<rparr>"

lemma sample_inv [simp]: "db_inv sample_db"
  by (simp add: db_inv_def db_keys_def ref_counts_def n_refs_def sample_db_def sample_blob_def)

lemma sample_owned: "owned sample_db = [''h'' \<mapsto> (bare sample_blob, {''a'', ''b''})]"
  by (rule ext) (simp add: owned_def blob_of_def sample_db_def has_hash_def owner_set_def owners_def sample_blob_def)

end
