(* ===== verification/BlobService.thy ===== *)
theory BlobService
  imports Encryption BlobState
begin

text \<open>
  \<^verbatim>\<open>src/service/blob_service.go\<close>: storing, reading, listing and deleting blobs. A blob is one row of
  \<^verbatim>\<open>blobs\<close> shared by all keys that uploaded it; each of them holds a row of \<^verbatim>\<open>blob_references\<close>. The rows
  carry the bytes as well as the storage backend. Logging is left out.
\<close>

section \<open>Data\<close>

record nip94 =
  n_url :: string
  n_mime :: string
  n_orig :: string
  n_sha :: string

text \<open>\<^verbatim>\<open>core.Blob\<close>; a nil slice of bytes is the empty one.\<close>

record blob_desc =
  d_pubkey :: string
  d_url :: string
  d_sha :: string
  d_size :: int
  d_type :: string
  d_blob :: bytes
  d_uploaded :: int
  d_mode :: string
  d_nip94 :: nip94

record blob_service =
  bs_storage :: bool
  bs_encryptor :: "encryptor option"
  bs_cdn :: string

definition dbBlobIntoBlobDescriptor :: "blob_service \<Rightarrow> blob_row \<Rightarrow> blob_desc" where
  "dbBlobIntoBlobDescriptor c b =
     (let url = bs_cdn c @ ''/'' @ b_hash b;
          sz = (case b_orig b of Some n \<Rightarrow> n | None \<Rightarrow> b_size b)
      in \<lparr>d_pubkey = b_pubkey b, d_url = url, d_sha = b_hash b, d_size = sz, d_type = b_type b,
          d_blob = b_blob b, d_uploaded = b_created b, d_mode = b_mode b,
          d_nip94 = \<lparr>n_url = url, n_mime = b_type b, n_orig = b_hash b, n_sha = b_hash b\<rparr>\<rparr>)"

section \<open>Saving\<close>

text \<open>What \<^verbatim>\<open>Save\<close>'s switch on the encryption mode decides to store.\<close>

record sealed =
  sl_data :: bytes
  sl_dek :: "string option"
  sl_nonce :: "string option"
  sl_orig :: "int option"
  sl_mode :: string

definition plain_form :: "bytes \<Rightarrow> sealed" where
  "plain_form blob = \<lparr>sl_data = blob, sl_dek = None, sl_nonce = None, sl_orig = None, sl_mode = ''none''\<rparr>"

definition seal_server :: "blob_service \<Rightarrow> bytes \<Rightarrow> sealed result prog" where
  "seal_server c blob =
     (case bs_encryptor c of
        None \<Rightarrow> ret (Inr (plain_form blob))
      | Some e \<Rightarrow>
          if \<not> IsEnabled (Some e) then ret (Inr (plain_form blob))
          else do {
            r \<leftarrow> Encrypt e blob;
            case r of
              Inl er \<Rightarrow> ret (Inl er)
            | Inr x \<Rightarrow> ret (Inr \<lparr>sl_data = eb_ciphertext x, sl_dek = Some (eb_dek x),
                                 sl_nonce = Some (eb_nonce x), sl_orig = Some (eb_size x),
                                 sl_mode = ''server''\<rparr>)
          })"

definition seal_blob :: "blob_service \<Rightarrow> int \<Rightarrow> bytes \<Rightarrow> string \<Rightarrow> sealed result prog" where
  "seal_blob c sz blob mode =
     (if mode = ''server'' then seal_server c blob
      else if mode = ''e2e'' then
        ret (Inr \<lparr>sl_data = blob, sl_dek = None, sl_nonce = None, sl_orig = Some sz, sl_mode = ''e2e''\<rparr>)
      else if mode = ''none'' then seal_server c blob
      else ret (Inr (plain_form blob)))"

definition blob_row_for ::
  "string \<Rightarrow> string \<Rightarrow> string \<Rightarrow> int \<Rightarrow> sealed \<Rightarrow> blob_row" where
  "blob_row_for pk h mime created s =
     \<lparr>b_pubkey = pk, b_hash = h, b_type = mime, b_size = int (length (sl_data s)), b_blob = sl_data s,
      b_created = created, b_mode = sl_mode s, b_dek = sl_dek s, b_nonce = sl_nonce s,
      b_orig = sl_orig s, b_refcount = 1, b_expires = None\<rparr>"

definition saved_descriptor ::
  "string \<Rightarrow> string \<Rightarrow> int \<Rightarrow> string \<Rightarrow> int \<Rightarrow> sealed \<Rightarrow> blob_desc" where
  "saved_descriptor h url sz mime created s =
     \<lparr>d_pubkey = [], d_url = url, d_sha = h, d_size = (case sl_orig s of Some n \<Rightarrow> n | None \<Rightarrow> sz),
      d_type = mime, d_blob = [], d_uploaded = created, d_mode = sl_mode s,
      d_nip94 = \<lparr>n_url = url, n_mime = mime, n_orig = h, n_sha = h\<rparr>\<rparr>"

definition Save ::
  "blob_service \<Rightarrow> string \<Rightarrow> string \<Rightarrow> string \<Rightarrow> int \<Rightarrow> string \<Rightarrow> bytes \<Rightarrow> int \<Rightarrow> string \<Rightarrow> blob_desc result prog"
where
  "Save c pk h url sz mime blob created mode = do {
     s \<leftarrow> seal_blob c sz blob mode;
     case s of
       Inl e \<Rightarrow> ret (Inl e)
     | Inr s \<Rightarrow> do {
         p \<leftarrow> (if bs_storage c then st_Put h (sl_data s) else ret (Inr ()));
         case p of
           Inl e \<Rightarrow> ret (Inl e)
         | Inr _ \<Rightarrow> do {
             r \<leftarrow> exec_sql (q_InsertBlob (blob_row_for pk h mime created s));
             case r of
               Inl e \<Rightarrow> do {
                 _ \<leftarrow> (if bs_storage c then st_Delete h else ret (Inr ()));
                 ret (Inl e)
               }
             | Inr _ \<Rightarrow> ret (Inr (saved_descriptor h url sz mime created s))
           }
       }
   }"

section \<open>Reading\<close>

definition Exists :: "string \<Rightarrow> (bool \<times> goerr option) prog" where
  "Exists h = do {
     r \<leftarrow> exec_sql (q_GetBlobFromHash h);
     ret (case r of Inl e \<Rightarrow> (False, Some e) | Inr _ \<Rightarrow> (True, None))
   }"

definition GetDescriptor :: "blob_service \<Rightarrow> string \<Rightarrow> blob_desc result prog" where
  "GetDescriptor c h = do {
     r \<leftarrow> exec_sql (q_GetBlobFromHash h);
     case r of
       Inl e \<Rightarrow> ret (Inl e)
     | Inr b \<Rightarrow>
         (let blob = (dbBlobIntoBlobDescriptor c b)\<lparr>d_blob := []\<rparr>
          in ret (Inr (if b_mode b \<noteq> ''server'' then blob\<lparr>d_size := b_size b\<rparr> else blob)))
   }"

definition GetFromHash :: "blob_service \<Rightarrow> string \<Rightarrow> blob_desc result prog" where
  "GetFromHash c h = do {
     r \<leftarrow> exec_sql (q_GetBlobFromHash h);
     case r of
       Inl e \<Rightarrow> ret (Inl e)
     | Inr b \<Rightarrow> do {
         g \<leftarrow> (if bs_storage c \<and> b_blob b = [] then st_Get h else ret (Inr (b_blob b)));
         let blob = (case g of
                       Inl _ \<Rightarrow> dbBlobIntoBlobDescriptor c b
                     | Inr data \<Rightarrow> (dbBlobIntoBlobDescriptor c b)\<lparr>d_blob := data\<rparr>)
         in if b_mode b = ''server'' \<and> IsEnabled (bs_encryptor c)
            then (case Decrypt (the (bs_encryptor c))
                         \<lparr>eb_ciphertext = d_blob blob, eb_dek = (case b_dek b of None \<Rightarrow> [] | Some x \<Rightarrow> x),
                          eb_nonce = (case b_nonce b of None \<Rightarrow> [] | Some x \<Rightarrow> x), eb_size = 0,
                          eb_mode = ''server''\<rparr> of
                    Inl e \<Rightarrow> ret (Inl e)
                  | Inr p \<Rightarrow> ret (Inr (blob\<lparr>d_blob := p,
                               d_size := (case b_orig b of Some n \<Rightarrow> n | None \<Rightarrow> d_size blob)\<rparr>)))
            else ret (Inr blob)
       }
   }"

definition GetFromPubkey :: "blob_service \<Rightarrow> string \<Rightarrow> blob_desc list result prog" where
  "GetFromPubkey c pk = do {
     r \<leftarrow> exec_sql (q_GetBlobsFromPubkey pk);
     ret (case r of Inl e \<Rightarrow> Inl e | Inr bs \<Rightarrow> Inr (map (dbBlobIntoBlobDescriptor c) bs))
   }"

definition IsEncryptionEnabled :: "blob_service \<Rightarrow> bool" where
  "IsEncryptionEnabled c = IsEnabled (bs_encryptor c)"

section \<open>Listing with a filter\<close>

record blob_filter =
  f_pubkey :: string
  f_prefix :: string
  f_since :: int
  f_until :: int
  f_min :: int
  f_max :: int
  f_limit :: int
  f_offset :: int
  f_desc :: bool

definition filter_common :: "blob_filter \<Rightarrow> blob_row \<Rightarrow> bool" where
  "filter_common f b \<longleftrightarrow>
     (f_prefix f \<noteq> [] \<longrightarrow> like_match (f_prefix f @ ''%'') (b_type b)) \<and>
     (f_since f > 0 \<longrightarrow> f_since f \<le> b_created b) \<and>
     (f_until f > 0 \<longrightarrow> b_created b \<le> f_until f)"

definition sort_rows :: "bool \<Rightarrow> blob_row list \<Rightarrow> blob_row list" where
  "sort_rows desc rows = sort_key (\<lambda>b. if desc then - b_created b else b_created b) rows"

definition page :: "int \<Rightarrow> int \<Rightarrow> 'r list \<Rightarrow> 'r list" where
  "page limit offset rows =
     (if limit > 0 then take (nat limit) (if offset > 0 then drop (nat offset) rows else rows) else rows)"

text \<open>The row count of \<^verbatim>\<open>COUNT(*) OVER()\<close> comes with the rows of the page: with none, the total is 0. The
  blob columns are not selected.\<close>

definition list_result :: "blob_service \<Rightarrow> nat \<Rightarrow> blob_row list \<Rightarrow> blob_desc list \<times> int" where
  "list_result c n rows =
     (map (\<lambda>b. dbBlobIntoBlobDescriptor c (b\<lparr>b_blob := []\<rparr>)) rows, if rows = [] then 0 else int n)"

definition pubkey_rows :: "string \<Rightarrow> blob_filter option \<Rightarrow> dbstate \<Rightarrow> blob_row list" where
  "pubkey_rows pk f d =
     (case f of
        None \<Rightarrow> sort_rows False (join_refs pk d)
      | Some f \<Rightarrow> sort_rows (f_desc f) (filter (filter_common f) (join_refs pk d)))"

definition page_of :: "blob_filter option \<Rightarrow> 'r list \<Rightarrow> 'r list" where
  "page_of f rows = (case f of None \<Rightarrow> rows | Some f \<Rightarrow> page (f_limit f) (f_offset f) rows)"

definition GetFromPubkeyWithFilter ::
  "blob_service \<Rightarrow> string \<Rightarrow> blob_filter option \<Rightarrow> (blob_desc list \<times> int) result prog" where
  "GetFromPubkeyWithFilter c pk f = do {
     r \<leftarrow> exec_sql (\<lambda>d. (Inr (pubkey_rows pk f d), d));
     ret (case r of
            Inl e \<Rightarrow> Inl (Wrap ''query blobs'' e)
          | Inr rows \<Rightarrow> Inr (list_result c (length rows) (page_of f rows)))
   }"

definition search_rows :: "blob_filter option \<Rightarrow> dbstate \<Rightarrow> blob_row list" where
  "search_rows f d =
     (case f of
        None \<Rightarrow> sort_rows False (t_blobs d)
      | Some f \<Rightarrow>
          sort_rows (f_desc f)
            (filter (\<lambda>b. filter_common f b \<and> (f_min f > 0 \<longrightarrow> f_min f \<le> b_size b)
                         \<and> (f_max f > 0 \<longrightarrow> b_size b \<le> f_max f))
               (if f_pubkey f \<noteq> [] then join_refs (f_pubkey f) d else t_blobs d)))"

definition SearchBlobs :: "blob_service \<Rightarrow> blob_filter option \<Rightarrow> (blob_desc list \<times> int) result prog" where
  "SearchBlobs c f = do {
     r \<leftarrow> exec_sql (\<lambda>d. (Inr (search_rows f d), d));
     ret (case r of
            Inl e \<Rightarrow> Inl (Wrap ''search blobs'' e)
          | Inr rows \<Rightarrow> Inr (list_result c (length rows) (page_of f rows)))
   }"

section \<open>References\<close>

definition HasReference :: "string \<Rightarrow> string \<Rightarrow> bool result prog" where
  "HasReference pk h = exec_sql (q_HasBlobReference pk h)"

definition ListReferenceOwners :: "string \<Rightarrow> string list result prog" where
  "ListReferenceOwners h = do {
     r \<leftarrow> exec_sql (q_GetBlobReferencesByHash h);
     ret (case r of Inl e \<Rightarrow> Inl e | Inr rs \<Rightarrow> Inr (map r_pubkey rs))
   }"

text \<open>\<^verbatim>\<open>addReference\<close> returns whether a reference was added and whether the blob is gone.\<close>

definition addReference :: "string \<Rightarrow> string \<Rightarrow> int \<Rightarrow> (bool \<times> bool) result prog" where
  "addReference pk h created = with_tx (do {
     l \<leftarrow> exec_sql (q_LockBlobRow h);
     case l of
       Inl e \<Rightarrow> ret (Inl (Wrap ''lock blob'' e))
     | Inr locked \<Rightarrow>
         if locked = 0 then ret (Inr (False, True))
         else do {
           r \<leftarrow> exec_sql (q_CreateBlobReference pk h created);
           case r of
             Inl e \<Rightarrow>
               if errors_is e ErrNoRows then do {
                 k \<leftarrow> commit_tx;
                 ret (case k of Inl e \<Rightarrow> Inl e | Inr _ \<Rightarrow> Inr (False, False))
               }
               else ret (Inl e)
           | Inr _ \<Rightarrow> do {
               i \<leftarrow> exec_sql (q_IncrementBlobRefCount h);
               case i of
                 Inl e \<Rightarrow> ret (Inl (Wrap ''increment ref count'' e))
               | Inr _ \<Rightarrow> do {
                   k \<leftarrow> commit_tx;
                   ret (case k of Inl e \<Rightarrow> Inl (Wrap ''commit'' e) | Inr _ \<Rightarrow> Inr (True, False))
                 }
             }
         }
   })"

definition save_new ::
  "blob_service \<Rightarrow> string \<Rightarrow> string \<Rightarrow> string \<Rightarrow> int \<Rightarrow> string \<Rightarrow> bytes \<Rightarrow> int \<Rightarrow> string
     \<Rightarrow> (blob_desc \<times> bool) result prog" where
  "save_new c pk h url sz mime blob created mode = do {
     s \<leftarrow> Save c pk h url sz mime blob created mode;
     case s of
       Inl e \<Rightarrow> ret (Inl e)
     | Inr savedBlob \<Rightarrow> do {
         r \<leftarrow> exec_sql (q_CreateBlobReference pk h created);
         case r of
           Inl e \<Rightarrow> if errors_is e ErrNoRows then ret (Inr (savedBlob, False))
                    else ret (Inl (Wrap ''create reference'' e))
         | Inr _ \<Rightarrow> ret (Inr (savedBlob, True))
       }
   }"

definition SaveWithDedup ::
  "blob_service \<Rightarrow> string \<Rightarrow> string \<Rightarrow> string \<Rightarrow> int \<Rightarrow> string \<Rightarrow> bytes \<Rightarrow> int \<Rightarrow> string
     \<Rightarrow> (blob_desc \<times> bool) result prog" where
  "SaveWithDedup c pk h url sz mime blob created mode = do {
     x \<leftarrow> exec_sql (q_GetBlobFromHash h);
     case x of
       Inl _ \<Rightarrow> save_new c pk h url sz mime blob created mode
     | Inr existing \<Rightarrow> do {
         hr \<leftarrow> HasReference pk h;
         case hr of
           Inl e \<Rightarrow> ret (Inl (Wrap ''check reference'' e))
         | Inr hasRef \<Rightarrow>
             if hasRef then ret (Inr (dbBlobIntoBlobDescriptor c existing, False))
             else do {
               a \<leftarrow> addReference pk h created;
               case a of
                 Inl e \<Rightarrow> ret (Inl (Wrap ''create reference'' e))
               | Inr (added, gone) \<Rightarrow>
                   if \<not> gone then ret (Inr (dbBlobIntoBlobDescriptor c existing, added))
                   else save_new c pk h url sz mime blob created mode
             }
       }
   }"

section \<open>Deleting\<close>

definition DeleteFromHash :: "blob_service \<Rightarrow> string \<Rightarrow> unit result prog" where
  "DeleteFromHash c h = do {
     r \<leftarrow> exec_sql (q_DeleteBlobFromHash h);
     case r of
       Inl e \<Rightarrow> ret (Inl e)
     | Inr _ \<Rightarrow> do {
         _ \<leftarrow> (if bs_storage c then st_Delete h else ret (Inr ()));
         ret (Inr ())
       }
   }"

text \<open>The end of \<^verbatim>\<open>DeleteReference\<close>'s transaction: the row goes only if no reference is left.\<close>

definition finish_removal :: "string \<Rightarrow> bool result prog" where
  "finish_removal h = do {
     o' \<leftarrow> exec_sql (q_DeleteOwnerlessBlob h);
     case o' of
       Inl e \<Rightarrow>
         if \<not> errors_is e ErrNoRows then ret (Inl (Wrap ''remove ownerless blob'' e))
         else do {
           k \<leftarrow> commit_tx;
           ret (case k of Inl e \<Rightarrow> Inl (Wrap ''commit'' e) | Inr _ \<Rightarrow> Inr False)
         }
     | Inr _ \<Rightarrow> do {
         k \<leftarrow> commit_tx;
         ret (case k of Inl e \<Rightarrow> Inl (Wrap ''commit'' e) | Inr _ \<Rightarrow> Inr True)
       }
   }"

definition remove_reference :: "string \<Rightarrow> string \<Rightarrow> bool result prog" where
  "remove_reference pk h = with_tx (do {
     l \<leftarrow> exec_sql (q_LockBlobRow h);
     case l of
       Inl e \<Rightarrow> ret (Inl (Wrap ''lock blob'' e))
     | Inr _ \<Rightarrow> do {
         r \<leftarrow> exec_sql (q_DeleteBlobReference pk h);
         case r of
           Inl e \<Rightarrow> ret (Inl (Wrap ''delete reference'' e))
         | Inr removed \<Rightarrow>
             if removed = 0 then ret (Inl ErrReferenceNotFound)
             else do {
               m \<leftarrow> exec_sql (q_DecrementBlobRefCount h);
               case m of
                 Inl e \<Rightarrow>
                   if \<not> errors_is e ErrNoRows then ret (Inl (Wrap ''decrement ref count'' e))
                   else finish_removal h
               | Inr _ \<Rightarrow> finish_removal h
             }
       }
   })"

definition DeleteReference :: "blob_service \<Rightarrow> string \<Rightarrow> string \<Rightarrow> bool result prog" where
  "DeleteReference c pk h = do {
     r \<leftarrow> remove_reference pk h;
     case r of
       Inl e \<Rightarrow> ret (Inl e)
     | Inr lst \<Rightarrow> do {
         _ \<leftarrow> (if lst \<and> bs_storage c then st_Delete h else ret (Inr ()));
         ret (Inr lst)
       }
   }"

section \<open>What each operation does\<close>

definition enc_ok :: "blob_service \<Rightarrow> bool" where
  "enc_ok c \<longleftrightarrow> (\<forall>e. bs_encryptor c = Some e \<longrightarrow> aead_ok e)"

text \<open>The bytes a row serves, given what is found for its stored bytes.\<close>

definition served :: "blob_service \<Rightarrow> blob_row \<Rightarrow> bytes result" where
  "served c b =
     (if b_mode b = ''server'' \<and> IsEnabled (bs_encryptor c)
      then Decrypt (the (bs_encryptor c))
             \<lparr>eb_ciphertext = b_blob b, eb_dek = (case b_dek b of None \<Rightarrow> [] | Some x \<Rightarrow> x),
              eb_nonce = (case b_nonce b of None \<Rightarrow> [] | Some x \<Rightarrow> x), eb_size = 0, eb_mode = ''server''\<rparr>
      else Inr (b_blob b))"

lemma Decrypt_cong:
  assumes "eb_ciphertext x = eb_ciphertext y" "eb_dek x = eb_dek y" "eb_nonce x = eb_nonce y"
    "eb_mode x = eb_mode y"
  shows "Decrypt e x = Decrypt e y"
  unfolding Decrypt_def assms ..

text \<open>Sealing: only randomness is used, and the row it makes serves the plaintext with its length.\<close>

lemma seal_server_spec:
  assumes "enc_ok c"
  shows "wp (seal_server c blob) (\<lambda>r w'. w_db w' = w_db w \<and> w_objects w' = w_objects w \<and> w_saved w' = w_saved w
     \<and> same_env w w'
     \<and> (\<forall>s. r = Inr s \<longrightarrow> served c (blob_row_for pk h mime t s) = Inr blob
            \<and> (sl_mode s = ''server'' \<and> sl_orig s = Some (int (length blob))
                \<or> sl_mode s = ''none'' \<and> sl_orig s = None \<and> sl_data s = blob))) w"
proof (cases "IsEnabled (bs_encryptor c)")
  case False
  then have p: "seal_server c blob = ret (Inr (plain_form blob))"
    by (auto simp: seal_server_def split: option.split)
  show ?thesis
    by (simp add: p wp_simp same_env_def served_def blob_row_for_def plain_form_def)
next
  case True
  then obtain e where e: "bs_encryptor c = Some e" by (auto simp: IsEnabled_def split: option.splits)
  with assms have ok: "aead_ok e" by (simp add: enc_ok_def)
  have d: "Decrypt e x = Inr blob \<Longrightarrow> eb_mode x = ''server'' \<Longrightarrow>
      Decrypt e \<lparr>eb_ciphertext = eb_ciphertext x, eb_dek = eb_dek x, eb_nonce = eb_nonce x, eb_size = 0,
        eb_mode = ''server''\<rparr> = Inr blob" for x
    by (subst Decrypt_cong [where y = x]) simp_all
  show ?thesis
    unfolding seal_server_def e option.case wp_simp
    using True e
    by (auto simp: wp_simp same_env_def served_def blob_row_for_def d intro!: wp_Encrypt [OF ok])
qed

lemma seal_blob_spec:
  assumes "enc_ok c"
  shows "wp (seal_blob c sz blob mode) (\<lambda>r w'. w_db w' = w_db w \<and> w_objects w' = w_objects w
     \<and> w_saved w' = w_saved w \<and> same_env w w'
     \<and> (\<forall>s. r = Inr s \<longrightarrow> served c (blob_row_for pk h mime t s) = Inr blob
            \<and> (sl_mode s = ''server'' \<and> sl_orig s = Some (int (length blob))
                \<or> sl_mode s = ''none'' \<and> sl_orig s = None \<and> sl_data s = blob
                \<or> sl_mode s = ''e2e'' \<and> sl_orig s = Some sz \<and> sl_data s = blob))) w"
proof (cases "mode = ''server'' \<or> mode = ''none''")
  case True
  then have "seal_blob c sz blob mode = seal_server c blob" by (auto simp: seal_blob_def)
  then show ?thesis
    by (simp only:) (rule wp_mono [OF seal_server_spec [OF assms, where pk = pk and h = h and mime = mime and t = t]],
        blast)
next
  case False
  then show ?thesis
    by (simp add: seal_blob_def wp_simp same_env_def served_def blob_row_for_def plain_form_def)
qed

text \<open>\<^verbatim>\<open>Save\<close>: on success one new row with count 1 and no reference; on error the database is unchanged.\<close>

type_synonym objects = "string \<Rightarrow> bytes option"

definition backed :: "blob_service \<Rightarrow> objects \<Rightarrow> blob_row \<Rightarrow> bool" where
  "backed c ob b \<longleftrightarrow> (bs_storage c \<longrightarrow> ob (b_hash b) = Some (b_blob b))"

lemma backed_bare [simp]: "backed c ob (bare b) = backed c ob b"
  by (simp add: backed_def)

text \<open>The sizes of a row for \<open>blob\<close>: the stored one and, if the caller gave the right length, the charged one,
  which differs from the stored one only for blobs the server encrypted.\<close>

definition row_form :: "int \<Rightarrow> bytes \<Rightarrow> blob_row \<Rightarrow> bool" where
  "row_form sz blob b \<longleftrightarrow> b_size b = int (length (b_blob b)) \<and>
     (sz = int (length blob) \<longrightarrow> 0 \<le> charge b \<and> (b_mode b \<noteq> ''server'' \<longrightarrow> charge b = b_size b))"

lemma row_form_bare [simp]: "row_form sz blob (bare b) = row_form sz blob b"
  by (simp add: row_form_def)

definition new_blob ::
  "blob_service \<Rightarrow> string \<Rightarrow> bytes \<Rightarrow> int \<Rightarrow> objects \<Rightarrow> blob_desc \<Rightarrow> dbstate \<Rightarrow> dbstate \<Rightarrow> bool" where
  "new_blob c h blob sz ob desc d d' \<longleftrightarrow>
     (\<exists>b. d' = d\<lparr>t_blobs := t_blobs d @ [b]\<rparr> \<and> h \<notin> b_hash ` set (t_blobs d) \<and> b_hash b = h
        \<and> b_refcount b = 1 \<and> served c b = Inr blob \<and> backed c ob b \<and> row_form sz blob b
        \<and> (case b_orig b of None \<Rightarrow> b_blob b = blob | Some n \<Rightarrow> n = int (length blob) \<or> n = sz)
        \<and> (sz = int (length blob) \<longrightarrow> d_size desc = charge b))"

lemma Save_spec:
  assumes "enc_ok c"
  shows "wp (Save c pk h url sz mime blob t mode) (\<lambda>r w'. w_saved w' = w_saved w \<and> same_env w w'
     \<and> (case r of Inl _ \<Rightarrow> w_db w' = w_db w
        | Inr desc \<Rightarrow> new_blob c h blob sz (w_objects w') desc (w_db w) (w_db w'))) w"
    (is "wp _ ?Q w")
  unfolding Save_def wp_bind
proof (rule wp_mono [OF seal_blob_spec [OF assms, where pk = pk and h = h and mime = mime and t = t]], goal_cases)
  case (1 r w1)
  show ?case
  proof (cases r)
    case (Inl e)
    with 1 show ?thesis by (simp add: wp_simp)
  next
    case (Inr s)
    let ?b = "blob_row_for pk h mime t s"
    have s: "served c ?b = Inr blob" "sl_orig s = None \<Longrightarrow> sl_data s = blob"
      "sl_orig s = Some n \<Longrightarrow> n = int (length blob) \<or> n = sz" for n
      using 1 Inr by auto
    have new: "new_blob c h blob sz ob (saved_descriptor h url sz mime t s) d d'"
      if "q_InsertBlob ?b d = (Inr x, d')" "bs_storage c \<longrightarrow> ob h = Some (sl_data s)" for d d' x ob
    proof (cases rule: q_InsertBlob_cases [OF that(1)])
      case 2
      have e: "?b\<lparr>b_expires := None\<rparr> = ?b" by (simp add: blob_row_for_def)
      have f: "b_hash ?b = h" "b_refcount ?b = 1" "b_size ?b = int (length (b_blob ?b))" "b_orig ?b = sl_orig s"
        "b_blob ?b = sl_data s" "b_mode ?b = sl_mode s"
        by (simp_all add: blob_row_for_def)
      have z: "case b_orig ?b of None \<Rightarrow> b_blob ?b = blob | Some n \<Rightarrow> n = int (length blob) \<or> n = sz"
        using s(2,3) by (cases "sl_orig s") (simp_all add: f)
      have g: "sz = int (length blob) \<longrightarrow> d_size (saved_descriptor h url sz mime t s) = charge ?b"
        using s(2) by (cases "sl_orig s") (simp_all add: saved_descriptor_def charge_def f)
      have form: "row_form sz blob ?b"
        using 1 Inr by (auto simp: row_form_def f charge_def)
      show ?thesis
        unfolding new_blob_def
        using 2(2,3) e f z g form s(1) that(2) by (intro exI [of _ ?b]) (simp add: backed_def)
    qed simp
    have err: "d' = d" if "q_InsertBlob ?b d = (Inl e, d')" for d d' e
      using that by (cases rule: q_InsertBlob_cases) auto
    have w1: "w_db w1 = w_db w" "w_saved w1 = w_saved w" "same_env w w1" using 1 by auto
    have clean: "wp (if bs_storage c then st_Delete h else ret (Inr ())) (\<lambda>_ w'. w_saved w' = w_saved w
        \<and> same_env w w' \<and> w_db w' = w_db w) w2"
      if "w_db w2 = w_db w" "w_saved w2 = w_saved w" "same_env w w2" for w2
      using that by (auto simp: wp_simp same_env_def intro!: wp_Delete)
    have insert: "wp (do {
        r \<leftarrow> exec_sql (q_InsertBlob ?b);
        case r of
          Inl e \<Rightarrow> do { _ \<leftarrow> (if bs_storage c then st_Delete h else ret (Inr ())); ret (Inl e) }
        | Inr _ \<Rightarrow> ret (Inr (saved_descriptor h url sz mime t s)) }) ?Q w2"
      if "w_db w2 = w_db w" "w_saved w2 = w_saved w" "same_env w w2"
        "bs_storage c \<longrightarrow> w_objects w2 h = Some (sl_data s)" for w2
      unfolding wp_bind
    proof (rule wp_exec, goal_cases)
      case (1 fs)
      show ?case
        unfolding sum.case wp_bind wp_ret
        by (rule wp_mono [OF clean]) (use that in \<open>auto simp: same_env_def\<close>)
    next
      case (2 fs r d)
      show ?case
      proof (cases r)
        case (Inl e)
        with 2 err that(1) have "d = w_db w" by simp
        then show ?thesis
          unfolding Inl sum.case wp_bind wp_ret
          by (intro wp_mono [OF clean]) (use that in \<open>auto simp: same_env_def\<close>)
      next
        case (Inr x)
        with 2 that new [of "w_db w" x d "w_objects w2"] show ?thesis
          by (simp add: wp_ret same_env_def)
      qed
    qed
    show ?thesis
    proof (cases "bs_storage c")
      case True
      show ?thesis
        unfolding Inr sum.case wp_bind if_P [OF True]
      proof (rule wp_Put, goal_cases)
        case (1 fs)
        then show ?case using w1 by (simp add: wp_ret same_env_def)
      next
        case (2 fs)
        show ?case
          unfolding sum.case
          by (rule insert [unfolded if_P [OF True]]) (use w1 in \<open>simp_all add: same_env_def\<close>)
      qed
    next
      case False
      show ?thesis
        unfolding Inr sum.case wp_bind if_not_P [OF False] wp_ret
        by (rule insert [unfolded wp_bind if_not_P [OF False] wp_ret]) (use w1 False in simp_all)
    qed
  qed
qed

text \<open>\<^verbatim>\<open>addReference\<close>: an error changes nothing; otherwise the key owns the blob, or there is no blob.\<close>

lemma addReference_spec:
  assumes inv: "db_inv (w_db w)" and "w_saved w = None"
  shows "wp (addReference pk h t) (\<lambda>r w'. w_saved w' = None \<and> same_env w w' \<and> w_objects w' = w_objects w
     \<and> (case r of
          Inl _ \<Rightarrow> w_db w' = w_db w
        | Inr (added, gone) \<Rightarrow>
            gone = (owned (w_db w) h = None) \<and> (gone \<longrightarrow> w_db w' = w_db w)
            \<and> (\<not> gone \<longrightarrow> added = (\<not> owns pk h (owned (w_db w))) \<and> db_inv (w_db w')
                 \<and> owned (w_db w') = add_owner pk h (owned (w_db w)) \<and> others (w_db w') = others (w_db w)))) w"
proof -
  let ?d = "w_db w"
  have keys: "db_keys ?d" using inv by (simp add: db_inv_def)
  have lock: "d' = ?d \<and> (\<exists>n. r = Inr n \<and> (n = 0 \<longleftrightarrow> owned ?d h = None))"
    if "q_LockBlobRow h ?d = (r, d')" for r d'
    using that by (auto simp: q_LockBlobRow_def owned_None filter_empty_conv has_hash_def)
  have inc: "x = Inr () \<longrightarrow> db_inv d2 \<and> others d2 = others ?d \<and> \<not> owns pk h (owned ?d)
      \<and> owned d2 = add_owner pk h (owned ?d)"
    if c: "q_CreateBlobReference pk h t ?d = (Inr y, d1)" and i: "q_IncrementBlobRefCount h d1 = (x, d2)" for y d1 x d2
  proof (cases rule: q_CreateBlobReference_cases [OF c])
    case (3 z)
    show ?thesis
    proof (cases rule: add_ref_count_cases [OF i [unfolded q_IncrementBlobRefCount_def]])
      case 2
      with add_chain [OF inv 3(2,3,4) 2(2)] 3(2) keys show ?thesis by (simp add: owns_owned)
    qed simp
  qed simp_all
  have cre: "\<not> errors_is e ErrNoRows \<or> d1 = ?d \<and> owns pk h (owned ?d)"
    if "q_CreateBlobReference pk h t ?d = (Inl e, d1)" for e d1
    using that keys by (cases rule: q_CreateBlobReference_cases) (auto simp: owns_owned)
  show ?thesis
    unfolding addReference_def
    by (rule wp_with_tx [OF assms(2)], simp, intro txp_rule)
      (use inc cre assms in \<open>fastforce simp: add_owner_idem dest!: lock\<close>)+
qed

text \<open>The transaction of \<^verbatim>\<open>DeleteReference\<close>: an error changes nothing.\<close>

lemma remove_reference_spec:
  assumes inv: "db_inv (w_db w)" and "w_saved w = None"
  shows "wp (remove_reference pk h) (\<lambda>r w'. w_saved w' = None \<and> same_env w w' \<and> w_objects w' = w_objects w
     \<and> (case r of
          Inl _ \<Rightarrow> w_db w' = w_db w
        | Inr lst \<Rightarrow>
            owns pk h (owned (w_db w)) \<and> db_inv (w_db w')
            \<and> owned (w_db w') = drop_owner pk h (owned (w_db w)) \<and> lst = (owned (w_db w') h = None)
            \<and> others (w_db w') = others (w_db w))) w"
proof -
  let ?d = "w_db w"
  define P where "P = (\<lambda>r d'. case r of
          Inl (_ :: goerr) \<Rightarrow> d' = ?d
        | Inr lst \<Rightarrow>
            owns pk h (owned ?d) \<and> db_inv d'
            \<and> owned d' = drop_owner pk h (owned ?d) \<and> lst = (owned d' h = None) \<and> others d' = others ?d)"
  have keys: "db_keys ?d" using inv by (simp add: db_inv_def)
  let ?d1 = "?d\<lparr>t_refs := filter (\<lambda>r. \<not> is_ref pk h r) (t_refs ?d)\<rparr>"
  obtain n where lock: "q_LockBlobRow h ?d = (Inr n, ?d)" by (simp add: q_LockBlobRow_def)
  have del: "q_DeleteBlobReference pk h ?d = (Inr (if owns pk h (owned ?d) then 1 else 0), ?d1)"
    using q_DeleteBlobReference_eq [OF keys, of pk h] keys
    by (cases "q_DeleteBlobReference pk h ?d") (simp add: owns_owned)
  have fin: "txp (finish_removal h) P ?d d2"
    if o: "owns pk h (owned ?d)" and d1: "d1 = ?d\<lparr>t_refs := filter (\<lambda>r. \<not> is_ref pk h r) (t_refs ?d)\<rparr>"
      and dec: "q_DecrementBlobRefCount h d1 = (r, d2)" and r: "r = Inr m \<or> r = Inl e \<and> errors_is e ErrNoRows"
    for d1 d2 r m e
  proof -
    have mem: "pk \<in> owner_set h ?d" using o keys by (simp add: owns_owned)
    then have blob: "h \<in> b_hash ` set (t_blobs ?d)" using no_blob_no_owner [OF keys, of h] by blast
    obtain d2: "d2 = d1\<lparr>t_blobs := update_where (has_hash h) (\<lambda>b. b\<lparr>b_refcount := b_refcount b + -1\<rparr>) (t_blobs d1)\<rparr>"
      using r blob d1 by (cases rule: q_DecrementBlobRefCount_cases [OF dec]) auto
    note ch = remove_chain [OF inv mem d1 d2]
    have keys2: "db_keys d2" "ref_counts d2" using ch(1) by (auto simp: db_inv_def)
    obtain b S where bS: "owned ?d h = Some (b, S)" "S = owner_set h ?d"
      using blob owned_None [of ?d h] by (cases "owned ?d h") (auto simp: owned_def)
    have end1: "P (Inr True) d3" if q: "q_DeleteOwnerlessBlob h d2 = (Inr x, d3)" for x d3
    proof (cases rule: q_DeleteOwnerlessBlob_cases [OF q keys2(1)])
      case 2
      then show ?thesis
        using o ch bS keys2 by (auto simp: P_def db_inv_def drop_owner_def)
    qed simp
    have end2: "d3 = d2 \<and> P (Inr False) d2" if q: "q_DeleteOwnerlessBlob h d2 = (Inl e, d3)" for e d3
    proof (cases rule: q_DeleteOwnerlessBlob_cases [OF q keys2(1)])
      case 1
      then have "owner_set h d2 \<noteq> {}" using ch(5) blob by simp
      then show ?thesis
        using 1 o ch bS by (auto simp: P_def drop_owner_def)
    qed simp
    have err: "P (Inl e') ?d" for e' by (simp add: P_def)
    show ?thesis
      unfolding finish_removal_def by (intro txp_rule) (auto simp: err dest: end1 end2)
  qed
  have err: "P (Inl e) ?d" for e by (simp add: P_def)
  have body: "txp (do {
       m \<leftarrow> exec_sql (q_DecrementBlobRefCount h);
       case m of
         Inl e \<Rightarrow> if \<not> errors_is e ErrNoRows then ret (Inl (Wrap ''decrement ref count'' e)) else finish_removal h
       | Inr _ \<Rightarrow> finish_removal h }) P ?d ?d1" if "owns pk h (owned ?d)"
    by (intro txp_rule) (use fin [OF that refl] in \<open>auto simp: err\<close>)
  have "wp (remove_reference pk h)
      (\<lambda>r w'. w_saved w' = None \<and> same_env w w' \<and> w_objects w' = w_objects w \<and> P r (w_db w')) w"
    unfolding remove_reference_def
    by (rule wp_with_tx [OF assms(2)])
      (auto simp: err intro!: txp_exec_eq [where f = "q_LockBlobRow h", OF lock]
        txp_exec_eq [where f = "q_DeleteBlobReference pk h", OF del] txp_ret body)
  then show ?thesis by (rule wp_mono) (auto simp: P_def split: sum.splits)
qed

lemma served_bare [simp]: "served c (bare b) = served c b"
  by (simp add: served_def bare_def)

text \<open>What a save makes of the map of owned blobs, if it succeeds and if it does not.\<close>

definition saved_map ::
  "blob_service \<Rightarrow> string \<Rightarrow> string \<Rightarrow> bytes \<Rightarrow> int \<Rightarrow> objects \<Rightarrow> owner_map \<Rightarrow> owner_map \<Rightarrow> bool" where
  "saved_map c pk h blob sz ob m m' \<longleftrightarrow>
     (case m h of
        Some _ \<Rightarrow> m' = add_owner pk h m
      | None \<Rightarrow> \<exists>b. m' = m(h := Some (b, {pk})) \<and> b_hash b = h \<and> served c b = Inr blob
               \<and> backed c ob b \<and> row_form sz blob b
               \<and> (case b_orig b of None \<Rightarrow> b_blob b = blob | Some n \<Rightarrow> n = int (length blob) \<or> n = sz))"

definition failed_map :: "blob_service \<Rightarrow> string \<Rightarrow> bytes \<Rightarrow> int \<Rightarrow> owner_map \<Rightarrow> owner_map \<Rightarrow> bool" where
  "failed_map c h blob sz m m' \<longleftrightarrow>
     m' = m \<or> m h = None \<and> (\<exists>b. m' = m(h := Some (b, {})) \<and> b_hash b = h \<and> served c b = Inr blob
       \<and> row_form sz blob b)"

lemma saved_owners_iff:
  "saved_map c pk h blob n ob m m' \<Longrightarrow> owns pk' h' m' \<longleftrightarrow> owns pk' h' m \<or> pk' = pk \<and> h' = h"
  by (auto simp: saved_map_def add_owner_def owns_def split: option.splits if_splits)

lemma failed_owns: "failed_map c h blob n m m' \<Longrightarrow> owns pk' h' m' = owns pk' h' m"
  by (cases "h' = h") (auto simp: failed_map_def owns_def split: if_splits option.splits)

text \<open>The size in the descriptor that is returned is the size to charge.\<close>

definition desc_charge :: "int \<Rightarrow> bytes \<Rightarrow> string \<Rightarrow> blob_desc \<Rightarrow> owner_map \<Rightarrow> bool" where
  "desc_charge sz blob h desc m \<longleftrightarrow>
     (\<exists>b S. m h = Some (b, S) \<and> (sz = int (length blob) \<longrightarrow> d_size desc = charge b))"

lemma owns_None: "owned d h = None \<Longrightarrow> \<not> owns pk h (owned d)"
  by (simp add: owns_def)

lemma save_new_spec:
  assumes "enc_ok c" "db_inv (w_db w)" "w_saved w = None"
  shows "wp (save_new c pk h url sz mime blob t mode) (\<lambda>r w'. w_saved w' = None \<and> same_env w w'
     \<and> db_inv (w_db w') \<and> others (w_db w') = others (w_db w)
     \<and> (case r of
          Inl _ \<Rightarrow> failed_map c h blob sz (owned (w_db w)) (owned (w_db w'))
        | Inr (desc, added) \<Rightarrow> added \<and> owned (w_db w) h = None
            \<and> saved_map c pk h blob sz (w_objects w') (owned (w_db w)) (owned (w_db w'))
            \<and> desc_charge sz blob h desc (owned (w_db w')))) w"
  unfolding save_new_def wp_simp
proof (rule wp_mono [OF Save_spec [OF assms(1)]], goal_cases)
  case (1 r w1)
  let ?d = "w_db w"
  show ?case
  proof (cases r)
    case (Inl e)
    with 1 assms show ?thesis by (simp add: wp_simp failed_map_def)
  next
    case (Inr desc)
    with 1 obtain b where b: "w_db w1 = ?d\<lparr>t_blobs := t_blobs ?d @ [b]\<rparr>" "h \<notin> b_hash ` set (t_blobs ?d)"
      "b_hash b = h" "b_refcount b = 1" "served c b = Inr blob" "backed c (w_objects w1) b" "row_form sz blob b"
      "case b_orig b of None \<Rightarrow> b_blob b = blob | Some n \<Rightarrow> n = int (length blob) \<or> n = sz"
      "sz = int (length blob) \<longrightarrow> d_size desc = charge b"
      and w1: "w_saved w1 = None" "same_env w w1"
      using assms(3) by (auto simp: new_blob_def)
    let ?d1 = "w_db w1"
    have k: "db_keys ?d" "ref_counts ?d" using assms(2) by (auto simp: db_inv_def)
    have n: "owned ?d h = None" using b by (simp add: owned_None)
    have ins: "db_keys ?d1" "owned ?d1 = (owned ?d)(h := Some (bare b, {}))" "ref_counts ?d1"
      "others ?d1 = others ?d"
      using insert_blob [of ?d b] k b by simp_all
    have e: "pk \<notin> owner_set h ?d1" using ins owns_owned [of ?d1 pk h] by (simp add: owns_def)
    have fail: "db_inv ?d1" "failed_map c h blob sz (owned ?d) (owned ?d1)"
      using ins n b by (auto simp: db_inv_def failed_map_def intro!: exI [of _ "bare b"])
    have ref: "r = Inl e \<longrightarrow> d2 = ?d1 \<and> \<not> errors_is e ErrNoRows"
      "r = Inr x \<longrightarrow> db_inv d2 \<and> others d2 = others ?d \<and> saved_map c pk h blob sz (w_objects w1) (owned ?d) (owned d2)
        \<and> desc_charge sz blob h desc (owned d2)"
      if q: "q_CreateBlobReference pk h t ?d1 = (r, d2)" for r d2 e x
    proof (atomize (full), cases rule: q_CreateBlobReference_cases [OF q])
      case 1
      with e show "(r = Inl e \<longrightarrow> d2 = ?d1 \<and> \<not> errors_is e ErrNoRows) \<and> (r = Inr x \<longrightarrow> db_inv d2
          \<and> others d2 = others ?d \<and> saved_map c pk h blob sz (w_objects w1) (owned ?d) (owned d2)
          \<and> desc_charge sz blob h desc (owned d2))" by simp
    next
      case 2
      then show "(r = Inl e \<longrightarrow> d2 = ?d1 \<and> \<not> errors_is e ErrNoRows) \<and> (r = Inr x \<longrightarrow> db_inv d2
          \<and> others d2 = others ?d \<and> saved_map c pk h blob sz (w_objects w1) (owned ?d) (owned d2)
          \<and> desc_charge sz blob h desc (owned d2))" by auto
    next
      case (3 y)
      note ir = insert_blob_ref [OF assms(2) b(2,3,4,1) 3(4)]
      show "(r = Inl e \<longrightarrow> d2 = ?d1 \<and> \<not> errors_is e ErrNoRows) \<and> (r = Inr x \<longrightarrow> db_inv d2
          \<and> others d2 = others ?d \<and> saved_map c pk h blob sz (w_objects w1) (owned ?d) (owned d2)
          \<and> desc_charge sz blob h desc (owned d2))"
        using ir 3(1) n b by (auto simp: saved_map_def desc_charge_def intro!: exI [of _ "bare b"] split: option.splits)
    qed
    show ?thesis
      using w1 fail ins(4) n
      by (auto simp: Inr wp_simp same_env_def dest: ref intro!: wp_exec split: sum.splits)
  qed
qed

text \<open>What the operations of the blob service do to the map of owned blobs, whichever calls fail.\<close>

lemma SaveWithDedup_spec:
  assumes "enc_ok c" "db_inv (w_db w)" "w_saved w = None"
  shows "wp (SaveWithDedup c pk h url sz mime blob t mode) (\<lambda>r w'. w_saved w' = None \<and> same_env w w'
     \<and> db_inv (w_db w') \<and> others (w_db w') = others (w_db w)
     \<and> (case r of
          Inl _ \<Rightarrow> failed_map c h blob sz (owned (w_db w)) (owned (w_db w'))
        | Inr (desc, added) \<Rightarrow> added = (\<not> owns pk h (owned (w_db w)))
            \<and> saved_map c pk h blob sz (w_objects w') (owned (w_db w)) (owned (w_db w'))
            \<and> desc_charge sz blob h desc (owned (w_db w')))) w"
    (is "wp _ ?Q w")
proof -
  let ?d = "w_db w"
  have keys: "db_keys ?d" using assms(2) by (simp add: db_inv_def)
  have new: "wp (save_new c pk h url sz mime blob t mode) ?Q w1"
    if "w_db w1 = ?d" "w_saved w1 = None" "same_env w w1" for w1
  proof (rule wp_mono [OF save_new_spec [OF assms(1)]], goal_cases)
    case (3 r w2)
    then show ?case
      using that owns_None [of ?d h pk] by (auto simp: same_env_def split: sum.splits)
  qed (use that assms(2) in simp_all)
  have desc: "d_size (dbBlobIntoBlobDescriptor c x) = charge x" for x
    by (simp add: dbBlobIntoBlobDescriptor_def charge_def Let_def)
  have add: "wp (addReference pk h t) (\<lambda>a w2. wp (case a of
        Inl e \<Rightarrow> ret (Inl (Wrap ''create reference'' e))
      | Inr (added, gone) \<Rightarrow> if \<not> gone then ret (Inr (dbBlobIntoBlobDescriptor c x, added))
                            else save_new c pk h url sz mime blob t mode) ?Q w2) w1"
    if "w_db w1 = ?d" "w_saved w1 = None" "same_env w w1" and x: "owned ?d h = Some (bare x, S)" for w1 x S
  proof (rule wp_mono [OF addReference_spec], goal_cases)
    case (3 a w2)
    then show ?case
      using that assms(2) x
      by (auto simp: wp_simp same_env_def failed_map_def saved_map_def add_owner_def desc x desc_charge_def
          split: sum.splits option.splits)
  qed (use that assms(2) in simp_all)
  have get: "d1 = ?d \<and> (\<forall>x. r = Inr x \<longrightarrow> (\<exists>S. owned ?d h = Some (bare x, S)))" if "q_GetBlobFromHash h ?d = (r, d1)" for r d1
    using that by (auto simp: q_GetBlobFromHash_def first_row_blob owned_def split: option.splits)
  have has: "d1 = ?d \<and> r = Inr (owns pk h (owned ?d))" if "q_HasBlobReference pk h ?d = (r, d1)" for r d1
    using that keys by (auto simp: q_HasBlobReference_def owns_owned owner_set_iff)
  show ?thesis
    unfolding SaveWithDedup_def HasReference_def wp_bind
  proof (rule wp_exec, goal_cases)
    case (1 fs)
    then show ?case using new by (simp add: same_env_def assms(3))
  next
    case (2 fs r d1)
    note g = get [OF 2]
    show ?case
    proof (cases r)
      case (Inl e)
      then show ?thesis using new g by (simp add: same_env_def assms(3))
    next
      case (Inr x)
      with g obtain S where x: "owned ?d h = Some (bare x, S)" "d1 = ?d" by auto
      show ?thesis
        unfolding Inr sum.case wp_bind
      proof (rule wp_exec, goal_cases)
        case (1 fs')
        then show ?case using x(2) assms by (simp add: wp_simp failed_map_def same_env_def)
      next
        case (2 fs' r' d2)
        then have d2: "d2 = ?d" "r' = Inr (owns pk h (owned ?d))" using has x(2) by auto
        show ?case
        proof (cases "owns pk h (owned ?d)")
          case True
          with x(1) assms d2 show ?thesis
            by (auto simp: wp_simp saved_map_def same_env_def add_owner_idem desc desc_charge_def)
        next
          case False
          show ?thesis
            unfolding d2 sum.case if_not_P [OF False] wp_bind
            by (intro add) (use x assms in \<open>simp_all add: same_env_def\<close>)
        qed
      qed
    qed
  qed
qed

lemma DeleteReference_spec:
  assumes "db_inv (w_db w)" "w_saved w = None"
  shows "wp (DeleteReference c pk h) (\<lambda>r w'. w_saved w' = None \<and> same_env w w'
     \<and> (case r of
          Inl _ \<Rightarrow> w_db w' = w_db w \<and> w_objects w' = w_objects w
        | Inr lst \<Rightarrow>
            owns pk h (owned (w_db w)) \<and> db_inv (w_db w')
            \<and> owned (w_db w') = drop_owner pk h (owned (w_db w)) \<and> lst = (owned (w_db w') h = None)
            \<and> others (w_db w') = others (w_db w)
            \<and> (w_objects w' = w_objects w \<or> lst \<and> w_objects w' = (w_objects w)(h := None)))) w"
  unfolding DeleteReference_def wp_bind
  by (rule wp_mono [OF remove_reference_spec [OF assms]])
    (auto simp: wp_simp same_env_def intro!: wp_Delete split: sum.splits)

lemma DeleteFromHash_spec:
  assumes "db_inv (w_db w)" "w_saved w = None"
  shows "wp (DeleteFromHash c h) (\<lambda>r w'. w_saved w' = None \<and> same_env w w'
     \<and> (case r of
          Inl _ \<Rightarrow> w_db w' = w_db w
        | Inr _ \<Rightarrow> db_inv (w_db w') \<and> owned (w_db w') = (owned (w_db w))(h := None)
            \<and> others (w_db w') = others (w_db w))) w"
proof -
  have "db_keys (w_db w)" "ref_counts (w_db w)" using assms(1) by (auto simp: db_inv_def)
  note e = q_DeleteBlobFromHash_effect [OF this(1), of h] this
  have q: "\<exists>d'. q_DeleteBlobFromHash h (w_db w) = (Inr (), d')" by (simp add: q_DeleteBlobFromHash_def)
  show ?thesis
    unfolding DeleteFromHash_def wp_simp
    using e q assms(2)
    by (auto simp: wp_simp same_env_def db_inv_def intro!: wp_exec wp_Delete)
qed

lemma GetFromHash_spec:
  assumes "owned (w_db w) h = Some (b, S)" "backed c (w_objects w) b"
  shows "wp (GetFromHash c h) (\<lambda>r w'. w_db w' = w_db w \<and> w_objects w' = w_objects w
     \<and> (\<forall>x. r = Inr x \<longrightarrow> served c b = Inr (d_blob x) \<and> d_sha x = h \<and> d_type x = b_type b
          \<and> d_size x = (case b_orig b of Some n \<Rightarrow> n | None \<Rightarrow> b_size b))) w"
proof -
  obtain b0 where b0: "blob_of h (w_db w) = Some b0" "b = bare b0" "b_hash b0 = h"
    using assms(1) by (auto simp: owned_def dest: blob_of_Some)
  have st: "bs_storage c \<Longrightarrow> w_objects w h = Some (b_blob b0)"
    using assms(2) b0 by (simp add: backed_def)
  have q: "q_GetBlobFromHash h (w_db w) = (Inr b0, w_db w)"
    by (simp add: q_GetBlobFromHash_def first_row_blob b0)
  have s: "served c b = served c b0" by (simp add: b0)
  show ?thesis
    unfolding GetFromHash_def wp_bind
    apply (rule wp_exec)
     apply (simp add: wp_simp)
    apply (clarsimp simp: q wp_simp)
    apply (intro conjI impI wp_Get)
    by (auto simp: st s b0 served_def wp_simp dbBlobIntoBlobDescriptor_def Let_def bare_def
        split: sum.splits option.splits if_splits)
qed

text \<open>The reading operations change nothing, and the size they report for a row is the charged one (\<^verbatim>\<open>GetDescriptor\<close>: the
  stored one unless the server encrypted the blob).\<close>

definition reads_only :: "world \<Rightarrow> world \<Rightarrow> bool" where
  "reads_only w w' \<longleftrightarrow> w_db w' = w_db w \<and> w_objects w' = w_objects w \<and> w_saved w' = w_saved w \<and> same_env w w'"

lemma reads_only_refl [simp]: "reads_only w w" "reads_only w (w\<lparr>w_faults := fs\<rparr>)"
  by (simp_all add: reads_only_def same_env_def)

lemma reads_only_trans: "reads_only w w1 \<Longrightarrow> reads_only w1 w2 \<Longrightarrow> reads_only w w2"
  by (simp add: reads_only_def same_env_def)

lemma GetFromHash_reads:
  "wp (GetFromHash c h) (\<lambda>r w'. reads_only w w' \<and> (\<forall>x. r = Inr x \<longrightarrow> (\<exists>b. blob_of h (w_db w) = Some b
     \<and> d_size x = charge b \<and> d_pubkey x = b_pubkey b \<and> d_sha x = h))) w"
  unfolding GetFromHash_def wp_bind
proof (rule wp_exec, goal_cases)
  case (1 fs)
  then show ?case by (simp add: wp_simp)
next
  case (2 fs r d)
  then have d: "d = w_db w" "r = (case blob_of h (w_db w) of None \<Rightarrow> Inl ErrNoRows | Some b \<Rightarrow> Inr b)"
    by (auto simp: q_GetBlobFromHash_def first_row_blob)
  show ?case
  proof (cases "blob_of h (w_db w)")
    case None
    then show ?thesis by (simp add: d wp_simp)
  next
    case (Some b)
    then have h: "b_hash b = h" by (auto dest: blob_of_Some)
    let ?Q = "\<lambda>r w'. reads_only w w' \<and> (\<forall>x. r = Inr x \<longrightarrow> (\<exists>b. blob_of h (w_db w) = Some b
       \<and> d_size x = charge b \<and> d_pubkey x = b_pubkey b \<and> d_sha x = h))"
    have fin: "wp (let blob = (case g of Inl _ \<Rightarrow> dbBlobIntoBlobDescriptor c b
            | Inr data \<Rightarrow> (dbBlobIntoBlobDescriptor c b)\<lparr>d_blob := data\<rparr>)
         in if b_mode b = ''server'' \<and> IsEnabled (bs_encryptor c)
            then (case Decrypt (the (bs_encryptor c)) (x blob) of
                    Inl e \<Rightarrow> ret (Inl e)
                  | Inr p \<Rightarrow> ret (Inr (blob\<lparr>d_blob := p, d_size := (case b_orig b of Some n \<Rightarrow> n | None \<Rightarrow> d_size blob)\<rparr>)))
            else ret (Inr blob)) ?Q w2" if "reads_only w w2" for g :: "bytes result" and x w2
    proof -
      let ?blob = "case g of Inl _ \<Rightarrow> dbBlobIntoBlobDescriptor c b
            | Inr data \<Rightarrow> (dbBlobIntoBlobDescriptor c b)\<lparr>d_blob := data\<rparr>"
      have "d_size ?blob = charge b" "d_pubkey ?blob = b_pubkey b" "d_sha ?blob = h"
        "(case b_orig b of Some n \<Rightarrow> n | None \<Rightarrow> d_size ?blob) = charge b"
        by (auto simp: dbBlobIntoBlobDescriptor_def charge_def h Let_def split: sum.split option.split)
      with that Some show ?thesis
        unfolding Let_def wp_if wp_case_sum wp_ret by (simp split: sum.split)
    qed
    have r: "r = Inr b" using d Some by simp
    show ?thesis
    proof (cases "bs_storage c \<and> b_blob b = []")
      case True
      show ?thesis
        unfolding d(1) r sum.case wp_bind if_P [OF True]
        by (rule wp_Get; rule fin; simp)
    next
      case False
      show ?thesis
        unfolding d(1) r sum.case wp_bind if_not_P [OF False] wp_ret
        by (rule fin [of _ "Inr (b_blob b)", unfolded sum.case]) (simp add: reads_only_def same_env_def)
    qed
  qed
qed

lemma GetDescriptor_reads:
  "wp (GetDescriptor c h) (\<lambda>r w'. reads_only w w' \<and> (\<forall>x. r = Inr x \<longrightarrow> (\<exists>b. blob_of h (w_db w) = Some b
     \<and> d_size x = (if b_mode b \<noteq> ''server'' then b_size b else charge b)))
     \<and> (r = Inl ErrNoRows \<longrightarrow> blob_of h (w_db w) = None)) w"
  unfolding GetDescriptor_def wp_bind
proof (rule wp_exec, goal_cases)
  case (1 fs)
  then show ?case by (simp add: wp_ret)
next
  case (2 fs r d)
  then have d: "d = w_db w" "r = (case blob_of h (w_db w) of None \<Rightarrow> Inl ErrNoRows | Some b \<Rightarrow> Inr b)"
    by (auto simp: q_GetBlobFromHash_def first_row_blob)
  have c: "d_size (dbBlobIntoBlobDescriptor c b) = charge b" for b
    by (simp add: dbBlobIntoBlobDescriptor_def charge_def Let_def)
  show ?case
    by (cases "blob_of h (w_db w)") (simp_all add: d wp_ret Let_def c reads_only_def same_env_def)
qed

lemma HasReference_reads:
  assumes "db_keys (w_db w)"
  shows "wp (HasReference pk h) (\<lambda>r w'. reads_only w w' \<and> (\<forall>x. r = Inr x \<longrightarrow> x = owns pk h (owned (w_db w)))) w"
  unfolding HasReference_def
  by (rule wp_exec) (auto simp: q_HasBlobReference_def owns_owned [OF assms] owner_set_iff reads_only_def same_env_def)

lemma ListReferenceOwners_reads:
  "wp (ListReferenceOwners h) (\<lambda>r w'. reads_only w w' \<and> (\<forall>xs. r = Inr xs \<longrightarrow> set xs = owner_set h (w_db w))) w"
  unfolding ListReferenceOwners_def wp_bind
  by (rule wp_exec) (auto simp: wp_simp q_GetBlobReferencesByHash_def owner_set_def owners_def reads_only_def same_env_def)

text \<open>A save of a new blob succeeds when nothing fails and nothing is to be encrypted.\<close>

lemma SaveWithDedup_new:
  assumes "quiet w" "w_saved w = None" "db_inv (w_db w)" "blob_of h (w_db w) = None" "bs_encryptor c = None"
    and "mode = ''none''" "int (length blob) < 2 ^ 63" "in_i64 t"
  shows "wp (SaveWithDedup c pk h url (int (length blob)) mime blob t mode) (\<lambda>r w'. \<not> isl r) w"
proof -
  have no: "\<forall>b \<in> set (t_blobs (w_db w)). b_hash b \<noteq> h" "\<forall>r \<in> set (t_refs (w_db w)). r_hash r \<noteq> h"
    using assms(3,4) by (auto simp: blob_of_None db_inv_def db_keys_def)
  have b: "in_i64 (int (length blob))" "in_i32 1" using assms(7) by (simp_all add: in_i64_def in_i32_def)
  show ?thesis
    using assms no b
    by (auto simp: SaveWithDedup_def save_new_def Save_def seal_blob_def seal_server_def plain_form_def wp_simp no_fault quiet_def
        q_GetBlobFromHash_def first_row_blob q_InsertBlob_def blob_row_for_def q_CreateBlobReference_def is_ref_def Let_def)
qed

lemma keeps_quiet_blobs [keeps_rule]:
  "keeps quiet (SaveWithDedup c pk h url sz mime blob t mode)" "keeps quiet (DeleteReference c pk h)"
  "keeps quiet (DeleteFromHash c h)" "keeps quiet (GetFromHash c h)" "keeps quiet (GetDescriptor c h)"
  "keeps quiet (HasReference pk h)" "keeps quiet (ListReferenceOwners h)" "keeps quiet (Exists h)"
  unfolding SaveWithDedup_def save_new_def Save_def seal_blob_def seal_server_def HasReference_def addReference_def
    DeleteReference_def remove_reference_def finish_removal_def DeleteFromHash_def GetFromHash_def GetDescriptor_def
    ListReferenceOwners_def Exists_def Let_def
  by (intro keeps_rule)+

section \<open>Properties\<close>

text \<open>C29. \<^verbatim>\<open>SaveWithDedup\<close> implements "add this key to the blob's owners, storing the blob if it is new", whichever
  database and storage calls fail: on success the map of owned blobs is exactly that, the flag tells
  whether the key was new (so an upload is charged once), and the new row serves the uploaded bytes; on
  an error no owner was added and nothing else changed, except that a new blob may be left without an
  owner. The keys, foreign keys and reference counters of the tables stay consistent in every case.\<close>

theorem SaveWithDedup_refines:
  assumes "enc_ok c" "db_inv (w_db w)" "w_saved w = None"
    and "run_state (SaveWithDedup c pk h url sz mime blob t mode) w = (r, w')"
  shows "db_inv (w_db w') \<and> others (w_db w') = others (w_db w) \<and>
    (case r of
       Inl _ \<Rightarrow> failed_map c h blob sz (owned (w_db w)) (owned (w_db w'))
     | Inr (desc, added) \<Rightarrow> added = (\<not> owns pk h (owned (w_db w)))
         \<and> saved_map c pk h blob sz (w_objects w') (owned (w_db w)) (owned (w_db w')))"
  using wp_run [OF SaveWithDedup_spec [OF assms(1-3)] assms(4)] by (auto split: sum.splits)

definition plain_service :: blob_service where
  "plain_service = \<lparr>bs_storage = True, bs_encryptor = None, bs_cdn = ''http://cdn''\<rparr>"

theorem SaveWithDedup_refines_witness:
  "db_inv (w_db (snd (run_state (SaveWithDedup plain_service ''pk'' ''h'' ''u'' 2 ''image/png'' [1, 2] 7 ''none'')
      (start_world empty_db))))"
  by (rule SaveWithDedup_refines [OF _ _ _ run_pair, THEN conjunct1])
    (simp_all add: enc_ok_def plain_service_def)

text \<open>C30. \<^verbatim>\<open>DeleteReference\<close> implements "remove this key from the blob's owners, and the blob with the last one",
  whichever calls fail: it succeeds only if the key owned the blob (so a delete is credited once), the
  flag it returns tells exactly whether the blob is gone, and an error means that database and storage
  are unchanged: the transaction is all or nothing.\<close>

theorem DeleteReference_refines:
  assumes "db_inv (w_db w)" "w_saved w = None"
    and "run_state (DeleteReference c pk h) w = (r, w')"
  shows "case r of
      Inl _ \<Rightarrow> w_db w' = w_db w \<and> w_objects w' = w_objects w
    | Inr lst \<Rightarrow> owns pk h (owned (w_db w)) \<and> db_inv (w_db w')
        \<and> owned (w_db w') = drop_owner pk h (owned (w_db w)) \<and> lst = (owned (w_db w') h = None)
        \<and> others (w_db w') = others (w_db w)
        \<and> (w_objects w' = w_objects w \<or> lst \<and> w_objects w' = (w_objects w)(h := None))"
  using wp_run [OF DeleteReference_spec [OF assms(1,2)] assms(3)] by auto

theorem DeleteReference_refines_witness:
  "w_db (snd (run_state (DeleteReference plain_service ''c'' ''h'') (start_world sample_db))) = sample_db"
  using DeleteReference_refines [OF _ _ run_pair, of "start_world sample_db" plain_service "''c''" "''h''"]
  by (simp add: owns_def sample_owned split: sum.splits)

text \<open>When no call fails, \<^verbatim>\<open>DeleteReference\<close> succeeds exactly for the owners of the blob, and any other key gets
  \<^verbatim>\<open>ErrReferenceNotFound\<close>.\<close>

theorem DeleteReference_returns:
  assumes "db_inv (w_db w)" "w_saved w = None" "w_faults w = []"
    and "\<forall>b \<in> set (t_blobs (w_db w)). b_refcount b < 2 ^ 31"
  shows "fst (run_state (DeleteReference c pk h) w)
    = (if owns pk h (owned (w_db w)) then Inr (owner_set h (w_db w) = {pk}) else Inl ErrReferenceNotFound)"
proof -
  let ?d = "w_db w" and ?d1 = "(w_db w)\<lparr>t_refs := filter (\<lambda>r. \<not> is_ref pk h r) (t_refs (w_db w))\<rparr>"
  have k: "db_keys ?d" "ref_counts ?d" using assms(1) by (auto simp: db_inv_def)
  have del: "q_DeleteBlobReference pk h ?d = (Inr (if owns pk h (owned ?d) then 1 else 0), ?d1)"
    using q_DeleteBlobReference_eq [OF k(1), of pk h] k
    by (cases "q_DeleteBlobReference pk h ?d") (simp add: owns_owned)
  obtain n where lock: "q_LockBlobRow h ?d = (Inr n, ?d)" by (simp add: q_LockBlobRow_def)
  show ?thesis
  proof (cases "owns pk h (owned ?d)")
    case False
    then have "wp (DeleteReference c pk h) (\<lambda>r w'. r = Inl ErrReferenceNotFound) w"
      using assms(3) by (simp add: DeleteReference_def remove_reference_def with_tx_def wp_simp no_fault lock del)
    with False show ?thesis by (auto simp: wp_def split: prod.splits)
  next
    case True
    then have mem: "pk \<in> owner_set h ?d" using k by (simp add: owns_owned)
    then have blob: "h \<in> b_hash ` set (t_blobs ?d)" using no_blob_no_owner [OF k(1), of h] by blast
    define d2 where "d2 = ?d1\<lparr>t_blobs := update_where (has_hash h) (\<lambda>b. b\<lparr>b_refcount := b_refcount b + -1\<rparr>) (t_blobs ?d1)\<rparr>"
    note ch = remove_chain [OF assms(1) mem refl d2_def]
    have "\<forall>b \<in> set (t_blobs ?d). in_i32 (b_refcount b + -1)"
      using assms(4) k(2) by (force simp: in_i32_def ref_counts_def n_refs_def)
    then have cnt: "add_ref_count (-1) h ?d1 = (Inr (), d2)"
      by (auto simp: add_ref_count_def d2_def)
    obtain b where "blob_of h d2 = Some b"
      using blob ch(5) blob_of_None [of h d2] by (cases "blob_of h d2") auto
    then obtain m where dec: "q_DecrementBlobRefCount h ?d1 = (Inr m, d2)"
      using cnt by (simp add: q_DecrementBlobRefCount_def)
    have k2: "db_keys d2" using ch(1) by (simp add: db_inv_def)
    have "\<exists>d3. q_DeleteOwnerlessBlob h d2 = (if owner_set h ?d = {pk} then Inr h else Inl ErrNoRows, d3)"
    proof (cases "q_DeleteOwnerlessBlob h d2")
      case (Pair x d3)
      have o: "owner_set h d2 = {} \<longleftrightarrow> owner_set h ?d = {pk}" using ch(3) mem by auto
      show ?thesis
        using Pair o ch(5) blob by (cases rule: q_DeleteOwnerlessBlob_cases [OF Pair k2]) auto
    qed
    then obtain d3 where fin: "q_DeleteOwnerlessBlob h d2 = (if owner_set h ?d = {pk} then Inr h else Inl ErrNoRows, d3)"
      by blast
    have "wp (DeleteReference c pk h) (\<lambda>r w'. r = Inr (owner_set h ?d = {pk})) w"
      using assms(3) True
      by (cases "owner_set h ?d = {pk}")
        (simp_all add: DeleteReference_def remove_reference_def finish_removal_def with_tx_def wp_simp no_fault
          lock del dec fin)
    with True show ?thesis by (auto simp: wp_def split: prod.splits)
  qed
qed

theorem DeleteReference_returns_witness:
  "fst (run_state (DeleteReference plain_service ''b'' ''h'') (start_world sample_db)) = Inr False"
proof -
  have "owner_set ''h'' sample_db = {''a'', ''b''}"
    by (simp add: owner_set_def owners_def sample_db_def)
  moreover have "\<forall>b \<in> set (t_blobs sample_db). b_refcount b < 2 ^ 31"
    by (simp add: sample_db_def sample_blob_def)
  ultimately show ?thesis
    using DeleteReference_returns [of "start_world sample_db" plain_service "''b''" "''h''"]
    by (simp add: owns_def sample_owned)
qed

end
