(* ===== verification/BlobReads.thy ===== *)
theory BlobReads
  imports BlobService
begin

text \<open>
  Properties of the blob service that concern what is read back: the round trip through encryption,
  database and storage, the sizes that are reported, the filtered and paginated listings, and what a
  failing database read does to a blob's stored object.
\<close>

section \<open>Round trip\<close>

lemma saved_map_owned:
  assumes "saved_map c pk h blob sz ob m m'" "m h = None"
  obtains b where "m' h = Some (b, {pk})" "served c b = Inr blob" "backed c ob b"
    "b_size b = int (length (b_blob b))" "b_hash b = h"
    "case b_orig b of None \<Rightarrow> b_blob b = blob | Some n \<Rightarrow> n = int (length blob) \<or> n = sz"
  using assms by (auto simp: saved_map_def row_form_def)

text \<open>C31. Saving a blob that the server does not have yet, and reading it back: whatever failed during the save, if it reported
  success, and no later call fails, then \<^verbatim>\<open>GetFromHash\<close> returns exactly the uploaded bytes, for plaintext, server-side encrypted
  and client-encrypted blobs, with and without a storage backend. (When the server already has the blob, a save only adds the
  owner and does not look at the stored object.)\<close>

theorem save_then_get:
  assumes "enc_ok c" "db_inv (w_db w)" "w_saved w = None" "owned (w_db w) h = None"
    and "run_state (SaveWithDedup c pk h url sz mime blob t mode) w = (Inr x, w')"
    and "w_faults w' = []"
  shows "\<exists>y. fst (run_state (GetFromHash c h) w') = Inr y \<and> d_blob y = blob \<and> d_sha y = h"
proof -
  obtain b where b: "owned (w_db w') h = Some (b, {pk})" "served c b = Inr blob" "backed c (w_objects w') b"
    using wp_run [OF SaveWithDedup_spec [OF assms(1-3)] assms(5)] assms(4)
    by (auto elim!: saved_map_owned split: prod.splits)
  have "wp (GetFromHash c h) (\<lambda>r w''. \<exists>y. r = Inr y) w'"
  proof -
    obtain b0 where b0: "blob_of h (w_db w') = Some b0" "b = bare b0"
      using b(1) by (auto simp: owned_def)
    have q: "q_GetBlobFromHash h (w_db w') = (Inr b0, w_db w')"
      by (simp add: q_GetBlobFromHash_def first_row_blob b0)
    have ob: "bs_storage c \<Longrightarrow> w_objects w' h = Some (b_blob b0)"
      using b(3) b0 by (auto simp: backed_def dest: blob_of_Some)
    have "served c b0 = Inr blob" using b(2) b0 by simp
    then show ?thesis
      using assms(6) ob b0
      by (auto simp: GetFromHash_def wp_simp no_fault q served_def dbBlobIntoBlobDescriptor_def Let_def
          split: option.splits if_splits sum.splits)
  qed
  moreover note GetFromHash_spec [OF b(1,3)]
  ultimately have "wp (GetFromHash c h) (\<lambda>r w''. \<exists>y. r = Inr y \<and> d_blob y = blob \<and> d_sha y = h) w'"
    by (rule wp_mono [OF wp_conj]) (use b(2) in auto)
  then show ?thesis by (auto simp: wp_def split: prod.splits)
qed

definition crypt_service :: blob_service where
  "crypt_service = \<lparr>bs_storage = True, bs_encryptor = Some null_cipher, bs_cdn = ''http://cdn''\<rparr>"

lemma crypt_service_ok [simp]: "enc_ok crypt_service"
  by (simp add: enc_ok_def crypt_service_def null_cipher_ok)

theorem save_then_get_witness:
  "\<exists>x w' y. run_state (SaveWithDedup crypt_service ''pk'' ''x'' ''u'' 3 ''image/png'' [1, 2, 3] 7 ''none'')
      (start_world sample_db) = (Inr x, w')
    \<and> fst (run_state (GetFromHash crypt_service ''x'') w') = Inr y \<and> d_blob y = [1, 2, 3]"
proof -
  let ?m = "SaveWithDedup crypt_service ''pk'' ''x'' ''u'' 3 ''image/png'' [1, 2, 3] 7 ''none''"
  have "\<not> isl (fst (run_state ?m (start_world sample_db)))" by code_simp
  from run_Inr [OF this] obtain x w' where r: "run_state ?m (start_world sample_db) = (Inr x, w')" by blast
  have "w_faults (snd (run_state ?m (start_world sample_db))) = []" by code_simp
  then have f: "w_faults w' = []" by (simp only: r snd_conv)
  have o: "owned (w_db (start_world sample_db)) ''x'' = None" by (simp add: sample_owned)
  have i: "db_inv (w_db (start_world sample_db))" "w_saved (start_world sample_db) = None" by simp_all
  show ?thesis
    using save_then_get [OF crypt_service_ok i o r f] r by blast
qed

text \<open>The size \<^verbatim>\<open>GetDescriptor\<close> reports for a newly saved blob is the number of bytes \<^verbatim>\<open>GetFromHash\<close> serves, not the
  size of the ciphertext, whatever the encryption mode.\<close>

theorem descriptor_size_is_served_length:
  assumes "enc_ok c" "db_inv (w_db w)" "w_saved w = None" "owned (w_db w) h = None"
    and "run_state (SaveWithDedup c pk h url (int (length blob)) mime blob t mode) w = (Inr x, w')"
    and "run_state (GetDescriptor c h) w' = (Inr y, w'')"
  shows "d_size y = int (length blob)"
proof -
  obtain b where b: "owned (w_db w') h = Some (b, {pk})" "served c b = Inr blob"
    "b_size b = int (length (b_blob b))"
    "case b_orig b of None \<Rightarrow> b_blob b = blob | Some n \<Rightarrow> n = int (length blob) \<or> n = int (length blob)"
    using wp_run [OF SaveWithDedup_spec [OF assms(1-3)] assms(5)] assms(4)
    by (auto elim!: saved_map_owned split: prod.splits)
  obtain b0 where b0: "blob_of h (w_db w') = Some b0" "b = bare b0"
    using b(1) by (auto simp: owned_def)
  have q: "q_GetBlobFromHash h (w_db w') = (Inr b0, w_db w')"
    by (simp add: q_GetBlobFromHash_def first_row_blob b0)
  have "wp (GetDescriptor c h) (\<lambda>r w''. \<forall>y. r = Inr y \<longrightarrow> d_size y = int (length blob)) w'"
    unfolding GetDescriptor_def wp_simp
    using b b0
    by (intro wp_exec)
      (auto simp: wp_simp q dbBlobIntoBlobDescriptor_def Let_def served_def split: option.splits if_splits)
  from wp_run [OF this assms(6)] show ?thesis by simp
qed

theorem descriptor_size_is_served_length_witness:
  "\<exists>w' y w''. w' = snd (run_state (SaveWithDedup crypt_service ''pk'' ''x'' ''u'' 3 ''image/png'' [1, 2, 3] 7 ''e2e'')
        (start_world sample_db))
    \<and> run_state (GetDescriptor crypt_service ''x'') w' = (Inr y, w'') \<and> d_size y = 3"
proof -
  let ?m = "SaveWithDedup crypt_service ''pk'' ''x'' ''u'' 3 ''image/png'' [1, 2, 3] 7 ''e2e''"
  let ?g = "GetDescriptor crypt_service ''x''"
  have "\<not> isl (fst (run_state ?m (start_world sample_db)))" by code_simp
  from run_Inr [OF this] obtain x w' where r: "run_state ?m (start_world sample_db) = (Inr x, w')" by blast
  have "\<not> isl (fst (run_state ?g (snd (run_state ?m (start_world sample_db)))))" by code_simp
  from run_Inr [OF this [unfolded r snd_conv]] obtain y w'' where g: "run_state ?g w' = (Inr y, w'')" by blast
  have o: "owned (w_db (start_world sample_db)) ''x'' = None" by (simp add: sample_owned)
  have i: "db_inv (w_db (start_world sample_db))" "w_saved (start_world sample_db) = None" by simp_all
  have l: "int (length [1, 2, 3 :: byte]) = 3" by simp
  from descriptor_size_is_served_length [OF crypt_service_ok i o, where blob = "[1, 2, 3]", unfolded l, OF r g]
  show ?thesis using r g by (intro exI [of _ w'] exI [of _ y] exI [of _ w'']) (simp only: snd_conv simp_thms)
qed

section \<open>A failing read during an upload\<close>

text \<open>\<^verbatim>\<open>SaveWithDedup\<close> takes any error of its first lookup for "the blob does not exist". When that read fails
  for another reason and the blob exists, the upload ends in an error after its clean-up has deleted the
  stored object of the existing blob: the row stays, its object in the storage backend is gone.\<close>

theorem failed_lookup_drops_object:
  assumes "bs_storage c" "bs_encryptor c = None" "db_inv (w_db w)" "owned (w_db w) h = Some (b, S)"
    and "w_faults w = [True]"
    and "run_state (SaveWithDedup c pk h url sz mime blob t ''none'') w = (r, w')"
  shows "(\<exists>e. r = Inl e) \<and> w_db w' = w_db w \<and> w_objects w' h = None"
proof -
  let ?b = "blob_row_for pk h mime t (plain_form blob)"
  have h: "h \<in> b_hash ` set (t_blobs (w_db w))"
    using assms(4) owned_None [of "w_db w" h] by auto
  have ins: "\<exists>e. q_InsertBlob ?b (w_db w) = (Inl e, w_db w)"
  proof (cases "q_InsertBlob ?b (w_db w)")
    case (Pair r d)
    show ?thesis
      using Pair h by (cases rule: q_InsertBlob_cases [OF Pair]) (auto simp: blob_row_for_def)
  qed
  then obtain e where e: "q_InsertBlob ?b (w_db w) = (Inl e, w_db w)" by blast
  have "wp (SaveWithDedup c pk h url sz mime blob t ''none'')
      (\<lambda>r w'. (\<exists>e. r = Inl e) \<and> w_db w' = w_db w \<and> w_objects w' h = None) w"
    using assms(1,2,5)
    by (simp add: SaveWithDedup_def exec_sql_def [of "q_GetBlobFromHash h"] tick_def wp_simp save_new_def Save_def
        seal_blob_def seal_server_def no_fault e)
  from wp_run [OF this assms(6)] show ?thesis .
qed

theorem failed_lookup_drops_object_witness:
  "w_objects (snd (run_state (SaveWithDedup plain_service ''b'' ''h'' ''u'' 2 ''image/png'' [1, 2] 7 ''none'')
      ((start_world sample_db)\<lparr>w_faults := [True], w_objects := [''h'' \<mapsto> [1, 2]]\<rparr>))) ''h'' = None"
  using failed_lookup_drops_object [OF _ _ _ _ _ run_pair,
      where c = plain_service and pk = "''b''" and h = "''h''" and url = "''u''" and sz = 2 and mime = "''image/png''"
        and blob = "[1, 2]" and t = 7 and b = "bare sample_blob" and S = "{''a'', ''b''}"
        and w = "(start_world sample_db)\<lparr>w_faults := [True], w_objects := [''h'' \<mapsto> [1, 2]]\<rparr>"]
  by (simp add: plain_service_def sample_owned)

section \<open>Listings\<close>

lemma page_drop: "0 < n \<Longrightarrow> page n (int k * n) rows = take (nat n) (drop (k * nat n) rows)"
proof -
  assume n: "0 < n"
  have "nat (int k * n) = k * nat n" using n by (simp add: nat_mult_distrib)
  with n show ?thesis by (cases "k = 0") (simp_all add: page_def)
qed

lemma pages_take: "0 < n \<Longrightarrow> concat (map (\<lambda>k. page n (int k * n) rows) [0..<m]) = take (m * nat n) rows"
proof (induction m)
  case (Suc m)
  then have "concat (map (\<lambda>k. page n (int k * n) rows) [0..<Suc m])
      = take (m * nat n) rows @ take (nat n) (drop (m * nat n) rows)" by (simp add: page_drop)
  also have "\<dots> = take (m * nat n + nat n) rows" by (simp add: take_add)
  finally show ?case by (simp add: add.commute)
qed simp

definition listed :: "blob_service \<Rightarrow> string \<Rightarrow> blob_filter \<Rightarrow> world \<Rightarrow> blob_desc list" where
  "listed c pk f w = (case fst (run_state (GetFromPubkeyWithFilter c pk (Some f)) w) of
                        Inl _ \<Rightarrow> [] | Inr (bs, _) \<Rightarrow> bs)"

lemma listed_eq:
  "w_faults w = [] \<Longrightarrow> listed c pk f w
     = map (\<lambda>b. dbBlobIntoBlobDescriptor c (b\<lparr>b_blob := []\<rparr>)) (page_of (Some f) (pubkey_rows pk (Some f) (w_db w)))"
  by (simp add: listed_def GetFromPubkeyWithFilter_def exec_sql_def tick_def list_result_def)

lemma set_pubkey_rows:
  "set (pubkey_rows pk (Some f) d) = {b \<in> set (t_blobs d). pk \<in> owner_set (b_hash b) d \<and> filter_common f b}"
  by (auto simp: pubkey_rows_def sort_rows_def mem_join_refs)

text \<open>Paging through a key's filtered listing with any page size returns every blob the key owns that
  matches the filter, each exactly once, ordered by time of upload.\<close>

theorem listing_pages_cover:
  fixes c :: blob_service and pk :: string
  assumes "db_keys (w_db w)" "w_faults w = []" "0 < n" "f_desc f = False"
    and "length (pubkey_rows pk (Some f) (w_db w)) \<le> m * nat n"
  defines "all \<equiv> concat (map (\<lambda>k. listed c pk (f\<lparr>f_limit := n, f_offset := int k * n\<rparr>) w) [0..<m])"
  shows "set (map d_sha all) = {h. \<exists>b S. owned (w_db w) h = Some (b, S) \<and> pk \<in> S \<and> filter_common f b}
    \<and> distinct (map d_sha all) \<and> sorted (map d_uploaded all)"
proof -
  let ?d = "w_db w" and ?desc = "\<lambda>b. dbBlobIntoBlobDescriptor c (b\<lparr>b_blob := []\<rparr>)"
  let ?rows = "pubkey_rows pk (Some f) ?d"
  have same: "pubkey_rows pk (Some (f\<lparr>f_limit := n, f_offset := k\<rparr>)) ?d = ?rows" for k
    by (simp add: pubkey_rows_def filter_common_def [abs_def])
  have "all = map ?desc (concat (map (\<lambda>k. page n (int k * n) ?rows) [0..<m]))"
    unfolding all_def listed_eq [OF assms(2)] same by (simp add: page_of_def map_concat comp_def)
  then have all: "all = map ?desc ?rows" using assms(3,5) by (simp add: pages_take)
  have sha: "d_sha (?desc b) = b_hash b" "d_uploaded (?desc b) = b_created b" for b
    by (simp_all add: dbBlobIntoBlobDescriptor_def Let_def)
  have m: "map d_sha all = map b_hash ?rows" "map d_uploaded all = map b_created ?rows"
    by (simp_all add: all sha)
  have fc: "filter_common f (bare b) = filter_common f b" for b by (simp add: filter_common_def)
  have "b_hash ` set ?rows = {h. \<exists>b S. owned ?d h = Some (b, S) \<and> pk \<in> S \<and> filter_common f b}"
  proof (intro set_eqI iffI)
    fix h assume "h \<in> b_hash ` set ?rows"
    then obtain b where "b \<in> set (t_blobs ?d)" "pk \<in> owner_set h ?d" "filter_common f b" "b_hash b = h"
      by (auto simp: set_pubkey_rows)
    with blob_of_mem [OF assms(1), of b] show "h \<in> {h. \<exists>b S. owned ?d h = Some (b, S) \<and> pk \<in> S \<and> filter_common f b}"
      by (auto simp: owned_def fc)
  next
    fix h assume "h \<in> {h. \<exists>b S. owned ?d h = Some (b, S) \<and> pk \<in> S \<and> filter_common f b}"
    then obtain b where "blob_of h ?d = Some b" "pk \<in> owner_set h ?d" "filter_common f b"
      by (auto simp: owned_def fc)
    with blob_of_Some [OF this(1)] show "h \<in> b_hash ` set ?rows"
      by (auto simp: set_pubkey_rows image_iff)
  qed
  moreover have "distinct (map b_hash ?rows)"
    using distinct_join_refs [OF assms(1), of pk]
    by (auto simp: pubkey_rows_def sort_rows_def distinct_map inj_on_def)
  moreover have "sorted (map b_created ?rows)"
    using assms(4) by (simp add: pubkey_rows_def sort_rows_def)
  ultimately show ?thesis by (simp add: m)
qed

definition any_filter :: blob_filter where
  "any_filter = \<lparr>f_pubkey = [], f_prefix = ''image/'', f_since = 0, f_until = 0, f_min = 0, f_max = 0,
                f_limit = 0, f_offset = 0, f_desc = False\<rparr>"

theorem listing_pages_cover_witness:
  "sorted (map d_uploaded (concat (map (\<lambda>k. listed plain_service ''a''
      (any_filter\<lparr>f_limit := 2, f_offset := int k * 2\<rparr>) (start_world sample_db)) [0..<3])))"
proof -
  have "length (pubkey_rows ''a'' (Some any_filter) (w_db (start_world sample_db))) \<le> 3 * nat 2"
    by (simp add: pubkey_rows_def sort_rows_def join_refs_def sample_db_def is_ref_def)
  then show ?thesis
    using listing_pages_cover [of "start_world sample_db" 2 any_filter "''a''" 3 plain_service]
    by (simp add: any_filter_def db_inv_def [symmetric] sample_inv [unfolded db_inv_def])
qed

text \<open>The total of a filtered listing is documented as the count without pagination, but it is read from the
  rows of the page: a page past the end reports 0 although blobs match.\<close>

theorem total_past_the_end:
  assumes "w_faults w = []" "0 < f_limit f" "0 < f_offset f"
    and "int (length (pubkey_rows pk (Some f) (w_db w))) \<le> f_offset f"
  shows "fst (run_state (GetFromPubkeyWithFilter c pk (Some f)) w) = Inr ([], 0)"
proof -
  have "length (pubkey_rows pk (Some f) (w_db w)) \<le> nat (f_offset f)" using assms(3,4) by linarith
  with assms(1-3) show ?thesis
    by (simp add: GetFromPubkeyWithFilter_def exec_sql_def tick_def list_result_def page_of_def page_def)
qed

theorem total_past_the_end_witness:
  "fst (run_state (GetFromPubkeyWithFilter plain_service ''a'' (Some (any_filter\<lparr>f_limit := 1, f_offset := 1\<rparr>)))
     (start_world sample_db)) = Inr ([], 0)"
  by (rule total_past_the_end)
    (simp_all add: any_filter_def pubkey_rows_def sort_rows_def join_refs_def sample_db_def is_ref_def
      filter_common_def length_filter_le [THEN order_trans])

end
