(* ===== verification/QuotaService.thy ===== *)
theory QuotaService
  imports BlobState
begin

text \<open>
  \<^verbatim>\<open>src/service/quota_service.go\<close>: the storage accounts of the keys. Usage percentages (floating point) and
  logging are left out.
\<close>

section \<open>Operations\<close>

record quota_service =
  qs_enabled :: bool
  qs_max :: int
  qs_default :: int

record core_user =
  cu_pubkey :: string
  cu_quota :: int
  cu_used :: int
  cu_banned :: bool
  cu_created :: int
  cu_updated :: int

record quota_info =
  qi_quota :: int
  qi_used :: int
  qi_available :: int

definition NewQuotaService :: "bool \<Rightarrow> int \<Rightarrow> int \<Rightarrow> quota_service" where
  "NewQuotaService enabled maxBytes defaultBytes =
     \<lparr>qs_enabled = enabled, qs_max = maxBytes,
      qs_default = (if defaultBytes = 0 then 1 * 1024 * 1024 * 1024 else defaultBytes)\<rparr>"

definition dbUserToCoreUser :: "user_row \<Rightarrow> core_user" where
  "dbUserToCoreUser u = \<lparr>cu_pubkey = u_pubkey u, cu_quota = u_quota u, cu_used = u_used u,
     cu_banned = u_banned u, cu_created = u_created u, cu_updated = u_updated u\<rparr>"

definition GetUser :: "string \<Rightarrow> core_user result prog" where
  "GetUser pk = do {
     r \<leftarrow> exec_sql (q_GetUser pk);
     ret (case r of
            Inl e \<Rightarrow> if e = ErrNoRows then Inl ErrUserNotFound else Inl e
          | Inr u \<Rightarrow> Inr (dbUserToCoreUser u))
   }"

definition GetOrCreateUser :: "quota_service \<Rightarrow> string \<Rightarrow> core_user result prog" where
  "GetOrCreateUser q pk = do {
     t \<leftarrow> now;
     r \<leftarrow> exec_sql (q_GetOrCreateUser pk (qs_default q) (Unix t) (Unix t));
     ret (case r of Inl e \<Rightarrow> Inl e | Inr u \<Rightarrow> Inr (dbUserToCoreUser u))
   }"

definition GetQuotaInfo :: "quota_service \<Rightarrow> string \<Rightarrow> quota_info result prog" where
  "GetQuotaInfo q pk = do {
     r \<leftarrow> exec_sql (q_GetUserQuota pk);
     ret (case r of
            Inl e \<Rightarrow>
              if e = ErrNoRows
              then Inr \<lparr>qi_quota = qs_default q, qi_used = 0, qi_available = qs_default q\<rparr>
              else Inl e
          | Inr (quota, used) \<Rightarrow>
              Inr \<lparr>qi_quota = quota, qi_used = used, qi_available = max 0 (i64 (quota - used))\<rparr>)
   }"

definition CheckQuota :: "quota_service \<Rightarrow> string \<Rightarrow> int \<Rightarrow> unit result prog" where
  "CheckQuota q pk additionalBytes =
     (if \<not> qs_enabled q then ret (Inr ())
      else do {
        r \<leftarrow> GetOrCreateUser q pk;
        ret (case r of
               Inl e \<Rightarrow> Inl e
             | Inr u \<Rightarrow>
                 if cu_banned u then Inl ErrUserBanned
                 else if i64 (cu_used u + additionalBytes) > cu_quota u then Inl ErrQuotaExceeded
                 else Inr ())
      })"

definition IncrementUsage :: "quota_service \<Rightarrow> string \<Rightarrow> int \<Rightarrow> unit result prog" where
  "IncrementUsage q pk n = do {
     r \<leftarrow> GetOrCreateUser q pk;
     case r of
       Inl e \<Rightarrow> ret (Inl e)
     | Inr _ \<Rightarrow> do { t \<leftarrow> now; exec_sql (q_IncrementUserUsage n (Unix t) pk) }
   }"

definition DecrementUsage :: "string \<Rightarrow> int \<Rightarrow> unit result prog" where
  "DecrementUsage pk n = do { t \<leftarrow> now; exec_sql (q_DecrementUserUsage n n (Unix t) pk) }"

definition SetQuota :: "quota_service \<Rightarrow> string \<Rightarrow> int \<Rightarrow> unit result prog" where
  "SetQuota q pk quotaBytes =
     (let quotaBytes = (if qs_max q > 0 \<and> quotaBytes > qs_max q then qs_max q else quotaBytes)
      in do {
        r \<leftarrow> GetOrCreateUser q pk;
        case r of
          Inl e \<Rightarrow> ret (Inl e)
        | Inr _ \<Rightarrow> do { t \<leftarrow> now; exec_sql (q_UpdateUserQuota quotaBytes (Unix t) pk) }
      })"

definition BanUser :: "quota_service \<Rightarrow> string \<Rightarrow> unit result prog" where
  "BanUser q pk = do {
     r \<leftarrow> GetOrCreateUser q pk;
     case r of
       Inl e \<Rightarrow> ret (Inl e)
     | Inr _ \<Rightarrow> do { t \<leftarrow> now; exec_sql (q_BanUser (Unix t) pk) }
   }"

definition UnbanUser :: "string \<Rightarrow> unit result prog" where
  "UnbanUser pk = do { t \<leftarrow> now; exec_sql (q_UnbanUser (Unix t) pk) }"

definition ListUsers :: "int \<Rightarrow> int \<Rightarrow> core_user list result prog" where
  "ListUsers limit offset = do {
     r \<leftarrow> exec_sql (q_ListUsers (i32 limit) (i32 offset));
     ret (case r of Inl e \<Rightarrow> Inl e | Inr us \<Rightarrow> Inr (map dbUserToCoreUser us))
   }"

definition GetUserCount :: "int result prog" where
  "GetUserCount = exec_sql q_GetUserCount"

definition RecalculateUsage :: "string \<Rightarrow> unit result prog" where
  "RecalculateUsage pk = do { t \<leftarrow> now; exec_sql (q_RecalculateUserUsage (Unix t) pk) }"

section \<open>The account of a key\<close>

definition balance :: "string \<Rightarrow> dbstate \<Rightarrow> int" where
  "balance pk d = (case user_of pk d of None \<Rightarrow> 0 | Some u \<Rightarrow> u_used u)"

lemma find_update_user:
  assumes "\<And>u. u_pubkey (f u) = u_pubkey u"
  shows "find (\<lambda>u. u_pubkey u = pk') (update_where (\<lambda>u. u_pubkey u = pk) f us)
           = map_option (\<lambda>u. if u_pubkey u = pk then f u else u) (find (\<lambda>u. u_pubkey u = pk') us)"
  by (induction us) (auto simp: update_where_def assms)

lemma find_user_Some: "find (\<lambda>u. u_pubkey u = pk) us = Some u \<Longrightarrow> u \<in> set us \<and> u_pubkey u = pk"
  by (induction us) (auto split: if_splits)

lemma user_of_Some: "user_of pk d = Some u \<Longrightarrow> u \<in> set (t_users d) \<and> u_pubkey u = pk"
  by (auto simp: user_of_def dest: find_user_Some)

lemma user_of_None: "user_of pk d = None \<longleftrightarrow> pk \<notin> u_pubkey ` set (t_users d)"
  by (auto simp: user_of_def find_None_iff)

lemma user_of_mem: "db_keys d \<Longrightarrow> u \<in> set (t_users d) \<Longrightarrow> user_of (u_pubkey u) d = Some u"
proof -
  assume k: "db_keys d" and u: "u \<in> set (t_users d)"
  then obtain u' where u': "user_of (u_pubkey u) d = Some u'"
    using user_of_None [of "u_pubkey u" d] by (cases "user_of (u_pubkey u) d") auto
  with k u user_of_Some [OF u'] have "u' = u"
    by (auto simp: db_keys_def distinct_map dest: inj_onD)
  with u' show ?thesis by simp
qed

text \<open>Changing the users leaves the blobs and their owners alone.\<close>

lemma users_frame [simp]:
  "owned (d\<lparr>t_users := us\<rparr>) = owned d" "ref_counts (d\<lparr>t_users := us\<rparr>) = ref_counts d"
  "owned (update_user pk f d) = owned d" "ref_counts (update_user pk f d) = ref_counts d"
  by (auto simp: owned_def blob_of_def owner_set_def owners_def ref_counts_def n_refs_def update_user_def)

lemma db_inv_update_user:
  assumes "\<And>u. u_pubkey (f u) = u_pubkey u" "db_inv d"
  shows "db_inv (update_user pk f d)"
proof -
  have "map u_pubkey (update_where (\<lambda>u. u_pubkey u = pk) f us) = map u_pubkey us" for us
    by (simp add: update_where_def assms(1))
  then show ?thesis
    using assms(2) by (simp add: db_inv_def) (simp add: db_keys_def update_user_def)
qed

lemma balance_update_user:
  assumes "\<And>u. u_pubkey (f u) = u_pubkey u"
  shows "balance pk' (update_user pk f d)
           = (case user_of pk' d of None \<Rightarrow> 0 | Some u \<Rightarrow> if pk' = pk then u_used (f u) else u_used u)"
  by (auto simp: balance_def update_user_def user_of_def find_update_user [OF assms] dest: find_user_Some
      split: option.split)

lemma q_GetOrCreateUser_effect:
  assumes "db_inv d"
  shows "\<exists>u d'. q_GetOrCreateUser pk quota t t' d = (Inr u, d') \<and> db_inv d' \<and> owned d' = owned d
    \<and> (\<forall>pk'. balance pk' d' = balance pk' d) \<and> user_of pk d' = Some u \<and> u_used u = balance pk d"
proof (cases "user_of pk d")
  case None
  let ?u = "new_user pk quota t t'" and ?d = "d\<lparr>t_users := t_users d @ [new_user pk quota t t']\<rparr>"
  have f: "find (\<lambda>u. u_pubkey u = pk') (us @ [?u]) = (case find (\<lambda>u. u_pubkey u = pk') us of
      None \<Rightarrow> if pk' = pk then Some ?u else None | Some u \<Rightarrow> Some u)" for pk' us
    by (induction us) (auto simp: new_user_def)
  have nu: "u_used ?u = 0" by (simp add: new_user_def)
  have "q_GetOrCreateUser pk quota t t' d = (Inr ?u, ?d)"
    using None by (simp add: q_GetOrCreateUser_def Let_def)
  moreover have "db_inv ?d"
    using assms None unfolding user_of_None
    by (simp add: db_inv_def) (auto simp: db_keys_def new_user_def)
  moreover have "balance pk' ?d = balance pk' d" for pk'
    using None by (auto simp: balance_def user_of_def f nu split: option.split)
  moreover have "user_of pk ?d = Some ?u" "u_used ?u = balance pk d"
    using None by (simp_all add: user_of_def f nu balance_def)
  ultimately show ?thesis by (intro exI [of _ ?u] exI [of _ ?d]) simp
next
  case (Some u)
  let ?f = "\<lambda>u. u\<lparr>u_updated := t'\<rparr>"
  have "q_GetOrCreateUser pk quota t t' d = (Inr (?f u), update_user pk ?f d)"
    using Some by (simp add: q_GetOrCreateUser_def)
  moreover have "balance pk' (update_user pk ?f d) = balance pk' d" for pk'
    by (subst balance_update_user) (auto simp: balance_def split: option.split)
  moreover have "user_of pk (update_user pk ?f d) = Some (?f u)"
    using Some user_of_Some [OF Some] by (simp add: user_of_def update_user_def find_update_user)
  moreover have "u_used (?f u) = balance pk d" using Some by (simp add: balance_def)
  moreover have "db_inv (update_user pk ?f d)" using assms by (intro db_inv_update_user) simp_all
  ultimately show ?thesis by (intro exI [of _ "?f u"] exI [of _ "update_user pk ?f d"]) simp
qed

section \<open>The ledger interface\<close>

text \<open>
  What upload and delete use of \<^verbatim>\<open>core.QuotaService\<close>: charging and crediting a key. The laws: with no call
  failing, and as long as the amounts stay in range, a charge adds to the key's balance, a credit of at
  most the balance takes from it, and neither touches anything else.
\<close>

definition only_users :: "world \<Rightarrow> world \<Rightarrow> bool" where
  "only_users w w' \<longleftrightarrow> owned (w_db w') = owned (w_db w) \<and> w_saved w' = w_saved w \<and> same_env w w'
     \<and> w_objects w' = w_objects w"

locale ledger =
  fixes incr :: "string \<Rightarrow> int \<Rightarrow> unit result prog"
    and decr :: "string \<Rightarrow> int \<Rightarrow> unit result prog"
    and bal :: "string \<Rightarrow> dbstate \<Rightarrow> int"
    and ok :: "dbstate \<Rightarrow> bool"
  assumes incr_law: "quiet w \<Longrightarrow> ok (w_db w) \<Longrightarrow> in_i64 (bal pk (w_db w) + n) \<Longrightarrow>
      wp (incr pk n) (\<lambda>r w'. r = Inr () \<and> quiet w' \<and> ok (w_db w') \<and> only_users w w'
        \<and> (\<forall>pk'. bal pk' (w_db w') = bal pk' (w_db w) + (if pk' = pk then n else 0))) w"
    and decr_law: "quiet w \<Longrightarrow> ok (w_db w) \<Longrightarrow> 0 \<le> n \<Longrightarrow> n \<le> bal pk (w_db w) \<Longrightarrow> in_i64 (bal pk (w_db w)) \<Longrightarrow>
      wp (decr pk n) (\<lambda>r w'. r = Inr () \<and> quiet w' \<and> ok (w_db w') \<and> only_users w w'
        \<and> (\<forall>pk'. bal pk' (w_db w') = bal pk' (w_db w) - (if pk' = pk then n else 0))) w"
begin

text \<open>The accounts are right when every key's balance is what its blobs are charged.\<close>

definition accounted :: "(string \<Rightarrow> dbstate \<Rightarrow> int) \<Rightarrow> dbstate \<Rightarrow> bool" where
  "accounted usage d \<longleftrightarrow> ok d \<and> (\<forall>pk. bal pk d = usage pk d)"

lemma charge_keeps:
  assumes "quiet w" "ok (w_db w)" "in_i64 (bal pk (w_db w) + n)"
    and "\<forall>pk'. bal pk' (w_db w) + (if pk' = pk then n else 0) = u pk' (owned (w_db w))"
  shows "wp (incr pk n) (\<lambda>r w'. quiet w' \<and> only_users w w' \<and> accounted (\<lambda>pk d. u pk (owned d)) (w_db w')) w"
  by (rule wp_mono [OF incr_law [OF assms(1-3)]]) (use assms(4) in \<open>simp add: accounted_def only_users_def\<close>)

lemma credit_keeps:
  assumes "quiet w" "ok (w_db w)" "0 \<le> n" "n \<le> bal pk (w_db w)" "in_i64 (bal pk (w_db w))"
    and "\<forall>pk'. bal pk' (w_db w) - (if pk' = pk then n else 0) = u pk' (owned (w_db w))"
  shows "wp (decr pk n) (\<lambda>r w'. quiet w' \<and> only_users w w' \<and> accounted (\<lambda>pk d. u pk (owned d)) (w_db w')) w"
  by (rule wp_mono [OF decr_law [OF assms(1-5)]]) (use assms(6) in \<open>simp add: accounted_def only_users_def\<close>)

end

lemma IncrementUsage_law:
  assumes "quiet w" "db_inv (w_db w)" "in_i64 (balance pk (w_db w) + n)"
  shows "wp (IncrementUsage q pk n) (\<lambda>r w'. r = Inr () \<and> quiet w' \<and> db_inv (w_db w') \<and> only_users w w'
    \<and> (\<forall>pk'. balance pk' (w_db w') = balance pk' (w_db w) + (if pk' = pk then n else 0))) w"
proof -
  let ?t = "Unix (w_now w)" and ?d = "w_db w"
  obtain u d1 where c: "q_GetOrCreateUser pk (qs_default q) ?t ?t ?d = (Inr u, d1)" "db_inv d1"
    "owned d1 = owned ?d" "\<forall>pk'. balance pk' d1 = balance pk' ?d" "user_of pk d1 = Some u" "u_used u = balance pk ?d"
    using q_GetOrCreateUser_effect [OF assms(2)] by blast
  let ?f = "\<lambda>u. u\<lparr>u_used := u_used u + n, u_updated := ?t\<rparr>"
  have k: "db_keys d1" using c(2) by (simp add: db_inv_def)
  have "u' = u" if "u' \<in> set (t_users d1)" "u_pubkey u' = pk" for u'
    using user_of_mem [OF k that(1)] that c(5) by simp
  then have i: "q_IncrementUserUsage n ?t pk d1 = (Inr (), update_user pk ?f d1)"
    using assms(3) c(6) by (auto simp: q_IncrementUserUsage_def)
  have b: "balance pk' (update_user pk ?f d1) = balance pk' ?d + (if pk' = pk then n else 0)" for pk'
    using c(4) [rule_format, of pk'] c(5,6)
    by (subst balance_update_user) (auto simp: balance_def split: option.splits)
  have "db_inv (update_user pk ?f d1)" using c(2) by (intro db_inv_update_user) simp_all
  then show ?thesis
    using assms(1) b c(3)
    by (simp add: IncrementUsage_def GetOrCreateUser_def wp_simp no_fault quiet_def c(1) i only_users_def same_env_def)
qed

lemma DecrementUsage_law:
  assumes "quiet w" "db_inv (w_db w)" "0 \<le> n" "n \<le> balance pk (w_db w)" "in_i64 (balance pk (w_db w))"
  shows "wp (DecrementUsage pk n) (\<lambda>r w'. r = Inr () \<and> quiet w' \<and> db_inv (w_db w') \<and> only_users w w'
    \<and> (\<forall>pk'. balance pk' (w_db w') = balance pk' (w_db w) - (if pk' = pk then n else 0))) w"
proof -
  let ?t = "Unix (w_now w)" and ?d = "w_db w"
  let ?f = "\<lambda>u. u\<lparr>u_used := (if n \<le> u_used u then u_used u - n else 0), u_updated := ?t\<rparr>"
  have k: "db_keys ?d" using assms(2) by (simp add: db_inv_def)
  have one: "u_used u = balance pk ?d" if "u \<in> set (t_users ?d)" "u_pubkey u = pk" for u
    using user_of_mem [OF k that(1)] that by (simp add: balance_def)
  have "in_i64 (balance pk ?d - n)" using assms(3-5) by (auto simp: in_i64_def)
  then have q: "q_DecrementUserUsage n n ?t pk ?d = (Inr (), update_user pk ?f ?d)"
    by (auto simp: q_DecrementUserUsage_def dest: one)
  have b: "balance pk' (update_user pk ?f ?d) = balance pk' ?d - (if pk' = pk then n else 0)" for pk'
    using assms(3,4) by (subst balance_update_user) (auto simp: balance_def split: option.splits)
  have "db_inv (update_user pk ?f ?d)" using assms(2) by (intro db_inv_update_user) simp_all
  then show ?thesis
    using assms(1) b
    by (simp add: DecrementUsage_def wp_simp no_fault quiet_def q only_users_def same_env_def)
qed

interpretation quota: ledger "IncrementUsage q" DecrementUsage balance db_inv for q
  by unfold_locales (rule IncrementUsage_law DecrementUsage_law; assumption)+

end
