(* ===== verification/Accounts.thy ===== *)
theory Accounts
  imports BlobService QuotaService
begin

text \<open>
  What the blobs of a key add up to, and how it changes with the operations of the blob service: the
  specification the quota accounts are held against.
\<close>

section \<open>Usage\<close>

definition charge_at :: "string \<Rightarrow> owner_map \<Rightarrow> int" where
  "charge_at h m = (case m h of None \<Rightarrow> 0 | Some (b, _) \<Rightarrow> charge b)"

definition usage :: "string \<Rightarrow> owner_map \<Rightarrow> int" where
  "usage pk m = (\<Sum>h | owns pk h m. charge_at h m)"

definition sizes_ok :: "owner_map \<Rightarrow> bool" where
  "sizes_ok m \<longleftrightarrow> (\<forall>h b S. m h = Some (b, S) \<longrightarrow>
     0 \<le> charge b \<and> (b_mode b \<noteq> ''server'' \<longrightarrow> charge b = b_size b))"

lemma finite_owns: "finite {h. owns pk h (owned d)}"
proof (rule finite_subset)
  show "{h. owns pk h (owned d)} \<subseteq> b_hash ` set (t_blobs d)"
    using owned_None [of d] by (auto simp: owns_def split: option.splits)
qed simp

lemma finite_dom_owned: "finite (dom (owned d))"
proof (rule finite_subset)
  show "dom (owned d) \<subseteq> b_hash ` set (t_blobs d)"
    by (rule subsetI) (simp add: domIff owned_None)
qed simp

lemma finite_owns_dom: "finite (dom m) \<Longrightarrow> finite {h. owns pk h m}"
  by (erule rev_finite_subset) (auto simp: owns_def split: option.splits)

text \<open>One map differs from another at one hash only.\<close>

lemma usage_change:
  assumes "finite (dom m)" "\<And>h'. h' \<noteq> h \<Longrightarrow> m' h' = m h'"
  shows "usage pk m' + (if owns pk h m then charge_at h m else 0)
       = usage pk m + (if owns pk h m' then charge_at h m' else 0)"
proof -
  have "dom m' \<subseteq> insert h (dom m)" using assms(2) by (auto simp: domIff)
  then have fin: "finite (dom m')" using assms(1) by (meson finite_insert finite_subset)
  have split: "usage pk n = (\<Sum>h' | owns pk h' n \<and> h' \<noteq> h. charge_at h' n) + (if owns pk h n then charge_at h n else 0)"
    if "finite (dom n)" for n
  proof -
    let ?A = "{h'. owns pk h' n \<and> h' \<noteq> h}"
    have f: "finite {h'. owns pk h' n}" using that by (rule finite_owns_dom)
    then have fA: "finite ?A" by (rule rev_finite_subset) auto
    show ?thesis
    proof (cases "owns pk h n")
      case True
      then have "{h'. owns pk h' n} = insert h ?A" by auto
      with True fA show ?thesis by (simp add: usage_def)
    next
      case False
      then have "{h'. owns pk h' n} = ?A" by auto
      with False show ?thesis by (simp add: usage_def)
    qed
  qed
  have "(\<Sum>h' | owns pk h' m' \<and> h' \<noteq> h. charge_at h' m') = (\<Sum>h' | owns pk h' m \<and> h' \<noteq> h. charge_at h' m)"
    by (rule sum.cong) (auto simp: owns_def charge_at_def assms(2))
  with split [OF fin] split [OF assms(1)] show ?thesis by simp
qed

lemma usage_add_owner:
  assumes "finite (dom m)" "m h = Some (b, S)" "\<not> owns pk h m"
  shows "usage pk' (add_owner pk h m) = usage pk' m + (if pk' = pk then charge b else 0)"
  using usage_change [OF assms(1), of h "add_owner pk h m" pk'] assms(2,3)
  by (auto simp: add_owner_def owns_def charge_at_def split: if_splits)

lemma usage_new_owner:
  assumes "finite (dom m)" "m h = None"
  shows "usage pk' (m(h := Some (b, {pk}))) = usage pk' m + (if pk' = pk then charge b else 0)"
  using usage_change [OF assms(1), of h "m(h := Some (b, {pk}))" pk'] assms(2)
  by (auto simp: owns_def charge_at_def split: if_splits)

lemma usage_ownerless:
  assumes "finite (dom m)" "m h = None"
  shows "usage pk' (m(h := Some (b, {}))) = usage pk' m"
  using usage_change [OF assms(1), of h "m(h := Some (b, {}))" pk'] assms(2)
  by (auto simp: owns_def)

lemma usage_drop_owner:
  assumes "finite (dom m)" "m h = Some (b, S)" "pk \<in> S"
  shows "usage pk' (drop_owner pk h m) = usage pk' m - (if pk' = pk then charge b else 0)"
proof -
  have e: "drop_owner pk h m h' = m h'" if "h' \<noteq> h" for h' using that by (simp add: drop_owner_def)
  have u: "usage pk' (drop_owner pk h m) + (if owns pk' h m then charge_at h m else 0)
      = usage pk' m + (if owns pk' h (drop_owner pk h m) then charge_at h (drop_owner pk h m) else 0)"
    by (rule usage_change [OF assms(1) e])
  have c: "charge_at h m = charge b" using assms(2) by (simp add: charge_at_def)
  consider "pk' = pk" | "pk' \<noteq> pk" "pk' \<in> S" | "pk' \<noteq> pk" "pk' \<notin> S" by blast
  then show ?thesis
  proof cases
    case 1
    then have "owns pk' h m" "\<not> owns pk' h (drop_owner pk h m)"
      using assms(2,3) by (auto simp: owns_def drop_owner_def)
    with u c 1 show ?thesis by simp
  next
    case 2
    then have "S - {pk} \<noteq> {}" by auto
    with 2 have "owns pk' h m" "owns pk' h (drop_owner pk h m)" "charge_at h (drop_owner pk h m) = charge b"
      using assms(2) by (simp_all add: owns_def drop_owner_def charge_at_def)
    with u c 2 show ?thesis by simp
  next
    case 3
    then have "\<not> owns pk' h m" "\<not> owns pk' h (drop_owner pk h m)"
      using assms(2) by (auto simp: owns_def drop_owner_def)
    with u 3 show ?thesis by simp
  qed
qed

lemma usage_remove_ownerless:
  assumes "finite (dom m)" "m h = Some (b, {})"
  shows "usage pk' (m(h := None)) = usage pk' m"
  using usage_change [OF assms(1), of h "m(h := None)" pk'] assms(2)
  by (auto simp: owns_def)

lemma charge_le_usage:
  assumes "finite (dom m)" "sizes_ok m" "m h = Some (b, S)" "pk \<in> S"
  shows "0 \<le> charge b \<and> charge b \<le> usage pk m"
proof -
  have o: "h \<in> {h. owns pk h m}" using assms by (simp add: owns_def)
  have n: "0 \<le> charge_at h' m" for h'
    using assms(2) by (auto simp: charge_at_def sizes_ok_def split: option.split)
  have "charge_at h m \<le> usage pk m"
    unfolding usage_def by (rule member_le_sum [OF o]) (use n finite_owns_dom [OF assms(1)] in auto)
  with n [of h] assms(3) show ?thesis by (simp add: charge_at_def)
qed

lemma usage_nonneg: "sizes_ok m \<Longrightarrow> 0 \<le> usage pk m"
  unfolding usage_def by (rule sum_nonneg) (auto simp: owns_def charge_at_def sizes_ok_def split: option.splits)

text \<open>The accounts are balanced: every key is charged exactly for the blobs it owns.\<close>

definition balanced :: "dbstate \<Rightarrow> bool" where
  "balanced d \<longleftrightarrow> db_inv d \<and> sizes_ok (owned d) \<and> (\<forall>pk. balance pk d = usage pk (owned d))"

lemma balanced_empty: "balanced empty_db"
  by (simp add: balanced_def sizes_ok_def balance_def user_of_def usage_def owns_def owned_def blob_of_def)

lemma others_balance: "others d' = others d \<Longrightarrow> balance pk d' = balance pk d"
  by (drule others_users) (simp add: balance_def user_of_def)

lemma others_tables: "others d' = others d \<Longrightarrow> t_reports d' = t_reports d \<and> t_removed d' = t_removed d
    \<and> t_blocklist d' = t_blocklist d \<and> t_sessions d' = t_sessions d \<and> t_chunks d' = t_chunks d"
  by (auto simp: others_def dest: arg_cong [where f = t_reports] arg_cong [where f = t_removed]
      arg_cong [where f = t_blocklist] arg_cong [where f = t_sessions] arg_cong [where f = t_chunks])

lemma sizes_ok_saved:
  assumes "sizes_ok m" "saved_map c pk h blob (int (length blob)) ob m m'"
  shows "sizes_ok m'"
proof (cases "m h")
  case None
  then obtain b where b: "m' = m(h := Some (b, {pk}))" "row_form (int (length blob)) blob b"
    using assms(2) by (auto simp: saved_map_def)
  with assms(1) show ?thesis by (auto simp: sizes_ok_def row_form_def)
next
  case (Some x)
  obtain b0 S0 where "x = (b0, S0)" by (cases x)
  with Some assms show ?thesis
    by (auto simp: saved_map_def sizes_ok_def add_owner_def)
qed

lemma sizes_ok_upd:
  "sizes_ok m \<Longrightarrow> row_form (int (length blob)) blob b \<Longrightarrow> sizes_ok (m(h := Some (b, S)))"
  by (simp add: sizes_ok_def row_form_def)

lemma sizes_ok_failed:
  "sizes_ok m \<Longrightarrow> failed_map c h blob (int (length blob)) m m' \<Longrightarrow> sizes_ok m'"
  by (auto simp: failed_map_def intro: sizes_ok_upd)

lemma sizes_ok_drop: "sizes_ok m \<Longrightarrow> sizes_ok (drop_owner pk h m)"
  by (auto simp: sizes_ok_def drop_owner_def split: if_splits option.splits)

lemma usage_saved:
  assumes "finite (dom m)" "saved_map c pk h blob sz ob m m'" "m' h = Some (b, S)"
  shows "usage pk' m' = usage pk' m + (if pk' = pk \<and> \<not> owns pk h m then charge b else 0)"
proof (cases "m h")
  case None
  with assms show ?thesis
    by (auto simp: saved_map_def usage_new_owner owns_def)
next
  case (Some x)
  obtain b0 S0 where x: "x = (b0, S0)" by (cases x)
  with Some assms have m': "m' = add_owner pk h m" by (simp add: saved_map_def)
  then have "b = b0" using assms(3) Some x by (simp add: add_owner_def)
  then show ?thesis
    using usage_add_owner [OF assms(1) Some [unfolded x], of pk pk'] add_owner_idem [of pk h m] m'
    by (cases "owns pk h m") auto
qed


lemma usage_remove:
  assumes "finite (dom m)" "m h = Some (b, S)"
  shows "usage pk (m(h := None)) = usage pk m - (if pk \<in> S then charge b else 0)"
  using usage_change [OF assms(1), of h "m(h := None)" pk] assms(2)
  by (auto simp: owns_def charge_at_def)

section \<open>Tables that do not matter\<close>

text \<open>A change of the tables other than blobs, references and users changes neither owners nor accounts.\<close>

lemma tables_frame [simp]:
  "owned (d\<lparr>t_policies := a1\<rparr>) = owned d" "owned (d\<lparr>t_next_policy := a2\<rparr>) = owned d"
  "owned (d\<lparr>t_removed := a3\<rparr>) = owned d" "owned (d\<lparr>t_sessions := a4\<rparr>) = owned d"
  "owned (d\<lparr>t_chunks := a5\<rparr>) = owned d" "owned (d\<lparr>t_tus := a6\<rparr>) = owned d"
  "owned (d\<lparr>t_tus_chunks := a7\<rparr>) = owned d" "owned (d\<lparr>t_reports := a8\<rparr>) = owned d"
  "owned (d\<lparr>t_next_report := a2\<rparr>) = owned d" "owned (d\<lparr>t_blocklist := a9\<rparr>) = owned d"
  "balance pk (d\<lparr>t_policies := a1\<rparr>) = balance pk d" "balance pk (d\<lparr>t_next_policy := a2\<rparr>) = balance pk d"
  "balance pk (d\<lparr>t_removed := a3\<rparr>) = balance pk d" "balance pk (d\<lparr>t_sessions := a4\<rparr>) = balance pk d"
  "balance pk (d\<lparr>t_chunks := a5\<rparr>) = balance pk d" "balance pk (d\<lparr>t_tus := a6\<rparr>) = balance pk d"
  "balance pk (d\<lparr>t_tus_chunks := a7\<rparr>) = balance pk d" "balance pk (d\<lparr>t_reports := a8\<rparr>) = balance pk d"
  "balance pk (d\<lparr>t_next_report := a2\<rparr>) = balance pk d" "balance pk (d\<lparr>t_blocklist := a9\<rparr>) = balance pk d"
  by (auto simp: owned_def blob_of_def owner_set_def owners_def balance_def user_of_def)

lemma db_inv_frame [simp]:
  "db_inv (d\<lparr>t_policies := a1\<rparr>) = db_inv d" "db_inv (d\<lparr>t_next_policy := a2\<rparr>) = db_inv d"
  "db_inv (d\<lparr>t_removed := a3\<rparr>) = db_inv d" "db_inv (d\<lparr>t_sessions := a4\<rparr>) = db_inv d"
  "db_inv (d\<lparr>t_chunks := a5\<rparr>) = db_inv d" "db_inv (d\<lparr>t_tus := a6\<rparr>) = db_inv d"
  "db_inv (d\<lparr>t_tus_chunks := a7\<rparr>) = db_inv d" "db_inv (d\<lparr>t_reports := a8\<rparr>) = db_inv d"
  "db_inv (d\<lparr>t_next_report := a2\<rparr>) = db_inv d" "db_inv (d\<lparr>t_blocklist := a9\<rparr>) = db_inv d"
  by (auto simp: db_inv_def db_keys_def ref_counts_def n_refs_def)

lemma balanced_frame: "owned d' = owned d \<Longrightarrow> (\<And>pk. balance pk d' = balance pk d) \<Longrightarrow> db_inv d' \<Longrightarrow> balanced d \<Longrightarrow> balanced d'"
  by (simp add: balanced_def)

section \<open>Operations when nothing fails\<close>

text \<open>What the operations do in a quiet world, in the form the composed operations use.\<close>

lemma quiet_conj: "quiet w \<Longrightarrow> keeps quiet m \<Longrightarrow> wp m Q w \<Longrightarrow> wp m (\<lambda>r w'. quiet w' \<and> Q r w') w"
  by (rule wp_conj) (auto dest: keepsD)

lemma quiet_imp: "keeps quiet m \<Longrightarrow> wp m Q w \<Longrightarrow> wp m (\<lambda>r w'. (quiet w \<longrightarrow> quiet w') \<and> Q r w') w"
  by (cases "quiet w") (auto intro: wp_mono dest: quiet_conj)

lemma DeleteFromHash_quiet:
  assumes "quiet w" "db_inv (w_db w)" "w_saved w = None"
  shows "wp (DeleteFromHash c h) (\<lambda>r w'. r = Inr () \<and> quiet w' \<and> w_saved w' = None \<and> same_env w w'
    \<and> db_inv (w_db w') \<and> owned (w_db w') = (owned (w_db w))(h := None) \<and> others (w_db w') = others (w_db w)) w"
proof -
  have "wp (DeleteFromHash c h) (\<lambda>r w'. r = Inr ()) w"
    using assms(1) by (simp add: DeleteFromHash_def wp_simp no_fault quiet_def q_DeleteBlobFromHash_def)
  from quiet_conj [OF assms(1) keeps_quiet_blobs(3) wp_conj [OF this DeleteFromHash_spec [OF assms(2,3)]]]
  show ?thesis by (rule wp_mono) auto
qed

lemma DecrementUsage_frame:
  assumes "quiet w" "db_inv (w_db w)"
  shows "wp (DecrementUsage pk n) (\<lambda>r w'. quiet w' \<and> db_inv (w_db w') \<and> only_users w w'
    \<and> t_reports (w_db w') = t_reports (w_db w) \<and> (\<forall>pk'. pk' \<noteq> pk \<longrightarrow> balance pk' (w_db w') = balance pk' (w_db w))) w"
proof -
  have b: "pk' \<noteq> pk \<Longrightarrow> balance pk' (update_user pk (\<lambda>u. u\<lparr>u_used := f u, u_updated := t\<rparr>) d) = balance pk' d" for pk' f t d
    by (subst balance_update_user) (auto simp: balance_def split: option.split)
  have i: "db_inv (update_user pk (\<lambda>u. u\<lparr>u_used := f u, u_updated := t\<rparr>) (w_db w))" for f t
    using assms(2) by (intro db_inv_update_user) simp_all
  have r: "t_reports (update_user pk f d) = t_reports d" for f d by (simp add: update_user_def)
  show ?thesis
    using assms b i by (simp add: DecrementUsage_def wp_simp no_fault quiet_def q_DecrementUserUsage_def only_users_def
        same_env_def r)
qed

lemma GetFromHash_plain:
  assumes "quiet w" "blob_of h (w_db w) = Some b" "b_mode b \<noteq> ''server''"
  shows "wp (GetFromHash c h) (\<lambda>r w'. w' = w \<and> (\<exists>x. r = Inr x \<and> d_pubkey x = b_pubkey b \<and> d_size x = charge b)) w"
proof -
  have h: "b_hash b = h" using assms(2) by (auto dest: blob_of_Some)
  have d: "d_pubkey (dbBlobIntoBlobDescriptor c b) = b_pubkey b" "d_size (dbBlobIntoBlobDescriptor c b) = charge b"
    by (simp_all add: dbBlobIntoBlobDescriptor_def charge_def Let_def)
  show ?thesis
    using assms by (auto simp: GetFromHash_def wp_simp no_fault quiet_def q_GetBlobFromHash_def first_row_blob Let_def d
        split: option.split)
qed

section \<open>Examples\<close>

lemma quiet_start [simp]: "quiet (start_world d)"
  by (simp add: quiet_def)

lemma usage_single: "usage pk [h \<mapsto> (b, S)] = (if pk \<in> S then charge b else 0)"
proof -
  have "{h'. owns pk h' [h \<mapsto> (b, S)]} = (if pk \<in> S then {h} else {})"
    by (auto simp: owns_def split: if_splits)
  then show ?thesis by (simp add: usage_def charge_at_def)
qed

definition account :: "string \<Rightarrow> int \<Rightarrow> user_row" where
  "account pk used = (new_user pk 100 0 0)\<lparr>u_used := used\<rparr>"

text \<open>The example database with its accounts, and one where the blob has one owner only.\<close>

definition accounts_db :: dbstate where
  "accounts_db = sample_db\<lparr>t_users := [account ''a'' 2, account ''b'' 2]\<rparr>"

definition single_db :: dbstate where
  "single_db = accounts_db\<lparr>t_refs := [\<lparr>r_pubkey = ''a'', r_hash = ''h'', r_created = 5\<rparr>],
     t_users := [account ''a'' 2]\<rparr>"

lemma charge_sample [simp]: "charge sample_blob = 2"
  by (simp add: charge_def sample_blob_def)

lemma owned_accounts [simp]: "owned accounts_db = [''h'' \<mapsto> (bare sample_blob, {''a'', ''b''})]"
  by (simp add: accounts_db_def sample_owned)

lemma owned_single [simp]: "owned single_db = [''h'' \<mapsto> (bare sample_blob, {''a''})]"
  by (rule ext) (simp add: single_db_def accounts_db_def sample_db_def owned_def blob_of_def has_hash_def owner_set_def
      owners_def sample_blob_def)

lemma balance_examples [simp]:
  "balance pk accounts_db = (if pk = ''a'' \<or> pk = ''b'' then 2 else 0)"
  "balance pk single_db = (if pk = ''a'' then 2 else 0)"
  by (auto simp: balance_def user_of_def accounts_db_def single_db_def account_def new_user_def)

lemma balanced_examples [simp]: "balanced accounts_db" "balanced single_db"
proof -
  have "db_inv accounts_db" "db_inv single_db"
    by (simp_all add: db_inv_def db_keys_def ref_counts_def n_refs_def accounts_db_def single_db_def sample_db_def
        sample_blob_def account_def new_user_def)
  moreover have "sizes_ok (owned accounts_db)" "sizes_ok (owned single_db)"
    by (auto simp: sizes_ok_def) (simp_all add: sample_blob_def)
  ultimately show "balanced accounts_db" "balanced single_db"
    by (auto simp: balanced_def usage_single)
qed

lemma blob_of_examples [simp]:
  "blob_of ''h'' accounts_db = Some sample_blob" "blob_of ''h'' single_db = Some sample_blob"
  "owner_set ''h'' accounts_db = {''a'', ''b''}" "owner_set ''h'' single_db = {''a''}"
  by (simp_all add: accounts_db_def single_db_def sample_db_def blob_of_def has_hash_def sample_blob_def owner_set_def
      owners_def)

end
