(* ===== verification/Moderation.thy ===== *)
theory Moderation
  imports Accounts
begin

text \<open>
  \<^verbatim>\<open>src/service/moderation_service.go\<close> with the queries of \<^verbatim>\<open>reports.sql.go\<close>, \<^verbatim>\<open>blocklist.sql.go\<close> and
  \<^verbatim>\<open>removed_blobs.sql.go\<close>: reports, the action taken on one, the list of blocked keys and the list of
  removed hashes. Logging is left out; the public statistics are read from the reports.
\<close>

section \<open>Queries\<close>

text \<open>\<^verbatim>\<open>LIMIT\<close> and \<^verbatim>\<open>OFFSET\<close>: a negative one is an error.\<close>

definition rows_page :: "int \<Rightarrow> int \<Rightarrow> 'r list \<Rightarrow> 'r list result" where
  "rows_page limit offset rows =
     (if limit < 0 \<or> offset < 0 then Inl ErrConstraint else Inr (take (nat limit) (drop (nat offset) rows)))"

definition q_CreateReport ::
  "string option \<Rightarrow> string \<Rightarrow> string \<Rightarrow> string \<Rightarrow> string option \<Rightarrow> int \<Rightarrow> report_row query" where
  "q_CreateReport reporter h url reason details created d =
     (let r = \<lparr>rp_id = t_next_report d, rp_reporter = reporter, rp_hash = h, rp_url = url, rp_reason = reason,
               rp_details = details, rp_status = ''pending'', rp_action = None, rp_by = None,
               rp_created = created, rp_reviewed = None\<rparr>
      in (Inr r, d\<lparr>t_reports := t_reports d @ [r], t_next_report := t_next_report d + 1\<rparr>))"

definition q_GetPendingReportCount :: "int query" where
  "q_GetPendingReportCount d = (Inr (int (length (filter (\<lambda>r. rp_status r = ''pending'') (t_reports d)))), d)"

definition q_GetReport :: "int \<Rightarrow> report_row query" where
  "q_GetReport i d = (first_row (\<lambda>r. rp_id r = i) (t_reports d), d)"

definition q_GetReportCountByBlobHash :: "string \<Rightarrow> int query" where
  "q_GetReportCountByBlobHash h d = (Inr (int (length (filter (\<lambda>r. rp_hash r = h) (t_reports d)))), d)"

record report_stats =
  rs_total :: int
  rs_actioned :: int
  rs_dismissed :: int
  rs_removed :: int
  rs_banned :: int

definition q_GetReportStats :: "report_stats query" where
  "q_GetReportStats d =
     (let count = (\<lambda>P. int (length (filter P (t_reports d))))
      in (Inr \<lparr>rs_total = int (length (t_reports d)),
               rs_actioned = count (\<lambda>r. rp_status r = ''actioned''),
               rs_dismissed = count (\<lambda>r. rp_status r = ''dismissed''),
               rs_removed = count (\<lambda>r. rp_action r = Some ''removed''),
               rs_banned = count (\<lambda>r. rp_action r = Some ''user_banned'')\<rparr>, d))"

definition q_ListAllReports :: "int \<Rightarrow> int \<Rightarrow> report_row list query" where
  "q_ListAllReports limit offset d =
     (rows_page limit offset (sort_key (\<lambda>r. - rp_created r) (t_reports d)), d)"

definition q_ListPendingReports :: "int \<Rightarrow> int \<Rightarrow> report_row list query" where
  "q_ListPendingReports limit offset d =
     (rows_page limit offset (sort_key rp_created (filter (\<lambda>r. rp_status r = ''pending'') (t_reports d))), d)"

definition q_ListReportsByBlobHash :: "string \<Rightarrow> report_row list query" where
  "q_ListReportsByBlobHash h d =
     (Inr (sort_key (\<lambda>r. - rp_created r) (filter (\<lambda>r. rp_hash r = h) (t_reports d))), d)"

definition q_ListReportsByStatus :: "string \<Rightarrow> int \<Rightarrow> int \<Rightarrow> report_row list query" where
  "q_ListReportsByStatus status limit offset d =
     (rows_page limit offset (sort_key (\<lambda>r. - rp_created r) (filter (\<lambda>r. rp_status r = status) (t_reports d))), d)"

definition q_UpdateReportStatus :: "string \<Rightarrow> string option \<Rightarrow> string option \<Rightarrow> int option \<Rightarrow> int \<Rightarrow> unit query" where
  "q_UpdateReportStatus status action reviewer at i d =
     (Inr (), d\<lparr>t_reports := update_where (\<lambda>r. rp_id r = i)
        (\<lambda>r. r\<lparr>rp_status := status, rp_action := action, rp_by := reviewer, rp_reviewed := at\<rparr>) (t_reports d)\<rparr>)"

definition q_AddToBlocklist :: "string \<Rightarrow> string \<Rightarrow> string \<Rightarrow> int \<Rightarrow> block_row query" where
  "q_AddToBlocklist pk reason by created d =
     (case find (\<lambda>r. bl_pubkey r = pk) (t_blocklist d) of
        None \<Rightarrow> (let r = \<lparr>bl_pubkey = pk, bl_reason = reason, bl_by = by, bl_created = created\<rparr>
                 in (Inr r, d\<lparr>t_blocklist := t_blocklist d @ [r]\<rparr>))
      | Some r \<Rightarrow> (Inr (r\<lparr>bl_reason := reason, bl_by := by\<rparr>),
           d\<lparr>t_blocklist := update_where (\<lambda>r. bl_pubkey r = pk) (\<lambda>r. r\<lparr>bl_reason := reason, bl_by := by\<rparr>)
               (t_blocklist d)\<rparr>))"

definition q_GetBlocklistCount :: "int query" where
  "q_GetBlocklistCount d = (Inr (int (length (t_blocklist d))), d)"

definition q_GetBlocklistEntry :: "string \<Rightarrow> block_row query" where
  "q_GetBlocklistEntry pk d = (first_row (\<lambda>r. bl_pubkey r = pk) (t_blocklist d), d)"

definition q_IsBlocked :: "string \<Rightarrow> bool query" where
  "q_IsBlocked pk d = (Inr (\<exists>r \<in> set (t_blocklist d). bl_pubkey r = pk), d)"

definition q_ListBlocklist :: "int \<Rightarrow> int \<Rightarrow> block_row list query" where
  "q_ListBlocklist limit offset d =
     (rows_page limit offset (sort_key (\<lambda>r. - bl_created r) (t_blocklist d)), d)"

definition q_RemoveFromBlocklist :: "string \<Rightarrow> unit query" where
  "q_RemoveFromBlocklist pk d =
     (Inr (), d\<lparr>t_blocklist := filter (\<lambda>r. bl_pubkey r \<noteq> pk) (t_blocklist d)\<rparr>)"

definition q_AddRemovedBlob :: "string \<Rightarrow> string \<Rightarrow> string \<Rightarrow> int option \<Rightarrow> int \<Rightarrow> unit query" where
  "q_AddRemovedBlob h reason by report created d =
     (let r = \<lparr>x_hash = h, x_reason = reason, x_by = by, x_report = report, x_created = created\<rparr>
      in (Inr (), d\<lparr>t_removed := (if \<exists>x \<in> set (t_removed d). x_hash x = h
            then update_where (\<lambda>x. x_hash x = h) (\<lambda>_. r) (t_removed d) else t_removed d @ [r])\<rparr>))"

definition q_DeleteRemovedBlob :: "string \<Rightarrow> unit query" where
  "q_DeleteRemovedBlob h d = (Inr (), d\<lparr>t_removed := filter (\<lambda>x. x_hash x \<noteq> h) (t_removed d)\<rparr>)"

definition q_GetRemovedBlob :: "string \<Rightarrow> removed_row query" where
  "q_GetRemovedBlob h d = (first_row (\<lambda>x. x_hash x = h) (t_removed d), d)"

definition q_GetRemovedBlobCount :: "int query" where
  "q_GetRemovedBlobCount d = (Inr (int (length (t_removed d))), d)"

definition q_IsHashRemoved :: "string \<Rightarrow> bool query" where
  "q_IsHashRemoved h d = (Inr (\<exists>x \<in> set (t_removed d). x_hash x = h), d)"

definition q_ListRemovedBlobs :: "int \<Rightarrow> int \<Rightarrow> removed_row list query" where
  "q_ListRemovedBlobs limit offset d =
     (rows_page limit offset (sort_key (\<lambda>x. - x_created x) (t_removed d)), d)"

section \<open>The service\<close>

record moderation_service =
  mo_blobs :: blob_service
  mo_quota :: "quota_service option"

text \<open>\<^verbatim>\<open>core.Report\<close>, with the empty string or 0 for what is NULL in the row.\<close>

record report =
  re_id :: int
  re_reporter :: string
  re_hash :: string
  re_url :: string
  re_reason :: string
  re_details :: string
  re_status :: string
  re_action :: string
  re_by :: string
  re_created :: int
  re_reviewed :: int

definition or_empty :: "string option \<Rightarrow> string" where
  "or_empty s = (case s of None \<Rightarrow> [] | Some x \<Rightarrow> x)"

definition dbReportToCore :: "report_row \<Rightarrow> report" where
  "dbReportToCore r = \<lparr>re_id = rp_id r, re_reporter = or_empty (rp_reporter r), re_hash = rp_hash r, re_url = rp_url r,
     re_reason = rp_reason r, re_details = or_empty (rp_details r), re_status = rp_status r,
     re_action = or_empty (rp_action r), re_by = or_empty (rp_by r), re_created = rp_created r,
     re_reviewed = (case rp_reviewed r of None \<Rightarrow> 0 | Some t \<Rightarrow> t)\<rparr>"

definition map_result :: "('a \<Rightarrow> 'b) \<Rightarrow> 'a result \<Rightarrow> 'b result" where
  "map_result f r = (case r of Inl e \<Rightarrow> Inl e | Inr x \<Rightarrow> Inr (f x))"

definition CreateReport :: "string \<Rightarrow> string \<Rightarrow> string \<Rightarrow> string \<Rightarrow> string \<Rightarrow> report result prog" where
  "CreateReport reporter h url reason details = do {
     t \<leftarrow> now;
     r \<leftarrow> exec_sql (q_CreateReport (if reporter \<noteq> [] then Some reporter else None) h url reason
            (if details \<noteq> [] then Some details else None) (Unix t));
     ret (map_result dbReportToCore r)
   }"

definition GetReport :: "int \<Rightarrow> report result prog" where
  "GetReport i = do {
     r \<leftarrow> exec_sql (q_GetReport i);
     ret (case r of
            Inl e \<Rightarrow> if e = ErrNoRows then Inl ErrReportNotFound else Inl e
          | Inr x \<Rightarrow> Inr (dbReportToCore x))
   }"

definition ListPendingReports :: "int \<Rightarrow> int \<Rightarrow> report list result prog" where
  "ListPendingReports limit offset = do {
     r \<leftarrow> exec_sql (q_ListPendingReports (i32 limit) (i32 offset));
     ret (map_result (map dbReportToCore) r)
   }"

definition ListAllReports :: "int \<Rightarrow> int \<Rightarrow> report list result prog" where
  "ListAllReports limit offset = do {
     r \<leftarrow> exec_sql (q_ListAllReports (i32 limit) (i32 offset));
     ret (map_result (map dbReportToCore) r)
   }"

definition ListReportsByStatus :: "string \<Rightarrow> int \<Rightarrow> int \<Rightarrow> report list result prog" where
  "ListReportsByStatus status limit offset = do {
     r \<leftarrow> exec_sql (q_ListReportsByStatus status (i32 limit) (i32 offset));
     ret (map_result (map dbReportToCore) r)
   }"

definition GetReportCountForBlob :: "string \<Rightarrow> int result prog" where
  "GetReportCountForBlob h = exec_sql (q_GetReportCountByBlobHash h)"

definition GetPendingReportCount :: "int result prog" where
  "GetPendingReportCount = exec_sql q_GetPendingReportCount"

definition ReviewReport :: "int \<Rightarrow> string \<Rightarrow> string \<Rightarrow> string \<Rightarrow> unit result prog" where
  "ReviewReport i status action reviewer = do {
     t \<leftarrow> now;
     exec_sql (q_UpdateReportStatus status (Some action) (Some reviewer) (Some (Unix t)) i)
   }"

record transparency =
  tr_reports :: int
  tr_actioned :: int
  tr_dismissed :: int
  tr_removed :: int
  tr_banned :: int
  tr_updated :: int

definition GetTransparencyStats :: "transparency result prog" where
  "GetTransparencyStats = do {
     r \<leftarrow> exec_sql q_GetReportStats;
     case r of
       Inl e \<Rightarrow> ret (Inl e)
     | Inr st \<Rightarrow> do {
         b \<leftarrow> exec_sql q_GetBlocklistCount;
         case b of
           Inl e \<Rightarrow> ret (Inl e)
         | Inr blocked \<Rightarrow> do {
             t \<leftarrow> now;
             ret (Inr \<lparr>tr_reports = rs_total st, tr_actioned = rs_actioned st, tr_dismissed = rs_dismissed st,
                       tr_removed = rs_removed st, tr_banned = blocked, tr_updated = Unix t\<rparr>)
           }
       }
   }"

definition IsBlocked :: "string \<Rightarrow> bool result prog" where
  "IsBlocked pk = exec_sql (q_IsBlocked pk)"

definition AddToBlocklist :: "string \<Rightarrow> string \<Rightarrow> string \<Rightarrow> block_row result prog" where
  "AddToBlocklist pk reason by = do { t \<leftarrow> now; exec_sql (q_AddToBlocklist pk reason by (Unix t)) }"

definition RemoveFromBlocklist :: "string \<Rightarrow> unit result prog" where
  "RemoveFromBlocklist pk = exec_sql (q_RemoveFromBlocklist pk)"

definition GetBlocklistEntry :: "string \<Rightarrow> block_row result prog" where
  "GetBlocklistEntry pk = do {
     r \<leftarrow> exec_sql (q_GetBlocklistEntry pk);
     ret (case r of
            Inl e \<Rightarrow> if e = ErrNoRows then Inl ErrPubkeyBlocked else Inl e
          | Inr x \<Rightarrow> Inr x)
   }"

definition ListBlocklist :: "int \<Rightarrow> int \<Rightarrow> block_row list result prog" where
  "ListBlocklist limit offset = exec_sql (q_ListBlocklist (i32 limit) (i32 offset))"

definition GetBlocklistCount :: "int result prog" where
  "GetBlocklistCount = exec_sql q_GetBlocklistCount"

definition IsHashRemoved :: "string \<Rightarrow> bool result prog" where
  "IsHashRemoved h = exec_sql (q_IsHashRemoved h)"

definition AddRemovedBlob :: "string \<Rightarrow> string \<Rightarrow> string \<Rightarrow> int \<Rightarrow> unit result prog" where
  "AddRemovedBlob h reason by reportID = do {
     t \<leftarrow> now;
     exec_sql (q_AddRemovedBlob h reason by (if reportID > 0 then Some reportID else None) (Unix t))
   }"

text \<open>No row is not an error: the result is nil.\<close>

definition GetRemovedBlob :: "string \<Rightarrow> removed_row option result prog" where
  "GetRemovedBlob h = do {
     r \<leftarrow> exec_sql (q_GetRemovedBlob h);
     ret (case r of
            Inl e \<Rightarrow> if e = ErrNoRows then Inr None else Inl e
          | Inr x \<Rightarrow> Inr (Some x))
   }"

text \<open>Taking action: the deletion of the blob and the credit of its first uploader.\<close>

definition action_removed :: "moderation_service \<Rightarrow> string \<Rightarrow> unit prog" where
  "action_removed m h = do {
     b \<leftarrow> GetFromHash (mo_blobs m) h;
     case b of
       Inl _ \<Rightarrow> ret ()
     | Inr blob \<Rightarrow> do {
         _ \<leftarrow> DeleteFromHash (mo_blobs m) h;
         if mo_quota m \<noteq> None \<and> d_pubkey blob \<noteq> []
         then do { _ \<leftarrow> DecrementUsage (d_pubkey blob) (d_size blob); ret () }
         else ret ()
       }
   }"

definition action_banned :: "moderation_service \<Rightarrow> report \<Rightarrow> string \<Rightarrow> unit prog" where
  "action_banned m r reviewer = do {
     b \<leftarrow> GetFromHash (mo_blobs m) (re_hash r);
     case b of
       Inl _ \<Rightarrow> ret ()
     | Inr blob \<Rightarrow>
         if d_pubkey blob \<noteq> [] then do {
           _ \<leftarrow> (case mo_quota m of None \<Rightarrow> ret (Inr ()) | Some q \<Rightarrow> BanUser q (d_pubkey blob));
           _ \<leftarrow> AddToBlocklist (d_pubkey blob) (''Report action: '' @ re_reason r) reviewer;
           _ \<leftarrow> DeleteFromHash (mo_blobs m) (re_hash r);
           ret ()
         }
         else ret ()
   }"

definition ActionReport :: "moderation_service \<Rightarrow> int \<Rightarrow> string \<Rightarrow> string \<Rightarrow> unit result prog" where
  "ActionReport m reportID action reviewer = do {
     g \<leftarrow> GetReport reportID;
     case g of
       Inl e \<Rightarrow> ret (Inl e)
     | Inr r \<Rightarrow> do {
         _ \<leftarrow> (if action = ''removed'' then do {
                _ \<leftarrow> action_removed m (re_hash r);
                _ \<leftarrow> AddRemovedBlob (re_hash r) (re_reason r) reviewer reportID;
                ret ()
              }
              else if action = ''user_banned'' then do {
                _ \<leftarrow> action_banned m r reviewer;
                _ \<leftarrow> AddRemovedBlob (re_hash r) (re_reason r) reviewer reportID;
                ret ()
              }
              else ret ());
         ReviewReport reportID ''actioned'' action reviewer
       }
   }"

section \<open>What the actions do\<close>

text \<open>Removing a blob when nothing fails: it is gone for all owners, and its first uploader is credited.\<close>

lemma action_removed_quiet:
  assumes w: "quiet w" "balanced (w_db w)" "w_saved w = None" "in_i64 (balance (b_pubkey b) (w_db w))"
    and b: "blob_of h (w_db w) = Some b" "b_mode b \<noteq> ''server''" "b_pubkey b \<noteq> []" "mo_quota m \<noteq> None"
  shows "wp (action_removed m h) (\<lambda>_ w'. quiet w' \<and> db_inv (w_db w') \<and> w_saved w' = None
      \<and> owned (w_db w') = (owned (w_db w))(h := None) \<and> t_reports (w_db w') = t_reports (w_db w)
      \<and> (\<forall>pk. pk \<noteq> b_pubkey b \<longrightarrow> balance pk (w_db w') = balance pk (w_db w))
      \<and> (b_pubkey b \<in> owner_set h (w_db w) \<longrightarrow>
           balance (b_pubkey b) (w_db w') = balance (b_pubkey b) (w_db w) - charge b)) w"
  (is "wp _ ?Q w")
proof -
  let ?d = "w_db w" and ?pk = "b_pubkey b"
  have inv: "db_inv ?d" using w(2) by (simp add: balanced_def)
  have o: "owned ?d h = Some (bare b, owner_set h ?d)" using b(1) by (simp add: owned_def)
  have le: "0 \<le> charge b \<and> charge b \<le> balance ?pk ?d" if "?pk \<in> owner_set h ?d"
    using charge_le_usage [OF finite_dom_owned _ o that] w(2) by (simp add: balanced_def)
  have dec: "wp (DecrementUsage ?pk (charge b)) (\<lambda>_. ?Q ()) w1"
    if w1: "quiet w1" "w_saved w1 = None" "db_inv (w_db w1)" "owned (w_db w1) = (owned ?d)(h := None)"
      "others (w_db w1) = others ?d" for w1
  proof -
    note eq = others_balance [OF w1(5)] others_tables [OF w1(5)]
    show ?thesis
    proof (cases "?pk \<in> owner_set h ?d")
      case True
      have a: "0 \<le> charge b" "charge b \<le> balance ?pk (w_db w1)" "in_i64 (balance ?pk (w_db w1))"
        using le [OF True] w(4) by (simp_all add: eq)
      show ?thesis
        by (rule wp_mono [OF wp_conj [OF DecrementUsage_law [OF w1(1,3) a] DecrementUsage_frame [OF w1(1,3)]]])
          (use w1 eq in \<open>simp add: only_users_def\<close>)
    next
      case False
      then show ?thesis
        by (intro wp_mono [OF DecrementUsage_frame [OF w1(1,3)]]) (use w1 eq in \<open>simp add: only_users_def\<close>)
    qed
  qed
  have rest: "wp (DeleteFromHash (mo_blobs m) h) (\<lambda>_. wp (do { _ \<leftarrow> DecrementUsage ?pk (charge b); ret () }) ?Q) w"
    by (rule wp_mono [OF DeleteFromHash_quiet [OF w(1) inv w(3)]]) (auto simp: wp_simp intro: dec)
  show ?thesis
    unfolding action_removed_def wp_bind
    by (rule wp_mono [OF GetFromHash_plain [OF w(1) b(1,2)]]) (use rest b(3,4) in \<open>auto simp: wp_simp\<close>)
qed

lemma q_frame_removed [simp]:
  "fst (q_AddRemovedBlob h reason by report t d) = Inr ()"
  "owned (snd (q_AddRemovedBlob h reason by report t d)) = owned d"
  "balance pk (snd (q_AddRemovedBlob h reason by report t d)) = balance pk d"
  "db_inv (snd (q_AddRemovedBlob h reason by report t d)) = db_inv d"
  "fst (q_IsHashRemoved h (snd (q_AddRemovedBlob h reason by report t d))) = Inr True"
  by (simp_all add: q_AddRemovedBlob_def Let_def)
    (auto simp: q_IsHashRemoved_def update_where_def intro!: bexI [of _ "\<lparr>x_hash = h, x_reason = reason, x_by = by,
        x_report = report, x_created = t\<rparr>"] rev_image_eqI)

lemma q_frame_status [simp]:
  "fst (q_UpdateReportStatus s a r t i d) = Inr ()" "owned (snd (q_UpdateReportStatus s a r t i d)) = owned d"
  "balance pk (snd (q_UpdateReportStatus s a r t i d)) = balance pk d"
  "db_inv (snd (q_UpdateReportStatus s a r t i d)) = db_inv d"
  "q_IsHashRemoved h (snd (q_UpdateReportStatus s a r t i d)) = (fst (q_IsHashRemoved h d), snd (q_UpdateReportStatus s a r t i d))"
  by (simp_all add: q_UpdateReportStatus_def q_IsHashRemoved_def)

text \<open>The whole action, for the report \<open>r\<close>.\<close>

lemma ActionReport_removed:
  assumes w: "quiet w" "balanced (w_db w)" "w_saved w = None" "in_i64 (balance (b_pubkey b) (w_db w))"
    and b: "blob_of h (w_db w) = Some b" "b_mode b \<noteq> ''server''" "b_pubkey b \<noteq> []" "mo_quota m \<noteq> None"
    and r: "fst (q_GetReport i (w_db w)) = Inr r" "rp_hash r = h"
  shows "wp (ActionReport m i ''removed'' adm) (\<lambda>x w'. x = Inr () \<and> db_inv (w_db w')
      \<and> owned (w_db w') = (owned (w_db w))(h := None) \<and> fst (q_IsHashRemoved h (w_db w')) = Inr True
      \<and> (\<forall>pk. pk \<noteq> b_pubkey b \<longrightarrow> balance pk (w_db w') = balance pk (w_db w))
      \<and> (b_pubkey b \<in> owner_set h (w_db w) \<longrightarrow>
           balance (b_pubkey b) (w_db w') = balance (b_pubkey b) (w_db w) - charge b)) w"
proof -
  have g: "q_GetReport i (w_db w) = (Inr r, w_db w)" using r(1) by (simp add: q_GetReport_def)
  have h: "re_hash (dbReportToCore r) = h" using r(2) by (simp add: dbReportToCore_def)
  let ?Q = "\<lambda>x w'. x = Inr () \<and> db_inv (w_db w')
      \<and> owned (w_db w') = (owned (w_db w))(h := None) \<and> fst (q_IsHashRemoved h (w_db w')) = Inr True
      \<and> (\<forall>pk. pk \<noteq> b_pubkey b \<longrightarrow> balance pk (w_db w') = balance pk (w_db w))
      \<and> (b_pubkey b \<in> owner_set h (w_db w) \<longrightarrow>
           balance (b_pubkey b) (w_db w') = balance (b_pubkey b) (w_db w) - charge b)"
  have tail: "wp (AddRemovedBlob h x y i) (\<lambda>_. wp (ReviewReport i s a adm) ?Q) w1"
    if w1: "quiet w1" "db_inv (w_db w1)" "owned (w_db w1) = (owned (w_db w))(h := None)"
      "\<forall>pk. pk \<noteq> b_pubkey b \<longrightarrow> balance pk (w_db w1) = balance pk (w_db w)"
      "b_pubkey b \<in> owner_set h (w_db w) \<longrightarrow> balance (b_pubkey b) (w_db w1) = balance (b_pubkey b) (w_db w) - charge b"
    for w1 x y s a
    using w1 by (simp add: quiet_def AddRemovedBlob_def ReviewReport_def wp_simp no_fault case_prod_beta)
  have act: "wp (action_removed m h) (\<lambda>_. wp (AddRemovedBlob h x y i) (\<lambda>_. wp (ReviewReport i s a adm) ?Q)) w"
    for x y s a
    by (rule wp_mono [OF action_removed_quiet [OF w b]]) (auto intro!: tail)
  have get: "wp (GetReport i) (\<lambda>g w'. g = Inr (dbReportToCore r) \<and> w' = w) w"
    using w(1) by (simp add: GetReport_def wp_simp no_fault quiet_def g)
  show ?thesis
    unfolding ActionReport_def wp_bind
    by (rule wp_mono [OF get]) (simp add: h wp_bind wp_ret act)
qed

section \<open>Properties\<close>

text \<open>Acting on a report with "removed" puts the hash on the list of removed hashes and deletes the blob with
  all its references; when its first uploader is its only owner, the accounts stay balanced: every key is
  charged exactly for the blobs it owns.\<close>

theorem removal_keeps_accounts:
  assumes "quiet w" "balanced (w_db w)" "w_saved w = None" "in_i64 (balance (b_pubkey b) (w_db w))"
    and "blob_of h (w_db w) = Some b" "b_mode b \<noteq> ''server''" "b_pubkey b \<noteq> []" "mo_quota m \<noteq> None"
    and "fst (q_GetReport i (w_db w)) = Inr r" "rp_hash r = h"
    and "owner_set h (w_db w) = {b_pubkey b}"
    and "run_state (ActionReport m i ''removed'' adm) w = (x, w')"
  shows "x = Inr () \<and> balanced (w_db w') \<and> owned (w_db w') h = None \<and> fst (q_IsHashRemoved h (w_db w')) = Inr True"
proof -
  note act = wp_run [OF ActionReport_removed [OF assms(1-10)] assms(12)]
  have o: "owned (w_db w) h = Some (bare b, {b_pubkey b})" using assms(5,11) by (simp add: owned_def)
  have u: "usage pk (owned (w_db w')) = usage pk (owned (w_db w)) - (if pk = b_pubkey b then charge b else 0)" for pk
    using usage_remove [OF finite_dom_owned o, of pk] act by simp
  have s: "sizes_ok (owned (w_db w'))"
    using assms(2) act by (auto simp: balanced_def sizes_ok_def)
  have "balance pk (w_db w') = usage pk (owned (w_db w'))" for pk
    using u [of pk] act assms(2,11) by (cases "pk = b_pubkey b") (auto simp: balanced_def)
  with act s show ?thesis by (simp add: balanced_def)
qed

definition sample_report :: report_row where
  "sample_report = \<lparr>rp_id = 1, rp_reporter = None, rp_hash = ''h'', rp_url = ''u'', rp_reason = ''abuse'',
     rp_details = None, rp_status = ''pending'', rp_action = None, rp_by = None, rp_created = 0, rp_reviewed = None\<rparr>"

definition plain_moderation :: moderation_service where
  "plain_moderation = \<lparr>mo_blobs = plain_service, mo_quota = Some (NewQuotaService True 0 0)\<rparr>"

lemma frame_reports [simp]:
  "blob_of h (d\<lparr>t_reports := rs\<rparr>) = blob_of h d" "owner_set h (d\<lparr>t_reports := rs\<rparr>) = owner_set h d"
  "balanced (d\<lparr>t_reports := rs\<rparr>) = balanced d"
  by (simp_all add: blob_of_def owner_set_def owners_def balanced_def)

theorem removal_keeps_accounts_witness:
  "balanced (w_db (snd (run_state (ActionReport plain_moderation 1 ''removed'' ''adm'')
     (start_world (single_db\<lparr>t_reports := [sample_report]\<rparr>)))))"
proof -
  let ?w = "start_world (single_db\<lparr>t_reports := [sample_report]\<rparr>)"
  have h: "quiet ?w" "balanced (w_db ?w)" "w_saved ?w = None" "in_i64 (balance (b_pubkey sample_blob) (w_db ?w))"
    "blob_of ''h'' (w_db ?w) = Some sample_blob" "b_mode sample_blob \<noteq> ''server''" "b_pubkey sample_blob \<noteq> []"
    "mo_quota plain_moderation \<noteq> None" "fst (q_GetReport 1 (w_db ?w)) = Inr sample_report"
    "rp_hash sample_report = ''h''" "owner_set ''h'' (w_db ?w) = {b_pubkey sample_blob}"
    by (simp_all add: in_i64_def plain_moderation_def q_GetReport_def first_row_def sample_report_def)
      (simp_all add: sample_blob_def)
  from removal_keeps_accounts [OF h run_pair, where adm = "''adm''"] show ?thesis by simp
qed

text \<open>With more owners it does not: every owner but the first uploader stays charged for the deleted blob.\<close>

theorem removal_leaves_owners_charged:
  assumes "quiet w" "balanced (w_db w)" "w_saved w = None" "in_i64 (balance (b_pubkey b) (w_db w))"
    and "blob_of h (w_db w) = Some b" "b_mode b \<noteq> ''server''" "b_pubkey b \<noteq> []" "mo_quota m \<noteq> None"
    and "fst (q_GetReport i (w_db w)) = Inr r" "rp_hash r = h"
    and "pk \<in> owner_set h (w_db w)" "pk \<noteq> b_pubkey b"
    and "run_state (ActionReport m i ''removed'' adm) w = (x, w')"
  shows "x = Inr () \<and> \<not> owns pk h (owned (w_db w')) \<and> balance pk (w_db w') = usage pk (owned (w_db w')) + charge b"
proof -
  note act = wp_run [OF ActionReport_removed [OF assms(1-10)] assms(13)]
  have o: "owned (w_db w) h = Some (bare b, owner_set h (w_db w))" using assms(5) by (simp add: owned_def)
  have "usage pk (owned (w_db w')) = usage pk (owned (w_db w)) - charge b"
    using usage_remove [OF finite_dom_owned o, of pk] act assms(11) by simp
  then show ?thesis
    using act assms(2,12) by (simp add: balanced_def owns_def)
qed

theorem removal_leaves_owners_charged_witness:
  "\<exists>w'. w' = snd (run_state (ActionReport plain_moderation 1 ''removed'' ''adm'')
       (start_world (accounts_db\<lparr>t_reports := [sample_report]\<rparr>)))
     \<and> balance ''b'' (w_db w') = usage ''b'' (owned (w_db w')) + 2"
proof -
  let ?w = "start_world (accounts_db\<lparr>t_reports := [sample_report]\<rparr>)"
  let ?x = "run_state (ActionReport plain_moderation 1 ''removed'' ''adm'') ?w"
  have h: "quiet ?w" "balanced (w_db ?w)" "w_saved ?w = None" "in_i64 (balance (b_pubkey sample_blob) (w_db ?w))"
    "blob_of ''h'' (w_db ?w) = Some sample_blob" "b_mode sample_blob \<noteq> ''server''" "b_pubkey sample_blob \<noteq> []"
    "mo_quota plain_moderation \<noteq> None" "fst (q_GetReport 1 (w_db ?w)) = Inr sample_report"
    "rp_hash sample_report = ''h''" "''b'' \<in> owner_set ''h'' (w_db ?w)" "''b'' \<noteq> b_pubkey sample_blob"
    by (simp_all add: in_i64_def plain_moderation_def q_GetReport_def first_row_def sample_report_def)
      (simp_all add: sample_blob_def)
  from removal_leaves_owners_charged [OF h run_pair, where adm = "''adm''"] show ?thesis by simp
qed

text \<open>A sequence of operations on the blocklist, and what it leaves of one key.\<close>

datatype block_op = Block string string string | Unblock string

fun run_op :: "block_op \<Rightarrow> unit prog" where
  "run_op (Block pk reason by) = do { _ \<leftarrow> AddToBlocklist pk reason by; ret () }"
| "run_op (Unblock pk) = do { _ \<leftarrow> RemoveFromBlocklist pk; ret () }"

fun run_ops :: "block_op list \<Rightarrow> unit prog" where
  "run_ops [] = ret ()"
| "run_ops (x # xs) = do { _ \<leftarrow> run_op x; run_ops xs }"

fun blocked_after :: "string \<Rightarrow> block_op list \<Rightarrow> bool \<Rightarrow> bool" where
  "blocked_after pk [] b = b"
| "blocked_after pk (Block k _ _ # xs) b = blocked_after pk xs (k = pk \<or> b)"
| "blocked_after pk (Unblock k # xs) b = blocked_after pk xs (k \<noteq> pk \<and> b)"

definition is_blocked :: "string \<Rightarrow> dbstate \<Rightarrow> bool" where
  "is_blocked pk d \<longleftrightarrow> pk \<in> bl_pubkey ` set (t_blocklist d)"

lemma is_blocked_add: "is_blocked pk (snd (q_AddToBlocklist k reason by t d)) \<longleftrightarrow> k = pk \<or> is_blocked pk d"
proof (cases "find (\<lambda>r. bl_pubkey r = k) (t_blocklist d)")
  case None
  then show ?thesis by (auto simp: q_AddToBlocklist_def is_blocked_def Let_def)
next
  case (Some r)
  then have "r \<in> set (t_blocklist d)" "bl_pubkey r = k" by (auto simp: find_Some_iff)
  then have "k \<in> bl_pubkey ` set (t_blocklist d)" by blast
  with Some show ?thesis
    by (auto simp: q_AddToBlocklist_def is_blocked_def set_update_where)
qed

lemma run_op_quiet:
  assumes "quiet w"
  shows "wp (run_op x) (\<lambda>_ w'. quiet w' \<and> (\<forall>pk. is_blocked pk (w_db w') = blocked_after pk [x] (is_blocked pk (w_db w)))) w"
  using assms is_blocked_add
  by (cases x) (auto simp: AddToBlocklist_def RemoveFromBlocklist_def wp_simp no_fault quiet_def case_prod_beta
      q_RemoveFromBlocklist_def is_blocked_def)

lemma run_ops_quiet:
  "quiet w \<Longrightarrow> wp (run_ops xs) (\<lambda>_ w'. quiet w' \<and> (\<forall>pk. is_blocked pk (w_db w') = blocked_after pk xs (is_blocked pk (w_db w)))) w"
proof (induction xs arbitrary: w)
  case Nil
  then show ?case by (simp add: wp_simp)
next
  case (Cons x xs)
  have s: "blocked_after pk xs (blocked_after pk [x] b) = blocked_after pk (x # xs) b" for pk b
    by (cases x) simp_all
  show ?case
    unfolding run_ops.simps wp_bind
    by (rule wp_mono [OF run_op_quiet [OF Cons.prems]]) (auto simp: s [symmetric] intro: wp_mono [OF Cons.IH])
qed

text \<open>When no call fails, a key is reported as blocked exactly when the last operation on it was a block.\<close>

theorem blocklist_follows_last_operation:
  assumes "quiet w"
  shows "fst (run_state (do { _ \<leftarrow> run_ops xs; IsBlocked pk }) w)
    = Inr (blocked_after pk xs (is_blocked pk (w_db w)))"
proof -
  have q: "fst (q_IsBlocked pk d) = Inr (is_blocked pk d)" for d
    by (auto simp: q_IsBlocked_def is_blocked_def)
  have "wp (do { _ \<leftarrow> run_ops xs; IsBlocked pk }) (\<lambda>r w'. r = Inr (blocked_after pk xs (is_blocked pk (w_db w)))) w"
    unfolding wp_bind IsBlocked_def
    by (rule wp_mono [OF run_ops_quiet [OF assms]]) (auto simp: no_fault quiet_def case_prod_beta q)
  then show ?thesis by (auto simp: wp_def split: prod.splits)
qed

theorem blocklist_follows_last_operation_witness:
  "fst (run_state (do { _ \<leftarrow> run_ops [Block ''a'' ''spam'' ''adm'', Unblock ''a'', Block ''b'' ''x'' ''adm'']; IsBlocked ''a'' })
     (start_world empty_db)) = Inr False"
  by (subst blocklist_follows_last_operation) (simp_all add: is_blocked_def)

text \<open>Looking up a key that is not on the blocklist returns the error "pubkey is blocked".\<close>

theorem unblocked_key_reported_blocked:
  assumes "quiet w" "\<not> is_blocked pk (w_db w)"
  shows "fst (run_state (GetBlocklistEntry pk) w) = Inl ErrPubkeyBlocked"
proof -
  have f: "q_GetBlocklistEntry pk (w_db w) = (Inl ErrNoRows, w_db w)"
    using assms(2) by (auto simp: q_GetBlocklistEntry_def first_row_def is_blocked_def find_Some_iff split: option.split)
  have "wp (GetBlocklistEntry pk) (\<lambda>r w'. r = Inl ErrPubkeyBlocked) w"
    using assms(1) by (simp add: GetBlocklistEntry_def wp_simp no_fault quiet_def f)
  then show ?thesis by (auto simp: wp_def split: prod.splits)
qed

theorem unblocked_key_reported_blocked_witness:
  "fst (run_state (GetBlocklistEntry ''a'') (start_world empty_db)) = Inl ErrPubkeyBlocked"
  by (rule unblocked_key_reported_blocked) (simp_all add: is_blocked_def)

end
