(* ===== verification/Policy.thy ===== *)
theory Policy
  imports World
begin

text \<open>
  Who may upload what: the access rules (\<^verbatim>\<open>src/service/acr_service.go\<close>), the allowed MIME types
  (\<^verbatim>\<open>mime_type.go\<close>, \<^verbatim>\<open>src/pkg/mimetypes\<close>), the global size limit (\<^verbatim>\<open>setting_service.go\<close>), the
  per-tier limits with the daily counter (\<^verbatim>\<open>upload_limits_service.go\<close>) and the requirements check of
  BUD-06. The sniffer, the parser of media types and the platform client's tier lookup are code outside
  the repository and parameters here.
\<close>

section \<open>Access rules\<close>

record acr =
  a_action :: string
  a_pubkey :: string
  a_resource :: string

type_synonym acr_service = "(string \<times> acr list) list"

text \<open>The constructor groups the configured rules by resource, in order.\<close>

definition NewACRService :: "acr list \<Rightarrow> acr_service" where
  "NewACRService rules =
     fold (\<lambda>r m. AList.update (a_resource r) ((case map_of m (a_resource r) of None \<Rightarrow> [] | Some rs \<Rightarrow> rs) @ [r]) m)
       rules []"

fun acr_scan :: "string \<Rightarrow> bool \<Rightarrow> acr list \<Rightarrow> bool" where
  "acr_scan pk allowed [] = allowed"
| "acr_scan pk allowed (r # rs) =
     (let allowed = (if a_pubkey r = ''ALL'' then a_action r = ''ALLOW'' else allowed)
      in if a_pubkey r = pk then a_action r = ''ALLOW'' else acr_scan pk allowed rs)"

definition acr_Validate :: "acr_service \<Rightarrow> string \<Rightarrow> string \<Rightarrow> unit result" where
  "acr_Validate m pk resource =
     (case map_of m resource of
        None \<Rightarrow> Inl (Msg ''invalid state: there must be at least one rule for the resource'')
      | Some rules \<Rightarrow> if acr_scan pk False rules then Inr () else Inl ErrUnauthorized)"

text \<open>The specification: the first rule for the key itself decides; without one, the last rule for \<^verbatim>\<open>ALL\<close>;
  without that one, nobody has access.\<close>

definition acr_spec :: "string \<Rightarrow> string \<Rightarrow> acr list \<Rightarrow> bool" where
  "acr_spec pk resource rules =
     (let rs = filter (\<lambda>r. a_resource r = resource) rules
      in case find (\<lambda>r. a_pubkey r = pk) rs of
           Some r \<Rightarrow> a_action r = ''ALLOW''
         | None \<Rightarrow> (case find (\<lambda>r. a_pubkey r = ''ALL'') (rev rs) of
                      Some r \<Rightarrow> a_action r = ''ALLOW''
                    | None \<Rightarrow> False))"

lemma find_append: "find P (xs @ ys) = (case find P xs of None \<Rightarrow> find P ys | Some x \<Rightarrow> Some x)"
  by (induction xs) auto

lemma acr_scan_spec:
  "acr_scan pk allowed rs =
     (case find (\<lambda>r. a_pubkey r = pk) rs of
        Some r \<Rightarrow> a_action r = ''ALLOW''
      | None \<Rightarrow> (case find (\<lambda>r. a_pubkey r = ''ALL'') (rev rs) of
                   Some r \<Rightarrow> a_action r = ''ALLOW''
                 | None \<Rightarrow> allowed))"
  by (induction rs arbitrary: allowed) (auto simp: find_append Let_def split: option.split)

lemma map_of_rules:
  "map_of (fold (\<lambda>r m. AList.update (a_resource r) ((case map_of m (a_resource r) of None \<Rightarrow> [] | Some rs \<Rightarrow> rs) @ [r]) m)
     rules m) resource
   = (case map_of m resource of
        None \<Rightarrow> (let rs = filter (\<lambda>r. a_resource r = resource) rules in if rs = [] then None else Some rs)
      | Some rs \<Rightarrow> Some (rs @ filter (\<lambda>r. a_resource r = resource) rules))"
  by (induction rules arbitrary: m) (auto simp: update_conv' Let_def split: option.split)

text \<open>Access control: for the rules of a configuration, a key may use a resource exactly when the first rule
  naming the key allows it or, if no rule names the key, the last rule for everybody does. A resource
  without rules is never allowed.\<close>

theorem acr_decision:
  "acr_Validate (NewACRService rules) pk resource = Inr () \<longleftrightarrow> acr_spec pk resource rules"
  by (auto simp: acr_Validate_def NewACRService_def map_of_rules Let_def acr_scan_spec acr_spec_def
      split: option.split)

section \<open>MIME types and sizes\<close>

record mime_service =
  ms_all :: bool
  ms_allowed :: "string list"

definition mime_IsAllowed :: "mime_service \<Rightarrow> string \<Rightarrow> unit result" where
  "mime_IsAllowed m t =
     (if ms_all m then Inr () else if t \<in> set (ms_allowed m) then Inr () else Inl ErrMimeTypeNotAllowed)"

text \<open>The constructor: \<open>known\<close> tells which types the table \<^verbatim>\<open>mime_types\<close> has.\<close>

fun known_types :: "(string \<Rightarrow> bool) \<Rightarrow> string list \<Rightarrow> unit result" where
  "known_types known [] = Inr ()"
| "known_types known (t # ts) = (if known t then known_types known ts else Inl (Wrap t (Msg ''invalid mime type'')))"

definition NewMimeTypeService :: "(string \<Rightarrow> bool) \<Rightarrow> string list \<Rightarrow> mime_service result" where
  "NewMimeTypeService known allowed =
     (if length allowed = 1 \<and> allowed ! 0 = ''*'' then Inr \<lparr>ms_all = True, ms_allowed = []\<rparr>
      else case known_types known allowed of
             Inl e \<Rightarrow> Inl e
           | Inr _ \<Rightarrow> Inr \<lparr>ms_all = False, ms_allowed = allowed\<rparr>)"

definition ValidateFileSizeMaxBytes :: "int \<Rightarrow> int \<Rightarrow> unit result" where
  "ValidateFileSizeMaxBytes maxBytes n = (if n > maxBytes then Inl ErrFileSizeLimit else Inr ())"

text \<open>\<^verbatim>\<open>mimetypes.Resolve\<close>: \<open>detect\<close> sniffs, \<open>parse\<close> and \<open>format\<close> are \<^verbatim>\<open>mime.ParseMediaType\<close> and
  \<^verbatim>\<open>mime.FormatMediaType\<close>.\<close>

record media =
  md_detect :: "bytes \<Rightarrow> string"
  md_parse :: "string \<Rightarrow> (string \<times> (string \<times> string) list) option"
  md_format :: "string \<Rightarrow> (string \<times> string) list \<Rightarrow> string"

definition upgradable :: "string list" where
  "upgradable = [''text/css'', ''text/javascript'', ''application/json'', ''text/markdown'', ''text/csv'']"

definition Resolve :: "media \<Rightarrow> bytes \<Rightarrow> string \<Rightarrow> string" where
  "Resolve m data declared =
     (let sniffed = md_detect m data in
      case md_parse m sniffed of
        None \<Rightarrow> sniffed
      | Some (base, params) \<Rightarrow>
          if base \<noteq> ''text/plain'' \<and> base \<noteq> ''application/octet-stream'' then sniffed
          else (case md_parse m declared of
                  None \<Rightarrow> sniffed
                | Some (declaredBase, _) \<Rightarrow>
                    if declaredBase \<notin> set upgradable then sniffed
                    else (let resolved = md_format m declaredBase params
                          in if resolved \<noteq> [] then resolved else sniffed)))"

text \<open>The uploader's declared type is stored only for content the sniffer finds generic, and only if it is one
  of the five listed text formats: HTML, SVG, XML or any other type can never be declared.\<close>

theorem declared_type_restricted:
  assumes "Resolve m data declared \<noteq> md_detect m data"
  shows "\<exists>base params params'. md_parse m (md_detect m data) = Some (base, params)
    \<and> base \<in> {''text/plain'', ''application/octet-stream''}
    \<and> (\<exists>t \<in> set upgradable. md_parse m declared = Some (t, params') \<and> Resolve m data declared = md_format m t params)"
  using assms by (auto simp: Resolve_def Let_def split: option.splits if_splits)

definition sample_media :: media where
  "sample_media = \<lparr>md_detect = (\<lambda>_. ''text/plain''), md_parse = (\<lambda>s. Some (s, [])), md_format = (\<lambda>t _. t)\<rparr>"

theorem declared_type_restricted_witness:
  "\<exists>t \<in> set upgradable. md_parse sample_media ''text/css'' = Some (t, [])"
  using declared_type_restricted [of sample_media "[]" "''text/css''"]
  by (simp add: sample_media_def Resolve_def upgradable_def)

section \<open>Tier limits\<close>

datatype tier = TierAnonymous | TierNamed | TierPaid

record tier_limits =
  tl_max_bytes :: int
  tl_prefixes :: "string list"
  tl_per_day :: int

record upload_limits =
  ul_enabled :: bool
  ul_anonymous :: tier_limits
  ul_named :: tier_limits
  ul_paid :: tier_limits
  ul_client :: "(string \<Rightarrow> tier result) option"

definition getTier :: "upload_limits \<Rightarrow> string \<Rightarrow> tier" where
  "getTier u pk =
     (case ul_client u of
        None \<Rightarrow> TierNamed
      | Some f \<Rightarrow> (case f pk of Inl _ \<Rightarrow> TierAnonymous | Inr t \<Rightarrow> t))"

definition tierConfig :: "upload_limits \<Rightarrow> tier \<Rightarrow> tier_limits" where
  "tierConfig u t = (case t of TierPaid \<Rightarrow> ul_paid u | TierNamed \<Rightarrow> ul_named u | TierAnonymous \<Rightarrow> ul_anonymous u)"

definition limits_of :: "upload_limits \<Rightarrow> string \<Rightarrow> tier_limits" where
  "limits_of u pk = tierConfig u (getTier u pk)"

definition ValidateMimeType :: "upload_limits \<Rightarrow> string \<Rightarrow> string \<Rightarrow> unit result" where
  "ValidateMimeType u pk mime =
     (if \<not> ul_enabled u then Inr ()
      else let tc = limits_of u pk in
        if tl_prefixes tc = [] then Inr ()
        else if \<exists>p \<in> set (tl_prefixes tc). take (length p) mime = p then Inr ()
        else Inl ErrUploadMimeTypeNotAllowed)"

definition ValidateFileSize :: "upload_limits \<Rightarrow> string \<Rightarrow> int \<Rightarrow> unit result" where
  "ValidateFileSize u pk n =
     (if \<not> ul_enabled u then Inr ()
      else let tc = limits_of u pk in
        if tl_max_bytes tc = 0 then Inr ()
        else if n > tl_max_bytes tc then Inl ErrUploadFileTooLarge else Inr ())"

definition dailyUploadWindow :: int where
  "dailyUploadWindow = 24 * hour"

definition dailyUploadKey :: "string \<Rightarrow> string" where
  "dailyUploadKey pk = ''upload_day:'' @ pk"

definition limiter_AllowN :: "string \<Rightarrow> int \<Rightarrow> int \<Rightarrow> int \<Rightarrow> decision prog" where
  "limiter_AllowN key n limit window =
     State (\<lambda>w. let (r, l) = AllowN mem_incr (w_now w) key n limit window (w_lim w)
                in (r, w\<lparr>w_lim := l\<rparr>))"

definition checkDailyRoom :: "upload_limits \<Rightarrow> string \<Rightarrow> unit result prog" where
  "checkDailyRoom u pk =
     (let tc = limits_of u pk in
      if tl_per_day tc = 0 then ret (Inr ())
      else do {
        r \<leftarrow> limiter_AllowN (dailyUploadKey pk) 0 (tl_per_day tc) dailyUploadWindow;
        ret (case r of (_, remaining, _) \<Rightarrow>
               if remaining \<le> 0 then Inl ErrDailyUploadLimitReached else Inr ())
      })"

definition CheckUpload :: "upload_limits \<Rightarrow> string \<Rightarrow> string \<Rightarrow> int \<Rightarrow> unit result prog" where
  "CheckUpload u pk mime n =
     (if \<not> ul_enabled u then ret (Inr ())
      else case ValidateMimeType u pk mime of
             Inl e \<Rightarrow> ret (Inl e)
           | Inr _ \<Rightarrow> (case ValidateFileSize u pk n of
                         Inl e \<Rightarrow> ret (Inl e)
                       | Inr _ \<Rightarrow> checkDailyRoom u pk))"

definition RecordUpload :: "upload_limits \<Rightarrow> string \<Rightarrow> unit prog" where
  "RecordUpload u pk =
     (if \<not> ul_enabled u then ret ()
      else if tl_per_day (limits_of u pk) > 0
      then do { _ \<leftarrow> limiter_AllowN (dailyUploadKey pk) 1 (tl_per_day (limits_of u pk)) dailyUploadWindow; ret () }
      else ret ())"

section \<open>The daily counter\<close>

definition daily_count :: "string \<Rightarrow> world \<Rightarrow> int" where
  "daily_count pk w =
     (let W = Truncate (w_now w) dailyUploadWindow in
      case lm_cache (w_lim w) of
        None \<Rightarrow> lb_count (current_bucket (dailyUploadKey pk) W (w_lim w))
      | Some c \<Rightarrow> counter_val (w_now w) (rl_key ''rl:'' (dailyUploadKey pk) W) c)"

definition limiter_ok :: "world \<Rightarrow> bool" where
  "limiter_ok w \<longleftrightarrow> (case lm_cache (w_lim w) of None \<Rightarrow> True | Some c \<Rightarrow> cache_inv c)"

lemma dailyUploadWindow_pos: "0 < dailyUploadWindow"
  by (simp add: dailyUploadWindow_def hour_def minute_def second_def)

text \<open>One call of the limiter: what remains, and the count after it (a local bucket does not count a refused
  request, a counter does).\<close>

lemma keeps_limiter [keeps_rule]: "keeps (on_db J) (limiter_AllowN key k l win)"
  by (rule keepsI, simp add: limiter_AllowN_def wp_simp on_db_def split: prod.split)

lemma limiter_AllowN_daily:
  assumes "limiter_ok w" "0 \<le> daily_count pk w" "daily_count pk w < 2 ^ 62" "n = 0 \<or> n = 1" "0 < limit" "limit < 2 ^ 62"
  shows "wp (limiter_AllowN (dailyUploadKey pk) n limit dailyUploadWindow)
    (\<lambda>(_, remaining, _) w'. limiter_ok w' \<and> w_now w' = w_now w \<and> w_db w' = w_db w
       \<and> (remaining \<le> 0 \<longleftrightarrow> limit \<le> daily_count pk w + (if daily_count pk w + n \<le> limit then n else 0))
       \<and> (daily_count pk w + n \<le> limit \<or> n = 0 \<longrightarrow> daily_count pk w' = daily_count pk w + n)) w"
proof -
  let ?W = "Truncate (w_now w) dailyUploadWindow" and ?v = "daily_count pk w"
  have i: "in_i64 (?v + n)" using assms by (auto simp: in_i64_def)
  show ?thesis
  proof (cases "lm_cache (w_lim w)")
    case None
    let ?k = "dailyUploadKey pk"
    have v: "?v = lb_count (current_bucket ?k ?W (w_lim w))"
      using None by (simp add: daily_count_def Let_def)
    have i2: "in_i64 (limit - ?v)" "in_i64 (limit - (?v + n))" using assms by (auto simp: in_i64_def)
    show ?thesis
      using None v i i2 assms(4)
      by (auto simp: limiter_AllowN_def wp_simp AllowN_def allowLocal_def Let_def limiter_ok_def daily_count_def
          current_bucket_def [of _ _ "lm_local_update _ _"])
        (auto simp: current_bucket_def split: option.splits if_splits)
  next
    case (Some c)
    let ?k = "rl_key ''rl:'' (dailyUploadKey pk) ?W"
    have c: "cache_inv c" and v: "?v = counter_val (w_now w) ?k c"
      using Some assms(1) by (simp_all add: daily_count_def limiter_ok_def Let_def)
    have ttl: "0 < dailyUploadWindow + second"
      using dailyUploadWindow_pos by (simp add: second_def)
    let ?r = "mem_incr (w_now w) ?k n (dailyUploadWindow + second) c"
    have r: "fst ?r = Inr (?v + n)" "counter_val (w_now w) ?k (snd ?r) = ?v + n" "cache_inv (snd ?r)"
      using mem.incr_result [OF c, of "w_now w" ?k n "dailyUploadWindow + second"]
        mem.incr_val [OF c ttl, of "w_now w" ?k n] mem.incr_ok [OF c] i v by auto
    have i2: "in_i64 (limit - (?v + n))" using assms by (auto simp: in_i64_def)
    show ?thesis
      using Some r i2 assms(4)
      by (cases ?r) (auto simp: limiter_AllowN_def wp_simp AllowN_def allowWithCounter_def Let_def limiter_ok_def
          daily_count_def)
  qed
qed

text \<open>A checked and then recorded upload, as the upload path does them around the save.\<close>

definition counted_upload :: "upload_limits \<Rightarrow> string \<Rightarrow> unit result prog" where
  "counted_upload u pk = do {
     r \<leftarrow> checkDailyRoom u pk;
     case r of
       Inl e \<Rightarrow> ret (Inl e)
     | Inr _ \<Rightarrow> do { _ \<leftarrow> RecordUpload u pk; ret (Inr ()) }
   }"

text \<open>The daily limit of a tier, on the in-process counter and on the local fallback: an upload passes the check
  exactly while fewer than the allowed number were recorded in the day, the check itself counts nothing,
  and a recorded upload counts one.\<close>

theorem daily_limit:
  assumes "ul_enabled u" "0 < tl_per_day (limits_of u pk)" "tl_per_day (limits_of u pk) < 2 ^ 62"
    and "limiter_ok w" "0 \<le> daily_count pk w" "daily_count pk w < 2 ^ 62"
    and "run_state (counted_upload u pk) w = (r, w')"
  shows "(r = Inr () \<longleftrightarrow> daily_count pk w < tl_per_day (limits_of u pk))
    \<and> daily_count pk w' = daily_count pk w + (if r = Inr () then 1 else 0) \<and> w_db w' = w_db w"
proof -
  let ?limit = "tl_per_day (limits_of u pk)" and ?v = "daily_count pk w"
  have rec: "wp (limiter_AllowN (dailyUploadKey pk) 1 ?limit dailyUploadWindow)
      (\<lambda>x w2. daily_count pk w2 = ?v + 1 \<and> w_db w2 = w_db w) w1"
    if "limiter_ok w1" "daily_count pk w1 = ?v" "w_db w1 = w_db w" "?v < ?limit" for w1
    by (rule wp_mono [OF limiter_AllowN_daily [where n = 1 and limit = ?limit and pk = pk]])
      (use that assms in auto)
  have "wp (counted_upload u pk) (\<lambda>r w'. (r = Inr () \<longleftrightarrow> ?v < ?limit)
      \<and> daily_count pk w' = ?v + (if r = Inr () then 1 else 0) \<and> w_db w' = w_db w) w"
    unfolding counted_upload_def wp_bind checkDailyRoom_def Let_def
  proof (subst if_not_P)
    show "?limit \<noteq> 0" using assms(2) by simp
    show "wp (do { r \<leftarrow> limiter_AllowN (dailyUploadKey pk) 0 ?limit dailyUploadWindow;
        ret (case r of (_, remaining, _) \<Rightarrow> if remaining \<le> 0 then Inl ErrDailyUploadLimitReached else Inr ()) })
      (\<lambda>x. wp (case x of Inl e \<Rightarrow> ret (Inl e) | Inr _ \<Rightarrow> do { _ \<leftarrow> RecordUpload u pk; ret (Inr ()) })
        (\<lambda>r w'. (r = Inr () \<longleftrightarrow> ?v < ?limit)
          \<and> daily_count pk w' = ?v + (if r = Inr () then 1 else 0) \<and> w_db w' = w_db w)) w"
      unfolding wp_bind
    proof (rule wp_mono [OF limiter_AllowN_daily [where n = 0 and limit = ?limit and pk = pk]], goal_cases)
      case (7 x w1)
      then show ?case
        using assms(1,2,6) by (auto simp: wp_simp RecordUpload_def intro!: wp_mono [OF rec])
    qed (use assms in simp_all)
  qed
  from wp_run [OF this assms(7)] show ?thesis by simp
qed

definition one_a_day :: upload_limits where
  "one_a_day = (let t = \<lparr>tl_max_bytes = 0, tl_prefixes = [], tl_per_day = 1\<rparr>
                in \<lparr>ul_enabled = True, ul_anonymous = t, ul_named = t, ul_paid = t, ul_client = None\<rparr>)"

theorem daily_limit_witness:
  "fst (run_state (counted_upload one_a_day ''pk'') (start_world empty_db)) = Inr ()
     \<and> daily_count ''pk'' (snd (run_state (counted_upload one_a_day ''pk'') (start_world empty_db))) = 1"
proof -
  have "daily_count ''pk'' (start_world empty_db) = 0" "limiter_ok (start_world empty_db)"
    by (simp_all add: daily_count_def limiter_ok_def NewRateLimiter_def current_bucket_def Let_def)
  with daily_limit [OF _ _ _ _ _ _ run_pair, of one_a_day "''pk''" "start_world empty_db"] show ?thesis
    by (simp add: one_a_day_def limits_of_def tierConfig_def getTier_def Let_def)
qed

end
