(* ===== verification/QuotaRules.thy ===== *)
theory QuotaRules
  imports Accounts
begin

text \<open>
  What the quota check decides, how it composes with the charge, and what a recalculation sets the account
  to.
\<close>

section \<open>The check\<close>

definition quota_of :: "quota_service \<Rightarrow> string \<Rightarrow> dbstate \<Rightarrow> int" where
  "quota_of q pk d = (case user_of pk d of None \<Rightarrow> qs_default q | Some u \<Rightarrow> u_quota u)"

definition banned :: "string \<Rightarrow> dbstate \<Rightarrow> bool" where
  "banned pk d = (case user_of pk d of None \<Rightarrow> False | Some u \<Rightarrow> u_banned u)"

lemma q_GetOrCreateUser_row:
  assumes "q_GetOrCreateUser pk (qs_default q) t t' d = (r, d')"
  shows "\<exists>u. r = Inr u \<and> u_used u = balance pk d \<and> u_quota u = quota_of q pk d \<and> u_banned u = banned pk d
    \<and> t_removed d' = t_removed d \<and> quota_of q pk d' = quota_of q pk d"
proof (cases "user_of pk d")
  case None
  let ?u = "new_user pk (qs_default q) t t'"
  have f: "find (\<lambda>u. u_pubkey u = pk) (us @ [?u]) = Some ?u" if "find (\<lambda>u. u_pubkey u = pk) us = None" for us
    using that by (induction us) (auto simp: new_user_def split: if_splits)
  have q: "u_quota ?u = qs_default q" by (simp add: new_user_def)
  show ?thesis
    using None assms f [of "t_users d"]
    by (auto simp: q_GetOrCreateUser_def Let_def balance_def quota_of_def banned_def user_of_def q)
      (simp_all add: new_user_def)
next
  case (Some u)
  then show ?thesis
    using assms user_of_Some [OF Some]
    by (auto simp: q_GetOrCreateUser_def balance_def quota_of_def banned_def user_of_def update_user_def find_update_user)
qed

text \<open>A call that leaves owners, accounts, objects and removed hashes alone.\<close>

definition calm :: "world \<Rightarrow> world \<Rightarrow> bool" where
  "calm w w' \<longleftrightarrow> owned (w_db w') = owned (w_db w) \<and> (\<forall>pk. balance pk (w_db w') = balance pk (w_db w))
     \<and> (db_inv (w_db w) \<longrightarrow> db_inv (w_db w')) \<and> w_saved w' = w_saved w \<and> w_objects w' = w_objects w
     \<and> t_removed (w_db w') = t_removed (w_db w)"

lemma calm_refl [simp]: "calm w w" "calm w (w\<lparr>w_faults := fs\<rparr>)" "calm w (w\<lparr>w_lim := l\<rparr>)"
  by (simp_all add: calm_def)

lemma calm_trans: "calm w w1 \<Longrightarrow> calm w1 w2 \<Longrightarrow> calm w w2"
  by (simp add: calm_def)

lemma calm_reads: "reads_only w w' \<Longrightarrow> calm w w'"
  by (simp add: calm_def reads_only_def)

lemma keeps_quiet_quota [keeps_rule]:
  "keeps quiet (CheckQuota q pk n)" "keeps quiet (IncrementUsage q pk n)" "keeps quiet (DecrementUsage pk n)"
  "keeps quiet (RecalculateUsage pk)"
  unfolding CheckQuota_def IncrementUsage_def DecrementUsage_def GetOrCreateUser_def RecalculateUsage_def
  by (intro keeps_rule)+

lemma CheckQuota_spec:
  assumes "db_inv (w_db w)"
  shows "wp (CheckQuota q pk n) (\<lambda>r w'. calm w w' \<and> quota_of q pk (w_db w') = quota_of q pk (w_db w) \<and>
    (r = Inr () \<longrightarrow> qs_enabled q \<longrightarrow> \<not> banned pk (w_db w) \<and> i64 (balance pk (w_db w) + n) \<le> quota_of q pk (w_db w))) w"
proof -
  let ?t = "Unix (w_now w)"
  have e: "\<exists>u. r = Inr u \<and> db_inv d' \<and> owned d' = owned (w_db w) \<and> (\<forall>pk'. balance pk' d' = balance pk' (w_db w))
      \<and> u_used u = balance pk (w_db w) \<and> u_quota u = quota_of q pk (w_db w) \<and> u_banned u = banned pk (w_db w)
      \<and> t_removed d' = t_removed (w_db w) \<and> quota_of q pk d' = quota_of q pk (w_db w)"
    if "q_GetOrCreateUser pk (qs_default q) ?t ?t (w_db w) = (r, d')" for r d'
    using q_GetOrCreateUser_effect [OF assms, of pk "qs_default q" ?t ?t] q_GetOrCreateUser_row [OF that] that by auto
  show ?thesis
    unfolding CheckQuota_def GetOrCreateUser_def
    by (auto simp: wp_simp calm_def dbUserToCoreUser_def dest!: e intro!: wp_exec split: if_splits)
qed

lemma CheckQuota_quiet:
  assumes "quiet w" "db_inv (w_db w)"
  shows "wp (CheckQuota q pk n) (\<lambda>r w'. r = (if \<not> qs_enabled q then Inr () else if banned pk (w_db w) then Inl ErrUserBanned
     else if i64 (balance pk (w_db w) + n) > quota_of q pk (w_db w) then Inl ErrQuotaExceeded else Inr ())) w"
proof -
  let ?t = "Unix (w_now w)"
  obtain r d' where p: "q_GetOrCreateUser pk (qs_default q) ?t ?t (w_db w) = (r, d')"
    by (cases "q_GetOrCreateUser pk (qs_default q) ?t ?t (w_db w)")
  show ?thesis
    using assms(1) q_GetOrCreateUser_row [OF p]
    by (auto simp: CheckQuota_def GetOrCreateUser_def wp_simp no_fault quiet_def p dbUserToCoreUser_def)
qed

text \<open>The quota check, when no call fails: it refuses banned keys and otherwise compares the 64-bit sum of what is
  used and what is asked for with the key's quota (the default for a key never seen).\<close>

theorem quota_check_exact:
  assumes "quiet w" "db_inv (w_db w)"
  shows "fst (run_state (CheckQuota q pk n) w) = (if \<not> qs_enabled q then Inr () else if banned pk (w_db w) then Inl ErrUserBanned
     else if i64 (balance pk (w_db w) + n) > quota_of q pk (w_db w) then Inl ErrQuotaExceeded else Inr ())"
  using CheckQuota_quiet [OF assms, of q pk n] by (auto simp: wp_def split: prod.splits)

theorem quota_check_exact_witness:
  "fst (run_state (CheckQuota (NewQuotaService True 0 0) ''a'' 99) (start_world accounts_db)) = Inl ErrQuotaExceeded"
  by (subst quota_check_exact)
    (use balanced_examples(1) in \<open>simp_all add: balanced_def NewQuotaService_def banned_def quota_of_def user_of_def
       accounts_db_def account_def new_user_def balance_def in_i64_def\<close>)

section \<open>Check and charge\<close>

definition checked_charge :: "quota_service \<Rightarrow> string \<Rightarrow> int \<Rightarrow> unit result prog" where
  "checked_charge q pk n = and_then (CheckQuota q pk n) (\<lambda>_. IncrementUsage q pk n)"

text \<open>Check and charge together keep a key within its quota: if the sum of the account and the amount fits in 64
  bits, then after a passed check and the charge the account is at most the quota.\<close>

theorem charge_within_quota:
  assumes "quiet w" "db_inv (w_db w)" "qs_enabled q" "in_i64 (balance pk (w_db w) + n)"
    and "run_state (checked_charge q pk n) w = (r, w')"
  shows "if \<not> banned pk (w_db w) \<and> balance pk (w_db w) + n \<le> quota_of q pk (w_db w)
    then r = Inr () \<and> balance pk (w_db w') = balance pk (w_db w) + n \<and> balance pk (w_db w') \<le> quota_of q pk (w_db w)
    else r \<noteq> Inr () \<and> balance pk (w_db w') = balance pk (w_db w)"
proof -
  have inc: "wp (IncrementUsage q pk n) (\<lambda>r w'. r = Inr () \<and> balance pk (w_db w') = balance pk (w_db w) + n) w1"
    if w1: "quiet w1" "calm w w1" for w1
  proof -
    have c: "db_inv (w_db w1)" "in_i64 (balance pk (w_db w1) + n)" "balance pk (w_db w1) = balance pk (w_db w)"
      using w1(2) assms(2,4) by (simp_all add: calm_def)
    show ?thesis
      by (rule wp_mono [OF IncrementUsage_law [OF w1(1) c(1,2)]]) (simp add: c(3))
  qed
  let ?G = "\<not> banned pk (w_db w) \<and> balance pk (w_db w) + n \<le> quota_of q pk (w_db w)"
  have chk: "wp (CheckQuota q pk n) (\<lambda>r w'. quiet w' \<and> calm w w' \<and> (r = Inr () \<longleftrightarrow> ?G)) w"
  proof (rule wp_mono [OF quiet_conj [OF assms(1) keeps_quiet_quota(1) wp_conj [OF CheckQuota_quiet [OF assms(1,2), of q pk n]
          CheckQuota_spec [OF assms(2), of q pk n]]]], elim conjE, intro conjI)
    fix r :: "unit result"
    assume "r = (if \<not> qs_enabled q then Inr () else if banned pk (w_db w) then Inl ErrUserBanned
      else if i64 (balance pk (w_db w) + n) > quota_of q pk (w_db w) then Inl ErrQuotaExceeded else Inr ())"
    then show "r = Inr () \<longleftrightarrow> ?G" using assms(3,4) by auto
  qed
  show ?thesis
  proof (cases ?G)
    case True
    have "wp (checked_charge q pk n) (\<lambda>r w'. r = Inr () \<and> balance pk (w_db w') = balance pk (w_db w) + n) w"
      unfolding checked_charge_def wp_and_then
      by (rule wp_mono [OF chk]) (use True inc in auto)
    from wp_run [OF this assms(5)] True show ?thesis by simp
  next
    case False
    have "wp (checked_charge q pk n) (\<lambda>r w'. r \<noteq> Inr () \<and> balance pk (w_db w') = balance pk (w_db w)) w"
      unfolding checked_charge_def wp_and_then
      by (rule wp_mono [OF chk]) (use False in \<open>auto simp: calm_def split: sum.split\<close>)
    from wp_run [OF this assms(5)] show ?thesis unfolding if_not_P [OF False] .
  qed
qed

theorem charge_within_quota_witness:
  "balance ''a'' (w_db (snd (run_state (checked_charge (NewQuotaService True 0 0) ''a'' 5) (start_world accounts_db)))) = 7"
proof -
  have h: "quiet (start_world accounts_db)" "db_inv (w_db (start_world accounts_db))" "qs_enabled (NewQuotaService True 0 0)"
    "in_i64 (balance ''a'' (w_db (start_world accounts_db)) + 5)"
    using balanced_examples(1) by (simp_all add: balanced_def NewQuotaService_def in_i64_def)
  have "\<not> banned ''a'' accounts_db" "quota_of (NewQuotaService True 0 0) ''a'' accounts_db = 100"
    by (simp_all add: banned_def quota_of_def user_of_def accounts_db_def account_def new_user_def)
  with charge_within_quota [OF h run_pair] show ?thesis by simp
qed

text \<open>When the sum does not fit in 64 bits it wraps to a negative number, and the check passes whatever the quota.\<close>

theorem quota_check_overflow:
  assumes "quiet w" "db_inv (w_db w)" "\<not> banned pk (w_db w)" "0 \<le> quota_of q pk (w_db w)"
    and "0 \<le> balance pk (w_db w)" "balance pk (w_db w) < 2 ^ 63" "0 \<le> n" "n < 2 ^ 63"
    and "2 ^ 63 \<le> balance pk (w_db w) + n"
  shows "fst (run_state (CheckQuota q pk n) w) = Inr ()"
proof -
  have "i64 (balance pk (w_db w) + n) = balance pk (w_db w) + n - 2 ^ 64"
    using assms(5-9) by (intro i64_wrap) simp_all
  then have "i64 (balance pk (w_db w) + n) < 0" using assms(5-9) by simp
  then show ?thesis
    using CheckQuota_quiet [OF assms(1,2), of q pk n] assms(3,4) by (auto simp: wp_def split: prod.splits if_splits)
qed

theorem quota_check_overflow_witness:
  "fst (run_state (CheckQuota (NewQuotaService True 0 0) ''a'' (2 ^ 63 - 1)) (start_world accounts_db)) = Inr ()"
  by (rule quota_check_overflow)
    (use balanced_examples(1) in \<open>simp_all add: balanced_def banned_def quota_of_def user_of_def
       accounts_db_def account_def new_user_def balance_def\<close>)

section \<open>Recalculation\<close>

definition stored_at :: "string \<Rightarrow> owner_map \<Rightarrow> int" where
  "stored_at h m = (case m h of None \<Rightarrow> 0 | Some (b, _) \<Rightarrow> b_size b)"

definition stored_usage :: "string \<Rightarrow> owner_map \<Rightarrow> int" where
  "stored_usage pk m = (\<Sum>h | owns pk h m. stored_at h m)"

lemma sum_join_refs:
  assumes "db_keys d"
  shows "sum_list (map b_size (join_refs pk d)) = stored_usage pk (owned d)"
proof -
  let ?bs = "join_refs pk d"
  have dist: "distinct ?bs" "inj_on b_hash (set ?bs)"
    using distinct_join_refs [OF assms, of pk] by (simp_all add: distinct_map)
  have owned: "owns pk h (owned d) \<longleftrightarrow> h \<in> b_hash ` set ?bs" for h
  proof
    assume o: "owns pk h (owned d)"
    then have "owner_set h d \<noteq> {}" using owns_owned [OF assms, of pk h] by auto
    then obtain b where "b \<in> set (t_blobs d)" "b_hash b = h" using no_blob_no_owner [OF assms, of h] by blast
    then show "h \<in> b_hash ` set ?bs" using o owns_owned [OF assms, of pk h] by (auto simp: mem_join_refs image_iff)
  qed (use owns_owned [OF assms, of pk h] in \<open>auto simp: mem_join_refs\<close>)
  have "stored_at (b_hash b) (owned d) = b_size b" if "b \<in> set ?bs" for b
    using blob_of_mem [OF assms, of b] that by (simp add: mem_join_refs stored_at_def owned_def)
  then have "(\<Sum>b \<in> set ?bs. b_size b) = (\<Sum>b \<in> set ?bs. stored_at (b_hash b) (owned d))" by simp
  also have "\<dots> = stored_usage pk (owned d)"
    unfolding stored_usage_def owned by (simp add: sum.reindex [OF dist(2)])
  finally show ?thesis using dist(1) by (simp add: sum_list_distinct_conv_sum_set)
qed

text \<open>A recalculation sets the account of a known key to the sum of the sizes stored for the blobs it owns, and
  changes no other account. For blobs the server encrypted this is not what the key was charged: uploads
  charge the size of the plaintext, so the recalculated account is larger.\<close>

theorem recalculation_sums_stored_sizes:
  assumes "quiet w" "db_inv (w_db w)" "user_of pk (w_db w) \<noteq> None" "in_i64 (stored_usage pk (owned (w_db w)))"
    and "run_state (RecalculateUsage pk) w = (r, w')"
  shows "r = Inr () \<and> owned (w_db w') = owned (w_db w) \<and> balance pk (w_db w') = stored_usage pk (owned (w_db w))
    \<and> (\<forall>pk'. pk' \<noteq> pk \<longrightarrow> balance pk' (w_db w') = balance pk' (w_db w))"
proof -
  let ?f = "\<lambda>u. u\<lparr>u_used := stored_usage pk (owned (w_db w)), u_updated := Unix (w_now w)\<rparr>"
  have k: "db_keys (w_db w)" using assms(2) by (simp add: db_inv_def)
  have q: "q_RecalculateUserUsage (Unix (w_now w)) pk (w_db w) = (Inr (), update_user pk ?f (w_db w))"
    using assms(4) by (simp add: q_RecalculateUserUsage_def sum_join_refs [OF k])
  have b: "balance pk' (update_user pk ?f (w_db w))
      = (case user_of pk' (w_db w) of None \<Rightarrow> 0 | Some u \<Rightarrow> if pk' = pk then u_used (?f u) else u_used u)" for pk'
    by (rule balance_update_user) simp
  have "balance pk' (update_user pk ?f (w_db w)) = (if pk' = pk then stored_usage pk (owned (w_db w)) else balance pk' (w_db w))" for pk'
    using assms(3) by (subst b) (auto simp: balance_def split: option.splits)
  then have "wp (RecalculateUsage pk) (\<lambda>r w'. r = Inr () \<and> owned (w_db w') = owned (w_db w)
      \<and> balance pk (w_db w') = stored_usage pk (owned (w_db w))
      \<and> (\<forall>pk'. pk' \<noteq> pk \<longrightarrow> balance pk' (w_db w') = balance pk' (w_db w))) w"
    using assms(1) by (simp add: RecalculateUsage_def wp_simp no_fault quiet_def q)
  from wp_run [OF this assms(5)] show ?thesis .
qed

lemma stored_usage_single: "stored_usage pk [h \<mapsto> (b, S)] = (if pk \<in> S then b_size b else 0)"
proof -
  have "{h'. owns pk h' [h \<mapsto> (b, S)]} = (if pk \<in> S then {h} else {})"
    by (auto simp: owns_def split: if_splits)
  then show ?thesis by (simp add: stored_usage_def stored_at_def)
qed

theorem recalculation_sums_stored_sizes_witness:
  "balance ''b'' (w_db (snd (run_state (RecalculateUsage ''b'') (start_world accounts_db)))) = 2"
proof -
  have h: "quiet (start_world accounts_db)" "db_inv (w_db (start_world accounts_db))"
    "user_of ''b'' (w_db (start_world accounts_db)) \<noteq> None"
    "in_i64 (stored_usage ''b'' (owned (w_db (start_world accounts_db))))"
    using balanced_examples(1)
    by (simp_all add: balanced_def user_of_def accounts_db_def account_def new_user_def stored_usage_single in_i64_def
        sample_owned sample_blob_def)
  from recalculation_sums_stored_sizes [OF h run_pair] show ?thesis
    by (simp add: stored_usage_single) (simp add: sample_blob_def)
qed

end
