(* ===== verification/Upload.thy ===== *)
theory Upload
  imports Moderation Policy QuotaRules
begin

text \<open>
  The operations behind the Blossom endpoints: upload (\<^verbatim>\<open>src/bud-02/upload.go\<close>), delete by an owner and by
  an operator (\<^verbatim>\<open>delete.go\<close>, \<^verbatim>\<open>admin_delete.go\<close>), list, mirror (\<^verbatim>\<open>src/bud-04\<close>), get and describe
  (\<^verbatim>\<open>src/bud-01\<close>) and the upload requirements (\<^verbatim>\<open>src/bud-06\<close>). They compose the blob service, the
  quota accounts, the upload policy and the list of removed hashes. SHA-256 and the HTTP client that
  fetches a mirror source are parameters.
\<close>

section \<open>Operations\<close>

record services =
  sv_blobs :: blob_service
  sv_acr :: acr_service
  sv_mime :: mime_service
  sv_max :: int
  sv_quota :: quota_service
  sv_limits :: upload_limits
  sv_media :: media
  sv_hash :: "bytes \<Rightarrow> string"
  sv_moderation :: bool
  sv_cdn :: string

definition policy_check :: "services \<Rightarrow> string \<Rightarrow> bytes \<Rightarrow> string \<Rightarrow> unit result prog" where
  "policy_check c pk blob stored =
     (if ul_enabled (sv_limits c) then do {
        r \<leftarrow> CheckUpload (sv_limits c) pk stored (int (length blob));
        ret (case r of
               Inl e \<Rightarrow> if errors_is e ErrUploadMimeTypeNotAllowed then Inl (Msg ''mime type not allowed for your tier'')
                        else Inl (Wrap ''upload limits'' e)
             | Inr _ \<Rightarrow> Inr ())
      }
      else ret (case mime_IsAllowed (sv_mime c) (md_detect (sv_media c) blob) of
                  Inl _ \<Rightarrow> Inl (Msg ''mime type not allowed'')
                | Inr _ \<Rightarrow> (case ValidateFileSizeMaxBytes (sv_max c) (int (length blob)) of
                              Inl e \<Rightarrow> Inl (Wrap ''file size'' e)
                            | Inr _ \<Rightarrow> Inr ())))"

text \<open>The hash is refused only if the lookup says so; a failed lookup is ignored.\<close>

definition removed_check :: "services \<Rightarrow> string \<Rightarrow> unit result prog" where
  "removed_check c h =
     (if \<not> sv_moderation c then ret (Inr ())
      else do {
        r \<leftarrow> IsHashRemoved h;
        ret (case r of Inr True \<Rightarrow> Inl ErrHashRemoved | _ \<Rightarrow> Inr ())
      })"

definition store_upload ::
  "services \<Rightarrow> string \<Rightarrow> string \<Rightarrow> string \<Rightarrow> bytes \<Rightarrow> string \<Rightarrow> blob_desc result prog" where
  "store_upload c pk h stored blob mode = do {
     t \<leftarrow> now;
     and_then
       (wrap ''save blob'' (SaveWithDedup (sv_blobs c) pk h (sv_cdn c @ ''/'' @ h) (int (length blob)) stored blob (Unix t) mode))
       (\<lambda>(desc, newReference). do {
          _ \<leftarrow> RecordUpload (sv_limits c) pk;
          _ \<leftarrow> (if newReference then IncrementUsage (sv_quota c) pk (d_size desc) else ret (Inr ()));
          ret (Inr desc)
        })
   }"

definition UploadBlob ::
  "services \<Rightarrow> string \<Rightarrow> string \<Rightarrow> bytes \<Rightarrow> string \<Rightarrow> string \<Rightarrow> blob_desc result prog" where
  "UploadBlob c authHash pk blob mode declared =
     and_then (ret (acr_Validate (sv_acr c) pk ''UPLOAD'')) (\<lambda>_.
     let stored = Resolve (sv_media c) blob declared in
     and_then (policy_check c pk blob stored) (\<lambda>_.
     and_then (wrap ''quota check'' (CheckQuota (sv_quota c) pk (int (length blob)))) (\<lambda>_.
     let h = sv_hash c blob in
     if h \<noteq> authHash then ret (Inl (Msg ''blob hash doesn't match auth event 'x' tag''))
     else and_then (removed_check c h) (\<lambda>_. store_upload c pk h stored blob mode))))"

definition UploadRequirements :: "services \<Rightarrow> string \<Rightarrow> string \<Rightarrow> int \<Rightarrow> unit result" where
  "UploadRequirements c pk contentType contentLength =
     (case acr_Validate (sv_acr c) pk ''UPLOAD'' of
        Inl e \<Rightarrow> Inl e
      | Inr _ \<Rightarrow> (case mime_IsAllowed (sv_mime c) contentType of
                    Inl e \<Rightarrow> Inl e
                  | Inr _ \<Rightarrow> (case ValidateFileSizeMaxBytes (sv_max c) contentLength of
                                Inl e \<Rightarrow> Inl e
                              | Inr _ \<Rightarrow> Inr ())))"

text \<open>The source of a mirror: \<open>fetch\<close> is what the HTTP client returns for the URL, status and body, or nothing.\<close>

record source_url =
  su_scheme :: string
  su_rest :: string

type_synonym fetcher = "source_url \<Rightarrow> (int \<times> bytes) option"

definition fetchSource :: "fetcher \<Rightarrow> source_url \<Rightarrow> int \<Rightarrow> bytes result" where
  "fetchSource fetch url maxBytes =
     (if su_scheme url \<noteq> ''http'' \<and> su_scheme url \<noteq> ''https'' then Inl ErrSourceFetch
      else case fetch url of
             None \<Rightarrow> Inl ErrSourceFetch
           | Some (status, body) \<Rightarrow>
               if status < 200 \<or> status \<ge> 300 then Inl ErrSourceFetch
               else Inr (take (nat (max maxBytes 0 + 1)) body))"

definition MirrorBlob ::
  "services \<Rightarrow> fetcher \<Rightarrow> string \<Rightarrow> string \<Rightarrow> source_url \<Rightarrow> string \<Rightarrow> blob_desc result prog" where
  "MirrorBlob c fetch pk authHash url mode =
     and_then (ret (acr_Validate (sv_acr c) pk ''UPLOAD'')) (\<lambda>_.
     and_then (wrap ''quota check'' (CheckQuota (sv_quota c) pk 1)) (\<lambda>_. do {
       g \<leftarrow> GetFromHash (sv_blobs c) authHash;
       and_then
         (ret (case g of
                 Inr blob \<Rightarrow> if length (d_blob blob) > 0 \<or> d_size blob = 0 then Inr (d_blob blob)
                              else fetchSource fetch url (sv_max c)
               | Inl _ \<Rightarrow> fetchSource fetch url (sv_max c)))
         (\<lambda>blobBytes. UploadBlob c authHash pk blobBytes mode [])
     }))"

definition DeleteBlob :: "services \<Rightarrow> string \<Rightarrow> string \<Rightarrow> string \<Rightarrow> unit result prog" where
  "DeleteBlob c pk h authHash = do {
     g \<leftarrow> GetFromHash (sv_blobs c) h;
     case g of
       Inl _ \<Rightarrow> ret (Inl ErrBlobNotFound)
     | Inr blob \<Rightarrow>
         if h \<noteq> authHash then ret (Inl (Msg ''unauthorized''))
         else and_then (HasReference pk h) (\<lambda>hasRef.
           if \<not> hasRef then ret (Inl (Msg ''unauthorized''))
           else do {
             r \<leftarrow> DeleteReference (sv_blobs c) pk h;
             case r of
               Inl e \<Rightarrow> ret (Inl (if errors_is e ErrReferenceNotFound then ErrBlobNotFound else e))
             | Inr _ \<Rightarrow> do { _ \<leftarrow> DecrementUsage pk (d_size blob); ret (Inr ()) }
           })
   }"

definition ListBlobs :: "services \<Rightarrow> string \<Rightarrow> blob_desc list result prog" where
  "ListBlobs c pk = GetFromPubkey (sv_blobs c) pk"

definition GetBlob :: "services \<Rightarrow> string \<Rightarrow> blob_desc result prog" where
  "GetBlob c h = do {
     r \<leftarrow> GetFromHash (sv_blobs c) h;
     ret (case r of Inl _ \<Rightarrow> Inl ErrBlobNotFound | Inr x \<Rightarrow> Inr x)
   }"

definition GetBlobDescriptor :: "services \<Rightarrow> string \<Rightarrow> blob_desc result prog" where
  "GetBlobDescriptor c h = do {
     r \<leftarrow> GetDescriptor (sv_blobs c) h;
     ret (case r of Inl _ \<Rightarrow> Inl ErrBlobNotFound | Inr x \<Rightarrow> Inr x)
   }"

text \<open>The operator's delete. It returns a report, an error or both.\<close>

record admin_result =
  ar_hash :: string
  ar_size :: int
  ar_owners :: "string list"
  ar_removed :: "string list"
  ar_dry :: bool
  ar_deleted :: bool

fun admin_owners ::
  "services \<Rightarrow> string \<Rightarrow> int \<Rightarrow> string list \<Rightarrow> string list \<Rightarrow> (string list \<times> goerr option) prog" where
  "admin_owners c h sz [] removed = ret (removed, None)"
| "admin_owners c h sz (pk # pks) removed = do {
     has \<leftarrow> HasReference pk h;
     case has of
       Inl e \<Rightarrow> ret (removed, Some (Wrap ''check reference'' e))
     | Inr has \<Rightarrow>
         if \<not> has then admin_owners c h sz pks removed
         else do {
           r \<leftarrow> DeleteReference (sv_blobs c) pk h;
           case r of
             Inl e \<Rightarrow> if errors_is e ErrReferenceNotFound then admin_owners c h sz pks removed
                      else ret (removed, Some (Wrap ''delete reference'' e))
           | Inr _ \<Rightarrow> do {
               _ \<leftarrow> DecrementUsage pk sz;
               admin_owners c h sz pks (removed @ [pk])
             }
         }
   }"

definition admin_finish :: "services \<Rightarrow> string \<Rightarrow> admin_result \<Rightarrow> (admin_result option \<times> goerr option) prog" where
  "admin_finish c h res = do {
     o' \<leftarrow> ListReferenceOwners h;
     case o' of
       Inl e \<Rightarrow> ret (Some res, Some (Wrap ''recheck owners'' e))
     | Inr remaining \<Rightarrow>
         if length remaining > 0 then ret (Some res, None)
         else do {
           g \<leftarrow> GetDescriptor (sv_blobs c) h;
           case g of
             Inl e \<Rightarrow> if errors_is e ErrNoRows then ret (Some (res\<lparr>ar_deleted := True\<rparr>), None)
                      else ret (Some res, Some (Wrap ''recheck blob'' e))
           | Inr _ \<Rightarrow> do {
               d \<leftarrow> DeleteFromHash (sv_blobs c) h;
               ret (case d of
                      Inl e \<Rightarrow> (Some res, Some (Wrap ''delete blob'' e))
                    | Inr _ \<Rightarrow> (Some (res\<lparr>ar_deleted := True\<rparr>), None))
             }
         }
   }"

definition AdminDeleteBlob :: "services \<Rightarrow> string \<Rightarrow> bool \<Rightarrow> (admin_result option \<times> goerr option) prog" where
  "AdminDeleteBlob c h dryRun = do {
     g \<leftarrow> GetDescriptor (sv_blobs c) h;
     case g of
       Inl e \<Rightarrow> ret (None, Some (if errors_is e ErrNoRows then ErrBlobNotFound else Wrap ''get blob'' e))
     | Inr desc \<Rightarrow> do {
         o' \<leftarrow> ListReferenceOwners h;
         case o' of
           Inl e \<Rightarrow> ret (None, Some (Wrap ''list owners'' e))
         | Inr found \<Rightarrow>
             let res = \<lparr>ar_hash = h, ar_size = d_size desc, ar_owners = found, ar_removed = [],
                        ar_dry = dryRun, ar_deleted = False\<rparr>
             in if dryRun then ret (Some res, None)
                else do {
                  l \<leftarrow> admin_owners c h (d_size desc) found [];
                  case l of (removed, err) \<Rightarrow>
                    (case err of
                       Some e \<Rightarrow> ret (Some (res\<lparr>ar_removed := removed\<rparr>), Some e)
                     | None \<Rightarrow> admin_finish c h (res\<lparr>ar_removed := removed\<rparr>))
                }
       }
   }"

section \<open>The checks before an upload\<close>

text \<open>A step that leaves owners and accounts alone, and brings no failure to a world without.\<close>

definition step :: "world \<Rightarrow> world \<Rightarrow> bool" where
  "step w w' \<longleftrightarrow> calm w w' \<and> (quiet w \<longrightarrow> quiet w')"

lemma step_trans: "step w w1 \<Longrightarrow> step w1 w2 \<Longrightarrow> step w w2"
  by (auto simp: step_def intro: calm_trans)

lemma step_refl [simp]: "step w w"
  by (simp add: step_def)

lemma stepI: "keeps quiet m \<Longrightarrow> wp m (\<lambda>r w'. calm w w' \<and> Q r w') w \<Longrightarrow> wp m (\<lambda>r w'. step w w' \<and> Q r w') w"
  unfolding step_def
proof (cases "quiet w")
  case True
  assume k: "keeps quiet m" and c: "wp m (\<lambda>r w'. calm w w' \<and> Q r w') w"
  show "wp m (\<lambda>r w'. (calm w w' \<and> (quiet w \<longrightarrow> quiet w')) \<and> Q r w') w"
    by (rule wp_mono [OF wp_conj [OF keepsD [OF k True] c]]) simp
next
  case False
  assume c: "wp m (\<lambda>r w'. calm w w' \<and> Q r w') w"
  show "wp m (\<lambda>r w'. (calm w w' \<and> (quiet w \<longrightarrow> quiet w')) \<and> Q r w') w"
    by (rule wp_mono [OF c]) (use False in simp)
qed

lemma limiter_step: "wp (limiter_AllowN k n l win) (\<lambda>_. step w) w"
  by (simp add: limiter_AllowN_def wp_simp step_def quiet_def split: prod.split)

lemma CheckUpload_step: "wp (CheckUpload u pk m n) (\<lambda>_. step w) w"
  by (auto simp: CheckUpload_def checkDailyRoom_def Let_def wp_simp intro!: wp_mono [OF limiter_step] split: sum.split)

lemma RecordUpload_step: "wp (RecordUpload u pk) (\<lambda>_. step w) w"
  by (auto simp: RecordUpload_def wp_simp intro!: wp_mono [OF limiter_step])

lemma policy_check_step: "wp (policy_check c pk blob stored) (\<lambda>_. step w) w"
  by (auto simp: policy_check_def wp_simp intro!: wp_mono [OF CheckUpload_step])

definition is_removed :: "string \<Rightarrow> dbstate \<Rightarrow> bool" where
  "is_removed h d \<longleftrightarrow> h \<in> x_hash ` set (t_removed d)"

lemma q_IsHashRemoved_eq: "q_IsHashRemoved h d = (Inr (is_removed h d), d)"
  by (auto simp: q_IsHashRemoved_def is_removed_def)

lemma removed_check_step:
  "wp (removed_check c h) (\<lambda>r w'. step w w' \<and> (r = Inr () \<longrightarrow> quiet w \<longrightarrow> sv_moderation c \<longrightarrow> \<not> is_removed h (w_db w))) w"
proof (cases "quiet w")
  case True
  then show ?thesis
    by (auto simp: removed_check_def IsHashRemoved_def wp_simp no_fault quiet_def q_IsHashRemoved_eq step_def split: bool.split)
next
  case False
  then show ?thesis
    by (auto simp: removed_check_def IsHashRemoved_def wp_simp q_IsHashRemoved_eq step_def calm_def intro!: wp_exec)
qed

lemma CheckQuota_step:
  assumes "db_inv (w_db w)"
  shows "wp (CheckQuota q pk n) (\<lambda>r w'. step w w' \<and> (r = Inr () \<longrightarrow> qs_enabled q \<longrightarrow> \<not> banned pk (w_db w)
    \<and> i64 (balance pk (w_db w) + n) \<le> quota_of q pk (w_db w))) w"
  by (rule stepI [OF keeps_quiet_quota(1)], rule wp_mono [OF CheckQuota_spec [OF assms]]) auto

text \<open>What must hold of an upload that reaches the store: \<open>admitted c pk authHash blob w\<close>.\<close>

definition admitted :: "services \<Rightarrow> string \<Rightarrow> string \<Rightarrow> bytes \<Rightarrow> world \<Rightarrow> bool" where
  "admitted c pk authHash blob w \<longleftrightarrow> acr_Validate (sv_acr c) pk ''UPLOAD'' = Inr () \<and> sv_hash c blob = authHash
     \<and> (quiet w \<longrightarrow> sv_moderation c \<longrightarrow> \<not> is_removed authHash (w_db w))"

lemma UploadBlob_wp:
  assumes inv: "db_inv (w_db w)"
    and err: "\<And>e w1. step w w1 \<Longrightarrow> Q (Inl e) w1"
    and store: "\<And>w1. step w w1 \<Longrightarrow> admitted c pk authHash blob w
      \<Longrightarrow> wp (store_upload c pk authHash (Resolve (sv_media c) blob declared) blob mode) Q w1"
  shows "wp (UploadBlob c authHash pk blob mode declared) Q w"
proof (cases "acr_Validate (sv_acr c) pk ''UPLOAD''")
  case (Inl e)
  then show ?thesis by (simp add: UploadBlob_def wp_simp err)
next
  case (Inr u)
  let ?stored = "Resolve (sv_media c) blob declared"
  have removed: "wp (and_then (removed_check c authHash) (\<lambda>_. store_upload c pk authHash ?stored blob mode)) Q w1"
    if w1: "step w w1" and h: "sv_hash c blob = authHash" for w1
  proof (rule wp_chain [where P = "\<lambda>_ w2. step w w2 \<and> admitted c pk authHash blob w"],
      rule wp_mono [OF removed_check_step])
    fix r :: "unit result" and w2
    assume "step w1 w2 \<and> (r = Inr () \<longrightarrow> quiet w1 \<longrightarrow> sv_moderation c \<longrightarrow> \<not> is_removed authHash (w_db w1))"
    then show "case r of Inl e \<Rightarrow> Q (Inl e) w2 | Inr _ \<Rightarrow> step w w2 \<and> admitted c pk authHash blob w"
      using w1 h Inr step_trans [OF w1] err
      by (auto simp: admitted_def step_def calm_def is_removed_def split: sum.split)
  qed (use store in auto)
  have quota: "wp (and_then (wrap ''quota check'' (CheckQuota (sv_quota c) pk (int (length blob)))) (\<lambda>_.
      if sv_hash c blob \<noteq> authHash then ret (Inl (Msg ''blob hash doesn't match auth event 'x' tag''))
      else and_then (removed_check c (sv_hash c blob)) (\<lambda>_. store_upload c pk (sv_hash c blob) ?stored blob mode))) Q w1"
    if w1: "step w w1" for w1
    unfolding wp_and_then wp_wrap
  proof (rule wp_mono [OF CheckQuota_step])
    show "db_inv (w_db w1)" using w1 inv by (simp add: step_def calm_def)
  next
    fix r :: "unit result" and w2
    assume "step w1 w2 \<and> (r = Inr () \<longrightarrow> qs_enabled (sv_quota c) \<longrightarrow> \<not> banned pk (w_db w1)
        \<and> i64 (balance pk (w_db w1) + int (length blob)) \<le> quota_of (sv_quota c) pk (w_db w1))"
    then have w2: "step w w2" using step_trans [OF w1] by blast
    show "(case case r of Inl e \<Rightarrow> Inl (Wrap ''quota check'' e) | Inr x \<Rightarrow> Inr x of Inl e \<Rightarrow> Q (Inl e)
        | Inr _ \<Rightarrow> wp (if sv_hash c blob \<noteq> authHash then ret (Inl (Msg ''blob hash doesn't match auth event 'x' tag''))
            else and_then (removed_check c (sv_hash c blob)) (\<lambda>_. store_upload c pk (sv_hash c blob) ?stored blob mode)) Q) w2"
      by (cases r; cases "sv_hash c blob = authHash") (simp_all add: w2 wp_ret err removed)
  qed
  show ?thesis
    unfolding UploadBlob_def Let_def
  proof (rule wp_chain [where P = "\<lambda>_ w1. w1 = w"])
    fix x :: unit and w1 assume "w1 = w"
    then show "wp (and_then (policy_check c pk blob ?stored) (\<lambda>_.
        and_then (wrap ''quota check'' (CheckQuota (sv_quota c) pk (int (length blob)))) (\<lambda>_.
          if sv_hash c blob \<noteq> authHash then ret (Inl (Msg ''blob hash doesn't match auth event 'x' tag''))
          else and_then (removed_check c (sv_hash c blob)) (\<lambda>_. store_upload c pk (sv_hash c blob) ?stored blob mode)))) Q w1"
      by (intro wp_chain [where P = "\<lambda>_. step w"] quota)
        (auto intro!: wp_mono [OF policy_check_step] simp: err split: sum.split)
  qed (simp add: Inr wp_ret)
qed

section \<open>Storing\<close>

lemma IncrementUsage_any:
  assumes "db_inv (w_db w)"
  shows "wp (IncrementUsage q pk n) (\<lambda>_ w'. db_inv (w_db w') \<and> only_users w w') w"
proof -
  let ?t = "Unix (w_now w)"
  have c: "db_inv d' \<and> owned d' = owned (w_db w)" if "q_GetOrCreateUser pk (qs_default q) ?t ?t (w_db w) = (r, d')" for r d'
    using q_GetOrCreateUser_effect [OF assms, of pk "qs_default q" ?t ?t] that by auto
  have i: "db_inv d2 \<and> owned d2 = owned d1" if "q_IncrementUserUsage n t pk d1 = (r, d2)" "db_inv d1" for t r d1 d2
    using that by (auto simp: q_IncrementUserUsage_def split: if_splits intro: db_inv_update_user)
  show ?thesis
    unfolding IncrementUsage_def GetOrCreateUser_def
    using assms by (auto simp: wp_simp only_users_def same_env_def dest!: c i intro!: wp_exec split: sum.split)
qed

lemma store_upload_spec:
  assumes "enc_ok (sv_blobs c)" "db_inv (w_db w)" "w_saved w = None"
  shows "wp (store_upload c pk h stored blob mode) (\<lambda>r w'. db_inv (w_db w') \<and> w_saved w' = None \<and>
    (case r of
       Inl _ \<Rightarrow> failed_map (sv_blobs c) h blob (int (length blob)) (owned (w_db w)) (owned (w_db w'))
         \<and> (\<forall>pk'. balance pk' (w_db w') = balance pk' (w_db w))
     | Inr desc \<Rightarrow> (\<exists>ob. saved_map (sv_blobs c) pk h blob (int (length blob)) ob (owned (w_db w)) (owned (w_db w'))))) w"
  (is "wp _ ?Q w")
proof -
  have fin: "wp (do { _ \<leftarrow> RecordUpload (sv_limits c) pk;
        _ \<leftarrow> (if new then IncrementUsage (sv_quota c) pk n else ret (Inr ())); ret (Inr desc) }) ?Q w1"
    if "db_inv (w_db w1)" "w_saved w1 = None"
      "saved_map (sv_blobs c) pk h blob (int (length blob)) ob (owned (w_db w)) (owned (w_db w1))" for w1 new n desc ob
    unfolding wp_bind
  proof (rule wp_mono [OF RecordUpload_step])
    fix w2 assume "step w1 w2"
    then have w2: "db_inv (w_db w2)" "w_saved w2 = None" "owned (w_db w2) = owned (w_db w1)"
      using that by (simp_all add: step_def calm_def)
    then show "wp (if new then IncrementUsage (sv_quota c) pk n else ret (Inr ())) (\<lambda>_. wp (ret (Inr desc)) ?Q) w2"
      using that(3) by (auto simp: wp_simp only_users_def intro!: wp_mono [OF IncrementUsage_any])
  qed
  show ?thesis
    unfolding store_upload_def wp_bind wp_now wp_and_then wp_wrap
  proof (rule wp_mono [OF SaveWithDedup_spec [OF assms]], elim conjE)
    fix r :: "(blob_desc \<times> bool) result" and w1 :: world
    assume w1: "w_saved w1 = None" "db_inv (w_db w1)" "others (w_db w1) = others (w_db w)"
      and r: "case r of
          Inl _ \<Rightarrow> failed_map (sv_blobs c) h blob (int (length blob)) (owned (w_db w)) (owned (w_db w1))
        | Inr (desc, added) \<Rightarrow> added = (\<not> owns pk h (owned (w_db w)))
            \<and> saved_map (sv_blobs c) pk h blob (int (length blob)) (w_objects w1) (owned (w_db w)) (owned (w_db w1))
            \<and> desc_charge (int (length blob)) blob h desc (owned (w_db w1))"
    show "(case case r of Inl e \<Rightarrow> Inl (Wrap ''save blob'' e) | Inr x \<Rightarrow> Inr x of Inl e \<Rightarrow> ?Q (Inl e)
      | Inr x \<Rightarrow> wp (case x of (desc, new) \<Rightarrow> do { _ \<leftarrow> RecordUpload (sv_limits c) pk;
          _ \<leftarrow> (if new then IncrementUsage (sv_quota c) pk (d_size desc) else ret (Inr ())); ret (Inr desc) }) ?Q) w1"
    proof (cases r)
      case (Inl e)
      then show ?thesis using w1 r others_balance [OF w1(3)] by simp
    next
      case (Inr x)
      obtain desc new where x: "x = (desc, new)" by (cases x)
      show ?thesis
        unfolding Inr x sum.case prod.case
        by (rule fin [OF w1(2,1), where ob = "w_objects w1"]) (use r Inr x in simp)
    qed
  qed
qed

section \<open>Balanced accounts\<close>

lemma balanced_accounted: "balanced d \<longleftrightarrow> sizes_ok (owned d) \<and> quota.accounted (\<lambda>pk d. usage pk (owned d)) d"
  by (auto simp: balanced_def quota.accounted_def)

lemma balanced_step: "balanced (w_db w) \<Longrightarrow> step w w' \<Longrightarrow> balanced (w_db w')"
  by (auto simp: step_def calm_def balanced_def)

text \<open>Crediting a key after it was removed from the owners of a blob, and charging it after it was added.\<close>

lemma credit_after_drop:
  assumes w: "balanced (w_db w)" "in_i64 (balance pk (w_db w))" "owned (w_db w) h = Some (b, S)" "pk \<in> S"
    and w1: "quiet w1" "db_inv (w_db w1)" "owned (w_db w1) = drop_owner pk h (owned (w_db w))" "others (w_db w1) = others (w_db w)"
  shows "wp (DecrementUsage pk (charge b)) (\<lambda>_ w'. quiet w' \<and> only_users w1 w' \<and> balanced (w_db w')) w1"
proof -
  have le: "0 \<le> charge b" "charge b \<le> balance pk (w_db w1)" "in_i64 (balance pk (w_db w1))"
    using charge_le_usage [OF finite_dom_owned _ w(3,4)] w(1,2) by (simp_all add: balanced_def others_balance [OF w1(4)])
  have s: "sizes_ok (owned (w_db w1))" using w(1) w1(3) by (simp add: balanced_def sizes_ok_drop)
  show ?thesis
  proof (rule wp_mono [OF quota.credit_keeps [where u = usage, OF w1(1,2) le]])
    show "\<forall>pk'. balance pk' (w_db w1) - (if pk' = pk then charge b else 0) = usage pk' (owned (w_db w1))"
      using w(1) usage_drop_owner [OF finite_dom_owned w(3,4)]
      by (simp add: balanced_def w1(3) others_balance [OF w1(4)])
  qed (use s in \<open>auto simp: balanced_accounted only_users_def\<close>)
qed

lemma balanced_unchanged:
  assumes "balanced d" "db_inv d'" "others d' = others d"
    and "failed_map c h blob (int (length blob)) (owned d) (owned d')"
  shows "balanced d'"
proof -
  have "usage pk (owned d') = usage pk (owned d)" for pk
  proof (cases "owned d' = owned d")
    case False
    with assms(4) obtain b where "owned d h = None" "owned d' = (owned d)(h := Some (b, {}))"
      unfolding failed_map_def by blast
    then show ?thesis by (simp add: usage_ownerless [OF finite_dom_owned])
  qed simp
  then show ?thesis
    using assms sizes_ok_failed [OF _ assms(4)] by (simp add: balanced_def others_balance [OF assms(3)])
qed

lemma balanced_reupload:
  assumes "balanced d" "db_inv d'" "others d' = others d" "owns pk h (owned d)"
    and "saved_map c pk h blob sz ob (owned d) (owned d')"
  shows "balanced d'"
proof -
  obtain x where x: "owned d h = Some x" using assms(4) by (auto simp: owns_def split: option.splits)
  have "owned d' = add_owner pk h (owned d)" using assms(5) by (simp add: saved_map_def x)
  then have "owned d' = owned d" by (simp add: add_owner_idem [OF assms(4)])
  then show ?thesis using assms(1-3) by (simp add: balanced_def others_balance [OF assms(3)])
qed

lemma saved_charge:
  assumes "saved_map c pk h blob (int (length blob)) ob m m'" "m' h = Some (b, S)"
  shows "case m h of None \<Rightarrow> charge b = int (length blob) | Some (b0, _) \<Rightarrow> b = b0"
proof (cases "m h")
  case None
  then show ?thesis
    using assms by (auto simp: saved_map_def row_form_def charge_def split: option.splits)
next
  case (Some x)
  then show ?thesis
    using assms by (auto simp: saved_map_def add_owner_def)
qed

definition room_for :: "string \<Rightarrow> string \<Rightarrow> bytes \<Rightarrow> dbstate \<Rightarrow> bool" where
  "room_for pk h blob d \<longleftrightarrow> in_i64 (balance pk d + int (length blob))
     \<and> (\<forall>b S. owned d h = Some (b, S) \<longrightarrow> in_i64 (balance pk d + charge b))"

lemma room_for_saved:
  "room_for pk h blob d \<Longrightarrow> saved_map c pk h blob (int (length blob)) ob (owned d) m' \<Longrightarrow> m' h = Some (b, S)
     \<Longrightarrow> in_i64 (balance pk d + charge b)"
  using saved_charge [of c pk h blob ob "owned d" m' b S] by (auto simp: room_for_def split: option.splits)

lemma store_upload_balanced:
  assumes c: "enc_ok (sv_blobs c)" and w: "balanced (w_db w)" "w_saved w = None" "quiet w" "room_for pk h blob (w_db w)"
  shows "wp (store_upload c pk h stored blob mode) (\<lambda>_ w'. quiet w' \<and> w_saved w' = None \<and> balanced (w_db w')) w"
    (is "wp _ ?Q w")
proof -
  have inv: "db_inv (w_db w)" using w(1) by (simp add: balanced_def)
  note save = quiet_conj [OF w(3) keeps_quiet_blobs(1) SaveWithDedup_spec [OF c inv w(2)]]
  show ?thesis
    unfolding store_upload_def wp_bind wp_now wp_and_then wp_wrap
  proof (rule wp_mono [OF save], elim conjE)
    fix r :: "(blob_desc \<times> bool) result" and w1 :: world
    assume w1: "quiet w1" "w_saved w1 = None" "db_inv (w_db w1)" "others (w_db w1) = others (w_db w)"
      and r: "case r of
          Inl _ \<Rightarrow> failed_map (sv_blobs c) h blob (int (length blob)) (owned (w_db w)) (owned (w_db w1))
        | Inr (desc, added) \<Rightarrow> added = (\<not> owns pk h (owned (w_db w)))
            \<and> saved_map (sv_blobs c) pk h blob (int (length blob)) (w_objects w1) (owned (w_db w)) (owned (w_db w1))
            \<and> desc_charge (int (length blob)) blob h desc (owned (w_db w1))"
    have new: "wp (do { _ \<leftarrow> RecordUpload (sv_limits c) pk;
        _ \<leftarrow> (if a then IncrementUsage (sv_quota c) pk (d_size desc) else ret (Inr ())); ret (Inr desc) }) ?Q w1"
      if a: "a = (\<not> owns pk h (owned (w_db w)))"
        and m: "saved_map (sv_blobs c) pk h blob (int (length blob)) (w_objects w1) (owned (w_db w)) (owned (w_db w1))"
        and d: "desc_charge (int (length blob)) blob h desc (owned (w_db w1))" for a desc
      unfolding wp_bind
    proof (rule wp_mono [OF RecordUpload_step])
      fix w2 assume w2: "step w1 w2"
      obtain b S where b: "owned (w_db w1) h = Some (b, S)" "d_size desc = charge b"
        using d by (auto simp: desc_charge_def)
      have w2': "quiet w2" "db_inv (w_db w2)" "w_saved w2 = None" "owned (w_db w2) = owned (w_db w1)"
        "\<And>pk'. balance pk' (w_db w2) = balance pk' (w_db w1)"
        using w2 w1 by (simp_all add: step_def calm_def)
      show "wp (if a then IncrementUsage (sv_quota c) pk (d_size desc) else ret (Inr ())) (\<lambda>_. wp (ret (Inr desc)) ?Q) w2"
      proof (cases a)
        case True
        have n: "\<not> owns pk h (owned (w_db w))" using a True by simp
        have s: "sizes_ok (owned (w_db w2))" using w(1) sizes_ok_saved [OF _ m] w2' by (simp add: balanced_def)
        have i: "in_i64 (balance pk (w_db w2) + charge b)"
          using room_for_saved [OF w(4) m b(1)] by (simp add: w2' others_balance [OF w1(4)])
        have u: "\<forall>pk'. balance pk' (w_db w2) + (if pk' = pk then charge b else 0) = usage pk' (owned (w_db w2))"
          using w(1) n usage_saved [OF finite_dom_owned m b(1)]
          by (simp add: balanced_def w2' others_balance [OF w1(4)])
        show ?thesis
          unfolding if_P [OF True] b(2) wp_ret
          by (rule wp_mono [OF quota.charge_keeps [where u = usage, OF w2'(1,2) i u]])
            (use s w2' in \<open>auto simp: balanced_accounted only_users_def\<close>)
      next
        case False
        then have "balanced (w_db w1)" using a balanced_reupload [OF w(1) w1(3,4) _ m] by blast
        then show ?thesis
          unfolding if_not_P [OF False] wp_ret using w2' balanced_step [OF _ w2] by simp
      qed
    qed
    show "(case case r of Inl e \<Rightarrow> Inl (Wrap ''save blob'' e) | Inr x \<Rightarrow> Inr x of Inl e \<Rightarrow> ?Q (Inl e)
      | Inr x \<Rightarrow> wp (case x of (desc, new) \<Rightarrow> do { _ \<leftarrow> RecordUpload (sv_limits c) pk;
          _ \<leftarrow> (if new then IncrementUsage (sv_quota c) pk (d_size desc) else ret (Inr ())); ret (Inr desc) }) ?Q) w1"
    proof (cases r)
      case (Inl e)
      then show ?thesis using w1 r balanced_unchanged [OF w(1) w1(3,4)] by simp
    next
      case (Inr x)
      obtain desc a where x: "x = (desc, a)" by (cases x)
      show ?thesis
        unfolding Inr x sum.case prod.case by (rule new) (use r Inr x in simp_all)
    qed
  qed
qed

end
