(* ===== verification/UploadRules.thy ===== *)
theory UploadRules
  imports Upload
begin

text \<open>
  What the Blossom endpoints guarantee: which uploads reach the store and what they leave behind, removed hashes,
  deletes by owners and by operators, and the accounts throughout.
\<close>

section \<open>Uploads\<close>

lemma upload_out:
  assumes "enc_ok (sv_blobs c)" "db_inv (w_db w)" "w_saved w = None"
    and "run_state (UploadBlob c authHash pk blob mode declared) w = (r, w')"
  shows "db_inv (w_db w') \<and> (case r of
      Inl _ \<Rightarrow> failed_map (sv_blobs c) authHash blob (int (length blob)) (owned (w_db w)) (owned (w_db w'))
        \<and> (\<forall>pk'. balance pk' (w_db w') = balance pk' (w_db w))
    | Inr desc \<Rightarrow> acr_Validate (sv_acr c) pk ''UPLOAD'' = Inr () \<and> sv_hash c blob = authHash
        \<and> (\<exists>ob. saved_map (sv_blobs c) pk authHash blob (int (length blob)) ob (owned (w_db w)) (owned (w_db w'))))"
    (is "?Q r w'")
proof -
  have "wp (UploadBlob c authHash pk blob mode declared) ?Q w"
  proof (rule UploadBlob_wp [OF assms(2)])
    fix e w1 assume "step w w1"
    then show "?Q (Inl e) w1" using assms(2) by (simp add: step_def calm_def failed_map_def)
  next
    fix w1 assume w1: "step w w1" and a: "admitted c pk authHash blob w"
    have w1': "db_inv (w_db w1)" "w_saved w1 = None" "owned (w_db w1) = owned (w_db w)"
      "\<And>pk'. balance pk' (w_db w1) = balance pk' (w_db w)"
      using w1 assms(2,3) by (simp_all add: step_def calm_def)
    show "wp (store_upload c pk authHash (Resolve (sv_media c) blob declared) blob mode) ?Q w1"
      by (rule wp_mono [OF store_upload_spec [OF assms(1) w1'(1,2)]])
        (use w1' a in \<open>auto simp: admitted_def split: sum.splits\<close>)
  qed
  from wp_run [OF this assms(4)] show ?thesis .
qed

text \<open>C8. Whichever calls fail: an upload that is accepted comes from a key with upload rights, carries the bytes whose
  hash the client signed, and makes the key an owner of the blob; a refused one charges nobody and gives
  nobody a blob (a row without owner may be left for the sweep). The tables stay consistent.\<close>

theorem upload_outcome:
  assumes "enc_ok (sv_blobs c)" "db_inv (w_db w)" "w_saved w = None"
    and "run_state (UploadBlob c authHash pk blob mode declared) w = (r, w')"
  shows "db_inv (w_db w') \<and> (case r of
      Inl _ \<Rightarrow> failed_map (sv_blobs c) authHash blob (int (length blob)) (owned (w_db w)) (owned (w_db w'))
        \<and> (\<forall>pk'. balance pk' (w_db w') = balance pk' (w_db w))
    | Inr desc \<Rightarrow> acr_Validate (sv_acr c) pk ''UPLOAD'' = Inr () \<and> sv_hash c blob = authHash
        \<and> (\<exists>ob. saved_map (sv_blobs c) pk authHash blob (int (length blob)) ob (owned (w_db w)) (owned (w_db w'))))"
  by (rule upload_out [OF assms])

definition open_services :: services where
  "open_services = \<lparr>sv_blobs = plain_service,
     sv_acr = NewACRService [\<lparr>a_action = ''ALLOW'', a_pubkey = ''ALL'', a_resource = ''UPLOAD''\<rparr>],
     sv_mime = \<lparr>ms_all = True, ms_allowed = []\<rparr>, sv_max = 1000, sv_quota = NewQuotaService True 100 100,
     sv_limits = one_a_day\<lparr>ul_enabled := False\<rparr>, sv_media = sample_media,
     sv_hash = (\<lambda>b. replicate (length b) CHR ''h''), sv_moderation = True, sv_cdn = ''http://cdn''\<rparr>"

theorem upload_outcome_witness:
  "owns ''c'' ''h'' (owned (w_db (snd (run_state (UploadBlob open_services ''h'' ''c'' [7] ''none'' []) (start_world single_db)))))"
proof -
  let ?m = "UploadBlob open_services ''h'' ''c'' [7] ''none'' []"
  have "\<not> isl (fst (run_state ?m (start_world single_db)))" by code_simp
  from run_Inr [OF this] obtain x w' where r: "run_state ?m (start_world single_db) = (Inr x, w')" by blast
  have c: "enc_ok (sv_blobs open_services)" by (simp add: open_services_def enc_ok_def plain_service_def)
  have i: "db_inv (w_db (start_world single_db))" "w_saved (start_world single_db) = None"
    using balanced_examples(2) by (simp_all add: balanced_def)
  from upload_outcome [OF c i r] show ?thesis
    by (auto simp: r saved_map_def add_owner_def owns_def)
qed

section \<open>Removed hashes\<close>

lemma MirrorBlob_wp:
  assumes inv: "db_inv (w_db w)"
    and err: "\<And>e w1. step w w1 \<Longrightarrow> Q (Inl e) w1"
    and up: "\<And>b w1. step w w1 \<Longrightarrow> wp (UploadBlob c authHash pk b mode []) Q w1"
  shows "wp (MirrorBlob c fetch pk authHash url mode) Q w"
proof -
  have get: "wp (GetFromHash (sv_blobs c) authHash) (\<lambda>_. step w) w1" if w1: "step w w1" for w1
  proof (rule wp_mono [OF stepI [OF keeps_quiet_blobs(4), where Q = "\<lambda>_ _. True"]])
    show "wp (GetFromHash (sv_blobs c) authHash) (\<lambda>r w'. calm w1 w' \<and> True) w1"
      by (rule wp_mono [OF GetFromHash_reads]) (simp add: calm_reads)
  qed (use step_trans [OF w1] in blast)
  have src: "wp (do {
       g \<leftarrow> GetFromHash (sv_blobs c) authHash;
       and_then
         (ret (case g of
                 Inr blob \<Rightarrow> if length (d_blob blob) > 0 \<or> d_size blob = 0 then Inr (d_blob blob)
                              else fetchSource fetch url (sv_max c)
               | Inl _ \<Rightarrow> fetchSource fetch url (sv_max c)))
         (\<lambda>b. UploadBlob c authHash pk b mode []) }) Q w1" if "step w w1" for w1
    unfolding wp_bind wp_and_then wp_ret
    by (rule wp_mono [OF get [OF that]]) (auto simp: err up split: sum.split)
  show ?thesis
    unfolding MirrorBlob_def
  proof (rule wp_chain [where P = "\<lambda>_. step w"])
    show "wp (ret (acr_Validate (sv_acr c) pk ''UPLOAD'')) (\<lambda>r w'. case r of Inl e \<Rightarrow> Q (Inl e) w' | Inr _ \<Rightarrow> step w w') w"
      by (simp add: wp_ret err split: sum.split)
  next
    fix w1 assume w1: "step w w1"
    then have i: "db_inv (w_db w1)" using inv by (simp add: step_def calm_def)
    show "wp (and_then (wrap ''quota check'' (CheckQuota (sv_quota c) pk 1)) (\<lambda>_. do {
       g \<leftarrow> GetFromHash (sv_blobs c) authHash;
       and_then
         (ret (case g of
                 Inr blob \<Rightarrow> if length (d_blob blob) > 0 \<or> d_size blob = 0 then Inr (d_blob blob)
                              else fetchSource fetch url (sv_max c)
               | Inl _ \<Rightarrow> fetchSource fetch url (sv_max c)))
         (\<lambda>b. UploadBlob c authHash pk b mode []) })) Q w1"
    proof (rule wp_chain [where P = "\<lambda>_. step w"], unfold wp_wrap, rule wp_mono [OF CheckQuota_step [OF i]])
      fix r :: "unit result" and w2
      assume "step w1 w2 \<and> (r = Inr () \<longrightarrow> qs_enabled (sv_quota c) \<longrightarrow> \<not> banned pk (w_db w1)
        \<and> i64 (balance pk (w_db w1) + 1) \<le> quota_of (sv_quota c) pk (w_db w1))"
      then have "step w w2" using step_trans [OF w1] by blast
      then show "case case r of Inl e \<Rightarrow> Inl (Wrap ''quota check'' e) | Inr x \<Rightarrow> Inr x of Inl e \<Rightarrow> Q (Inl e) w2 | Inr _ \<Rightarrow> step w w2"
        by (simp add: err split: sum.split)
    qed (rule src)
  qed
qed

lemma removed_refused:
  assumes "quiet w" "db_inv (w_db w)" "sv_moderation c" "is_removed h (w_db w)"
  shows "wp (UploadBlob c h pk blob mode declared)
      (\<lambda>r w'. isl r \<and> owned (w_db w') = owned (w_db w) \<and> is_removed h (w_db w')) w" (is "wp _ ?Q w")
    and "wp (MirrorBlob c fetch pk h url mode)
      (\<lambda>r w'. isl r \<and> owned (w_db w') = owned (w_db w) \<and> is_removed h (w_db w')) w" (is "wp _ ?Q w")
proof -
  have err: "?Q (Inl e) w1" if "step w w1" for e :: goerr and w1
    using that assms(4) by (simp add: step_def calm_def is_removed_def)
  have up: "wp (UploadBlob c h pk b mode declared) ?Q w1" if w1: "step w w1" for b mode declared w1
  proof (rule UploadBlob_wp)
    show "db_inv (w_db w1)" using w1 assms(2) by (simp add: step_def calm_def)
    show "?Q (Inl e) w2" if "step w1 w2" for e w2 by (rule err [OF step_trans [OF w1 that]])
  next
    fix w2 assume "step w1 w2" "admitted c pk h b w1"
    then show "wp (store_upload c pk h (Resolve (sv_media c) b declared) b mode) ?Q w2"
      using w1 assms(1,3,4) by (auto simp: admitted_def step_def calm_def is_removed_def)
  qed
  show "wp (UploadBlob c h pk blob mode declared) ?Q w" by (rule up [OF step_refl])
  show "wp (MirrorBlob c fetch pk h url mode) ?Q w" by (rule MirrorBlob_wp [OF assms(2)]) (fact err, rule up)
qed

text \<open>C14. With moderation on and no failing call, a removed hash stays removed: no key can bring the blob back by uploading
  the bytes with \<^verbatim>\<open>PUT /upload\<close> or by mirroring them from another server. (If the lookup of the hash fails the upload goes
  on, see \<open>removed_check_fails_open\<close>; other ways in do not look at all, see \<open>mirror_restores_removed_hash\<close>.)\<close>

theorem removed_stays_removed:
  assumes "quiet w" "db_inv (w_db w)" "sv_moderation c" "is_removed h (w_db w)"
    and "m = UploadBlob c h pk blob mode declared \<or> m = MirrorBlob c fetch pk h url mode"
    and "run_state m w = (r, w')"
  shows "isl r \<and> owned (w_db w') = owned (w_db w) \<and> is_removed h (w_db w')"
  using assms(5) wp_run [OF removed_refused(1) [OF assms(1-4)]] wp_run [OF removed_refused(2) [OF assms(1-4)]] assms(6) by blast

definition removed_db :: dbstate where
  "removed_db = single_db\<lparr>t_removed := [\<lparr>x_hash = ''hh'', x_reason = ''abuse'', x_by = ''adm'', x_report = None, x_created = 1\<rparr>]\<rparr>"

theorem removed_stays_removed_witness:
  "isl (fst (run_state (UploadBlob open_services ''hh'' ''a'' [7, 8] ''none'' []) (start_world removed_db)))
    \<and> isl (fst (run_state (MirrorBlob open_services (\<lambda>_. Some (200, [7, 8])) ''a'' ''hh'' \<lparr>su_scheme = ''http'', su_rest = ''x''\<rparr> ''none'')
        (start_world removed_db)))"
proof -
  have h: "quiet (start_world removed_db)" "db_inv (w_db (start_world removed_db))" "sv_moderation open_services"
    "is_removed ''hh'' (w_db (start_world removed_db))"
    using balanced_examples(2) by (simp_all add: removed_db_def balanced_def open_services_def is_removed_def)
  note t = removed_stays_removed [OF h _ run_pair, THEN conjunct1]
  show ?thesis by (rule conjI; rule t) (rule disjI1 [OF refl], rule disjI2 [OF refl])
qed

text \<open>The check lets the upload pass when the lookup itself fails: here one failing read makes the removed bytes
  be stored again.\<close>

theorem removed_check_fails_open:
  "\<not> isl (fst (run_state (UploadBlob open_services ''hh'' ''a'' [7, 8] ''none'' [])
      ((start_world removed_db)\<lparr>w_faults := [False, True]\<rparr>)))
    \<and> is_removed ''hh'' removed_db"
proof
  show "\<not> isl (fst (run_state (UploadBlob open_services ''hh'' ''a'' [7, 8] ''none'' [])
      ((start_world removed_db)\<lparr>w_faults := [False, True]\<rparr>)))" by code_simp
qed (simp add: removed_db_def is_removed_def)

section \<open>Accounts\<close>

lemma upload_balanced:
  assumes "enc_ok (sv_blobs c)" "quiet w" "balanced (w_db w)" "w_saved w = None" "room_for pk authHash blob (w_db w)"
    and "run_state (UploadBlob c authHash pk blob mode declared) w = (r, w')"
  shows "quiet w' \<and> balanced (w_db w') \<and> w_saved w' = None"
proof -
  have inv: "db_inv (w_db w)" using assms(3) by (simp add: balanced_def)
  have "wp (UploadBlob c authHash pk blob mode declared) (\<lambda>_ w'. quiet w' \<and> w_saved w' = None \<and> balanced (w_db w')) w"
  proof (rule UploadBlob_wp [OF inv])
    fix e :: goerr and w1 assume "step w w1"
    then show "quiet w1 \<and> w_saved w1 = None \<and> balanced (w_db w1)"
      using assms(2-4) balanced_step by (auto simp: step_def calm_def)
  next
    fix w1 assume w1: "step w w1"
    have "balanced (w_db w1)" "w_saved w1 = None" "quiet w1" "room_for pk authHash blob (w_db w1)"
      using assms(2-5) w1 balanced_step [OF assms(3) w1] by (simp_all add: step_def calm_def room_for_def)
    then show "wp (store_upload c pk authHash (Resolve (sv_media c) blob declared) blob mode)
        (\<lambda>_ w'. quiet w' \<and> w_saved w' = None \<and> balanced (w_db w')) w1"
      by (rule store_upload_balanced [OF assms(1)])
  qed
  from wp_run [OF this assms(6)] show ?thesis by simp
qed

text \<open>C9. When no call fails and the sums fit in 64 bits, an upload keeps the accounts balanced, whether it is accepted
  or refused: every key stays charged exactly for the blobs it owns.\<close>

theorem upload_keeps_balanced:
  assumes "enc_ok (sv_blobs c)" "quiet w" "balanced (w_db w)" "w_saved w = None" "room_for pk authHash blob (w_db w)"
    and "run_state (UploadBlob c authHash pk blob mode declared) w = (r, w')"
  shows "quiet w' \<and> balanced (w_db w') \<and> w_saved w' = None"
  by (rule upload_balanced [OF assms])

theorem upload_keeps_balanced_witness:
  "balanced (w_db (snd (run_state (UploadBlob open_services ''h'' ''b'' [7] ''none'' []) (start_world single_db))))"
  by (rule upload_keeps_balanced [OF _ _ _ _ _ run_pair, THEN conjunct2, THEN conjunct1])
    (simp_all add: open_services_def enc_ok_def plain_service_def room_for_def in_i64_def)

text \<open>A delete, step by step.\<close>

lemma DecrementUsage_any:
  assumes "db_inv (w_db w)"
  shows "wp (DecrementUsage pk n) (\<lambda>_ w'. db_inv (w_db w') \<and> only_users w w') w"
proof -
  have i: "db_inv d2 \<and> owned d2 = owned (w_db w)" if "q_DecrementUserUsage n n' t pk (w_db w) = (r, d2)" for n' t r d2
    using that assms by (auto simp: q_DecrementUserUsage_def split: if_splits intro: db_inv_update_user)
  show ?thesis
    unfolding DecrementUsage_def
    using assms by (auto simp: wp_simp only_users_def same_env_def dest!: i intro!: wp_exec)
qed

lemma DeleteBlob_wp:
  assumes inv: "db_inv (w_db w)"
    and err: "\<And>e w1. reads_only w w1 \<Longrightarrow> Q (Inl e) w1"
    and del: "\<And>w1 b S. \<lbrakk>reads_only w w1; quiet w \<Longrightarrow> quiet w1; h = authHash; owned (w_db w) h = Some (b, S); pk \<in> S\<rbrakk>
      \<Longrightarrow> wp (do {
            r \<leftarrow> DeleteReference (sv_blobs c) pk h;
            case r of
              Inl e \<Rightarrow> ret (Inl (if errors_is e ErrReferenceNotFound then ErrBlobNotFound else e))
            | Inr _ \<Rightarrow> do { _ \<leftarrow> DecrementUsage pk (charge b); ret (Inr ()) } }) Q w1"
  shows "wp (DeleteBlob c pk h authHash) Q w"
proof -
  have keys: "db_keys (w_db w)" using inv by (simp add: db_inv_def)
  have get: "wp (GetFromHash (sv_blobs c) h) (\<lambda>r w'. (quiet w \<longrightarrow> quiet w') \<and> reads_only w w'
      \<and> (\<forall>x. r = Inr x \<longrightarrow> (\<exists>b. blob_of h (w_db w) = Some b \<and> d_size x = charge b))) w"
    by (rule quiet_imp [OF keeps_quiet_blobs(4)], rule wp_mono [OF GetFromHash_reads]) blast
  have has: "wp (HasReference pk h) (\<lambda>r w'. (quiet w \<longrightarrow> quiet w') \<and> reads_only w w'
      \<and> (\<forall>x. r = Inr x \<longrightarrow> x = owns pk h (owned (w_db w)))) w1"
    if w1: "reads_only w w1" "quiet w \<longrightarrow> quiet w1" for w1
  proof -
    have k: "db_keys (w_db w1)" and o: "owned (w_db w1) = owned (w_db w)" using keys w1 by (simp_all add: reads_only_def)
    show ?thesis
    proof (rule wp_mono [OF quiet_imp [OF keeps_quiet_blobs(6) HasReference_reads [OF k]]], elim conjE)
      fix r w' assume "quiet w1 \<longrightarrow> quiet w'" "reads_only w1 w'" "\<forall>x. r = Inr x \<longrightarrow> x = owns pk h (owned (w_db w1))"
      then show "(quiet w \<longrightarrow> quiet w') \<and> reads_only w w' \<and> (\<forall>x. r = Inr x \<longrightarrow> x = owns pk h (owned (w_db w)))"
        using w1(2) reads_only_trans [OF w1(1)] by (simp add: o)
    qed
  qed
  show ?thesis
    unfolding DeleteBlob_def wp_bind
  proof (rule wp_mono [OF get], elim conjE)
    fix r w1
    assume w1: "quiet w \<longrightarrow> quiet w1" "reads_only w w1"
      and r: "\<forall>x. r = Inr x \<longrightarrow> (\<exists>b. blob_of h (w_db w) = Some b \<and> d_size x = charge b)"
    show "wp (case r of Inl _ \<Rightarrow> ret (Inl ErrBlobNotFound)
      | Inr blob \<Rightarrow>
         if h \<noteq> authHash then ret (Inl (Msg ''unauthorized''))
         else and_then (HasReference pk h) (\<lambda>hasRef.
           if \<not> hasRef then ret (Inl (Msg ''unauthorized''))
           else do {
             r \<leftarrow> DeleteReference (sv_blobs c) pk h;
             case r of
               Inl e \<Rightarrow> ret (Inl (if errors_is e ErrReferenceNotFound then ErrBlobNotFound else e))
             | Inr _ \<Rightarrow> do { _ \<leftarrow> DecrementUsage pk (d_size blob); ret (Inr ()) }
           })) Q w1"
    proof (cases r)
      case (Inl e)
      then show ?thesis by (simp add: wp_ret err w1)
    next
      case (Inr x)
      then obtain b where b: "blob_of h (w_db w) = Some b" "d_size x = charge b" using r by blast
      have del': "wp (do {
            r \<leftarrow> DeleteReference (sv_blobs c) pk h;
            case r of
              Inl e \<Rightarrow> ret (Inl (if errors_is e ErrReferenceNotFound then ErrBlobNotFound else e))
            | Inr _ \<Rightarrow> do { _ \<leftarrow> DecrementUsage pk (d_size x); ret (Inr ()) } }) Q w2"
        if "reads_only w w2" "quiet w \<longrightarrow> quiet w2" "h = authHash" "owns pk h (owned (w_db w))" for w2
      proof -
        have o: "owned (w_db w) h = Some (bare b, owner_set h (w_db w))" using b by (simp add: owned_def)
        then have "pk \<in> owner_set h (w_db w)" using that(4) by (simp add: owns_def)
        from del [OF that(1) _ that(3) o this] that(2) show ?thesis unfolding b(2) charge_bare by blast
      qed
      show ?thesis
      proof (cases "h = authHash")
        case False
        with w1 show ?thesis unfolding Inr sum.case by (simp add: wp_ret err)
      next
        case True
        then have nh: "\<not> h \<noteq> authHash" by simp
        show ?thesis
          unfolding Inr sum.case if_not_P [OF nh] wp_and_then
        proof (rule wp_mono [OF has [OF w1(2,1)]], elim conjE)
          fix r :: "bool result" and w2
          assume w2: "quiet w \<longrightarrow> quiet w2" "reads_only w w2" and r: "\<forall>x. r = Inr x \<longrightarrow> x = owns pk h (owned (w_db w))"
          show "(case r of Inl e \<Rightarrow> Q (Inl e) | Inr hasRef \<Rightarrow> wp (if \<not> hasRef then ret (Inl (Msg ''unauthorized''))
             else do {
               r \<leftarrow> DeleteReference (sv_blobs c) pk h;
               case r of
                 Inl e \<Rightarrow> ret (Inl (if errors_is e ErrReferenceNotFound then ErrBlobNotFound else e))
               | Inr _ \<Rightarrow> do { _ \<leftarrow> DecrementUsage pk (d_size x); ret (Inr ()) } }) Q) w2"
          proof (cases r)
            case (Inl e)
            then show ?thesis by (simp add: err w2)
          next
            case (Inr y)
            show ?thesis
            proof (cases y)
              case True
              then have "owns pk h (owned (w_db w))" using r [rule_format, OF Inr] by simp
              from del' [OF w2(2,1) \<open>h = authHash\<close> this] show ?thesis
                unfolding Inr sum.case using True by (simp only: not_True_eq_False if_False)
            qed (simp add: Inr wp_ret err w2)
          qed
        qed
      qed
    qed
  qed
qed

lemma delete_out:
  assumes "db_inv (w_db w)" "w_saved w = None"
    and "run_state (DeleteBlob c pk h authHash) w = (r, w')"
  shows "db_inv (w_db w') \<and> (case r of
      Inl _ \<Rightarrow> w_db w' = w_db w \<and> w_objects w' = w_objects w
    | Inr _ \<Rightarrow> h = authHash \<and> owns pk h (owned (w_db w)) \<and> owned (w_db w') = drop_owner pk h (owned (w_db w)))"
    (is "?Q r w'")
proof -
  have "wp (DeleteBlob c pk h authHash) ?Q w"
  proof (rule DeleteBlob_wp [OF assms(1)])
    fix e w1 assume "reads_only w w1"
    then show "?Q (Inl e) w1" using assms(1) by (simp add: reads_only_def)
  next
    fix w1 b S
    assume w1: "reads_only w w1" and h: "h = authHash" and o: "owned (w_db w) h = Some (b, S)" "pk \<in> S"
    have w1': "db_inv (w_db w1)" "w_saved w1 = None" "w_db w1 = w_db w" "w_objects w1 = w_objects w"
      using w1 assms(1,2) by (simp_all add: reads_only_def)
    show "wp (do {
            r \<leftarrow> DeleteReference (sv_blobs c) pk h;
            case r of
              Inl e \<Rightarrow> ret (Inl (if errors_is e ErrReferenceNotFound then ErrBlobNotFound else e))
            | Inr _ \<Rightarrow> do { _ \<leftarrow> DecrementUsage pk (charge b); ret (Inr ()) } }) ?Q w1"
      unfolding wp_bind
    proof (rule wp_mono [OF DeleteReference_spec [OF w1'(1,2)]])
      fix r :: "bool result" and w2
      assume r: "w_saved w2 = None \<and> same_env w1 w2 \<and> (case r of
          Inl _ \<Rightarrow> w_db w2 = w_db w1 \<and> w_objects w2 = w_objects w1
        | Inr lst \<Rightarrow> owns pk h (owned (w_db w1)) \<and> db_inv (w_db w2)
            \<and> owned (w_db w2) = drop_owner pk h (owned (w_db w1)) \<and> lst = (owned (w_db w2) h = None)
            \<and> others (w_db w2) = others (w_db w1)
            \<and> (w_objects w2 = w_objects w1 \<or> lst \<and> w_objects w2 = (w_objects w1)(h := None)))"
      show "wp (case r of
              Inl e \<Rightarrow> ret (Inl (if errors_is e ErrReferenceNotFound then ErrBlobNotFound else e))
            | Inr _ \<Rightarrow> State_Monad.bind (DecrementUsage pk (charge b)) (\<lambda>_. ret (Inr ()))) ?Q w2"
      proof (cases r)
        case (Inl e)
        then show ?thesis using r w1' assms(1) by (simp add: wp_ret)
      next
        case (Inr lst)
        then have i: "db_inv (w_db w2)" using r by simp
        show ?thesis
          unfolding Inr sum.case wp_bind wp_ret
          by (rule wp_mono [OF DecrementUsage_any [OF i]]) (use r Inr w1' h in \<open>simp add: only_users_def\<close>)
      qed
    qed
  qed
  from wp_run [OF this assms(3)] show ?thesis .
qed

text \<open>C10. Whichever calls fail: a delete succeeds only for an owner of the blob whose signed hash names that blob, and
  then exactly that key is removed from the owners, the blob going with the last one; an error leaves every
  blob with its owners.\<close>

theorem delete_outcome:
  assumes "db_inv (w_db w)" "w_saved w = None"
    and "run_state (DeleteBlob c pk h authHash) w = (r, w')"
  shows "db_inv (w_db w') \<and> (case r of
      Inl _ \<Rightarrow> w_db w' = w_db w \<and> w_objects w' = w_objects w
    | Inr _ \<Rightarrow> h = authHash \<and> owns pk h (owned (w_db w)) \<and> owned (w_db w') = drop_owner pk h (owned (w_db w)))"
  by (rule delete_out [OF assms])

theorem delete_outcome_witness:
  "owned (w_db (snd (run_state (DeleteBlob open_services ''c'' ''h'' ''h'') (start_world accounts_db)))) ''h'' \<noteq> None"
proof -
  have i: "db_inv (w_db (start_world accounts_db))" "w_saved (start_world accounts_db) = None"
    using balanced_examples(1) by (simp_all add: balanced_def)
  have "\<not> owns ''c'' ''h'' (owned accounts_db)" by (simp add: owns_def)
  with delete_outcome [OF i run_pair, of open_services "''c''" "''h''" "''h''"] show ?thesis
    by (simp split: sum.splits)
qed

text \<open>One reference removed and credited, in a quiet world.\<close>

lemma drop_and_credit:
  assumes w: "quiet w" "balanced (w_db w)" "w_saved w = None" "in_i64 (balance pk (w_db w))"
    and o: "owned (w_db w) h = Some (b, S)" "pk \<in> S"
    and err: "\<And>e w1. \<lbrakk>quiet w1; balanced (w_db w1); w_saved w1 = None; w_db w1 = w_db w\<rbrakk> \<Longrightarrow> wp (f (Inl e)) Q w1"
    and dec: "\<And>l w1. \<lbrakk>quiet w1; balanced (w_db w1); w_saved w1 = None; owned (w_db w1) = drop_owner pk h (owned (w_db w))\<rbrakk>
      \<Longrightarrow> wp (g l) Q w1"
    and f: "\<And>l. f (Inr l) = State_Monad.bind (DecrementUsage pk (charge b)) (\<lambda>_. g l)"
  shows "wp (do { r \<leftarrow> DeleteReference s pk h; f r }) Q w"
proof -
  have inv: "db_inv (w_db w)" using w(2) by (simp add: balanced_def)
  show ?thesis
    unfolding wp_bind
  proof (rule wp_mono [OF quiet_conj [OF w(1) keeps_quiet_blobs(2) DeleteReference_spec [OF inv w(3)]]], elim conjE)
    fix r :: "bool result" and w1
    assume w1: "quiet w1" "w_saved w1 = None"
      and r: "case r of
          Inl _ \<Rightarrow> w_db w1 = w_db w \<and> w_objects w1 = w_objects w
        | Inr lst \<Rightarrow> owns pk h (owned (w_db w)) \<and> db_inv (w_db w1)
            \<and> owned (w_db w1) = drop_owner pk h (owned (w_db w)) \<and> lst = (owned (w_db w1) h = None)
            \<and> others (w_db w1) = others (w_db w)
            \<and> (w_objects w1 = w_objects w \<or> lst \<and> w_objects w1 = (w_objects w)(h := None))"
    show "wp (f r) Q w1"
    proof (cases r)
      case (Inl e)
      then show ?thesis using err r w1 w(2) by simp
    next
      case (Inr l)
      have w1': "db_inv (w_db w1)" "owned (w_db w1) = drop_owner pk h (owned (w_db w))" "others (w_db w1) = others (w_db w)"
        using r Inr by simp_all
      show ?thesis
        unfolding Inr f wp_bind
        by (rule wp_mono [OF credit_after_drop [OF w(2,4) o w1(1) w1']])
          (use w1(2) w1'(2) in \<open>auto simp: only_users_def intro: dec\<close>)
    qed
  qed
qed

lemma delete_balanced:
  assumes "quiet w" "balanced (w_db w)" "w_saved w = None" "in_i64 (balance pk (w_db w))"
    and "run_state (DeleteBlob c pk h authHash) w = (r, w')"
  shows "balanced (w_db w')"
proof -
  have inv: "db_inv (w_db w)" using assms(2) by (simp add: balanced_def)
  have "wp (DeleteBlob c pk h authHash) (\<lambda>_ w'. balanced (w_db w')) w"
  proof (rule DeleteBlob_wp [OF inv])
    fix w1 assume "reads_only w w1"
    then show "balanced (w_db w1)" using assms(2) by (simp add: reads_only_def)
  next
    fix w1 b S
    assume r: "reads_only w w1" and q: "quiet w \<Longrightarrow> quiet w1" and o: "owned (w_db w) h = Some (b, S)" "pk \<in> S"
    have w1: "w_db w1 = w_db w" "w_saved w1 = None" using r assms(3) by (simp_all add: reads_only_def)
    show "wp (do {
            r \<leftarrow> DeleteReference (sv_blobs c) pk h;
            case r of
              Inl e \<Rightarrow> ret (Inl (if errors_is e ErrReferenceNotFound then ErrBlobNotFound else e))
            | Inr _ \<Rightarrow> do { _ \<leftarrow> DecrementUsage pk (charge b); ret (Inr ()) } }) (\<lambda>_ w'. balanced (w_db w')) w1"
      by (rule drop_and_credit [where b = b and S = S and g = "\<lambda>_. ret (Inr ())"])
        (use q assms(1,2,4) w1 o in \<open>simp_all add: wp_ret\<close>)
  qed
  from wp_run [OF this assms(5)] show ?thesis .
qed

text \<open>C11. When no call fails a delete keeps the accounts balanced: the key that drops its reference is credited what it
  was charged for the blob, and nobody else is touched.\<close>

theorem delete_keeps_balanced:
  assumes "quiet w" "balanced (w_db w)" "w_saved w = None" "in_i64 (balance pk (w_db w))"
    and "run_state (DeleteBlob c pk h authHash) w = (r, w')"
  shows "balanced (w_db w')"
  by (rule delete_balanced [OF assms])

theorem delete_keeps_balanced_witness:
  "balanced (w_db (snd (run_state (DeleteBlob open_services ''a'' ''h'' ''h'') (start_world accounts_db))))"
  by (rule delete_keeps_balanced [OF _ _ _ _ run_pair]) (simp_all add: in_i64_def)

lemma saved_owner: "saved_map c pk h blob sz ob m m' \<Longrightarrow> \<exists>b S. m' h = Some (b, S) \<and> pk \<in> S"
  by (auto simp: saved_map_def add_owner_def split: option.splits)

text \<open>C12. Upload and delete cancel out: from balanced accounts, when a key that did not own a blob uploads it and then deletes it, no
  call failing, both calls succeeding and its account staying within 64 bits, every account is what it was before, and so is
  everybody's ownership of every blob (a row nobody owned may be gone).\<close>

theorem upload_delete_restores_accounts:
  assumes "enc_ok (sv_blobs c)" "quiet w" "balanced (w_db w)" "w_saved w = None" "room_for pk h blob (w_db w)"
    and "\<not> owns pk h (owned (w_db w))" "in_i64 (balance pk (w_db w1))"
    and "run_state (UploadBlob c h pk blob mode declared) w = (Inr desc, w1)"
    and "run_state (DeleteBlob c pk h h) w1 = (Inr (), w2)"
  shows "balance pk' (w_db w2) = balance pk' (w_db w) \<and> owns pk' h' (owned (w_db w2)) = owns pk' h' (owned (w_db w))"
proof -
  let ?m = "owned (w_db w)" and ?m1 = "owned (w_db w1)" and ?m2 = "owned (w_db w2)"
  have inv: "db_inv (w_db w)" using assms(3) by (simp add: balanced_def)
  obtain ob where s: "saved_map (sv_blobs c) pk h blob (int (length blob)) ob ?m ?m1"
    using upload_out [OF assms(1) inv assms(4,8)] by auto
  note b1 = upload_balanced [OF assms(1-5,8)]
  have d: "?m2 = drop_owner pk h ?m1" using delete_out [OF _ _ assms(9)] b1 by (simp add: balanced_def)
  have b2: "balanced (w_db w2)" by (rule delete_balanced [OF _ _ _ assms(7,9)]) (use b1 in simp_all)
  obtain b S where m1: "?m1 h = Some (b, S)" "pk \<in> S" using saved_owner [OF s] by blast
  have "usage pk' ?m2 = usage pk' ?m"
    using usage_drop_owner [OF finite_dom_owned m1, of pk'] usage_saved [OF finite_dom_owned s m1(1), of pk'] assms(6)
    by (simp add: d)
  moreover have "owns pk' h' ?m2 = owns pk' h' ?m"
    using s assms(6) by (auto simp: d saved_map_def add_owner_def drop_owner_def owns_def split: option.splits if_splits)
  ultimately show ?thesis using assms(3) b2 by (simp add: balanced_def)
qed

theorem upload_delete_restores_accounts_witness:
  "balance ''b'' (w_db (snd (run_state (DeleteBlob open_services ''b'' ''h'' ''h'')
     (snd (run_state (UploadBlob open_services ''h'' ''b'' [7] ''none'' []) (start_world single_db)))))) = 0"
proof -
  let ?m = "UploadBlob open_services ''h'' ''b'' [7] ''none'' []" and ?n = "DeleteBlob open_services ''b'' ''h'' ''h''"
  have "\<not> isl (fst (run_state ?m (start_world single_db)))" by code_simp
  from run_Inr [OF this] obtain x w1 where r1: "run_state ?m (start_world single_db) = (Inr x, w1)" by blast
  have "\<not> isl (fst (run_state ?n (snd (run_state ?m (start_world single_db)))))" by code_simp
  from run_Inr [OF this] obtain y :: unit and w2 where r2: "run_state ?n (snd (run_state ?m (start_world single_db))) = (Inr y, w2)" by blast
  have y: "y = ()" by simp
  have b: "in_i64 (balance ''b'' (w_db (snd (run_state ?m (start_world single_db)))))" by code_simp
  have c: "enc_ok (sv_blobs open_services)" by (simp add: open_services_def enc_ok_def plain_service_def)
  have h: "quiet (start_world single_db)" "balanced (w_db (start_world single_db))" "w_saved (start_world single_db) = None"
    "room_for ''b'' ''h'' [7] (w_db (start_world single_db))" "\<not> owns ''b'' ''h'' (owned (w_db (start_world single_db)))"
    by (simp_all add: room_for_def in_i64_def owns_def)
  from upload_delete_restores_accounts [OF c h b [unfolded r1 snd_conv] r1 r2 [unfolded r1 snd_conv y]]
  show ?thesis unfolding r1 snd_conv using r2 [unfolded r1 snd_conv] by simp
qed

section \<open>Policy\<close>

text \<open>When the tier limits are off, what \<^verbatim>\<open>HEAD /upload\<close> refuses for the sniffed type and the length of some bytes,
  \<^verbatim>\<open>PUT /upload\<close> refuses too, before it touches anything.\<close>

theorem refused_requirements_refuse_upload:
  assumes "\<not> ul_enabled (sv_limits c)"
    and "UploadRequirements c pk (md_detect (sv_media c) blob) (int (length blob)) = Inl e"
  shows "\<exists>e'. run_state (UploadBlob c h pk blob mode declared) w = (Inl e', w)"
proof -
  have "wp (UploadBlob c h pk blob mode declared) (\<lambda>r w'. (\<exists>e'. r = Inl e') \<and> w' = w) w"
    using assms by (auto simp: UploadRequirements_def UploadBlob_def policy_check_def wp_simp split: sum.splits)
  then show ?thesis by (auto simp: wp_def split: prod.splits)
qed

theorem refused_requirements_refuse_upload_witness:
  "\<exists>e. run_state (UploadBlob (open_services\<lparr>sv_max := 1\<rparr>) ''hh'' ''a'' [7, 8] ''none'' []) (start_world empty_db) = (Inl e, start_world empty_db)"
  by (rule refused_requirements_refuse_upload [where e = ErrFileSizeLimit])
    (simp_all add: open_services_def UploadRequirements_def ValidateFileSizeMaxBytes_def mime_IsAllowed_def acr_Validate_def
      NewACRService_def)

text \<open>With the tier limits on and a tier that sets no limit of its own, every type and every size passes the policy
  check: neither the configured list of allowed types nor the configured size limit is consulted, although
  the same upload is refused with the tier limits off.\<close>

theorem open_tier_skips_global_limits:
  assumes "limits_of u pk = \<lparr>tl_max_bytes = 0, tl_prefixes = [], tl_per_day = 0\<rparr>" "ul_enabled u"
    and "mime_IsAllowed (sv_mime c) (md_detect (sv_media c) blob) = Inl e"
  shows "fst (run_state (policy_check (c\<lparr>sv_limits := u\<rparr>) pk blob stored) w) = Inr ()
    \<and> isl (fst (run_state (policy_check (c\<lparr>sv_limits := u\<lparr>ul_enabled := False\<rparr>\<rparr>) pk blob stored) w))"
proof -
  have "wp (policy_check (c\<lparr>sv_limits := u\<rparr>) pk blob stored) (\<lambda>r w'. r = Inr ()) w"
    using assms(1,2) by (simp add: policy_check_def CheckUpload_def checkDailyRoom_def ValidateMimeType_def ValidateFileSize_def
        limits_of_def Let_def wp_simp)
  moreover have "wp (policy_check (c\<lparr>sv_limits := u\<lparr>ul_enabled := False\<rparr>\<rparr>) pk blob stored) (\<lambda>r w'. isl r) w"
    using assms(3) by (simp add: policy_check_def wp_simp)
  ultimately show ?thesis by (auto simp: wp_def split: prod.splits)
qed

theorem open_tier_skips_global_limits_witness:
  "\<exists>u. fst (run_state (policy_check (open_services\<lparr>sv_mime := \<lparr>ms_all = False, ms_allowed = []\<rparr>, sv_limits := u\<rparr>) ''a'' [7] ''text/plain'')
    (start_world empty_db)) = Inr ()"
proof -
  let ?t = "\<lparr>tl_max_bytes = 0, tl_prefixes = [], tl_per_day = 0\<rparr>"
  let ?u = "\<lparr>ul_enabled = True, ul_anonymous = ?t, ul_named = ?t, ul_paid = ?t, ul_client = None\<rparr>"
  have l: "limits_of ?u ''a'' = ?t" by (simp add: limits_of_def tierConfig_def getTier_def)
  have m: "mime_IsAllowed (sv_mime (open_services\<lparr>sv_mime := \<lparr>ms_all = False, ms_allowed = []\<rparr>\<rparr>))
      (md_detect (sv_media (open_services\<lparr>sv_mime := \<lparr>ms_all = False, ms_allowed = []\<rparr>\<rparr>)) [7]) = Inl ErrMimeTypeNotAllowed"
    by (simp add: mime_IsAllowed_def)
  from open_tier_skips_global_limits [OF l _ m] show ?thesis by fastforce
qed

text \<open>A mirror request of a key without upload rights, or of one over its quota, is refused without a fetch: the
  outcome does not depend on what the other server would have answered.\<close>

theorem refused_mirror_does_not_fetch:
  assumes "acr_Validate (sv_acr c) pk ''UPLOAD'' = Inl e \<or> quiet w \<and> db_inv (w_db w) \<and> qs_enabled (sv_quota c)
      \<and> i64 (balance pk (w_db w) + 1) > quota_of (sv_quota c) pk (w_db w)"
  shows "isl (fst (run_state (MirrorBlob c fetch pk h url mode) w))
    \<and> run_state (MirrorBlob c fetch pk h url mode) w = run_state (MirrorBlob c fetch' pk h url mode) w"
  using assms
proof
  assume "acr_Validate (sv_acr c) pk ''UPLOAD'' = Inl e"
  then show ?thesis by (simp add: MirrorBlob_def and_then_def)
next
  assume q: "quiet w \<and> db_inv (w_db w) \<and> qs_enabled (sv_quota c) \<and> i64 (balance pk (w_db w) + 1) > quota_of (sv_quota c) pk (w_db w)"
  have "wp (CheckQuota (sv_quota c) pk 1) (\<lambda>r w'. isl r) w"
    by (rule wp_mono [OF CheckQuota_quiet]) (use q in auto)
  then obtain e' w' where "run_state (CheckQuota (sv_quota c) pk 1) w = (Inl e', w')"
    by (auto simp: wp_def isl_def split: prod.splits)
  then show ?thesis
    by (cases "acr_Validate (sv_acr c) pk ''UPLOAD''") (simp_all add: MirrorBlob_def and_then_def wrap_def)
qed

theorem refused_mirror_does_not_fetch_witness:
  "run_state (MirrorBlob (open_services\<lparr>sv_acr := []\<rparr>) (\<lambda>_. None) ''a'' ''h'' \<lparr>su_scheme = ''http'', su_rest = ''x''\<rparr> ''none'') (start_world empty_db)
    = run_state (MirrorBlob (open_services\<lparr>sv_acr := []\<rparr>) (\<lambda>_. Some (200, [7])) ''a'' ''h'' \<lparr>su_scheme = ''http'', su_rest = ''x''\<rparr> ''none'') (start_world empty_db)"
  by (rule refused_mirror_does_not_fetch [where e = "Msg ''invalid state: there must be at least one rule for the resource''", THEN conjunct2]) (simp add: acr_Validate_def)

end
