(* ===== verification/OperatorRules.thy ===== *)
theory OperatorRules
  imports UploadRules
begin

text \<open>
  The operator's delete (\<^verbatim>\<open>src/bud-02/admin_delete.go\<close>): what a dry run reports, and that the real run removes the blob from
  all its owners and credits each of them.
\<close>

section \<open>The loop over the owners\<close>

text \<open>An owner's reference is found.\<close>

lemma remove_reference_found:
  assumes inv: "db_inv (w_db w)" and "w_saved w = None" and o: "owns pk h (owned (w_db w))"
  shows "wp (remove_reference pk h) (\<lambda>r w'. \<forall>e. r = Inl e \<longrightarrow> \<not> errors_is e ErrReferenceNotFound) w"
proof -
  define P where "P = (\<lambda>(r :: bool result) (d' :: dbstate). \<forall>e. r = Inl e \<longrightarrow> \<not> errors_is e ErrReferenceNotFound)"
  have keys: "db_keys (w_db w)" using inv by (simp add: db_inv_def)
  have del: "q_DeleteBlobReference pk h (w_db w)
      = (Inr 1, (w_db w)\<lparr>t_refs := filter (\<lambda>r. \<not> is_ref pk h r) (t_refs (w_db w))\<rparr>)"
    using q_DeleteBlobReference_eq [OF keys, of pk h] keys o
    by (cases "q_DeleteBlobReference pk h (w_db w)") (simp add: owns_owned)
  have dec: "e = ErrOutOfRange \<or> e = ErrNoRows" if "q_DecrementBlobRefCount h d = (Inl e, d')" for e d d'
    using that by (auto simp: q_DecrementBlobRefCount_def add_ref_count_def split: if_splits option.splits)
  have own: "e = ErrNoRows" if "q_DeleteOwnerlessBlob h d = (Inl e, d')" for e d d'
    using that by (auto simp: q_DeleteOwnerlessBlob_def split: if_splits)
  have lock: "\<exists>n. q_LockBlobRow h d = (Inr n, d)" for d by (simp add: q_LockBlobRow_def)
  obtain n where n: "q_LockBlobRow h (w_db w) = (Inr n, w_db w)" using lock by blast
  have fin: "txp (finish_removal h) P d0 d" for d0 d
    unfolding finish_removal_def by (intro txp_rule) (auto simp: P_def dest: own)
  have body: "txp (do {
       m \<leftarrow> exec_sql (q_DecrementBlobRefCount h);
       case m of
         Inl e \<Rightarrow> if \<not> errors_is e ErrNoRows then ret (Inl (Wrap ''decrement ref count'' e)) else finish_removal h
       | Inr _ \<Rightarrow> finish_removal h }) P d0 d" for d0 d
    by (intro txp_rule fin) (auto simp: P_def dest: dec)
  have "wp (remove_reference pk h) (\<lambda>r w'. w_saved w' = None \<and> same_env w w' \<and> w_objects w' = w_objects w \<and> P r (w_db w')) w"
    unfolding remove_reference_def
    by (rule wp_with_tx [OF assms(2)])
      (auto simp: P_def intro!: txp_exec_eq [where f = "q_LockBlobRow h", OF n]
        txp_exec_eq [where f = "q_DeleteBlobReference pk h", OF del] txp_ret body [unfolded P_def])
  then show ?thesis by (rule wp_mono) (simp add: P_def)
qed

lemma DeleteReference_found:
  assumes "db_inv (w_db w)" "w_saved w = None" "owns pk h (owned (w_db w))"
  shows "wp (DeleteReference c pk h) (\<lambda>r w'. \<forall>e. r = Inl e \<longrightarrow> \<not> errors_is e ErrReferenceNotFound) w"
  unfolding DeleteReference_def wp_bind
proof (rule wp_mono [OF remove_reference_found [OF assms]])
  fix r :: "bool result" and w1 assume r: "\<forall>e. r = Inl e \<longrightarrow> \<not> errors_is e ErrReferenceNotFound"
  show "wp (case r of Inl e \<Rightarrow> ret (Inl e)
     | Inr lst \<Rightarrow> do { _ \<leftarrow> (if lst \<and> bs_storage c then st_Delete h else ret (Inr ())); ret (Inr lst) })
     (\<lambda>r w'. \<forall>e. r = Inl e \<longrightarrow> \<not> errors_is e ErrReferenceNotFound) w1"
    using r by (cases r) (auto simp: wp_simp intro!: wp_Delete)
qed

text \<open>The state of the loop: the blob of the row \<open>b\<close> is owned by some of the keys it was owned by, and nothing else
  has changed in the map \<open>m\<close> of owned blobs.\<close>

definition deleting :: "string \<Rightarrow> int \<Rightarrow> owner_map \<Rightarrow> world \<Rightarrow> bool" where
  "deleting h sz m w \<longleftrightarrow> quiet w \<and> balanced (w_db w) \<and> w_saved w = None \<and> (\<forall>pk. in_i64 (balance pk (w_db w)))
     \<and> (\<forall>h'. h' \<noteq> h \<longrightarrow> owned (w_db w) h' = m h')
     \<and> (\<forall>b S. owned (w_db w) h = Some (b, S) \<longrightarrow> charge b = sz)
     \<and> (\<forall>pk. owns pk h (owned (w_db w)) \<longrightarrow> owns pk h m)"

lemma deleting_reads: "deleting h sz m w \<Longrightarrow> quiet w' \<Longrightarrow> reads_only w w' \<Longrightarrow> deleting h sz m w'"
  by (simp add: deleting_def reads_only_def)

lemma deleting_drop:
  assumes "deleting h sz m w" "owned (w_db w) h = Some (b, S)" "pk \<in> S"
    and "quiet w1" "balanced (w_db w1)" "w_saved w1 = None" "owned (w_db w1) = drop_owner pk h (owned (w_db w))"
  shows "deleting h sz m w1 \<and> (\<forall>pk'. owns pk' h (owned (w_db w1)) \<longleftrightarrow> pk' \<noteq> pk \<and> owns pk' h (owned (w_db w)))"
proof -
  have bal: "balanced (w_db w)" "\<forall>pk. in_i64 (balance pk (w_db w))" using assms(1) by (simp_all add: deleting_def)
  have "balance pk' (w_db w1) \<le> balance pk' (w_db w)" "0 \<le> balance pk' (w_db w1)" for pk'
    using usage_drop_owner [OF finite_dom_owned assms(2,3), of pk'] charge_le_usage [OF finite_dom_owned _ assms(2,3)]
      usage_nonneg [of "owned (w_db w1)" pk'] bal(1) assms(5)
    by (auto simp: balanced_def assms(7))
  then have "in_i64 (balance pk' (w_db w1))" for pk'
    using bal(2) [rule_format, of pk'] by (auto simp: in_i64_def intro: order.strict_trans1 order_trans [of _ 0])
  moreover have "drop_owner pk h (owned (w_db w)) h' = owned (w_db w) h'" if "h' \<noteq> h" for h'
    using that by (simp add: drop_owner_def)
  moreover have "owns pk' h (drop_owner pk h (owned (w_db w))) \<longleftrightarrow> pk' \<noteq> pk \<and> owns pk' h (owned (w_db w))" for pk'
    using assms(2) by (auto simp: drop_owner_def owns_def)
  moreover have "charge b' = sz" if "drop_owner pk h (owned (w_db w)) h = Some (b', S')" for b' S'
    using that assms(1,2) by (auto simp: drop_owner_def deleting_def split: if_splits)
  ultimately show ?thesis using assms by (simp add: deleting_def)
qed

lemma admin_owners_spec:
  "deleting h sz m w \<Longrightarrow> wp (admin_owners c h sz pks removed) (\<lambda>(removed', err) w'. deleting h sz m w'
     \<and> (err = None \<longrightarrow> (\<forall>pk. owns pk h (owned (w_db w')) \<longleftrightarrow> pk \<notin> set pks \<and> owns pk h (owned (w_db w)))
          \<and> set removed' = set removed \<union> {pk \<in> set pks. owns pk h (owned (w_db w))})) w"
proof (induction pks arbitrary: removed w)
  case Nil
  then show ?case by (simp add: wp_ret)
next
  case (Cons pk pks)
  let ?o = "\<lambda>pk w. owns pk h (owned (w_db w))"
  let ?Q = "\<lambda>(removed', err) w'. deleting h sz m w'
     \<and> (err = None \<longrightarrow> (\<forall>pk'. ?o pk' w' \<longleftrightarrow> pk' \<notin> set (pk # pks) \<and> ?o pk' w)
          \<and> set removed' = set removed \<union> {pk' \<in> set (pk # pks). ?o pk' w})"
  have keys: "db_keys (w_db w)" using Cons.prems by (simp add: deleting_def balanced_def db_inv_def)
  have q: "quiet w" using Cons.prems by (simp add: deleting_def)
  have skip: "wp (admin_owners c h sz pks removed) ?Q w1" if "deleting h sz m w1" "owned (w_db w1) = owned (w_db w)" "\<not> ?o pk w" for w1
    by (rule wp_mono [OF Cons.IH [OF that(1)]]) (use that in \<open>auto split: prod.splits\<close>)
  have go: "wp (do {
           r \<leftarrow> DeleteReference (sv_blobs c) pk h;
           case r of
             Inl e \<Rightarrow> if errors_is e ErrReferenceNotFound then admin_owners c h sz pks removed
                      else ret (removed, Some (Wrap ''delete reference'' e))
           | Inr _ \<Rightarrow> do { _ \<leftarrow> DecrementUsage pk sz; admin_owners c h sz pks (removed @ [pk]) } }) ?Q w1"
    if w1: "deleting h sz m w1" "owned (w_db w1) = owned (w_db w)" and o: "?o pk w" for w1
  proof -
    have i: "w_saved w1 = None" "quiet w1" "balanced (w_db w1)" "in_i64 (balance pk (w_db w1))"
      using w1(1) unfolding deleting_def by blast+
    then have inv: "db_inv (w_db w1)" by (simp add: balanced_def)
    obtain b S where b: "owned (w_db w1) h = Some (b, S)" "pk \<in> S" "charge b = sz"
      using o w1 by (auto simp: owns_def deleting_def split: option.splits)
    have o1: "owns pk h (owned (w_db w1))" using o w1(2) by simp
    have rest: "wp (admin_owners c h sz pks (removed @ [pk])) ?Q w3"
      if w3: "quiet w3" "balanced (w_db w3)" "w_saved w3 = None" "owned (w_db w3) = drop_owner pk h (owned (w_db w1))" for w3
    proof -
      note d3 = deleting_drop [OF w1(1) b(1,2) w3]
      show ?thesis
        by (rule wp_mono [OF Cons.IH [OF conjunct1 [OF d3]]])
          (use d3 o w1(2) in \<open>auto split: prod.splits\<close>)
    qed
    show ?thesis
      unfolding wp_bind
    proof (rule wp_mono [OF quiet_conj [OF i(2) keeps_quiet_blobs(2) wp_conj [OF DeleteReference_found [OF inv i(1) o1]
            DeleteReference_spec [OF inv i(1)]]]], elim conjE)
      fix r :: "bool result" and w2
      assume w2: "quiet w2" "w_saved w2 = None" and nf: "\<forall>e. r = Inl e \<longrightarrow> \<not> errors_is e ErrReferenceNotFound"
        and r: "case r of
          Inl _ \<Rightarrow> w_db w2 = w_db w1 \<and> w_objects w2 = w_objects w1
        | Inr lst \<Rightarrow> owns pk h (owned (w_db w1)) \<and> db_inv (w_db w2)
            \<and> owned (w_db w2) = drop_owner pk h (owned (w_db w1)) \<and> lst = (owned (w_db w2) h = None)
            \<and> others (w_db w2) = others (w_db w1)
            \<and> (w_objects w2 = w_objects w1 \<or> lst \<and> w_objects w2 = (w_objects w1)(h := None))"
      show "wp (case r of
             Inl e \<Rightarrow> if errors_is e ErrReferenceNotFound then admin_owners c h sz pks removed
                      else ret (removed, Some (Wrap ''delete reference'' e))
           | Inr _ \<Rightarrow> do { _ \<leftarrow> DecrementUsage pk sz; admin_owners c h sz pks (removed @ [pk]) }) ?Q w2"
      proof (cases r)
        case (Inl e)
        then have "deleting h sz m w2" using r w1(1) w2 by (simp add: deleting_def)
        then show ?thesis using nf Inl by (simp add: wp_ret)
      next
        case (Inr l)
        have w2': "db_inv (w_db w2)" "owned (w_db w2) = drop_owner pk h (owned (w_db w1))" "others (w_db w2) = others (w_db w1)"
          using r Inr by simp_all
        show ?thesis
          unfolding Inr sum.case wp_bind b(3) [symmetric]
          by (rule wp_mono [OF credit_after_drop [OF i(3,4) b(1,2) w2(1) w2']])
            (use w2(2) w2'(2) rest in \<open>auto simp: only_users_def b(3)\<close>)
      qed
    qed
  qed
  show ?case
    unfolding admin_owners.simps wp_bind
  proof (rule wp_mono [OF quiet_conj [OF q keeps_quiet_blobs(6) HasReference_reads [OF keys]]], elim conjE)
    fix r :: "bool result" and w1
    assume w1: "quiet w1" "reads_only w w1" and r: "\<forall>x. r = Inr x \<longrightarrow> x = ?o pk w"
    have d: "deleting h sz m w1" "owned (w_db w1) = owned (w_db w)"
      using deleting_reads [OF Cons.prems w1] w1 by (simp_all add: reads_only_def)
    show "wp (case r of Inl e \<Rightarrow> ret (removed, Some (Wrap ''check reference'' e))
     | Inr has \<Rightarrow>
         if \<not> has then admin_owners c h sz pks removed
         else do {
           r \<leftarrow> DeleteReference (sv_blobs c) pk h;
           case r of
             Inl e \<Rightarrow> if errors_is e ErrReferenceNotFound then admin_owners c h sz pks removed
                      else ret (removed, Some (Wrap ''delete reference'' e))
           | Inr _ \<Rightarrow> do { _ \<leftarrow> DecrementUsage pk sz; admin_owners c h sz pks (removed @ [pk]) }
         }) ?Q w1"
    proof (cases r)
      case (Inl e)
      then show ?thesis using d by (simp add: wp_ret)
    next
      case (Inr has)
      then have has: "has = ?o pk w" using r by blast
      show ?thesis
      proof (cases has)
        case True
        then have t: "\<not> \<not> has" by simp
        show ?thesis unfolding Inr sum.case if_not_P [OF t] by (rule go [OF d]) (use True has in simp)
      next
        case False
        show ?thesis unfolding Inr sum.case if_P [OF False] by (rule skip [OF d]) (use False has in simp)
      qed
    qed
  qed
qed

section \<open>The end of the run\<close>

lemma GetDescriptor_result:
  assumes "quiet w"
  shows "wp (GetDescriptor c h) (\<lambda>r w'. quiet w' \<and> reads_only w w'
    \<and> (case blob_of h (w_db w) of None \<Rightarrow> r = Inl ErrNoRows | Some b \<Rightarrow> \<not> isl r)) w"
  using assms
  by (cases "blob_of h (w_db w)") (simp_all add: GetDescriptor_def wp_simp no_fault quiet_def q_GetBlobFromHash_def first_row_blob Let_def)

lemma admin_finish_spec:
  assumes w: "deleting h sz m w" and none: "\<forall>pk. \<not> owns pk h (owned (w_db w))"
  shows "wp (admin_finish c h res) (\<lambda>(x, err) w'. balanced (w_db w') \<and> x \<noteq> None
     \<and> (err = None \<longrightarrow> x = Some (res\<lparr>ar_deleted := True\<rparr>) \<and> owned (w_db w') = m(h := None))) w"
    (is "wp _ ?Q w")
proof -
  have inv: "db_inv (w_db w)" "db_keys (w_db w)" and i: "quiet w" "balanced (w_db w)" "w_saved w = None"
    and other: "\<forall>h'. h' \<noteq> h \<longrightarrow> owned (w_db w) h' = m h'"
    using w by (simp_all add: deleting_def balanced_def db_inv_def)
  have noowner: "owner_set h (w_db w) = {}" using none by (auto simp: owns_owned [OF inv(2)])
  have gone: "owned (w_db w) = m(h := None)" if "blob_of h (w_db w) = None"
    by (rule ext) (use that other in \<open>simp add: owned_def\<close>)
  have last: "wp (do { d \<leftarrow> DeleteFromHash (sv_blobs c) h;
       ret (case d of Inl e \<Rightarrow> (Some res, Some (Wrap ''delete blob'' e)) | Inr _ \<Rightarrow> (Some (res\<lparr>ar_deleted := True\<rparr>), None)) }) ?Q w1"
    if w1: "quiet w1" "reads_only w w1" "blob_of h (w_db w) = Some b" for w1 b
  proof -
    have e: "w_db w1 = w_db w" "w_saved w1 = None" using w1 i by (simp_all add: reads_only_def)
    show ?thesis
      unfolding wp_bind wp_ret
    proof (rule wp_mono [OF DeleteFromHash_quiet [OF w1(1)]])
      show "db_inv (w_db w1)" "w_saved w1 = None" using e inv by simp_all
    next
      fix d :: "unit result" and w2
      assume d: "d = Inr () \<and> quiet w2 \<and> w_saved w2 = None \<and> same_env w1 w2 \<and> db_inv (w_db w2)
        \<and> owned (w_db w2) = (owned (w_db w1))(h := None) \<and> others (w_db w2) = others (w_db w1)"
      have o: "owned (w_db w) h = Some (bare b, {})" using w1(3) noowner by (simp add: owned_def)
      have o2: "owned (w_db w2) = m(h := None)" by (rule ext) (use d e other in simp)
      have "usage pk (owned (w_db w2)) = usage pk (owned (w_db w))" for pk
        using usage_remove_ownerless [OF finite_dom_owned o] d e by simp
      moreover have "sizes_ok (owned (w_db w2))" using d e i(2) by (simp add: balanced_def sizes_ok_def)
      moreover have "balance pk (w_db w2) = balance pk (w_db w)" for pk
        using others_balance [of "w_db w2" "w_db w1"] d e by simp
      ultimately have "balanced (w_db w2)" using i(2) d by (simp add: balanced_def)
      then show "?Q (case d of Inl e \<Rightarrow> (Some res, Some (Wrap ''delete blob'' e)) | Inr _ \<Rightarrow> (Some (res\<lparr>ar_deleted := True\<rparr>), None)) w2"
        using d o2 by simp
    qed
  qed
  have mid: "wp (do { g \<leftarrow> GetDescriptor (sv_blobs c) h;
           case g of
             Inl e \<Rightarrow> if errors_is e ErrNoRows then ret (Some (res\<lparr>ar_deleted := True\<rparr>), None)
                      else ret (Some res, Some (Wrap ''recheck blob'' e))
           | Inr _ \<Rightarrow> do {
               d \<leftarrow> DeleteFromHash (sv_blobs c) h;
               ret (case d of
                      Inl e \<Rightarrow> (Some res, Some (Wrap ''delete blob'' e))
                    | Inr _ \<Rightarrow> (Some (res\<lparr>ar_deleted := True\<rparr>), None)) } }) ?Q w1"
    if w1: "quiet w1" "reads_only w w1" for w1
    unfolding wp_bind [of "GetDescriptor (sv_blobs c) h"]
  proof (rule wp_mono [OF GetDescriptor_result [OF w1(1)]])
    fix g w2
    assume g: "quiet w2 \<and> reads_only w1 w2 \<and> (case blob_of h (w_db w1) of None \<Rightarrow> g = Inl ErrNoRows | Some b \<Rightarrow> \<not> isl g)"
    have db: "w_db w2 = w_db w" "w_db w1 = w_db w" using g w1(2) by (simp_all add: reads_only_def)
    have r2: "quiet w2" "reads_only w w2" using g reads_only_trans [OF w1(2)] by blast+
    show "wp (case g of
             Inl e \<Rightarrow> if errors_is e ErrNoRows then ret (Some (res\<lparr>ar_deleted := True\<rparr>), None)
                      else ret (Some res, Some (Wrap ''recheck blob'' e))
           | Inr _ \<Rightarrow> do {
               d \<leftarrow> DeleteFromHash (sv_blobs c) h;
               ret (case d of
                      Inl e \<Rightarrow> (Some res, Some (Wrap ''delete blob'' e))
                    | Inr _ \<Rightarrow> (Some (res\<lparr>ar_deleted := True\<rparr>), None)) }) ?Q w2"
    proof (cases "blob_of h (w_db w)")
      case None
      then have "g = Inl ErrNoRows" using g db by simp
      then show ?thesis using i(2) db gone [OF None] by (simp add: wp_ret)
    next
      case (Some b)
      then obtain x where "g = Inr x" using g db by (cases g) auto
      then show ?thesis using last [OF r2(1,2) Some] by simp
    qed
  qed
  show ?thesis
    unfolding admin_finish_def wp_bind [of "ListReferenceOwners h"]
  proof (rule wp_mono [OF quiet_conj [OF i(1) keeps_quiet_blobs(7) ListReferenceOwners_reads]], elim conjE)
    fix o' :: "string list result" and w1
    assume w1: "quiet w1" "reads_only w w1" and o: "\<forall>xs. o' = Inr xs \<longrightarrow> set xs = owner_set h (w_db w)"
    then have b: "balanced (w_db w1)" using i by (simp add: reads_only_def)
    show "wp (case o' of Inl e \<Rightarrow> ret (Some res, Some (Wrap ''recheck owners'' e))
     | Inr remaining \<Rightarrow>
         if length remaining > 0 then ret (Some res, None)
         else do {
           g \<leftarrow> GetDescriptor (sv_blobs c) h;
           case g of
             Inl e \<Rightarrow> if errors_is e ErrNoRows then ret (Some (res\<lparr>ar_deleted := True\<rparr>), None)
                      else ret (Some res, Some (Wrap ''recheck blob'' e))
           | Inr _ \<Rightarrow> do {
               d \<leftarrow> DeleteFromHash (sv_blobs c) h;
               ret (case d of
                      Inl e \<Rightarrow> (Some res, Some (Wrap ''delete blob'' e))
                    | Inr _ \<Rightarrow> (Some (res\<lparr>ar_deleted := True\<rparr>), None))
             }
         }) ?Q w1"
    proof (cases o')
      case (Inl e)
      then show ?thesis using b by (simp add: wp_ret)
    next
      case (Inr xs)
      then have n: "\<not> length xs > 0" using o noowner by simp
      show ?thesis unfolding Inr sum.case if_not_P [OF n] by (rule mid [OF w1])
    qed
  qed
qed

section \<open>Properties\<close>

text \<open>A dry run of the operator's delete changes nothing, whichever calls fail, and reports the owners the blob has.\<close>

theorem dry_run_changes_nothing:
  assumes "run_state (AdminDeleteBlob c h True) w = ((res, err), w')"
  shows "w_db w' = w_db w \<and> w_objects w' = w_objects w
    \<and> (err = None \<longrightarrow> (\<exists>x. res = Some x \<and> set (ar_owners x) = owner_set h (w_db w) \<and> ar_removed x = [] \<and> \<not> ar_deleted x))"
proof -
  let ?Q = "\<lambda>(res, err) w'. w_db w' = w_db w \<and> w_objects w' = w_objects w
    \<and> (err = None \<longrightarrow> (\<exists>x. res = Some x \<and> set (ar_owners x) = owner_set h (w_db w) \<and> ar_removed x = [] \<and> \<not> ar_deleted x))"
  have lst: "wp (do { o' \<leftarrow> ListReferenceOwners h;
         case o' of
           Inl e \<Rightarrow> ret (None, Some (Wrap ''list owners'' e))
         | Inr found \<Rightarrow>
             ret (Some \<lparr>ar_hash = h, ar_size = n, ar_owners = found, ar_removed = [], ar_dry = True, ar_deleted = False\<rparr>, None) }) ?Q w1"
    if "reads_only w w1" for w1 n
    unfolding wp_bind
    by (rule wp_mono [OF ListReferenceOwners_reads]) (use that in \<open>auto simp: wp_ret reads_only_def split: sum.split\<close>)
  have "wp (AdminDeleteBlob c h True) ?Q w"
    unfolding AdminDeleteBlob_def wp_bind [of "GetDescriptor (sv_blobs c) h"]
  proof (rule wp_mono [OF GetDescriptor_reads], elim conjE)
    fix g w1 assume r: "reads_only w w1"
    show "wp (case g of
       Inl e \<Rightarrow> ret (None, Some (if errors_is e ErrNoRows then ErrBlobNotFound else Wrap ''get blob'' e))
     | Inr desc \<Rightarrow> do {
         o' \<leftarrow> ListReferenceOwners h;
         case o' of
           Inl e \<Rightarrow> ret (None, Some (Wrap ''list owners'' e))
         | Inr found \<Rightarrow>
             let res = \<lparr>ar_hash = h, ar_size = d_size desc, ar_owners = found, ar_removed = [],
                        ar_dry = True, ar_deleted = False\<rparr>
             in if True then ret (Some res, None)
                else do {
                  l \<leftarrow> admin_owners c h (d_size desc) found [];
                  case l of (removed, err) \<Rightarrow>
                    (case err of
                       Some e \<Rightarrow> ret (Some (res\<lparr>ar_removed := removed\<rparr>), Some e)
                     | None \<Rightarrow> admin_finish c h (res\<lparr>ar_removed := removed\<rparr>))
                }
       }) ?Q w1"
    proof (cases g)
      case (Inl e)
      then show ?thesis using r by (simp add: wp_ret reads_only_def)
    next
      case (Inr x)
      show ?thesis unfolding Inr sum.case Let_def if_True by (rule lst [OF r])
    qed
  qed
  from wp_run [OF this assms] show ?thesis by simp
qed

theorem dry_run_changes_nothing_witness:
  "w_db (snd (run_state (AdminDeleteBlob open_services ''h'' True) ((start_world accounts_db)\<lparr>w_faults := [False, True]\<rparr>))) = accounts_db"
  using dry_run_changes_nothing [where res = "fst (fst (run_state (AdminDeleteBlob open_services ''h'' True)
      ((start_world accounts_db)\<lparr>w_faults := [False, True]\<rparr>)))" and err = "snd (fst (run_state (AdminDeleteBlob open_services ''h'' True)
      ((start_world accounts_db)\<lparr>w_faults := [False, True]\<rparr>)))", unfolded prod.collapse, OF run_pair]
  by simp

lemma admin_run_spec:
  assumes keys: "db_keys (w_db w)" and d: "deleting h sz (owned (w_db w)) w1" "w_db w1 = w_db w"
    and f: "set found = owner_set h (w_db w)"
  shows "wp (do {
      l \<leftarrow> admin_owners c h sz found [];
      case l of (removed, err) \<Rightarrow>
        (case err of
           Some e \<Rightarrow> ret (Some (rs\<lparr>ar_removed := removed\<rparr>), Some e)
         | None \<Rightarrow> admin_finish c h (rs\<lparr>ar_removed := removed\<rparr>)) })
    (\<lambda>(res, err) w'. balanced (w_db w') \<and> (err = None \<longrightarrow> owned (w_db w') = (owned (w_db w))(h := None)
      \<and> (\<exists>x. res = Some x \<and> ar_deleted x \<and> set (ar_removed x) = owner_set h (w_db w)))) w1" (is "wp _ ?Q w1")
  unfolding wp_bind
proof (rule wp_mono_pair [OF admin_owners_spec [OF d(1)]], elim conjE)
  fix removed and err :: "goerr option" and w2
  assume d2: "deleting h sz (owned (w_db w)) w2"
    and l: "err = None \<longrightarrow> (\<forall>pk. owns pk h (owned (w_db w2)) \<longleftrightarrow> pk \<notin> set found \<and> owns pk h (owned (w_db w1)))
      \<and> set removed = set [] \<union> {pk \<in> set found. owns pk h (owned (w_db w1))}"
  show "wp (case (removed, err) of (removed, err) \<Rightarrow>
        (case err of
           Some e \<Rightarrow> ret (Some (rs\<lparr>ar_removed := removed\<rparr>), Some e)
         | None \<Rightarrow> admin_finish c h (rs\<lparr>ar_removed := removed\<rparr>))) ?Q w2"
  proof (cases err)
    case None
    have "\<forall>pk. \<not> owns pk h (owned (w_db w2))" and r: "set removed = owner_set h (w_db w)"
      using l by (auto simp: None f d(2) owns_owned [OF keys])
    then show ?thesis
      unfolding None prod.case option.case
      by (intro wp_mono_pair [OF admin_finish_spec [OF d2]]) auto
  next
    case (Some e)
    then show ?thesis using d2 by (simp add: wp_ret deleting_def)
  qed
qed

lemma GetDescriptor_charge:
  assumes "quiet w" "balanced (w_db w)"
  shows "wp (GetDescriptor c h) (\<lambda>g w'. quiet w' \<and> reads_only w w' \<and> (\<forall>x. g = Inr x \<longrightarrow>
    (\<forall>b S. owned (w_db w) h = Some (b, S) \<longrightarrow> charge b = d_size x))) w"
proof (rule wp_mono [OF quiet_conj [OF assms(1) keeps_quiet_blobs(5) GetDescriptor_reads]], elim conjE, intro conjI allI impI)
  fix g w1 x b S
  assume g: "\<forall>x. g = Inr x \<longrightarrow> (\<exists>b. blob_of h (w_db w) = Some b \<and> d_size x = (if b_mode b \<noteq> ''server'' then b_size b else charge b))"
    and x: "g = Inr x" and o: "owned (w_db w) h = Some (b, S)"
  obtain b0 where b0: "blob_of h (w_db w) = Some b0" "d_size x = (if b_mode b0 \<noteq> ''server'' then b_size b0 else charge b0)"
    using g x by blast
  have b: "b = bare b0" using o b0 by (simp add: owned_def)
  have "b_mode b \<noteq> ''server'' \<longrightarrow> charge b = b_size b" using assms(2) o unfolding balanced_def sizes_ok_def by blast
  then show "charge b = d_size x" using b0(2) by (simp add: b)
qed

text \<open>C13. When no call fails and every account is within 64 bits, the operator's delete keeps balanced accounts balanced, also if
  it stops with an error; and if it reports no error, the blob is gone, with its last reference or, having none, as a row nobody
  owned, exactly its owners were removed and credited, and no other blob is touched. (A failed credit would leave an account
  too high, as the comment in the code says.)\<close>

theorem admin_delete_removes_and_credits:
  assumes "quiet w" "balanced (w_db w)" "w_saved w = None" "\<forall>pk. in_i64 (balance pk (w_db w))"
    and "run_state (AdminDeleteBlob c h False) w = ((res, err), w')"
  shows "balanced (w_db w') \<and> (err = None \<longrightarrow> owned (w_db w') = (owned (w_db w))(h := None)
    \<and> (\<exists>x. res = Some x \<and> ar_deleted x \<and> set (ar_removed x) = owner_set h (w_db w)))"
proof -
  let ?Q = "\<lambda>(res, err) w'. balanced (w_db w') \<and> (err = None \<longrightarrow> owned (w_db w') = (owned (w_db w))(h := None)
    \<and> (\<exists>x. res = Some x \<and> ar_deleted x \<and> set (ar_removed x) = owner_set h (w_db w)))"
  have keys: "db_keys (w_db w)" using assms(2) by (simp add: balanced_def db_inv_def)
  have run: "wp (do { o' \<leftarrow> ListReferenceOwners h;
         case o' of
           Inl e \<Rightarrow> ret (None, Some (Wrap ''list owners'' e))
         | Inr found \<Rightarrow> do {
             l \<leftarrow> admin_owners c h sz found [];
             case l of (removed, err) \<Rightarrow>
               (case err of
                  Some e \<Rightarrow> ret (Some ((rs found)\<lparr>ar_removed := removed\<rparr>), Some e)
                | None \<Rightarrow> admin_finish c h ((rs found)\<lparr>ar_removed := removed\<rparr>)) } }) ?Q w1"
    if w1: "quiet w1" "reads_only w w1" and sz: "\<forall>b S. owned (w_db w) h = Some (b, S) \<longrightarrow> charge b = sz" for w1 sz rs
    unfolding wp_bind [of "ListReferenceOwners h"]
  proof (rule wp_mono [OF quiet_conj [OF w1(1) keeps_quiet_blobs(7) ListReferenceOwners_reads]], elim conjE)
    fix o' :: "string list result" and w2
    assume w2: "quiet w2" "reads_only w1 w2" and f: "\<forall>xs. o' = Inr xs \<longrightarrow> set xs = owner_set h (w_db w1)"
    have db: "w_db w1 = w_db w" "w_db w2 = w_db w" "w_saved w2 = None" using w1(2) w2(2) assms(3) by (simp_all add: reads_only_def)
    have d: "deleting h sz (owned (w_db w)) w2"
      using assms(2,4) w2(1) sz by (simp add: deleting_def db)
    show "wp (case o' of
           Inl e \<Rightarrow> ret (None, Some (Wrap ''list owners'' e))
         | Inr found \<Rightarrow> do {
             l \<leftarrow> admin_owners c h sz found [];
             case l of (removed, err) \<Rightarrow>
               (case err of
                  Some e \<Rightarrow> ret (Some ((rs found)\<lparr>ar_removed := removed\<rparr>), Some e)
                | None \<Rightarrow> admin_finish c h ((rs found)\<lparr>ar_removed := removed\<rparr>)) }) ?Q w2"
      using assms(2) f by (cases o') (simp_all add: wp_ret db admin_run_spec [OF keys d db(2)])
  qed
  have "wp (AdminDeleteBlob c h False) ?Q w"
    unfolding AdminDeleteBlob_def wp_bind [of "GetDescriptor (sv_blobs c) h"] Let_def if_False
  proof (rule wp_mono [OF GetDescriptor_charge [OF assms(1,2)]], elim conjE)
    fix g :: "blob_desc result" and w1
    assume w1: "quiet w1" "reads_only w w1"
      and g: "\<forall>x. g = Inr x \<longrightarrow> (\<forall>b S. owned (w_db w) h = Some (b, S) \<longrightarrow> charge b = d_size x)"
    show "wp (case g of
       Inl e \<Rightarrow> ret (None, Some (if errors_is e ErrNoRows then ErrBlobNotFound else Wrap ''get blob'' e))
     | Inr desc \<Rightarrow> do { o' \<leftarrow> ListReferenceOwners h;
         case o' of
           Inl e \<Rightarrow> ret (None, Some (Wrap ''list owners'' e))
         | Inr found \<Rightarrow> do {
             l \<leftarrow> admin_owners c h (d_size desc) found [];
             case l of (removed, err) \<Rightarrow>
               (case err of
                  Some e \<Rightarrow> ret (Some (\<lparr>ar_hash = h, ar_size = d_size desc, ar_owners = found, ar_removed = [],
                      ar_dry = False, ar_deleted = False\<rparr>\<lparr>ar_removed := removed\<rparr>), Some e)
                | None \<Rightarrow> admin_finish c h (\<lparr>ar_hash = h, ar_size = d_size desc, ar_owners = found, ar_removed = [],
                      ar_dry = False, ar_deleted = False\<rparr>\<lparr>ar_removed := removed\<rparr>)) } }) ?Q w1"
    proof (cases g)
      case (Inl e)
      then show ?thesis using assms(2) w1(2) by (simp add: wp_ret reads_only_def)
    next
      case (Inr x)
      show ?thesis unfolding Inr sum.case by (rule run [OF w1]) (use g Inr in blast)
    qed
  qed
  from wp_run [OF this assms(5)] show ?thesis by simp
qed

theorem admin_delete_removes_and_credits_witness:
  "\<exists>w'. w' = snd (run_state (AdminDeleteBlob open_services ''h'' False) (start_world accounts_db))
     \<and> owned (w_db w') ''h'' = None \<and> balanced (w_db w')"
proof -
  let ?x = "run_state (AdminDeleteBlob open_services ''h'' False) (start_world accounts_db)"
  have h: "quiet (start_world accounts_db)" "balanced (w_db (start_world accounts_db))" "w_saved (start_world accounts_db) = None"
    "\<forall>pk. in_i64 (balance pk (w_db (start_world accounts_db)))"
    by (simp_all add: in_i64_def)
  have e: "snd (fst ?x) = None" by code_simp
  obtain res err w' where x: "?x = ((res, err), w')" by (metis prod.collapse)
  from admin_delete_removes_and_credits [OF h x] e show ?thesis by (simp add: x)
qed

end
