(* ===== verification/GC.thy ===== *)
theory GC
  imports Accounts "HOL-Library.Sublist"
begin

text \<open>
  The garbage collector of blobs without owner (\<^verbatim>\<open>src/service/gc_service.go\<close>): report, reconcile (dry and wet) and the
  tick of the worker. Whether \<^verbatim>\<open>pg_try_advisory_lock\<close> succeeds, is refused or fails is a parameter; logging and
  metrics are left out.
\<close>

section \<open>Operations\<close>

record gc_report =
  gr_zero :: int
  gr_ownerless :: int

record gc_result =
  gc_dry :: bool
  gc_found :: int
  gc_deleted :: int
  gc_hashes :: "string list"
  gc_skipped :: bool

record gc_config =
  gf_enabled :: bool
  gf_interval :: int
  gf_batch :: int

definition gcReconcileMaxLimit :: int where
  "gcReconcileMaxLimit = 5000"

definition gc_Report :: "gc_report result prog" where
  "gc_Report =
     and_then (wrap ''count zero-ref blobs'' (exec_sql q_CountZeroRefBlobs)) (\<lambda>zeroRef.
     and_then (wrap ''count ownerless blobs'' (exec_sql q_CountOwnerlessBlobs)) (\<lambda>noOwner.
     ret (Inr \<lparr>gr_zero = zeroRef, gr_ownerless = noOwner\<rparr>)))"

definition clampGCLimit :: "int \<Rightarrow> int" where
  "clampGCLimit limit =
     (if limit \<le> 0 then 1000 else if limit > gcReconcileMaxLimit then gcReconcileMaxLimit else limit)"

text \<open>The loop of \<^verbatim>\<open>deleteOwnerless\<close>: a row that gained an owner or cannot be deleted is skipped.\<close>

fun gc_loop :: "bool \<Rightarrow> (string \<times> int) list \<Rightarrow> gc_result \<Rightarrow> gc_result prog" where
  "gc_loop storage [] result = ret result"
| "gc_loop storage ((h, _) # rows) result = do {
     r \<leftarrow> exec_sql (q_DeleteOwnerlessBlob h);
     case r of
       Inl _ \<Rightarrow> gc_loop storage rows result
     | Inr _ \<Rightarrow> do {
         _ \<leftarrow> (if storage then st_Delete h else ret (Inr ()));
         gc_loop storage rows (result\<lparr>gc_hashes := gc_hashes result @ [h], gc_deleted := gc_deleted result + 1\<rparr>)
       }
   }"

definition deleteOwnerless :: "bool \<Rightarrow> int \<Rightarrow> gc_result result prog" where
  "deleteOwnerless storage limit =
     and_then (wrap ''list ownerless blobs'' (exec_sql (q_ListOwnerlessBlobs (i32 limit)))) (\<lambda>rows. do {
       result \<leftarrow> gc_loop storage rows
         \<lparr>gc_dry = False, gc_found = int (length rows), gc_deleted = 0, gc_hashes = [], gc_skipped = False\<rparr>;
       _ \<leftarrow> gc_Report;
       ret (Inr result)
     })"

definition reconcileLocked :: "bool result \<Rightarrow> bool \<Rightarrow> int \<Rightarrow> gc_result result prog" where
  "reconcileLocked lock storage limit =
     (case lock of
        Inl e \<Rightarrow> ret (Inl e)
      | Inr locked \<Rightarrow>
          if \<not> locked
          then ret (Inr \<lparr>gc_dry = False, gc_found = 0, gc_deleted = 0, gc_hashes = [], gc_skipped = True\<rparr>)
          else deleteOwnerless storage limit)"

definition Reconcile :: "bool result \<Rightarrow> bool \<Rightarrow> bool \<Rightarrow> int \<Rightarrow> gc_result result prog" where
  "Reconcile lock storage dryRun limit =
     (if dryRun then
        and_then (wrap ''list ownerless blobs'' (exec_sql (q_ListOwnerlessBlobs (i32 (clampGCLimit limit))))) (\<lambda>rows.
          ret (Inr \<lparr>gc_dry = True, gc_found = int (length rows), gc_deleted = 0, gc_hashes = map fst rows,
                    gc_skipped = False\<rparr>))
      else reconcileLocked lock storage (clampGCLimit limit))"

text \<open>One tick of the worker; the value tells whether the last-run timestamp advances.\<close>

definition gc_runSweep :: "bool result \<Rightarrow> bool \<Rightarrow> gc_config \<Rightarrow> bool prog" where
  "gc_runSweep lock storage cfg = do {
     _ \<leftarrow> gc_Report;
     r \<leftarrow> reconcileLocked lock storage (if gf_batch cfg \<le> 0 then 1000 else gf_batch cfg);
     ret (case r of Inl _ \<Rightarrow> False | Inr x \<Rightarrow> \<not> gc_skipped x)
   }"

section \<open>The ownerless blobs\<close>

definition ownerless_hashes :: "dbstate \<Rightarrow> string list" where
  "ownerless_hashes d = map b_hash (sort_key b_created (filter (ownerless d) (t_blobs d)))"

lemma mem_ownerless_hashes: "h \<in> set (ownerless_hashes d) \<longleftrightarrow> h \<in> b_hash ` set (t_blobs d) \<and> owner_set h d = {}"
  by (auto simp: ownerless_hashes_def ownerless_def owner_set_def owners_def)

lemma mem_ownerless_owned: "h \<in> set (ownerless_hashes d) \<longleftrightarrow> (\<exists>b. owned d h = Some (b, {}))"
  using owned_None [of d h] by (auto simp: mem_ownerless_hashes owned_def)

lemma distinct_ownerless_hashes:
  assumes "db_keys d"
  shows "distinct (ownerless_hashes d)"
proof -
  have "distinct (map b_hash (filter (ownerless d) (t_blobs d)))" using assms by (simp add: db_keys_def distinct_map_filter)
  then have "distinct (filter (ownerless d) (t_blobs d))" "inj_on b_hash (set (filter (ownerless d) (t_blobs d)))"
    by (simp_all add: distinct_map)
  then show ?thesis by (simp add: ownerless_hashes_def distinct_map)
qed

lemma q_ListOwnerlessBlobs_eq:
  "0 \<le> n \<Longrightarrow> \<exists>rows. q_ListOwnerlessBlobs n d = (Inr rows, d) \<and> map fst rows = take (nat n) (ownerless_hashes d)"
  by (simp add: q_ListOwnerlessBlobs_def ownerless_hashes_def take_map o_def)

text \<open>Removing the rows of some ownerless hashes.\<close>

definition without :: "string list \<Rightarrow> dbstate \<Rightarrow> dbstate" where
  "without hs d = d\<lparr>t_blobs := filter (\<lambda>b. b_hash b \<notin> set hs) (t_blobs d)\<rparr>"

lemma without_Nil [simp]: "without [] d = d"
  by (simp add: without_def)

lemma without_without: "without ks (without hs d) = without (hs @ ks) d"
  by (simp add: without_def conj_commute)

lemma ownerless_without [simp]: "ownerless (without hs d) = ownerless d"
  by (rule ext) (simp add: ownerless_def without_def)

lemma ownerless_hashes_without: "ownerless_hashes (without hs d) = filter (\<lambda>h. h \<notin> set hs) (ownerless_hashes d)"
proof -
  have "filter (ownerless d) (t_blobs (without hs d)) = filter (\<lambda>b. b_hash b \<notin> set hs) (filter (ownerless d) (t_blobs d))"
    by (simp add: without_def conj_commute)
  then show ?thesis by (simp add: ownerless_hashes_def filter_map o_def flip: filter_sort)
qed

lemma q_DeleteOwnerlessBlob_without:
  "h \<in> set (ownerless_hashes d) \<Longrightarrow> q_DeleteOwnerlessBlob h d = (Inr h, without [h] d)"
proof -
  assume h: "h \<in> set (ownerless_hashes d)"
  then have no: "\<forall>r \<in> set (t_refs d). r_hash r \<noteq> h" and ex: "\<exists>b \<in> set (t_blobs d). b_hash b = h \<and> ownerless d b"
    by (auto simp: ownerless_hashes_def ownerless_def)
  have r: "filter (\<lambda>r. \<forall>b \<in> set (t_blobs d). b_hash b = h \<and> ownerless d b \<longrightarrow> b_hash b \<noteq> r_hash r) (t_refs d) = t_refs d"
    using no by (intro filter_True) auto
  have b: "(b_hash b = h \<and> ownerless d b) = (b_hash b = h)" for b using no by (auto simp: ownerless_def)
  have "delete_blobs (\<lambda>b. b_hash b = h \<and> ownerless d b) d = without [h] d"
    unfolding delete_blobs_def r by (simp add: b without_def)
  with ex show ?thesis unfolding q_DeleteOwnerlessBlob_def by simp
qed

text \<open>What it means for owners, accounts and invariant.\<close>

lemma without_effect:
  assumes "db_inv d" "set hs \<subseteq> set (ownerless_hashes d)" "distinct hs"
  shows "db_inv (without hs d) \<and> owned (without hs d) = (\<lambda>h. if h \<in> set hs then None else owned d h)
    \<and> others (without hs d) = others d"
  using assms
proof (induction hs arbitrary: d)
  case Nil
  then show ?case by simp
next
  case (Cons h hs)
  have keys: "db_keys d" using Cons.prems(1) by (simp add: db_inv_def)
  have h: "h \<in> set (ownerless_hashes d)" using Cons.prems(2) by simp
  have one: "db_inv (without [h] d) \<and> owned (without [h] d) = (owned d)(h := None) \<and> others (without [h] d) = others d"
    using q_DeleteOwnerlessBlob_without [OF h] Cons.prems(1)
    by (cases rule: q_DeleteOwnerlessBlob_cases [OF q_DeleteOwnerlessBlob_without [OF h] keys]) (auto simp: db_inv_def)
  have "set hs \<subseteq> set (ownerless_hashes (without [h] d))"
    using Cons.prems(2,3) by (auto simp: ownerless_hashes_without)
  from Cons.IH [OF conjunct1 [OF one] this] Cons.prems(3) one show ?case
    unfolding without_without append_Cons append_Nil by (auto simp: fun_eq_iff)
qed

section \<open>Runs\<close>

lemma gc_Report_reads: "wp gc_Report (\<lambda>_. reads_only w) w"
  by (auto simp: gc_Report_def wp_simp q_CountZeroRefBlobs_def q_CountOwnerlessBlobs_def reads_only_def same_env_def
      intro!: wp_exec)

lemma keeps_quiet_gc [keeps_rule]: "keeps quiet gc_Report" "keeps quiet (gc_loop s rows res)"
proof -
  show "keeps quiet gc_Report" unfolding gc_Report_def and_then_def wrap_def by (intro keeps_rule)
  show "keeps quiet (gc_loop s rows res)"
    by (induction s rows res rule: gc_loop.induct) (auto intro!: keeps_rule)
qed

definition collected :: "string list \<Rightarrow> world \<Rightarrow> gc_result \<Rightarrow> gc_result \<Rightarrow> world \<Rightarrow> bool" where
  "collected ks w res res' w' \<longleftrightarrow>
     res' = res\<lparr>gc_hashes := gc_hashes res @ ks, gc_deleted := gc_deleted res + int (length ks)\<rparr>
     \<and> w_db w' = without ks (w_db w) \<and> w_saved w' = w_saved w \<and> (\<forall>h. h \<notin> set ks \<longrightarrow> w_objects w' h = w_objects w h)"

lemma collected_step:
  assumes "collected ks w1 (res\<lparr>gc_hashes := gc_hashes res @ [h], gc_deleted := gc_deleted res + 1\<rparr>) res' w'"
    and "w_db w1 = without [h] (w_db w)" "w_saved w1 = w_saved w" "\<forall>h'. h' \<noteq> h \<longrightarrow> w_objects w1 h' = w_objects w h'"
  shows "collected (h # ks) w res res' w'"
  using assms by (simp add: collected_def without_without)

text \<open>Whichever calls fail, the loop removes the rows of some of the listed hashes, in order; when none fails, of all.\<close>

lemma gc_loop_spec:
  "db_keys (w_db w) \<Longrightarrow> set (map fst rows) \<subseteq> set (ownerless_hashes (w_db w)) \<Longrightarrow> distinct (map fst rows) \<Longrightarrow>
   wp (gc_loop storage rows res) (\<lambda>res' w'. \<exists>ks. subseq ks (map fst rows) \<and> (quiet w \<longrightarrow> ks = map fst rows)
     \<and> collected ks w res res' w') w"
proof (induction rows arbitrary: w res)
  case Nil
  then show ?case by (auto simp: wp_ret collected_def)
next
  case (Cons x rows)
  obtain h n where x: "x = (h, n)" by (cases x)
  have h: "h \<in> set (ownerless_hashes (w_db w))" using Cons.prems(2) by (simp add: x)
  note q = q_DeleteOwnerlessBlob_without [OF h]
  let ?res = "res\<lparr>gc_hashes := gc_hashes res @ [h], gc_deleted := gc_deleted res + 1\<rparr>"
  let ?Q = "\<lambda>res' w'. \<exists>ks. subseq ks (map fst (x # rows)) \<and> (quiet w \<longrightarrow> ks = map fst (x # rows)) \<and> collected ks w res res' w'"
  have skip: "wp (gc_loop storage rows res) ?Q (w\<lparr>w_faults := fs\<rparr>)" if "\<not> quiet w" for fs
    by (rule wp_mono [OF Cons.IH]) (use Cons.prems that in \<open>auto simp: collected_def intro: subseq_Cons'\<close>)
  have del: "wp (gc_loop storage rows ?res) ?Q w1"
    if w1: "w_db w1 = without [h] (w_db w)" "w_saved w1 = w_saved w" "\<forall>h'. h' \<noteq> h \<longrightarrow> w_objects w1 h' = w_objects w h'"
      "quiet w \<longrightarrow> quiet w1" for w1
  proof (rule wp_mono [OF Cons.IH])
    show "db_keys (w_db w1)"
      using Cons.prems(1) w1(1) by (cases rule: q_DeleteOwnerlessBlob_cases [OF q Cons.prems(1)]) auto
    show "set (map fst rows) \<subseteq> set (ownerless_hashes (w_db w1))" "distinct (map fst rows)"
      using Cons.prems(2,3) by (auto simp: w1(1) ownerless_hashes_without x)
  next
    fix res' w2
    assume "\<exists>ks. subseq ks (map fst rows) \<and> (quiet w1 \<longrightarrow> ks = map fst rows) \<and> collected ks w1 ?res res' w2"
    then obtain ks where "subseq ks (map fst rows)" "quiet w1 \<longrightarrow> ks = map fst rows" "collected ks w1 ?res res' w2" by blast
    then show "?Q res' w2"
      using w1(4) collected_step [OF _ w1(1-3)] by (intro exI [of _ "h # ks"]) (simp add: x)
  qed
  have obj: "wp (if storage then st_Delete h else ret (Inr ())) (\<lambda>_. wp (gc_loop storage rows ?res) ?Q) w1"
    if w1: "w_db w1 = without [h] (w_db w)" "w_saved w1 = w_saved w" "w_objects w1 = w_objects w" "quiet w \<longrightarrow> quiet w1" for w1
  proof -
    have "wp (if storage then st_Delete h else ret (Inr ())) (\<lambda>_ w2. (quiet w1 \<longrightarrow> quiet w2) \<and> w_db w2 = w_db w1
        \<and> w_saved w2 = w_saved w1 \<and> (\<forall>h'. h' \<noteq> h \<longrightarrow> w_objects w2 h' = w_objects w1 h')) w1"
      by (cases "quiet w1") (auto simp: wp_simp no_fault quiet_def intro!: wp_Delete)
    then show ?thesis by (rule wp_mono) (use w1 del in auto)
  qed
  show ?case
    unfolding x gc_loop.simps wp_bind
    by (rule wp_exec_either [where f = "q_DeleteOwnerlessBlob h", OF q])
      (use skip obj in \<open>simp_all add: x wp_bind quiet_def\<close>)
qed

text \<open>A whole wet run, and the list a dry run reports.\<close>

lemma deleteOwnerless_spec:
  assumes "db_keys (w_db w)" "0 \<le> limit" "limit < 2 ^ 31"
  shows "wp (deleteOwnerless storage limit) (\<lambda>r w'. \<exists>ks. subseq ks (take (nat limit) (ownerless_hashes (w_db w)))
     \<and> (quiet w \<longrightarrow> (\<exists>res. r = Inr res) \<and> ks = take (nat limit) (ownerless_hashes (w_db w)))
     \<and> w_db w' = without ks (w_db w) \<and> w_saved w' = w_saved w \<and> (quiet w \<longrightarrow> quiet w')
     \<and> (\<forall>h. h \<notin> set ks \<longrightarrow> w_objects w' h = w_objects w h)
     \<and> (\<forall>res. r = Inr res \<longrightarrow> gc_hashes res = ks \<and> gc_deleted res = int (length ks) \<and> \<not> gc_skipped res)) w"
    (is "wp _ ?Q w")
proof -
  obtain rows where rows: "q_ListOwnerlessBlobs (i32 limit) (w_db w) = (Inr rows, w_db w)"
      "map fst rows = take (nat limit) (ownerless_hashes (w_db w))"
    using q_ListOwnerlessBlobs_eq [OF assms(2)] assms(2,3) by (auto simp: in_i32_def)
  have sub: "set (map fst rows) \<subseteq> set (ownerless_hashes (w_db w))" "distinct (map fst rows)"
    using distinct_ownerless_hashes [OF assms(1)] by (auto simp: rows(2) distinct_take dest: in_set_takeD simp flip: set_map)
  have loop: "wp (do { result \<leftarrow> gc_loop storage rows
         \<lparr>gc_dry = False, gc_found = int (length rows), gc_deleted = 0, gc_hashes = [], gc_skipped = False\<rparr>;
       _ \<leftarrow> gc_Report; ret (Inr result) }) ?Q (w\<lparr>w_faults := fs\<rparr>)" if fs: "quiet w \<Longrightarrow> fs = []" for fs
  proof -
    note run = gc_loop_spec [of "w\<lparr>w_faults := fs\<rparr>" rows storage, OF _ _ sub(2)]
    show ?thesis
      unfolding wp_bind
    proof (rule wp_mono [OF quiet_imp [OF keeps_quiet_gc(2) run]])
      show "db_keys (w_db (w\<lparr>w_faults := fs\<rparr>))" "set (map fst rows) \<subseteq> set (ownerless_hashes (w_db (w\<lparr>w_faults := fs\<rparr>)))"
        using assms(1) sub(1) by simp_all
    next
      fix res w1
      assume r: "(quiet (w\<lparr>w_faults := fs\<rparr>) \<longrightarrow> quiet w1) \<and> (\<exists>ks. subseq ks (map fst rows)
        \<and> (quiet (w\<lparr>w_faults := fs\<rparr>) \<longrightarrow> ks = map fst rows)
        \<and> collected ks (w\<lparr>w_faults := fs\<rparr>) \<lparr>gc_dry = False, gc_found = int (length rows), gc_deleted = 0, gc_hashes = [],
             gc_skipped = False\<rparr> res w1)"
      have q: "quiet w \<longrightarrow> quiet (w\<lparr>w_faults := fs\<rparr>)" using fs by (simp add: quiet_def)
      show "wp gc_Report (\<lambda>_. wp (ret (Inr res)) ?Q) w1"
        unfolding wp_ret
        by (rule wp_mono [OF quiet_imp [OF keeps_quiet_gc(1) gc_Report_reads]])
          (use r q rows(2) in \<open>auto simp: collected_def reads_only_def\<close>)
    qed
  qed
  show ?thesis
    unfolding deleteOwnerless_def wp_and_then wp_wrap
    by (rule wp_exec_either [where f = "q_ListOwnerlessBlobs (i32 limit)", OF rows(1)])
      (use loop in auto)
qed

lemma clampGCLimit_bounds: "1 \<le> clampGCLimit n \<and> clampGCLimit n \<le> 5000"
  by (simp add: clampGCLimit_def gcReconcileMaxLimit_def)

lemma Reconcile_spec:
  assumes "db_keys (w_db w)"
  shows "wp (Reconcile lock storage dry n) (\<lambda>r w'. \<exists>ks. subseq ks (take (nat (clampGCLimit n)) (ownerless_hashes (w_db w)))
     \<and> w_db w' = without ks (w_db w) \<and> (\<forall>h. h \<notin> set ks \<longrightarrow> w_objects w' h = w_objects w h)
     \<and> (dry \<or> lock \<noteq> Inr True \<longrightarrow> ks = [])) w"
proof -
  note b = clampGCLimit_bounds [of n]
  obtain rows where rows: "q_ListOwnerlessBlobs (i32 (clampGCLimit n)) (w_db w) = (Inr rows, w_db w)"
    using q_ListOwnerlessBlobs_eq [of "clampGCLimit n" "w_db w"] b by (auto simp: in_i32_def)
  have wet: "wp (deleteOwnerless storage (clampGCLimit n)) (\<lambda>r w'. \<exists>ks. subseq ks (take (nat (clampGCLimit n)) (ownerless_hashes (w_db w)))
     \<and> w_db w' = without ks (w_db w) \<and> (\<forall>h. h \<notin> set ks \<longrightarrow> w_objects w' h = w_objects w h)) w"
    by (rule wp_mono [OF deleteOwnerless_spec [OF assms]]) (use b in auto)
  show ?thesis
  proof (cases "dry \<or> lock \<noteq> Inr True")
    case True
    have "wp (Reconcile lock storage dry n) (\<lambda>r w'. w_db w' = w_db w \<and> w_objects w' = w_objects w) w"
    proof (cases dry)
      case True
      then show ?thesis by (simp add: Reconcile_def wp_simp) (rule wp_exec, auto simp: rows wp_simp)
    next
      case False
      then show ?thesis using True by (cases lock) (auto simp: Reconcile_def reconcileLocked_def wp_simp)
    qed
    then show ?thesis by (rule wp_mono) (auto intro!: exI [of _ "[]"])
  next
    case False
    then have "Reconcile lock storage dry n = deleteOwnerless storage (clampGCLimit n)" "\<not> (dry \<or> lock \<noteq> Inr True)"
      by (simp_all add: Reconcile_def reconcileLocked_def)
    then show ?thesis using wet by (simp only: simp_thms)
  qed
qed

text \<open>A wet run in a quiet world that holds the lock.\<close>

lemma Reconcile_wet:
  assumes "db_keys (w_db w)" "quiet w"
  shows "wp (Reconcile (Inr True) storage False n) (\<lambda>r w'. quiet w'
     \<and> w_db w' = without (take (nat (clampGCLimit n)) (ownerless_hashes (w_db w))) (w_db w)
     \<and> (\<exists>res. r = Inr res \<and> gc_hashes res = take (nat (clampGCLimit n)) (ownerless_hashes (w_db w)))) w"
proof -
  have "Reconcile (Inr True) storage False n = deleteOwnerless storage (clampGCLimit n)"
    by (simp add: Reconcile_def reconcileLocked_def)
  then show ?thesis
    using clampGCLimit_bounds [of n] assms(2)
    by (simp only:) (rule wp_mono [OF deleteOwnerless_spec [OF assms(1)]], auto)
qed

lemma filter_take_distinct: "distinct xs \<Longrightarrow> filter (\<lambda>x. x \<notin> set (take n xs)) xs = drop n xs"
proof -
  assume d: "distinct xs"
  have "filter (\<lambda>x. x \<notin> set (take n xs)) (take n xs @ drop n xs) = drop n xs"
    unfolding filter_append using d set_take_disj_set_drop_if_distinct [OF d, of n n]
    by (auto simp: filter_empty_conv intro!: filter_True)
  then show ?thesis by simp
qed

lemma ownerless_after_run:
  "db_keys d \<Longrightarrow> ownerless_hashes (without (take n (ownerless_hashes d)) d) = drop n (ownerless_hashes d)"
  by (simp add: ownerless_hashes_without filter_take_distinct distinct_ownerless_hashes)

section \<open>Properties\<close>

text \<open>C15. Whichever calls fail and whoever holds the lock: a reconcile removes only rows nobody owns. Owners, accounts and
  the stored objects of owned blobs stay as they are, and so does the invariant of the tables; a dry run and
  a run without the lock remove nothing.\<close>

theorem reconcile_spares_owned:
  assumes "db_inv (w_db w)" "run_state (Reconcile lock storage dry n) w = (r, w')"
  shows "db_inv (w_db w') \<and> (\<forall>pk. balance pk (w_db w') = balance pk (w_db w))
    \<and> (\<forall>h. owned (w_db w') h = owned (w_db w) h \<and> w_objects w' h = w_objects w h
        \<or> \<not> dry \<and> lock = Inr True \<and> owned (w_db w') h = None \<and> (\<exists>b. owned (w_db w) h = Some (b, {})))"
proof -
  have keys: "db_keys (w_db w)" using assms(1) by (simp add: db_inv_def)
  obtain ks where ks: "subseq ks (take (nat (clampGCLimit n)) (ownerless_hashes (w_db w)))" "w_db w' = without ks (w_db w)"
      "\<forall>h. h \<notin> set ks \<longrightarrow> w_objects w' h = w_objects w h" "dry \<or> lock \<noteq> Inr True \<longrightarrow> ks = []"
    using wp_run [OF Reconcile_spec [OF keys] assms(2)] by blast
  have sub: "set ks \<subseteq> set (ownerless_hashes (w_db w))"
    using ks(1) by (auto dest: list_emb_set in_set_takeD)
  have "distinct ks" using subseqs_distinctD [of ks] ks(1) distinct_ownerless_hashes [OF keys] by simp
  note e = without_effect [OF assms(1) sub this, folded ks(2)]
  have "owned (w_db w') h = owned (w_db w) h \<and> w_objects w' h = w_objects w h
        \<or> \<not> dry \<and> lock = Inr True \<and> owned (w_db w') h = None \<and> (\<exists>b. owned (w_db w) h = Some (b, {}))" for h
    using e ks(3,4) sub mem_ownerless_owned [of h "w_db w"] by (cases "h \<in> set ks") auto
  then show ?thesis using e others_balance by blast
qed

theorem reconcile_spares_owned_witness:
  "owned (w_db (snd (run_state (Reconcile (Inr True) True False 10) (start_world accounts_db)))) ''h'' \<noteq> None"
proof -
  have i: "db_inv (w_db (start_world accounts_db))" using balanced_examples(1) by (simp add: balanced_def)
  from reconcile_spares_owned [OF i run_pair, of "Inr True" True False 10] show ?thesis
    by (auto dest!: conjunct2 [THEN conjunct2] spec [of _ "''h''"])
qed

text \<open>A dry run reports exactly what a wet run from the same state then deletes, oldest first and at most the clamped
  limit, and the wet run leaves exactly the others.\<close>

theorem dry_run_predicts_reconcile:
  assumes "db_keys (w_db w)" "quiet w"
    and "run_state (Reconcile lock storage True n) w = (r, w1)"
    and "run_state (Reconcile (Inr True) storage False n) w = (r', w2)"
  shows "\<exists>res res'. r = Inr res \<and> r' = Inr res' \<and> gc_hashes res = gc_hashes res'
    \<and> gc_hashes res' @ ownerless_hashes (w_db w2) = ownerless_hashes (w_db w)
    \<and> length (gc_hashes res') = min (nat (clampGCLimit n)) (length (ownerless_hashes (w_db w)))"
proof -
  note b = clampGCLimit_bounds [of n]
  obtain rows where rows: "q_ListOwnerlessBlobs (i32 (clampGCLimit n)) (w_db w) = (Inr rows, w_db w)"
      "map fst rows = take (nat (clampGCLimit n)) (ownerless_hashes (w_db w))"
    using q_ListOwnerlessBlobs_eq [of "clampGCLimit n" "w_db w"] b by (auto simp: in_i32_def)
  have "wp (Reconcile lock storage True n) (\<lambda>r w'. \<exists>res. r = Inr res
      \<and> gc_hashes res = take (nat (clampGCLimit n)) (ownerless_hashes (w_db w))) w"
    using assms(2) by (simp add: Reconcile_def wp_simp no_fault quiet_def rows)
  from wp_run [OF this assms(3)] wp_run [OF Reconcile_wet [OF assms(1,2)] assms(4)] show ?thesis
    using ownerless_after_run [OF assms(1)] by auto
qed

definition ownerless_db :: dbstate where
  "ownerless_db = empty_db\<lparr>t_blobs := [sample_blob\<lparr>b_refcount := 1\<rparr>]\<rparr>"

lemma ownerless_db_keys [simp]: "db_keys ownerless_db"
  by (simp add: ownerless_db_def db_keys_def)

lemma ownerless_db_hashes [simp]: "ownerless_hashes ownerless_db = [''h'']"
  by (simp add: ownerless_db_def ownerless_hashes_def ownerless_def sample_blob_def)

theorem dry_run_predicts_reconcile_witness:
  "ownerless_hashes (w_db (snd (run_state (Reconcile (Inr True) True False 0) (start_world ownerless_db)))) = []"
proof -
  have h: "db_keys (w_db (start_world ownerless_db))" "quiet (start_world ownerless_db)" by simp_all
  from dry_run_predicts_reconcile [OF h run_pair run_pair, of "Inr True" True 0] show ?thesis
    by (auto simp: clampGCLimit_def append_eq_Cons_conv)
qed

text \<open>The timer calls a reconcile again and again; k of its runs that hold the lock, in sequence.\<close>

fun reconcile_runs :: "nat \<Rightarrow> bool \<Rightarrow> int \<Rightarrow> unit prog" where
  "reconcile_runs 0 storage n = ret ()"
| "reconcile_runs (Suc k) storage n = do { _ \<leftarrow> Reconcile (Inr True) storage False n; reconcile_runs k storage n }"

lemma reconcile_runs_spec:
  "db_inv (w_db w) \<Longrightarrow> quiet w \<Longrightarrow> wp (reconcile_runs k storage n)
     (\<lambda>_ w'. ownerless_hashes (w_db w') = drop (k * nat (clampGCLimit n)) (ownerless_hashes (w_db w))) w"
proof (induction k arbitrary: w)
  case 0
  then show ?case by (simp add: wp_ret)
next
  case (Suc k)
  let ?L = "nat (clampGCLimit n)" and ?hs = "ownerless_hashes (w_db w)"
  have keys: "db_keys (w_db w)" using Suc.prems(1) by (simp add: db_inv_def)
  have sub: "set (take ?L ?hs) \<subseteq> set ?hs" "distinct (take ?L ?hs)"
    using distinct_ownerless_hashes [OF keys] by (auto dest: in_set_takeD)
  have inv: "db_inv (without (take ?L ?hs) (w_db w))" using without_effect [OF Suc.prems(1) sub] by simp
  show ?case
    unfolding reconcile_runs.simps wp_bind
    by (rule wp_mono [OF Reconcile_wet [OF keys Suc.prems(2)]], elim conjE, rule wp_mono [OF Suc.IH])
      (simp_all add: inv ownerless_after_run [OF keys] add.commute)
qed

text \<open>C16. When no call fails and every run gets the lock, repeated runs drain any backlog: after k runs the oldest k times the
  clamped limit ownerless blobs are gone, so that enough runs leave none. (Rows whose delete keeps failing are listed again by
  every run, before younger ones.)\<close>

theorem reconcile_drains:
  assumes "db_inv (w_db w)" "quiet w" "run_state (reconcile_runs k storage n) w = (r, w')"
  shows "ownerless_hashes (w_db w') = drop (k * nat (clampGCLimit n)) (ownerless_hashes (w_db w))
    \<and> (length (ownerless_hashes (w_db w)) \<le> k \<longrightarrow> ownerless_hashes (w_db w') = [])"
proof -
  have "1 \<le> nat (clampGCLimit n)" using clampGCLimit_bounds [of n] by (simp add: le_nat_iff)
  then have "k * 1 \<le> k * nat (clampGCLimit n)" by (rule mult_le_mono2)
  then have "length hs \<le> k \<Longrightarrow> drop (k * nat (clampGCLimit n)) hs = []" for hs :: "string list" by (intro drop_all) linarith
  with wp_run [OF reconcile_runs_spec [OF assms(1,2)] assms(3)] show ?thesis by simp
qed

theorem reconcile_drains_witness:
  "ownerless_hashes (w_db (snd (run_state (reconcile_runs 1 True 0) (start_world ownerless_db)))) = []"
proof -
  have h: "db_inv (w_db (start_world ownerless_db))" "quiet (start_world ownerless_db)"
    by (simp_all add: db_inv_def) (simp add: ownerless_db_def ref_counts_def n_refs_def)
  from reconcile_drains [OF h run_pair, of 1 True 0] show ?thesis by (simp add: clampGCLimit_def del: reconcile_runs.simps)
qed

end
