(* ===== verification/Expiration.thy ===== *)
theory Expiration
  imports Moderation QuotaRules "HOL-Library.Sublist"
begin

text \<open>
  Expiring blobs: the queries of \<^verbatim>\<open>db/expiration.sql.go\<close> and \<^verbatim>\<open>src/service/expiration_service.go\<close>. The result of
  \<^verbatim>\<open>pg_try_advisory_lock\<close> is a parameter, and so is the order in which Go ranges over a map.
\<close>

section \<open>Queries\<close>

definition expired_at :: "int \<Rightarrow> blob_row \<Rightarrow> bool" where
  "expired_at t b \<longleftrightarrow> (case b_expires b of None \<Rightarrow> False | Some e \<Rightarrow> e \<le> t)"

definition q_ClearBlobExpiration :: "string \<Rightarrow> unit query" where
  "q_ClearBlobExpiration h d =
     (Inr (), d\<lparr>t_blobs := update_where (has_hash h) (\<lambda>b. b\<lparr>b_expires := None\<rparr>) (t_blobs d)\<rparr>)"

definition q_SetBlobExpiration :: "string \<Rightarrow> int option \<Rightarrow> unit query" where
  "q_SetBlobExpiration h e d =
     (Inr (), d\<lparr>t_blobs := update_where (has_hash h) (\<lambda>b. b\<lparr>b_expires := e\<rparr>) (t_blobs d)\<rparr>)"

definition q_CountExpiredBlobs :: "int \<Rightarrow> int query" where
  "q_CountExpiredBlobs t d = (Inr (int (length (filter (expired_at t) (t_blobs d)))), d)"

text \<open>The sequence of the identifiers advances also when the name is taken.\<close>

definition q_CreateExpirationPolicy ::
  "string \<Rightarrow> string option \<Rightarrow> int \<Rightarrow> int option \<Rightarrow> string option \<Rightarrow> int \<Rightarrow> bool \<Rightarrow> int \<Rightarrow> int \<Rightarrow> policy_row query" where
  "q_CreateExpirationPolicy name pfx ttl maxSize pubkey priority enabled created updated d =
     (let i = t_next_policy d;
          p = \<lparr>p_id = i, p_name = name, p_prefix = pfx, p_ttl = ttl, p_max = maxSize, p_pubkey = pubkey,
               p_priority = priority, p_enabled = enabled, p_created = created, p_updated = updated\<rparr>;
          d' = d\<lparr>t_next_policy := i + 1\<rparr>
      in if \<not> in_i32 i then (Inl ErrOutOfRange, d)
         else if \<exists>x \<in> set (t_policies d). p_name x = name \<or> p_id x = i then (Inl ErrConstraint, d')
         else (Inr p, d'\<lparr>t_policies := t_policies d @ [p]\<rparr>))"

definition q_DeleteExpirationPolicy :: "int \<Rightarrow> unit query" where
  "q_DeleteExpirationPolicy i d = (Inr (), d\<lparr>t_policies := filter (\<lambda>p. p_id p \<noteq> i) (t_policies d)\<rparr>)"

definition q_DeleteExpiredBlobs :: "int \<Rightarrow> string list query" where
  "q_DeleteExpiredBlobs t d =
     (Inr (map b_hash (filter (expired_at t) (t_blobs d))), delete_blobs (expired_at t) d)"

definition q_GetBlobOwners :: "string \<Rightarrow> string list query" where
  "q_GetBlobOwners h d = (Inr (owners h d), d)"

definition q_GetExpirationPolicies :: "policy_row list query" where
  "q_GetExpirationPolicies d = (Inr (sort_key (\<lambda>p. - p_priority p) (filter p_enabled (t_policies d))), d)"

definition q_GetExpirationPolicy :: "int \<Rightarrow> policy_row query" where
  "q_GetExpirationPolicy i d = (first_row (\<lambda>p. p_id p = i) (t_policies d), d)"

record expired_blob =
  xb_hash :: string
  xb_pubkey :: string
  xb_type :: string
  xb_size :: int
  xb_created :: int

definition expired_row :: "blob_row \<Rightarrow> expired_blob" where
  "expired_row b = \<lparr>xb_hash = b_hash b, xb_pubkey = b_pubkey b, xb_type = b_type b, xb_size = b_size b, xb_created = b_created b\<rparr>"

text \<open>The statement has a limit and no \<^verbatim>\<open>ORDER BY\<close>: Postgres may return any \<open>limit\<close> of the expired rows, the model returns the
  first ones of the table.\<close>

definition q_GetExpiredBlobs :: "int \<Rightarrow> int \<Rightarrow> expired_blob list query" where
  "q_GetExpiredBlobs t limit d =
     (if limit < 0 then (Inl ErrConstraint, d)
      else (Inr (map expired_row (take (nat limit) (filter (expired_at t) (t_blobs d)))), d))"

definition policy_matches :: "string \<Rightarrow> string \<Rightarrow> int \<Rightarrow> policy_row \<Rightarrow> bool" where
  "policy_matches pk mime sz p \<longleftrightarrow> p_enabled p \<and> (case p_pubkey p of None \<Rightarrow> True | Some k \<Rightarrow> k = pk)
     \<and> (case p_prefix p of None \<Rightarrow> True | Some x \<Rightarrow> like_match (x @ ''%'') mime)
     \<and> (case p_max p of None \<Rightarrow> True | Some m \<Rightarrow> sz \<le> m)"

definition q_GetMatchingPolicy :: "string \<Rightarrow> string \<Rightarrow> int \<Rightarrow> policy_row query" where
  "q_GetMatchingPolicy pk mime sz d =
     (case sort_key (\<lambda>p. - p_priority p) (filter (policy_matches pk mime sz) (t_policies d)) of
        [] \<Rightarrow> Inl ErrNoRows | p # _ \<Rightarrow> Inr p, d)"

definition q_UpdateExpirationPolicy ::
  "int \<Rightarrow> string option \<Rightarrow> int \<Rightarrow> int option \<Rightarrow> string option \<Rightarrow> int \<Rightarrow> bool \<Rightarrow> int \<Rightarrow> unit query" where
  "q_UpdateExpirationPolicy i pfx ttl maxSize pubkey priority enabled updated d =
     (Inr (), d\<lparr>t_policies := update_where (\<lambda>p. p_id p = i)
        (\<lambda>p. p\<lparr>p_prefix := pfx, p_ttl := ttl, p_max := maxSize, p_pubkey := pubkey, p_priority := priority,
              p_enabled := enabled, p_updated := updated\<rparr>) (t_policies d)\<rparr>)"

section \<open>The service\<close>

record expiration_config =
  xf_enabled :: bool
  xf_interval :: int
  xf_batch :: int
  xf_ttl :: int
  xf_grace :: int

record expiration_policy =
  xp_id :: int
  xp_name :: string
  xp_prefix :: string
  xp_ttl :: int
  xp_max :: int
  xp_pubkey :: string
  xp_priority :: int
  xp_enabled :: bool
  xp_created :: int
  xp_updated :: int

definition dbPolicyToCore :: "policy_row \<Rightarrow> expiration_policy" where
  "dbPolicyToCore p = \<lparr>xp_id = p_id p, xp_name = p_name p, xp_prefix = or_empty (p_prefix p), xp_ttl = p_ttl p,
     xp_max = (case p_max p of None \<Rightarrow> 0 | Some m \<Rightarrow> m), xp_pubkey = or_empty (p_pubkey p), xp_priority = p_priority p,
     xp_enabled = p_enabled p, xp_created = p_created p, xp_updated = p_updated p\<rparr>"

text \<open>\<open>at\<close> is a point in time in nanoseconds, \<open>ttl\<close> a duration.\<close>

definition SetExpiration :: "string \<Rightarrow> int \<Rightarrow> unit result prog" where
  "SetExpiration h at = exec_sql (q_SetBlobExpiration h (Some (Unix at)))"

definition SetExpirationTTL :: "string \<Rightarrow> int \<Rightarrow> unit result prog" where
  "SetExpirationTTL h ttl = do { t \<leftarrow> now; SetExpiration h (t + ttl) }"

definition ClearExpiration :: "string \<Rightarrow> unit result prog" where
  "ClearExpiration h = exec_sql (q_ClearBlobExpiration h)"

definition expiry_cutoff :: "expiration_config \<Rightarrow> int \<Rightarrow> int" where
  "expiry_cutoff cfg t = (if xf_grace cfg > 0 then Unix t - xf_grace cfg div second else Unix t)"

definition GetExpiredBlobs :: "expiration_config \<Rightarrow> int \<Rightarrow> expired_blob list result prog" where
  "GetExpiredBlobs cfg limit = do {
     t \<leftarrow> now;
     exec_sql (q_GetExpiredBlobs (expiry_cutoff cfg t) (i32 limit))
   }"

definition CountExpired :: "expiration_config \<Rightarrow> int result prog" where
  "CountExpired cfg = do { t \<leftarrow> now; exec_sql (q_CountExpiredBlobs (expiry_cutoff cfg t)) }"

type_synonym freed = "(string \<times> int) list"

definition freed_of :: "freed \<Rightarrow> string \<Rightarrow> int" where
  "freed_of f o' = (case map_of f o' of None \<Rightarrow> 0 | Some n \<Rightarrow> n)"

definition add_freed :: "int \<Rightarrow> string \<Rightarrow> freed \<Rightarrow> freed" where
  "add_freed n o' f = AList.update o' (i64 (freed_of f o' + n)) f"

fun cleanup_loop :: "expired_blob list \<Rightarrow> int \<Rightarrow> freed \<Rightarrow> (int \<times> freed) prog" where
  "cleanup_loop [] n f = ret (n, f)"
| "cleanup_loop (b # bs) n f = do {
     o' \<leftarrow> exec_sql (q_GetBlobOwners (xb_hash b));
     let os = (case o' of Inl _ \<Rightarrow> if xb_pubkey b \<noteq> [] then [xb_pubkey b] else [] | Inr os \<Rightarrow> os)
     in do {
       d \<leftarrow> exec_sql (q_DeleteBlobFromHash (xb_hash b));
       case d of
         Inl _ \<Rightarrow> cleanup_loop bs n f
       | Inr _ \<Rightarrow> do {
           _ \<leftarrow> st_Delete (xb_hash b);
           cleanup_loop bs (n + 1) (fold (add_freed (xb_size b)) os f)
         }
     }
   }"

fun release_all :: "freed \<Rightarrow> unit prog" where
  "release_all [] = ret ()"
| "release_all ((o', n) # f) = do { _ \<leftarrow> DecrementUsage o' n; release_all f }"

definition cleanupExpiredLocked :: "expiration_config \<Rightarrow> bool \<Rightarrow> (freed \<Rightarrow> freed) \<Rightarrow> int result prog" where
  "cleanupExpiredLocked cfg quota ord =
     and_then (GetExpiredBlobs cfg (if xf_batch cfg \<le> 0 then 1000 else xf_batch cfg)) (\<lambda>expired.
       if length expired = 0 then ret (Inr 0)
       else do {
         x \<leftarrow> cleanup_loop expired 0 [];
         case x of (deleted, freed) \<Rightarrow> do {
           _ \<leftarrow> (if quota then release_all (ord freed) else ret ());
           ret (Inr deleted)
         }
       })"

definition CleanupExpired :: "bool result \<Rightarrow> expiration_config \<Rightarrow> bool \<Rightarrow> (freed \<Rightarrow> freed) \<Rightarrow> int result prog" where
  "CleanupExpired lock cfg quota ord =
     (case lock of
        Inl e \<Rightarrow> ret (Inl e)
      | Inr locked \<Rightarrow> if \<not> locked then ret (Inl ErrSweepSkipped) else cleanupExpiredLocked cfg quota ord)"

text \<open>One tick of the worker; the value tells whether the last-run timestamp advances.\<close>

definition expiration_runSweep :: "bool result \<Rightarrow> expiration_config \<Rightarrow> bool \<Rightarrow> (freed \<Rightarrow> freed) \<Rightarrow> bool prog" where
  "expiration_runSweep lock cfg quota ord = do {
     _ \<leftarrow> CountExpired cfg;
     r \<leftarrow> CleanupExpired lock cfg quota ord;
     ret (\<not> isl r)
   }"

definition ApplyPolicy :: "string \<Rightarrow> string \<Rightarrow> int \<Rightarrow> string \<Rightarrow> bool result prog" where
  "ApplyPolicy h mime sz pk = do {
     r \<leftarrow> exec_sql (q_GetMatchingPolicy pk mime sz);
     case r of
       Inl e \<Rightarrow> ret (if e = ErrNoRows then Inr False else Inl e)
     | Inr p \<Rightarrow> and_then (SetExpirationTTL h (p_ttl p * second)) (\<lambda>_. ret (Inr True))
   }"

definition GetPolicies :: "expiration_policy list result prog" where
  "GetPolicies = do {
     r \<leftarrow> exec_sql q_GetExpirationPolicies;
     ret (map_result (map dbPolicyToCore) r)
   }"

definition or_null :: "string \<Rightarrow> string option" where
  "or_null s = (if s \<noteq> [] then Some s else None)"

definition CreatePolicy :: "expiration_policy \<Rightarrow> expiration_policy result prog" where
  "CreatePolicy p = do {
     t \<leftarrow> now;
     r \<leftarrow> exec_sql (q_CreateExpirationPolicy (xp_name p) (or_null (xp_prefix p)) (xp_ttl p)
            (if xp_max p > 0 then Some (xp_max p) else None) (or_null (xp_pubkey p)) (xp_priority p) (xp_enabled p)
            (Unix t) (Unix t));
     ret (map_result dbPolicyToCore r)
   }"

definition UpdatePolicy :: "expiration_policy \<Rightarrow> unit result prog" where
  "UpdatePolicy p = do {
     t \<leftarrow> now;
     exec_sql (q_UpdateExpirationPolicy (xp_id p) (or_null (xp_prefix p)) (xp_ttl p)
       (if xp_max p > 0 then Some (xp_max p) else None) (or_null (xp_pubkey p)) (xp_priority p) (xp_enabled p) (Unix t))
   }"

definition DeletePolicy :: "int \<Rightarrow> unit result prog" where
  "DeletePolicy i = exec_sql (q_DeleteExpirationPolicy i)"

section \<open>What an owner gets back\<close>

lemma freed_of_add: "freed_of (add_freed n o' f) x = (if x = o' then i64 (freed_of f o' + n) else freed_of f x)"
  by (simp add: freed_of_def add_freed_def update_conv)

lemma distinct_add_freed: "distinct (map fst f) \<Longrightarrow> distinct (map fst (add_freed n o' f))"
  by (simp add: add_freed_def distinct_update)

lemma fold_add_freed:
  assumes "distinct os" "distinct (map fst f)" "0 \<le> n" "\<forall>x. 0 \<le> freed_of f x" "\<forall>x \<in> set os. freed_of f x + n < 2 ^ 63"
  shows "distinct (map fst (fold (add_freed n) os f))
    \<and> freed_of (fold (add_freed n) os f) x = freed_of f x + (if x \<in> set os then n else 0)"
  using assms
proof (induction os arbitrary: f)
  case Nil
  then show ?case by simp
next
  case (Cons o' os)
  have i: "i64 (freed_of f o' + n) = freed_of f o' + n" using Cons.prems(3-5) by (simp add: in_i64_nonneg)
  have "distinct (map fst (fold (add_freed n) os (add_freed n o' f)))
      \<and> freed_of (fold (add_freed n) os (add_freed n o' f)) x = freed_of (add_freed n o' f) x + (if x \<in> set os then n else 0)"
    by (rule Cons.IH) (use Cons.prems i in \<open>auto simp: freed_of_add distinct_add_freed\<close>)
  with Cons.prems(1) show ?case by (auto simp: freed_of_add i)
qed

lemma distinct_owners: "db_keys d \<Longrightarrow> distinct (owners h d)"
proof -
  assume "db_keys d"
  then have "distinct (map (\<lambda>r. (r_pubkey r, r_hash r)) (filter (\<lambda>r. r_hash r = h) (t_refs d)))"
    by (simp add: db_keys_def distinct_map_filter)
  moreover have "map (\<lambda>r. (r_pubkey r, r_hash r)) (filter (\<lambda>r. r_hash r = h) (t_refs d)) = map (\<lambda>pk. (pk, h)) (owners h d)"
    by (auto simp: owners_def)
  ultimately show ?thesis by (auto simp: distinct_map)
qed

lemma stored_usage_remove:
  assumes "finite (dom m)"
  shows "stored_usage pk m = stored_usage pk (m(h := None)) + (if owns pk h m then stored_at h m else 0)"
proof -
  let ?A = "{h'. owns pk h' (m(h := None))}"
  have fin: "finite ?A" using finite_owns_dom [of "m(h := None)" pk] assms by simp
  have eq: "{h'. owns pk h' m} = (if owns pk h m then insert h ?A else ?A)" "h \<notin> ?A"
    by (auto simp: owns_def split: if_splits)
  have "(\<Sum>h' \<in> ?A. stored_at h' m) = stored_usage pk (m(h := None))"
    unfolding stored_usage_def by (rule sum.cong) (auto simp: stored_at_def owns_def split: if_splits)
  then show ?thesis using fin eq(2) by (simp add: stored_usage_def eq(1))
qed

definition sizes_nonneg :: "owner_map \<Rightarrow> bool" where
  "sizes_nonneg m \<longleftrightarrow> (\<forall>h b S. m h = Some (b, S) \<longrightarrow> 0 \<le> b_size b)"

lemma stored_usage_nonneg: "sizes_nonneg m \<Longrightarrow> 0 \<le> stored_usage pk m"
  unfolding stored_usage_def by (rule sum_nonneg) (auto simp: owns_def stored_at_def sizes_nonneg_def split: option.splits)

text \<open>The state of the sweep: what is freed and what the key's remaining blobs take add up to what they took at first.\<close>

definition sweeping :: "owner_map \<Rightarrow> freed \<Rightarrow> dbstate \<Rightarrow> bool" where
  "sweeping m f d \<longleftrightarrow> distinct (map fst f) \<and> (\<forall>pk. 0 \<le> freed_of f pk)
     \<and> (\<forall>pk. freed_of f pk + stored_usage pk (owned d) = stored_usage pk m)"

lemma sweeping_step:
  assumes "sweeping m f d" "db_keys d" "sizes_nonneg (owned d)" "\<forall>pk. stored_usage pk m < 2 ^ 63"
    and "owned d h = Some (b, S)" "owned d' = (owned d)(h := None)"
  shows "sweeping m (fold (add_freed (b_size b)) (owners h d) f) d'"
proof -
  have s: "stored_at h (owned d) = b_size b" using assms(5) by (simp add: stored_at_def)
  have n: "0 \<le> b_size b" using assms(3,5) unfolding sizes_nonneg_def by blast
  have o: "owns pk h (owned d) \<longleftrightarrow> pk \<in> set (owners h d)" for pk
    using owns_owned [OF assms(2)] by (simp add: owner_set_def)
  have u: "stored_usage pk (owned d) = stored_usage pk (owned d') + (if pk \<in> set (owners h d) then b_size b else 0)" for pk
    using stored_usage_remove [OF finite_dom_owned, of pk d h] by (simp add: assms(6) o s)
  have "sizes_nonneg (owned d')" using assms(3,6) by (simp add: sizes_nonneg_def)
  then have "0 \<le> stored_usage pk (owned d')" for pk by (rule stored_usage_nonneg)
  note nn = this
  have r: "freed_of f pk + b_size b < 2 ^ 63" if "pk \<in> set (owners h d)" for pk
  proof -
    have "freed_of f pk + stored_usage pk (owned d) = stored_usage pk m" "stored_usage pk m < 2 ^ 63"
      using assms(1,4) by (simp_all add: sweeping_def)
    then show ?thesis using that u [of pk] nn [of pk] by simp
  qed
  have "distinct (map fst (fold (add_freed (b_size b)) (owners h d) f))
    \<and> freed_of (fold (add_freed (b_size b)) (owners h d) f) pk = freed_of f pk + (if pk \<in> set (owners h d) then b_size b else 0)" for pk
    using assms(1) n distinct_owners [OF assms(2)] by (intro fold_add_freed) (use r in \<open>simp_all add: sweeping_def\<close>)
  note g = this
  have "freed_of (fold (add_freed (b_size b)) (owners h d) f) pk + stored_usage pk (owned d') = stored_usage pk m" for pk
  proof -
    have "freed_of f pk + stored_usage pk (owned d) = stored_usage pk m" using assms(1) by (simp add: sweeping_def)
    then show ?thesis using g [of pk] u [of pk] by linarith
  qed
  then show ?thesis using g assms(1) n by (auto simp: sweeping_def)
qed

section \<open>The sweep\<close>

definition dropped :: "string list \<Rightarrow> owner_map \<Rightarrow> owner_map" where
  "dropped ks m h = (if h \<in> set ks then None else m h)"

lemma dropped_simps [simp]: "dropped [] m = m" "dropped (h # ks) m = dropped ks (m(h := None))"
  by (auto simp: dropped_def fun_eq_iff)

definition cleaned :: "string list \<Rightarrow> int \<Rightarrow> world \<Rightarrow> int \<Rightarrow> world \<Rightarrow> bool" where
  "cleaned ks n w n' w' \<longleftrightarrow> db_inv (w_db w') \<and> owned (w_db w') = dropped ks (owned (w_db w)) \<and> others (w_db w') = others (w_db w)
     \<and> w_saved w' = w_saved w \<and> (\<forall>h. h \<notin> set ks \<longrightarrow> w_objects w' h = w_objects w h) \<and> n' = n + int (length ks)
     \<and> (quiet w \<longrightarrow> quiet w') \<and> w_now w' = w_now w"

lemma cleaned_trans: "cleaned ks n w n1 w1 \<Longrightarrow> cleaned ks' n1 w1 n2 w2 \<Longrightarrow> cleaned (ks @ ks') n w n2 w2"
  by (auto simp: cleaned_def dropped_def fun_eq_iff)

text \<open>One row: nothing happens or the blob goes; when no call fails it goes, and its owners are those of the row.\<close>

definition cleanup_one :: "expired_blob \<Rightarrow> freed \<Rightarrow> freed option prog" where
  "cleanup_one b f = do {
     o' \<leftarrow> exec_sql (q_GetBlobOwners (xb_hash b));
     let os = (case o' of Inl _ \<Rightarrow> if xb_pubkey b \<noteq> [] then [xb_pubkey b] else [] | Inr os \<Rightarrow> os)
     in do {
       d \<leftarrow> exec_sql (q_DeleteBlobFromHash (xb_hash b));
       case d of
         Inl _ \<Rightarrow> ret None
       | Inr _ \<Rightarrow> do { _ \<leftarrow> st_Delete (xb_hash b); ret (Some (fold (add_freed (xb_size b)) os f)) }
     }
   }"

lemma cleanup_loop_one:
  "cleanup_loop (b # bs) n f = do {
     x \<leftarrow> cleanup_one b f;
     case x of None \<Rightarrow> cleanup_loop bs n f | Some f' \<Rightarrow> cleanup_loop bs (n + 1) f'
   }"
  by (auto simp: cleanup_one_def Let_def intro!: arg_cong2 [where f = State_Monad.bind] ext split: sum.split)

lemma cleanup_one_spec:
  assumes "db_inv (w_db w)"
  shows "wp (cleanup_one b f) (\<lambda>x w'. case x of
      None \<Rightarrow> cleaned [] n w n w' \<and> \<not> quiet w
    | Some f' \<Rightarrow> cleaned [xb_hash b] n w (n + 1) w' \<and> (quiet w \<longrightarrow> f' = fold (add_freed (xb_size b)) (owners (xb_hash b) (w_db w)) f)) w"
    (is "wp _ ?Q w")
proof -
  let ?h = "xb_hash b"
  obtain d' where d': "q_DeleteBlobFromHash ?h (w_db w) = (Inr (), d')" by (simp add: q_DeleteBlobFromHash_def)
  have eff: "db_inv d'" "owned d' = (owned (w_db w))(?h := None)" "others d' = others (w_db w)"
    using q_DeleteBlobFromHash_effect [of "w_db w" ?h] assms by (simp_all add: d' db_inv_def)
  have obj: "wp (st_Delete ?h) (\<lambda>_. ?Q (Some g)) w2"
    if "w_db w2 = d'" "w_saved w2 = w_saved w" "w_objects w2 = w_objects w" "quiet w \<longrightarrow> quiet w2" "w_now w2 = w_now w"
      "quiet w \<longrightarrow> g = fold (add_freed (xb_size b)) (owners ?h (w_db w)) f" for w2 g
    using that eff by (cases "quiet w2") (auto simp: cleaned_def no_fault quiet_def intro!: wp_Delete)
  have del: "wp (exec_sql (q_DeleteBlobFromHash ?h)) (\<lambda>d. wp (case d of Inl _ \<Rightarrow> ret None
       | Inr _ \<Rightarrow> do { _ \<leftarrow> st_Delete ?h; ret (Some g) }) ?Q) w1"
    if w1: "w_db w1 = w_db w" "w_saved w1 = w_saved w" "w_objects w1 = w_objects w" "quiet w \<longrightarrow> quiet w1" "w_now w1 = w_now w"
      "quiet w \<longrightarrow> g = fold (add_freed (xb_size b)) (owners ?h (w_db w)) f" for w1 g
  proof (rule wp_exec_either [where f = "q_DeleteBlobFromHash ?h"])
    show "q_DeleteBlobFromHash ?h (w_db w1) = (Inr (), d')" using d' w1(1) by simp
  next
    fix fs :: "bool list" assume "\<not> quiet w1"
    then show "wp (case Inl ErrIO of Inl _ \<Rightarrow> ret None
       | Inr (_ :: unit) \<Rightarrow> do { _ \<leftarrow> st_Delete ?h; ret (Some g) }) ?Q (w1\<lparr>w_faults := fs\<rparr>)"
      using w1 assms by (simp add: wp_ret cleaned_def)
  next
    fix fs :: "bool list" assume "quiet w1 \<Longrightarrow> fs = []"
    then show "wp (case Inr () of Inl (_ :: goerr) \<Rightarrow> ret None
       | Inr _ \<Rightarrow> do { _ \<leftarrow> st_Delete ?h; ret (Some g) }) ?Q (w1\<lparr>w_faults := fs, w_db := d'\<rparr>)"
      unfolding sum.case wp_bind wp_ret by (intro obj) (use w1 in \<open>auto simp: quiet_def\<close>)
  qed
  show ?thesis
    unfolding cleanup_one_def Let_def wp_bind [of "exec_sql (q_GetBlobOwners ?h)"] wp_bind [of "exec_sql (q_DeleteBlobFromHash ?h)"]
    by (rule wp_exec_either [where f = "q_GetBlobOwners ?h", OF refl [THEN trans, OF q_GetBlobOwners_def]])
      (auto intro!: del simp: quiet_def)
qed

text \<open>Whichever calls fail, the loop deletes some of the listed blobs; when none fails, all, and the freed sizes are right.\<close>

definition sweepable :: "owner_map \<Rightarrow> freed \<Rightarrow> expired_blob list \<Rightarrow> world \<Rightarrow> bool" where
  "sweepable m f bs w \<longleftrightarrow> quiet w \<and> sweeping m f (w_db w) \<and> sizes_nonneg (owned (w_db w)) \<and> (\<forall>pk. stored_usage pk m < 2 ^ 63)
     \<and> distinct (map xb_hash bs) \<and> (\<forall>b \<in> set bs. \<exists>r S. owned (w_db w) (xb_hash b) = Some (r, S) \<and> xb_size b = b_size r)"

lemma sweepable_step:
  assumes "sweepable m f (b # bs) w" "db_inv (w_db w)" "cleaned [xb_hash b] n w n' w'"
  shows "sweepable m (fold (add_freed (xb_size b)) (owners (xb_hash b) (w_db w)) f) bs w'"
proof -
  have o: "owned (w_db w') = (owned (w_db w))(xb_hash b := None)" using assms(3) by (simp add: cleaned_def)
  obtain r S where r: "owned (w_db w) (xb_hash b) = Some (r, S)" "xb_size b = b_size r"
    using assms(1) by (auto simp: sweepable_def)
  have "sweeping m (fold (add_freed (b_size r)) (owners (xb_hash b) (w_db w)) f) (w_db w')"
    by (rule sweeping_step [OF _ _ _ _ r(1) o]) (use assms(1,2) in \<open>auto simp: sweepable_def db_inv_def\<close>)
  moreover have "sizes_nonneg (owned (w_db w'))" using assms(1) by (auto simp: sweepable_def o sizes_nonneg_def)
  moreover have "\<forall>b' \<in> set bs. xb_hash b' \<noteq> xb_hash b" using assms(1) by (auto simp: sweepable_def image_iff)
  ultimately show ?thesis using assms(1,3) by (simp add: sweepable_def r(2) o cleaned_def)
qed

lemma cleanup_loop_spec:
  "db_inv (w_db w) \<Longrightarrow> wp (cleanup_loop bs n f) (\<lambda>(n', f') w'. \<exists>ks. subseq ks (map xb_hash bs) \<and> cleaned ks n w n' w'
     \<and> (quiet w \<longrightarrow> ks = map xb_hash bs) \<and> (sweepable m f bs w \<longrightarrow> sweeping m f' (w_db w'))) w"
proof (induction bs arbitrary: n f w)
  case Nil
  then show ?case by (auto simp: wp_ret cleaned_def sweepable_def)
next
  case (Cons b bs)
  let ?Q = "\<lambda>(n', f') w'. \<exists>ks. subseq ks (map xb_hash (b # bs)) \<and> cleaned ks n w n' w'
     \<and> (quiet w \<longrightarrow> ks = map xb_hash (b # bs)) \<and> (sweepable m f (b # bs) w \<longrightarrow> sweeping m f' (w_db w'))"
  have rest: "wp (cleanup_loop bs n1 f1) ?Q w1"
    if c: "cleaned ks0 n w n1 w1" and s: "\<And>ks. subseq ks (map xb_hash bs) \<Longrightarrow> subseq (ks0 @ ks) (map xb_hash (b # bs))"
      and q: "quiet w \<Longrightarrow> ks0 = [xb_hash b]" and sw: "sweepable m f (b # bs) w \<Longrightarrow> sweepable m f1 bs w1" for ks0 n1 w1 f1
  proof (rule wp_mono [OF Cons.IH])
    show "db_inv (w_db w1)" using c by (simp add: cleaned_def)
  next
    fix x w2
    assume "(case x of (n', f') \<Rightarrow> \<lambda>w'. \<exists>ks. subseq ks (map xb_hash bs) \<and> cleaned ks n1 w1 n' w'
     \<and> (quiet w1 \<longrightarrow> ks = map xb_hash bs) \<and> (sweepable m f1 bs w1 \<longrightarrow> sweeping m f' (w_db w'))) w2"
    then obtain n2 f2 ks where x: "x = (n2, f2)" and ks: "subseq ks (map xb_hash bs)" "cleaned ks n1 w1 n2 w2"
      "quiet w1 \<longrightarrow> ks = map xb_hash bs" "sweepable m f1 bs w1 \<longrightarrow> sweeping m f2 (w_db w2)"
      by (cases x) auto
    have "quiet w \<longrightarrow> quiet w1" using c by (simp add: cleaned_def)
    then show "?Q x w2"
      unfolding x prod.case using ks cleaned_trans [OF c ks(2)] s [OF ks(1)] q sw
      by (intro exI [of _ "ks0 @ ks"]) auto
  qed
  show ?case
    unfolding cleanup_loop_one wp_bind
  proof (rule wp_mono [OF cleanup_one_spec [OF Cons.prems]])
    fix x w1
    assume x: "case x of None \<Rightarrow> cleaned [] n w n w1 \<and> \<not> quiet w
      | Some f' \<Rightarrow> cleaned [xb_hash b] n w (n + 1) w1 \<and> (quiet w \<longrightarrow> f' = fold (add_freed (xb_size b)) (owners (xb_hash b) (w_db w)) f)"
    show "wp (case x of None \<Rightarrow> cleanup_loop bs n f | Some f' \<Rightarrow> cleanup_loop bs (n + 1) f') ?Q w1"
    proof (cases x)
      case None
      then have c: "cleaned [] n w n w1" "\<not> quiet w" using x by simp_all
      show ?thesis
        unfolding None option.case by (rule rest [OF c(1)]) (use c(2) in \<open>auto simp: sweepable_def intro: list_emb_Cons\<close>)
    next
      case (Some f')
      then have c: "cleaned [xb_hash b] n w (n + 1) w1"
        and f: "quiet w \<longrightarrow> f' = fold (add_freed (xb_size b)) (owners (xb_hash b) (w_db w)) f" using x by auto
      show ?thesis
        unfolding Some option.case
        by (rule rest [OF c]) (use f sweepable_step [OF _ Cons.prems c] in \<open>auto simp: sweepable_def\<close>)
    qed
  qed
qed

section \<open>Releasing\<close>

text \<open>A credit takes at most what there is.\<close>

definition minus_floor :: "int \<Rightarrow> int \<Rightarrow> int" where
  "minus_floor b n = (if n \<le> b then b - n else 0)"

lemma DecrementUsage_exact:
  assumes "quiet w" "db_inv (w_db w)" "0 \<le> n" "0 \<le> balance pk (w_db w)" "in_i64 (balance pk (w_db w))"
  shows "wp (DecrementUsage pk n) (\<lambda>r w'. quiet w' \<and> db_inv (w_db w') \<and> only_users w w' \<and> balance pk (w_db w') = minus_floor (balance pk (w_db w)) n
    \<and> (\<forall>pk'. pk' \<noteq> pk \<longrightarrow> balance pk' (w_db w') = balance pk' (w_db w))) w"
proof (cases "n \<le> balance pk (w_db w)")
  case True
  then show ?thesis
    by (intro wp_mono [OF DecrementUsage_law [OF assms(1-3) True assms(5)]]) (simp add: minus_floor_def)
next
  case False
  let ?t = "Unix (w_now w)" and ?d = "w_db w"
  let ?f = "\<lambda>u. u\<lparr>u_used := (if n \<le> u_used u then u_used u - n else 0), u_updated := ?t\<rparr>"
  have k: "db_keys ?d" using assms(2) by (simp add: db_inv_def)
  have one: "u_used u = balance pk ?d" if "u \<in> set (t_users ?d)" "u_pubkey u = pk" for u
    using user_of_mem [OF k that(1)] that by (simp add: balance_def)
  have q: "q_DecrementUserUsage n n ?t pk ?d = (Inr (), update_user pk ?f ?d)"
    using False by (auto simp: q_DecrementUserUsage_def dest: one)
  have b: "balance pk' (update_user pk ?f ?d) = (if pk' = pk then 0 else balance pk' ?d)" for pk'
    using False assms(3,4) by (subst balance_update_user) (auto simp: balance_def split: option.splits)
  have "db_inv (update_user pk ?f ?d)" using assms(2) by (intro db_inv_update_user) simp_all
  then show ?thesis
    using assms(1) b False
    by (simp add: DecrementUsage_def wp_simp no_fault quiet_def q only_users_def same_env_def minus_floor_def)
qed

lemma release_all_quiet:
  "quiet w \<Longrightarrow> db_inv (w_db w) \<Longrightarrow> distinct (map fst f) \<Longrightarrow> (\<forall>pk n. (pk, n) \<in> set f \<longrightarrow> 0 \<le> n) \<Longrightarrow>
   (\<forall>pk. 0 \<le> balance pk (w_db w) \<and> in_i64 (balance pk (w_db w))) \<Longrightarrow>
   wp (release_all f) (\<lambda>_ w'. quiet w' \<and> db_inv (w_db w') \<and> only_users w w'
     \<and> (\<forall>pk. balance pk (w_db w') = minus_floor (balance pk (w_db w)) (freed_of f pk))) w"
proof (induction f arbitrary: w)
  case Nil
  then show ?case by (auto simp: wp_ret only_users_def freed_of_def minus_floor_def)
next
  case (Cons x f)
  obtain o' n where x: "x = (o', n)" by (cases x)
  have n: "0 \<le> n" "0 \<le> balance o' (w_db w)" "in_i64 (balance o' (w_db w))" using Cons.prems(4,5) by (auto simp: x)
  have fo: "freed_of f o' = 0" using Cons.prems(3) by (auto simp: x freed_of_def image_iff dest!: map_of_SomeD split: option.split)
  show ?case
    unfolding x release_all.simps wp_bind
  proof (rule wp_mono [OF DecrementUsage_exact [OF Cons.prems(1,2) n]], elim conjE)
    fix w1
    assume w1: "quiet w1" "db_inv (w_db w1)" "only_users w w1" "balance o' (w_db w1) = minus_floor (balance o' (w_db w)) n"
      "\<forall>pk'. pk' \<noteq> o' \<longrightarrow> balance pk' (w_db w1) = balance pk' (w_db w)"
    have b: "0 \<le> balance pk (w_db w1) \<and> in_i64 (balance pk (w_db w1))" for pk
      using Cons.prems(5) [rule_format, of pk] w1(4,5) n by (cases "pk = o'") (auto simp: minus_floor_def in_i64_def)
    show "wp (release_all f) (\<lambda>_ w'. quiet w' \<and> db_inv (w_db w') \<and> only_users w w'
       \<and> (\<forall>pk. balance pk (w_db w') = minus_floor (balance pk (w_db w)) (freed_of ((o', n) # f) pk))) w1"
    proof (rule wp_mono [OF Cons.IH [OF w1(1,2)]])
      fix w2
      assume w2: "quiet w2 \<and> db_inv (w_db w2) \<and> only_users w1 w2
        \<and> (\<forall>pk. balance pk (w_db w2) = minus_floor (balance pk (w_db w1)) (freed_of f pk))"
      have "balance pk (w_db w2) = minus_floor (balance pk (w_db w)) (freed_of ((o', n) # f) pk)" for pk
        using w2 w1(4,5) fo b [of pk] by (cases "pk = o'") (auto simp: freed_of_def minus_floor_def)
      then show "quiet w2 \<and> db_inv (w_db w2) \<and> only_users w w2
        \<and> (\<forall>pk. balance pk (w_db w2) = minus_floor (balance pk (w_db w)) (freed_of ((o', n) # f) pk))"
        using w1(3) w2 by (simp add: only_users_def same_env_def)
    qed (use Cons.prems b in \<open>auto simp: x\<close>)
  qed
qed

section \<open>Properties of the sweep\<close>

text \<open>Ranging over a map visits each entry once, in any order.\<close>

definition any_order :: "(freed \<Rightarrow> freed) \<Rightarrow> bool" where
  "any_order ord \<longleftrightarrow> (\<forall>f. distinct (map fst f) \<longrightarrow> distinct (map fst (ord f)) \<and> set (ord f) = set f)"

lemma freed_of_order:
  assumes "any_order ord" "distinct (map fst f)"
  shows "freed_of (ord f) = freed_of f"
proof
  fix x
  have "map_of (ord f) x = Some n \<longleftrightarrow> map_of f x = Some n" for n
    using assms by (simp add: any_order_def map_of_eq_Some_iff)
  then show "freed_of (ord f) x = freed_of f x"
    unfolding freed_of_def by (cases "map_of f x"; cases "map_of (ord f) x") auto
qed

definition sweep_hashes :: "expiration_config \<Rightarrow> world \<Rightarrow> string list" where
  "sweep_hashes cfg w = take (nat (if xf_batch cfg \<le> 0 then 1000 else xf_batch cfg))
     (map b_hash (filter (expired_at (expiry_cutoff cfg (w_now w))) (t_blobs (w_db w))))"

lemma release_all_any:
  "db_inv (w_db w) \<Longrightarrow> wp (release_all f) (\<lambda>_ w'. db_inv (w_db w') \<and> only_users w w') w"
proof (induction f arbitrary: w)
  case Nil
  then show ?case by (simp add: wp_ret only_users_def)
next
  case (Cons x f)
  obtain o' n where x: "x = (o', n)" by (cases x)
  have i: "db_inv d2 \<and> owned d2 = owned (w_db w)" if "q_DecrementUserUsage n n t o' (w_db w) = (r, d2)" for t r d2
    using that Cons.prems by (auto simp: q_DecrementUserUsage_def split: if_splits intro: db_inv_update_user)
  have d: "wp (DecrementUsage o' n) (\<lambda>_ w'. db_inv (w_db w') \<and> only_users w w') w"
    unfolding DecrementUsage_def using Cons.prems
    by (auto simp: wp_simp only_users_def same_env_def dest!: i intro!: wp_exec)
  show ?case
    unfolding x release_all.simps wp_bind
    by (rule wp_mono [OF d], elim conjE, rule wp_mono [OF Cons.IH]) (auto simp: only_users_def same_env_def)
qed

text \<open>The rows of the batch.\<close>

lemma batch_rows:
  assumes "db_inv (w_db w)" "xf_batch cfg < 2 ^ 31"
  shows "\<exists>bs. q_GetExpiredBlobs (expiry_cutoff cfg (w_now w)) (i32 (if xf_batch cfg \<le> 0 then 1000 else xf_batch cfg)) (w_db w)
      = (Inr bs, w_db w) \<and> map xb_hash bs = sweep_hashes cfg w \<and> distinct (map xb_hash bs)
    \<and> (\<forall>b \<in> set bs. \<exists>r S. owned (w_db w) (xb_hash b) = Some (r, S) \<and> xb_size b = b_size r
         \<and> expired_at (expiry_cutoff cfg (w_now w)) r)"
proof -
  let ?n = "if xf_batch cfg \<le> 0 then 1000 else xf_batch cfg" and ?t = "expiry_cutoff cfg (w_now w)"
  let ?bs = "take (nat ?n) (filter (expired_at ?t) (t_blobs (w_db w)))"
  have keys: "db_keys (w_db w)" using assms(1) by (simp add: db_inv_def)
  have n: "i32 ?n = ?n" "0 \<le> ?n" using assms(2) by (simp_all add: in_i32_def)
  have row: "\<exists>r S. owned (w_db w) (b_hash b) = Some (r, S) \<and> b_size b = b_size r \<and> expired_at ?t r" if "b \<in> set ?bs" for b
  proof -
    have b: "b \<in> set (t_blobs (w_db w))" "expired_at ?t b" using that by (auto dest: in_set_takeD)
    then show ?thesis using blob_of_mem [OF keys b(1)] by (simp add: owned_def expired_at_def)
  qed
  have "distinct (map b_hash (filter (expired_at ?t) (t_blobs (w_db w))))" using keys by (simp add: db_keys_def distinct_map_filter)
  then have d: "distinct (map b_hash ?bs)" unfolding take_map [symmetric] by (rule distinct_take)
  have q: "q_GetExpiredBlobs ?t (i32 ?n) (w_db w) = (Inr (map expired_row ?bs), w_db w)"
    unfolding n(1) using n(2) by (simp add: q_GetExpiredBlobs_def)
  show ?thesis
    using q d row by (intro exI [of _ "map expired_row ?bs"]) (simp add: sweep_hashes_def expired_row_def o_def take_map)
qed

lemma GetExpiredBlobs_wp:
  assumes "db_inv (w_db w)" "xf_batch cfg < 2 ^ 31"
    and err: "\<And>fs. \<not> quiet w \<Longrightarrow> Q (Inl ErrIO) (w\<lparr>w_faults := fs\<rparr>)"
    and ok: "\<And>bs fs. \<lbrakk>quiet w \<Longrightarrow> fs = []; map xb_hash bs = sweep_hashes cfg w; distinct (map xb_hash bs);
      \<forall>b \<in> set bs. \<exists>r S. owned (w_db w) (xb_hash b) = Some (r, S) \<and> xb_size b = b_size r
         \<and> expired_at (expiry_cutoff cfg (w_now w)) r\<rbrakk> \<Longrightarrow> Q (Inr bs) (w\<lparr>w_faults := fs\<rparr>)"
  shows "wp (GetExpiredBlobs cfg (if xf_batch cfg \<le> 0 then 1000 else xf_batch cfg)) Q w"
proof -
  obtain bs where bs: "q_GetExpiredBlobs (expiry_cutoff cfg (w_now w)) (i32 (if xf_batch cfg \<le> 0 then 1000 else xf_batch cfg)) (w_db w)
      = (Inr bs, w_db w)" "map xb_hash bs = sweep_hashes cfg w" "distinct (map xb_hash bs)"
    "\<forall>b \<in> set bs. \<exists>r S. owned (w_db w) (xb_hash b) = Some (r, S) \<and> xb_size b = b_size r
         \<and> expired_at (expiry_cutoff cfg (w_now w)) r"
    using batch_rows [OF assms(1,2)] by blast
  have e: "w\<lparr>w_faults := fs, w_db := w_db w\<rparr> = w\<lparr>w_faults := fs\<rparr>" for fs by simp
  show ?thesis
    unfolding GetExpiredBlobs_def wp_bind wp_now
    by (rule wp_exec_either [where f = "q_GetExpiredBlobs (expiry_cutoff cfg (w_now w))
          (i32 (if xf_batch cfg \<le> 0 then 1000 else xf_batch cfg))", OF bs(1)])
      (auto simp: e intro: err ok [OF _ bs(2-4)])
qed

lemma expired_owned: "db_keys d \<Longrightarrow> owned d h = Some (r, S) \<Longrightarrow> expired_at t r \<Longrightarrow> \<exists>b \<in> set (t_blobs d). b_hash b = h \<and> expired_at t b"
  by (auto simp: owned_def expired_at_def dest!: blob_of_Some)

text \<open>C17. Whichever calls fail, a sweep deletes only blobs whose time has come, grace period included, and only with the
  lock; every other blob keeps its owners and its stored object, and the tables stay consistent.\<close>

theorem sweep_deletes_expired_only:
  assumes "db_inv (w_db w)" "xf_batch cfg < 2 ^ 31"
    and "run_state (CleanupExpired lock cfg quota ord) w = (r, w')"
  shows "db_inv (w_db w') \<and> (\<forall>h. owned (w_db w') h = owned (w_db w) h \<and> w_objects w' h = w_objects w h
    \<or> lock = Inr True \<and> owned (w_db w') h = None
        \<and> (\<exists>b \<in> set (t_blobs (w_db w)). b_hash b = h \<and> expired_at (expiry_cutoff cfg (w_now w)) b))"
proof -
  let ?t = "expiry_cutoff cfg (w_now w)"
  have keys: "db_keys (w_db w)" using assms(1) by (simp add: db_inv_def)
  let ?Q = "\<lambda>(r :: int result) w'. db_inv (w_db w') \<and> (\<forall>h. owned (w_db w') h = owned (w_db w) h \<and> w_objects w' h = w_objects w h
    \<or> owned (w_db w') h = None \<and> (\<exists>b \<in> set (t_blobs (w_db w)). b_hash b = h \<and> expired_at ?t b))"
  have rest: "wp (do { x \<leftarrow> cleanup_loop bs 0 [];
         case x of (deleted, freed) \<Rightarrow> do { _ \<leftarrow> (if quota then release_all (ord freed) else ret ()); ret (Inr deleted) } }) ?Q (w\<lparr>w_faults := fs\<rparr>)"
    if bs: "\<forall>b \<in> set bs. \<exists>r S. owned (w_db w) (xb_hash b) = Some (r, S) \<and> xb_size b = b_size r \<and> expired_at ?t r" for bs fs
    unfolding wp_bind
  proof (rule wp_mono_pair [OF cleanup_loop_spec [where m = "owned (w_db w)"]])
    show "db_inv (w_db (w\<lparr>w_faults := fs\<rparr>))" using assms(1) by simp
  next
    fix n f w1
    assume "\<exists>ks. subseq ks (map xb_hash bs) \<and> cleaned ks 0 (w\<lparr>w_faults := fs\<rparr>) n w1
     \<and> (quiet (w\<lparr>w_faults := fs\<rparr>) \<longrightarrow> ks = map xb_hash bs) \<and> (sweepable (owned (w_db w)) [] bs (w\<lparr>w_faults := fs\<rparr>) \<longrightarrow> sweeping (owned (w_db w)) f (w_db w1))"
    then obtain ks where ks: "subseq ks (map xb_hash bs)" "cleaned ks 0 (w\<lparr>w_faults := fs\<rparr>) n w1" by blast
    have e: "\<exists>b \<in> set (t_blobs (w_db w)). b_hash b = h \<and> expired_at ?t b" if hk: "h \<in> set ks" for h
    proof -
      obtain y where "y \<in> set (map xb_hash bs)" "h = y" using list_emb_set [OF ks(1) hk] by blast
      then obtain b where "b \<in> set bs" "h = xb_hash b" by auto
      then show ?thesis using bs expired_owned [OF keys] by blast
    qed
    have q: "?Q x w2" if "db_inv (w_db w2)" "only_users w1 w2" for x w2
      using that ks(2) e by (auto simp: cleaned_def dropped_def only_users_def)
    have i: "db_inv (w_db w1)" using ks(2) by (simp add: cleaned_def)
    show "wp (case (n, f) of (deleted, freed) \<Rightarrow> do { _ \<leftarrow> (if quota then release_all (ord freed) else ret ()); ret (Inr deleted) }) ?Q w1"
      unfolding prod.case wp_bind wp_ret wp_if
      using wp_mono [OF release_all_any [OF i]] q q [OF i] by (cases quota) (auto simp: only_users_def)
  qed
  have "wp (CleanupExpired (Inr True) cfg quota ord) ?Q w"
    unfolding CleanupExpired_def sum.case not_True_eq_False if_False cleanupExpiredLocked_def wp_and_then
    by (rule GetExpiredBlobs_wp [OF assms(1,2)]) (use assms(1) rest in \<open>auto simp: wp_ret\<close>)
  then have "wp (CleanupExpired lock cfg quota ord) (\<lambda>r w'. ?Q r w' \<and> (lock \<noteq> Inr True \<longrightarrow> w' = w)) w"
    using assms(1) by (cases lock) (auto simp: CleanupExpired_def wp_ret)
  from wp_run [OF this assms(3)] show ?thesis by (cases "lock = Inr True") auto
qed

lemma sweep_quiet:
  assumes "quiet w" "db_inv (w_db w)" "xf_batch cfg < 2 ^ 31" "any_order ord" "sizes_nonneg (owned (w_db w))"
    and bal: "\<forall>pk. 0 \<le> balance pk (w_db w) \<and> in_i64 (balance pk (w_db w)) \<and> stored_usage pk (owned (w_db w)) < 2 ^ 63"
  shows "wp (CleanupExpired (Inr True) cfg True ord) (\<lambda>r w'. quiet w' \<and> r = Inr (int (length (sweep_hashes cfg w)))
    \<and> db_inv (w_db w') \<and> owned (w_db w') = dropped (sweep_hashes cfg w) (owned (w_db w))
    \<and> (\<forall>pk. balance pk (w_db w') = minus_floor (balance pk (w_db w))
          (stored_usage pk (owned (w_db w)) - stored_usage pk (owned (w_db w'))))) w" (is "wp _ ?Q w")
proof -
  let ?m = "owned (w_db w)"
  have rest: "wp (do { x \<leftarrow> cleanup_loop bs 0 [];
         case x of (deleted, freed) \<Rightarrow> do { _ \<leftarrow> release_all (ord freed); ret (Inr deleted) } }) ?Q w"
    if bs: "map xb_hash bs = sweep_hashes cfg w" "distinct (map xb_hash bs)"
      "\<forall>b \<in> set bs. \<exists>r S. ?m (xb_hash b) = Some (r, S) \<and> xb_size b = b_size r" for bs
    unfolding wp_bind
  proof (rule wp_mono_pair [OF cleanup_loop_spec [OF assms(2), where m = ?m]])
    fix n f w1
    assume "\<exists>ks. subseq ks (map xb_hash bs) \<and> cleaned ks 0 w n w1
     \<and> (quiet w \<longrightarrow> ks = map xb_hash bs) \<and> (sweepable ?m [] bs w \<longrightarrow> sweeping ?m f (w_db w1))"
    moreover have "sweepable ?m [] bs w"
      using assms(1,5) bal bs by (simp add: sweepable_def sweeping_def freed_of_def)
    ultimately have c: "cleaned (sweep_hashes cfg w) 0 w n w1" and s: "sweeping ?m f (w_db w1)"
      using assms(1) bs(1) by auto
    have w1: "quiet w1" "db_inv (w_db w1)" "owned (w_db w1) = dropped (sweep_hashes cfg w) ?m" "n = int (length (sweep_hashes cfg w))"
      "others (w_db w1) = others (w_db w)"
      using c assms(1) by (simp_all add: cleaned_def)
    have f: "distinct (map fst f)" "freed_of (ord f) pk = stored_usage pk ?m - stored_usage pk (owned (w_db w1))" for pk
      using s freed_of_order [OF assms(4)] by (auto simp: sweeping_def algebra_simps)
    have pos: "0 \<le> k" if "(pk, k) \<in> set (ord f)" for pk k
    proof -
      have "(pk, k) \<in> set f" using that assms(4) f(1) by (simp add: any_order_def)
      then have "freed_of f pk = k" using f(1) by (simp add: freed_of_def)
      then show ?thesis using s by (auto simp: sweeping_def)
    qed
    show "wp (case (n, f) of (deleted, freed) \<Rightarrow> do { _ \<leftarrow> release_all (ord freed); ret (Inr deleted) }) ?Q w1"
      unfolding prod.case wp_bind wp_ret
      by (rule wp_mono [OF release_all_quiet [OF w1(1,2)]])
        (use assms(4) f pos bal w1 others_balance [OF w1(5)] in \<open>auto simp: any_order_def only_users_def\<close>)
  qed
  have none: "?Q (Inr 0) w" if "sweep_hashes cfg w = []"
    using that assms(1,2) bal by (simp add: minus_floor_def)
  have e: "w\<lparr>w_faults := []\<rparr> = w" using assms(1) by (simp add: quiet_def)
  show ?thesis
    unfolding CleanupExpired_def sum.case not_True_eq_False if_False cleanupExpiredLocked_def wp_and_then if_True
  proof (rule GetExpiredBlobs_wp [OF assms(2,3)])
    fix fs :: "bool list" assume "\<not> quiet w"
    then show "(case Inl ErrIO of Inl e \<Rightarrow> ?Q (Inl e) | Inr expired \<Rightarrow> wp (if length (expired :: expired_blob list) = 0 then ret (Inr 0)
       else do { x \<leftarrow> cleanup_loop expired 0 [];
         case x of (deleted, freed) \<Rightarrow> do { _ \<leftarrow> release_all (ord freed); ret (Inr deleted) } }) ?Q) (w\<lparr>w_faults := fs\<rparr>)"
      using assms(1) by simp
  next
    fix bs :: "expired_blob list" and fs :: "bool list"
    assume fs: "quiet w \<Longrightarrow> fs = []" and b: "map xb_hash bs = sweep_hashes cfg w" "distinct (map xb_hash bs)"
      "\<forall>b \<in> set bs. \<exists>r S. ?m (xb_hash b) = Some (r, S) \<and> xb_size b = b_size r \<and> expired_at (expiry_cutoff cfg (w_now w)) r"
    have fs0: "fs = []" using fs assms(1) .
    show "(case Inr bs of Inl e \<Rightarrow> ?Q (Inl e) | Inr expired \<Rightarrow> wp (if length expired = 0 then ret (Inr 0)
       else do { x \<leftarrow> cleanup_loop expired 0 [];
         case x of (deleted, freed) \<Rightarrow> do { _ \<leftarrow> release_all (ord freed); ret (Inr deleted) } }) ?Q) (w\<lparr>w_faults := fs\<rparr>)"
    proof (cases "bs = []")
      case True
      then have "sweep_hashes cfg w = []" using b(1) by simp
      from none [OF this] True show ?thesis unfolding fs0 e by (simp add: wp_ret)
    next
      case False
      then have l: "\<not> length bs = 0" by simp
      show ?thesis
        unfolding fs0 e sum.case if_not_P [OF l] by (rule rest) (use b in blast)+
    qed
  qed
qed

text \<open>C18. With no failing call, the lock held and a quota service present, from accounts within 64 bits, a sweep deletes exactly
  one batch of expired blobs (the first ones of the table), and lowers every key's account by the sum of the stored sizes of
  the blobs it loses, but not below 0, in whatever order the map of credits is ranged over. The stored size is the size of the
  ciphertext for a blob the server encrypted, which is more than the key was charged.\<close>

theorem sweep_credits_stored_sizes:
  assumes "quiet w" "db_inv (w_db w)" "xf_batch cfg < 2 ^ 31" "any_order ord" "sizes_nonneg (owned (w_db w))"
    and "\<forall>pk. 0 \<le> balance pk (w_db w) \<and> in_i64 (balance pk (w_db w)) \<and> stored_usage pk (owned (w_db w)) < 2 ^ 63"
    and "run_state (CleanupExpired (Inr True) cfg True ord) w = (r, w')"
  shows "r = Inr (int (length (sweep_hashes cfg w))) \<and> owned (w_db w') = dropped (sweep_hashes cfg w) (owned (w_db w))
    \<and> balance pk (w_db w') = minus_floor (balance pk (w_db w))
          (stored_usage pk (owned (w_db w)) - stored_usage pk (owned (w_db w')))"
  using wp_run [OF sweep_quiet [OF assms(1-6)] assms(7)] by simp

text \<open>So the accounts stay balanced over a sweep as long as the server encrypted none of the blobs.\<close>

theorem sweep_keeps_balanced:
  assumes "quiet w" "balanced (w_db w)" "xf_batch cfg < 2 ^ 31" "any_order ord"
    and "\<forall>h b S. owned (w_db w) h = Some (b, S) \<longrightarrow> b_mode b \<noteq> ''server''"
    and "\<forall>pk. balance pk (w_db w) < 2 ^ 63"
    and "run_state (CleanupExpired (Inr True) cfg True ord) w = (r, w')"
  shows "balanced (w_db w')"
proof -
  let ?m = "owned (w_db w)" and ?m' = "owned (w_db w')"
  have inv: "db_inv (w_db w)" and ok: "sizes_ok ?m" and bal: "\<And>pk. balance pk (w_db w) = usage pk ?m"
    using assms(2) by (simp_all add: balanced_def)
  have eq: "charge b = b_size b" "0 \<le> b_size b" if "?m h = Some (b, S)" for h b S
  proof -
    have "b_mode b \<noteq> ''server''" using assms(5) that by blast
    then have "charge b = b_size b" "0 \<le> charge b" using ok that unfolding sizes_ok_def by blast+
    then show "charge b = b_size b" "0 \<le> b_size b" by simp_all
  qed
  have st: "stored_usage pk n = usage pk n" if n: "\<And>h b S. n h = Some (b, S) \<Longrightarrow> charge b = b_size b" for pk n
    unfolding stored_usage_def usage_def stored_at_def charge_at_def
    by (rule sum.cong [OF refl]) (use n in \<open>auto split: option.split\<close>)
  have nn: "sizes_nonneg ?m" using eq(2) unfolding sizes_nonneg_def by blast
  have rng: "0 \<le> balance pk (w_db w) \<and> in_i64 (balance pk (w_db w)) \<and> stored_usage pk ?m < 2 ^ 63" for pk
    using assms(6) usage_nonneg [OF ok, of pk] st [of ?m pk, OF eq(1)] by (simp add: bal in_i64_nonneg)
  note s = wp_run [OF sweep_quiet [OF assms(1) inv assms(3,4) nn allI [OF rng]] assms(7)]
  have m': "?m' = dropped (sweep_hashes cfg w) ?m" using s by simp
  have sub: "?m h = Some (b, S)" if "?m' h = Some (b, S)" for h b S using that by (auto simp: m' dropped_def split: if_splits)
  have ok': "sizes_ok ?m'" using ok sub unfolding sizes_ok_def by blast
  have u: "stored_usage pk ?m = usage pk ?m" "stored_usage pk ?m' = usage pk ?m'" for pk
    using st [of ?m pk, OF eq(1)] st [of ?m' pk, OF eq(1) [OF sub]] by simp_all
  have "balance pk (w_db w') = usage pk ?m'" for pk
    using s usage_nonneg [OF ok', of pk] by (simp add: u bal minus_floor_def)
  then show ?thesis using s ok' by (simp add: balanced_def)
qed

text \<open>A database with an expired blob of two owners.\<close>

definition expired_db :: dbstate where
  "expired_db = accounts_db\<lparr>t_blobs := [sample_blob\<lparr>b_expires := Some 0\<rparr>]\<rparr>"

definition no_grace :: expiration_config where
  "no_grace = \<lparr>xf_enabled = True, xf_interval = hour, xf_batch = 0, xf_ttl = 0, xf_grace = 0\<rparr>"

lemma expired_db_simps [simp]:
  "owned expired_db = [''h'' \<mapsto> (bare (sample_blob\<lparr>b_expires := Some 0\<rparr>), {''a'', ''b''})]"
  "balance pk expired_db = (if pk = ''a'' \<or> pk = ''b'' then 2 else 0)"
proof -
  show "owned expired_db = [''h'' \<mapsto> (bare (sample_blob\<lparr>b_expires := Some 0\<rparr>), {''a'', ''b''})]"
    by (rule ext) (simp add: expired_db_def accounts_db_def sample_db_def owned_def blob_of_def has_hash_def owner_set_def
        owners_def sample_blob_def)
  have "balance pk expired_db = balance pk accounts_db" by (simp add: balance_def user_of_def expired_db_def)
  then show "balance pk expired_db = (if pk = ''a'' \<or> pk = ''b'' then 2 else 0)" by simp
qed

lemma charge_expired [simp]: "charge (sample_blob\<lparr>b_expires := Some 0\<rparr>) = 2"
  by (simp add: charge_def sample_blob_def)

lemma balanced_expired [simp]: "balanced expired_db"
proof -
  have "db_inv expired_db"
    by (simp add: db_inv_def db_keys_def ref_counts_def n_refs_def expired_db_def accounts_db_def sample_db_def
        sample_blob_def account_def new_user_def)
  moreover have "sizes_ok (owned expired_db)" by (auto simp: sizes_ok_def) (simp add: sample_blob_def)
  ultimately show ?thesis by (auto simp: balanced_def usage_single)
qed

lemma any_order_rev: "any_order rev"
  by (auto simp: any_order_def rev_map [symmetric])

theorem sweep_deletes_expired_only_witness:
  "owned (w_db (snd (run_state (CleanupExpired (Inr True) no_grace True rev) (start_world accounts_db)))) ''h'' \<noteq> None"
proof -
  have i: "db_inv (w_db (start_world accounts_db))" "xf_batch no_grace < 2 ^ 31"
    using balanced_examples(1) by (simp_all add: balanced_def no_grace_def)
  have n: "\<not> (\<exists>b \<in> set (t_blobs accounts_db). b_hash b = ''h'' \<and> expired_at t b)" for t
    by (simp add: accounts_db_def sample_db_def sample_blob_def expired_at_def)
  from sweep_deletes_expired_only [OF i run_pair, of "Inr True" True rev] n show ?thesis
    by (auto dest: spec [of _ "''h''"])
qed

theorem sweep_keeps_balanced_witness:
  "balanced (w_db (snd (run_state (CleanupExpired (Inr True) no_grace True rev) (start_world expired_db))))"
proof -
  have "b_mode sample_blob \<noteq> ''server''" by (simp add: sample_blob_def)
  then show ?thesis by (intro sweep_keeps_balanced [OF _ _ _ any_order_rev _ _ run_pair]) (auto simp: no_grace_def)
qed

theorem sweep_credits_stored_sizes_witness:
  "balance ''a'' (w_db (snd (run_state (CleanupExpired (Inr True) no_grace True rev) (start_world expired_db)))) = 0"
proof -
  have st: "stored_usage pk (owned expired_db) = (if pk = ''a'' \<or> pk = ''b'' then 2 else 0)" for pk
  proof -
    have "{h. owns pk h (owned expired_db)} = (if pk = ''a'' \<or> pk = ''b'' then {''h''} else {})"
      by (auto simp: owns_def split: if_splits)
    then show ?thesis by (simp add: stored_usage_def stored_at_def sample_blob_def)
  qed
  have h: "quiet (start_world expired_db)" "db_inv (w_db (start_world expired_db))" "xf_batch no_grace < 2 ^ 31"
    "sizes_nonneg (owned (w_db (start_world expired_db)))"
    using balanced_expired by (auto simp: balanced_def no_grace_def sizes_nonneg_def) (simp add: sample_blob_def)
  have b: "\<forall>pk. 0 \<le> balance pk (w_db (start_world expired_db)) \<and> in_i64 (balance pk (w_db (start_world expired_db)))
       \<and> stored_usage pk (owned (w_db (start_world expired_db))) < 2 ^ 63"
    unfolding start_world_simps st expired_db_simps(2) by (simp add: in_i64_def)
  have s: "sweep_hashes no_grace (start_world expired_db) = [''h'']"
    by (simp add: sweep_hashes_def no_grace_def expiry_cutoff_def expired_db_def expired_at_def Unix_def) (simp add: sample_blob_def)
  have z: "stored_usage pk (\<lambda>_. None) = 0" for pk by (simp add: stored_usage_def owns_def)
  from sweep_credits_stored_sizes [OF h(1-3) any_order_rev h(4) b run_pair, of "''a''"] show ?thesis
    by (simp add: s st [unfolded expired_db_simps(1)] z minus_floor_def dropped_def cong: if_cong)
qed

section \<open>Policies\<close>

text \<open>What the columns of a policy say, for prefixes without wildcards: enabled, for this key or for every key, for types
  that start with the prefix, for blobs up to the size.\<close>

definition policy_applies :: "string \<Rightarrow> string \<Rightarrow> int \<Rightarrow> policy_row \<Rightarrow> bool" where
  "policy_applies pk mime sz p \<longleftrightarrow> p_enabled p \<and> (\<forall>k. p_pubkey p = Some k \<longrightarrow> k = pk)
     \<and> (\<forall>x. p_prefix p = Some x \<longrightarrow> take (length x) mime = x) \<and> (\<forall>m. p_max p = Some m \<longrightarrow> sz \<le> m)"

lemma policy_matches_applies:
  "\<forall>x. p_prefix p = Some x \<longrightarrow> (\<forall>c \<in> set x. plain_char c) \<Longrightarrow> policy_matches pk mime sz p = policy_applies pk mime sz p"
  by (auto simp: policy_matches_def policy_applies_def like_prefix split: option.split)

lemma sort_key_head:
  "sort_key f xs = y # ys \<Longrightarrow> y \<in> set xs \<and> (\<forall>x \<in> set xs. f y \<le> (f x :: int))"
proof -
  assume s: "sort_key f xs = y # ys"
  have "set (y # ys) = set xs" by (simp flip: s)
  moreover have "sorted (map f (y # ys))" using sorted_sort_key [of f xs] by (simp add: s)
  ultimately show ?thesis by auto
qed

text \<open>Applying a policy, no call failing: the enabled policy of highest priority that matches key, size and type decides
  (the first one of the table among equals); for a prefix without wildcards, matching the type means that it
  starts with the prefix. The blob then expires that many seconds from now, and without a matching policy
  nothing changes.\<close>

theorem policy_decides_expiry:
  assumes "quiet w" "\<forall>p \<in> set (t_policies (w_db w)). \<forall>x. p_prefix p = Some x \<longrightarrow> (\<forall>c \<in> set x. plain_char c)"
    and "run_state (ApplyPolicy h mime sz pk) w = (r, w')"
  shows "if \<exists>p \<in> set (t_policies (w_db w)). policy_applies pk mime sz p
    then \<exists>p \<in> set (t_policies (w_db w)). policy_applies pk mime sz p
        \<and> (\<forall>p' \<in> set (t_policies (w_db w)). policy_applies pk mime sz p' \<longrightarrow> p_priority p' \<le> p_priority p)
        \<and> r = Inr True \<and> w_db w' = snd (q_SetBlobExpiration h (Some (Unix (w_now w) + p_ttl p)) (w_db w))
    else r = Inr False \<and> w_db w' = w_db w"
proof -
  let ?ps = "filter (policy_matches pk mime sz) (t_policies (w_db w))"
  have f: "?ps = filter (policy_applies pk mime sz) (t_policies (w_db w))"
    by (rule filter_cong [OF refl policy_matches_applies]) (use assms(2) in blast)
  have u: "Unix (w_now w + t * second) = Unix (w_now w) + t" for t by (simp add: Unix_def second_def)
  show ?thesis
  proof (cases "sort_key (\<lambda>p. - p_priority p) ?ps")
    case Nil
    then have "?ps = []" using length_sort [of "\<lambda>p. - p_priority p" ?ps] by simp
    then have n: "\<not> (\<exists>p \<in> set (t_policies (w_db w)). policy_applies pk mime sz p)" by (auto simp: f filter_empty_conv)
    have "wp (ApplyPolicy h mime sz pk) (\<lambda>r w'. r = Inr False \<and> w_db w' = w_db w) w"
      using assms(1) Nil by (simp add: ApplyPolicy_def wp_simp no_fault quiet_def q_GetMatchingPolicy_def)
    from wp_run [OF this assms(3)] n show ?thesis by simp
  next
    case (Cons p qs)
    have p: "p \<in> set ?ps" "\<forall>x \<in> set ?ps. p_priority x \<le> p_priority p" using sort_key_head [OF Cons] by auto
    have "wp (ApplyPolicy h mime sz pk) (\<lambda>r w'. r = Inr True
        \<and> w_db w' = snd (q_SetBlobExpiration h (Some (Unix (w_now w) + p_ttl p)) (w_db w))) w"
      using assms(1) Cons
      by (simp add: ApplyPolicy_def wp_simp no_fault quiet_def q_GetMatchingPolicy_def SetExpirationTTL_def SetExpiration_def
          case_prod_beta u) (simp add: q_SetBlobExpiration_def)
    from wp_run [OF this assms(3)] p show ?thesis unfolding f by auto
  qed
qed

theorem policy_decides_expiry_witness:
  "fst (run_state (ApplyPolicy ''h'' ''image/png'' 2 ''a'') (start_world accounts_db)) = Inr False"
proof -
  have h: "quiet (start_world accounts_db)"
    "\<forall>p \<in> set (t_policies (w_db (start_world accounts_db))). \<forall>x. p_prefix p = Some x \<longrightarrow> (\<forall>c \<in> set x. plain_char c)"
    by (simp_all add: accounts_db_def sample_db_def)
  from policy_decides_expiry [OF h run_pair, of "''a''" "''image/png''" 2 "''h''"] show ?thesis
    by (simp add: accounts_db_def sample_db_def)
qed

end
