(* ===== verification/Chunked.thy ===== *)
theory Chunked
  imports Upload
begin

text \<open>
  Chunked uploads: the queries of \<^verbatim>\<open>db/upload_sessions.sql.go\<close>, the directory of chunk files and
  \<^verbatim>\<open>src/service/chunked_upload_service.go\<close>. A session is a row of \<^verbatim>\<open>upload_sessions\<close>, one row of
  \<^verbatim>\<open>upload_chunks\<close> per accepted chunk and one file per chunk in the session's directory. SHA-256 (in
  hexadecimal) and the generator of session ids are parameters; the durations of the configuration are
  parsed values, 0 when parsing failed.
\<close>

section \<open>Queries\<close>

definition session_is :: "string \<Rightarrow> session_row \<Rightarrow> bool" where
  "session_is i s \<longleftrightarrow> s_id s = i"

definition session_of :: "string \<Rightarrow> dbstate \<Rightarrow> session_row option" where
  "session_of i d = find (session_is i) (t_sessions d)"

definition chunks_of :: "string \<Rightarrow> dbstate \<Rightarrow> chunk_row list" where
  "chunks_of i d = filter (\<lambda>k. k_session k = i) (t_chunks d)"

definition q_CreateUploadChunk :: "chunk_row \<Rightarrow> chunk_row query" where
  "q_CreateUploadChunk k d =
     (if \<exists>k' \<in> set (t_chunks d). k_session k' = k_session k \<and> k_num k' = k_num k then (Inl ErrConstraint, d)
      else if session_of (k_session k) d = None then (Inl ErrConstraint, d)
      else (Inr k, d\<lparr>t_chunks := t_chunks d @ [k]\<rparr>))"

definition q_CreateUploadSession :: "session_row \<Rightarrow> session_row query" where
  "q_CreateUploadSession s d =
     (if session_of (s_id s) d \<noteq> None then (Inl ErrConstraint, d)
      else (Inr s, d\<lparr>t_sessions := t_sessions d @ [s]\<rparr>))"

text \<open>Deleting sessions takes their chunk rows with them (\<^verbatim>\<open>ON DELETE CASCADE\<close>).\<close>

definition delete_sessions :: "(session_row \<Rightarrow> bool) \<Rightarrow> dbstate \<Rightarrow> dbstate" where
  "delete_sessions P d =
     d\<lparr>t_sessions := filter (\<lambda>s. \<not> P s) (t_sessions d),
       t_chunks := filter (\<lambda>k. \<forall>s \<in> set (t_sessions d). P s \<longrightarrow> s_id s \<noteq> k_session k) (t_chunks d)\<rparr>"

definition q_DeleteExpiredSessions :: "int \<Rightarrow> string list query" where
  "q_DeleteExpiredSessions t d =
     (Inr (map s_id (filter (\<lambda>s. s_expires s < t) (t_sessions d))), delete_sessions (\<lambda>s. s_expires s < t) d)"

definition q_DeleteUploadChunks :: "string \<Rightarrow> unit query" where
  "q_DeleteUploadChunks i d = (Inr (), d\<lparr>t_chunks := filter (\<lambda>k. k_session k \<noteq> i) (t_chunks d)\<rparr>)"

definition q_DeleteUploadSession :: "string \<Rightarrow> unit query" where
  "q_DeleteUploadSession i d = (Inr (), delete_sessions (session_is i) d)"

definition q_GetUploadChunk :: "string \<Rightarrow> int \<Rightarrow> chunk_row query" where
  "q_GetUploadChunk i n d = (first_row (\<lambda>k. k_session k = i \<and> k_num k = n) (t_chunks d), d)"

definition q_GetUploadChunks :: "string \<Rightarrow> chunk_row list query" where
  "q_GetUploadChunks i d = (Inr (sort_key k_num (chunks_of i d)), d)"

definition q_GetUploadSession :: "string \<Rightarrow> session_row query" where
  "q_GetUploadSession i d = (first_row (session_is i) (t_sessions d), d)"

definition q_GetUploadSessionsByPubkey :: "string \<Rightarrow> session_row list query" where
  "q_GetUploadSessionsByPubkey pk d =
     (Inr (sort_key (\<lambda>s. - s_created s) (filter (\<lambda>s. s_pubkey s = pk \<and> s_status s = ''active'') (t_sessions d))), d)"

definition update_session :: "string \<Rightarrow> (session_row \<Rightarrow> session_row) \<Rightarrow> dbstate \<Rightarrow> dbstate" where
  "update_session i f d = d\<lparr>t_sessions := update_where (session_is i) f (t_sessions d)\<rparr>"

definition q_UpdateUploadSessionHash :: "string \<Rightarrow> string option \<Rightarrow> int \<Rightarrow> unit query" where
  "q_UpdateUploadSessionHash i h t d = (Inr (), update_session i (\<lambda>s. s\<lparr>s_hash := h, s_updated := t\<rparr>) d)"

definition q_UpdateUploadSessionProgress :: "string \<Rightarrow> int \<Rightarrow> int \<Rightarrow> int \<Rightarrow> unit query" where
  "q_UpdateUploadSessionProgress i chunks n t d =
     (Inr (), update_session i (\<lambda>s. s\<lparr>s_chunks := chunks, s_bytes := n, s_updated := t\<rparr>) d)"

definition q_UpdateUploadSessionStatus :: "string \<Rightarrow> string \<Rightarrow> int \<Rightarrow> unit query" where
  "q_UpdateUploadSessionStatus i st t d = (Inr (), update_session i (\<lambda>s. s\<lparr>s_status := st, s_updated := t\<rparr>) d)"

section \<open>Chunk files\<close>

text \<open>\<^verbatim>\<open>os.MkdirAll\<close>, \<^verbatim>\<open>os.WriteFile\<close> (which truncates the file when it opens it, so that a failed write leaves an
  empty file), \<^verbatim>\<open>os.ReadFile\<close>, \<^verbatim>\<open>os.Remove\<close> and \<^verbatim>\<open>os.RemoveAll\<close>.\<close>

definition set_file :: "string \<Rightarrow> nat \<Rightarrow> bytes option \<Rightarrow> world \<Rightarrow> world" where
  "set_file i n x w = w\<lparr>w_files := (w_files w)(i := map_option (\<lambda>f. f(n := x)) (w_files w i))\<rparr>"

definition chunk_file :: "string \<Rightarrow> nat \<Rightarrow> world \<Rightarrow> bytes option" where
  "chunk_file i n w = (case w_files w i of None \<Rightarrow> None | Some f \<Rightarrow> f n)"

definition mk_dir :: "string \<Rightarrow> unit result prog" where
  "mk_dir i = do {
     failed \<leftarrow> tick;
     if failed then ret (Inl ErrIO)
     else State (\<lambda>w. (Inr (), w\<lparr>w_files := (w_files w)(i := Some (case w_files w i of None \<Rightarrow> (\<lambda>_. None) | Some f \<Rightarrow> f))\<rparr>))
   }"

definition write_chunk :: "string \<Rightarrow> nat \<Rightarrow> bytes \<Rightarrow> unit result prog" where
  "write_chunk i n data = do {
     failed \<leftarrow> tick;
     if failed then ret (Inl ErrIO)
     else do {
       d \<leftarrow> State (\<lambda>w. (w_files w i = None, w));
       if d then ret (Inl ErrIO)
       else do {
         failed \<leftarrow> tick;
         State (\<lambda>w. if failed then (Inl ErrIO, set_file i n (Some []) w) else (Inr (), set_file i n (Some data) w))
       }
     }
   }"

definition read_chunk :: "string \<Rightarrow> nat \<Rightarrow> bytes result prog" where
  "read_chunk i n = do {
     failed \<leftarrow> tick;
     if failed then ret (Inl ErrIO)
     else State (\<lambda>w. (case chunk_file i n w of None \<Rightarrow> Inl ErrIO | Some b \<Rightarrow> Inr b, w))
   }"

definition remove_chunk :: "string \<Rightarrow> nat \<Rightarrow> unit result prog" where
  "remove_chunk i n = do {
     failed \<leftarrow> tick;
     if failed then ret (Inl ErrIO) else State (\<lambda>w. (Inr (), set_file i n None w))
   }"

definition remove_dir :: "string \<Rightarrow> unit result prog" where
  "remove_dir i = do {
     failed \<leftarrow> tick;
     if failed then ret (Inl ErrIO) else State (\<lambda>w. (Inr (), w\<lparr>w_files := (w_files w)(i := None)\<rparr>))
   }"

section \<open>The service\<close>

record chunked_config =
  cc_default :: int
  cc_min :: int
  cc_max :: int
  cc_max_ttl :: int
  cc_default_ttl :: int

record chunked_service =
  cs_blobs :: blob_service
  cs_quota :: "quota_service option"
  cs_limits :: "upload_limits option"
  cs_config :: chunked_config
  cs_cdn :: string
  cs_media :: media
  cs_hash :: "bytes \<Rightarrow> string"
  cs_uuid :: "nat \<Rightarrow> string"

record upload_session =
  us_id :: string
  us_pubkey :: string
  us_hash :: string
  us_total :: int
  us_chunk_size :: int
  us_total_chunks :: int
  us_mime :: string
  us_received :: int
  us_bytes :: int
  us_status :: string
  us_mode :: string
  us_created :: int
  us_updated :: int
  us_expires :: int

record upload_chunk =
  uc_session :: string
  uc_num :: int
  uc_size :: int
  uc_offset :: int
  uc_hash :: string
  uc_received :: int

record session_request =
  sr_pubkey :: string
  sr_total :: int
  sr_chunk_size :: int
  sr_mime :: string
  sr_hash :: string
  sr_mode :: string
  sr_ttl :: int

record session_response =
  sp_session :: upload_session
  sp_chunk_size :: int
  sp_total_chunks :: int
  sp_expires :: int
  sp_url :: string

record complete_response =
  cp_blob :: blob_desc
  cp_hash :: string
  cp_size :: int
  cp_url :: string

text \<open>\<^verbatim>\<open>int((total + size - 1) / size)\<close>, where a size of 0 panics (the handler's recovery answers the request).\<close>

definition total_chunks :: "int \<Rightarrow> int \<Rightarrow> int" where
  "total_chunks whole sz = i64 (go_div (i64 (i64 (whole + sz) - 1)) sz)"

definition panic_div :: goerr where
  "panic_div = Msg ''runtime error: integer divide by zero''"

definition null_string :: "string \<Rightarrow> string option" where
  "null_string s = (if s = [] then None else Some s)"

definition str_of :: "string option \<Rightarrow> string" where
  "str_of x = (case x of None \<Rightarrow> [] | Some s \<Rightarrow> s)"

definition dbSessionToSession :: "session_row \<Rightarrow> upload_session" where
  "dbSessionToSession s =
     \<lparr>us_id = s_id s, us_pubkey = s_pubkey s, us_hash = str_of (s_hash s), us_total = s_total s,
      us_chunk_size = s_chunk_size s, us_total_chunks = 0, us_mime = str_of (s_mime s), us_received = s_chunks s,
      us_bytes = s_bytes s, us_status = s_status s, us_mode = s_mode s, us_created = s_created s,
      us_updated = s_updated s, us_expires = s_expires s\<rparr>"

definition session_chunk_size :: "chunked_config \<Rightarrow> int \<Rightarrow> int" where
  "session_chunk_size cf requested =
     (let n = (if requested = 0 then cc_default cf else requested);
          n = (if n < cc_min cf then cc_min cf else n)
      in if n > cc_max cf then cc_max cf else n)"

definition session_ttl :: "chunked_config \<Rightarrow> int \<Rightarrow> int" where
  "session_ttl cf requested =
     (let defaultTTL = (if cc_default_ttl cf = 0 then 1 * hour else cc_default_ttl cf);
          maxTTL = (if cc_max_ttl cf = 0 then 24 * hour else cc_max_ttl cf);
          requestedTTL = i64 (requested * second)
      in if requested > 0 then (if requestedTTL < maxTTL then requestedTTL else maxTTL) else defaultTTL)"

definition uuid_new :: "chunked_service \<Rightarrow> string prog" where
  "uuid_new c = State (\<lambda>w. (cs_uuid c (w_rng w), w\<lparr>w_rng := Suc (w_rng w)\<rparr>))"

definition new_session :: "session_request \<Rightarrow> string \<Rightarrow> int \<Rightarrow> int \<Rightarrow> int \<Rightarrow> session_row" where
  "new_session req i sz t expires =
     \<lparr>s_id = i, s_pubkey = sr_pubkey req, s_hash = null_string (sr_hash req), s_total = sr_total req,
      s_chunk_size = sz, s_mime = null_string (sr_mime req), s_chunks = 0, s_bytes = 0, s_status = ''active'',
      s_mode = (if sr_mode req = [] then ''none'' else sr_mode req), s_created = t, s_updated = t, s_expires = expires\<rparr>"

definition open_session ::
  "chunked_service \<Rightarrow> session_request \<Rightarrow> int \<Rightarrow> int \<Rightarrow> session_response result prog" where
  "open_session c req sz ttl = do {
     i \<leftarrow> uuid_new c;
     t \<leftarrow> now;
     let expires = i64 (Unix t + go_div ttl second)
     in do {
       r \<leftarrow> exec_sql (q_CreateUploadSession (new_session req i sz (Unix t) expires));
       case r of
         Inl e \<Rightarrow> ret (Inl (Wrap ''create session'' e))
       | Inr s \<Rightarrow> do {
           m \<leftarrow> mk_dir i;
           case m of
             Inl e \<Rightarrow> do {
               _ \<leftarrow> exec_sql (q_DeleteUploadSession i);
               ret (Inl (Wrap ''create session directory'' e))
             }
           | Inr _ \<Rightarrow>
               let n = total_chunks (sr_total req) sz
               in ret (Inr \<lparr>sp_session = (dbSessionToSession s)\<lparr>us_total_chunks := n\<rparr>, sp_chunk_size = sz,
                         sp_total_chunks = n, sp_expires = expires,
                         sp_url = cs_cdn c @ ''/upload/chunked/'' @ i\<rparr>)
         }
     }
   }"

definition CreateSession :: "chunked_service \<Rightarrow> session_request \<Rightarrow> session_response result prog" where
  "CreateSession c req =
     (if sr_total req \<le> 0 then ret (Inl (Msg ''total_size must be positive''))
      else let sz = session_chunk_size (cs_config c) (sr_chunk_size req) in
        if sz = 0 then ret (Inl panic_div)
        else let ttl = session_ttl (cs_config c) (sr_ttl req) in
          and_then (case cs_quota c of
                      None \<Rightarrow> ret (Inr ())
                    | Some q \<Rightarrow> wrap ''quota check failed'' (CheckQuota q (sr_pubkey req) (sr_total req)))
            (\<lambda>_. and_then (ret (case cs_limits c of
                                  None \<Rightarrow> Inr ()
                                | Some u \<Rightarrow> ValidateFileSize u (sr_pubkey req) (sr_total req)))
            (\<lambda>_. open_session c req sz ttl)))"

text \<open>The session of a request, and the refusal of one that is not active.\<close>

definition load_session :: "string \<Rightarrow> session_row result prog" where
  "load_session i = do {
     r \<leftarrow> exec_sql (q_GetUploadSession i);
     ret (case r of
            Inl e \<Rightarrow> Inl (if e = ErrNoRows then ErrSessionNotFound else Wrap ''get session'' e)
          | Inr s \<Rightarrow> Inr s)
   }"

definition session_state :: "session_row \<Rightarrow> unit result" where
  "session_state s =
     (if s_status s \<noteq> ''active'' then
        (if s_status s = ''complete'' then Inl ErrSessionComplete
         else if s_status s = ''expired'' then Inl ErrSessionExpired
         else if s_status s = ''aborted'' then Inl ErrSessionAborted else Inr ())
      else Inr ())"

definition chunk_size_ok :: "session_row \<Rightarrow> int \<Rightarrow> bytes \<Rightarrow> bool" where
  "chunk_size_ok s n data =
     (let isLast = (n = i64 (total_chunks (s_total s) (s_chunk_size s) - 1));
          expected = (if isLast then i64 (s_total s - i64 (n * s_chunk_size s)) else s_chunk_size s)
      in int (length data) = expected \<or> isLast \<and> int (length data) \<le> s_chunk_size s)"

definition chunk_row_of :: "chunked_service \<Rightarrow> session_row \<Rightarrow> string \<Rightarrow> int \<Rightarrow> bytes \<Rightarrow> int \<Rightarrow> chunk_row" where
  "chunk_row_of c s i n data t =
     \<lparr>k_session = i, k_num = i32 n, k_size = int (length data), k_offset = i64 (n * s_chunk_size s),
      k_hash = cs_hash c data, k_received = t\<rparr>"

definition store_chunk :: "chunked_service \<Rightarrow> session_row \<Rightarrow> string \<Rightarrow> int \<Rightarrow> bytes \<Rightarrow> upload_chunk result prog" where
  "store_chunk c s i n data = do {
     f \<leftarrow> write_chunk i (nat n) data;
     case f of
       Inl e \<Rightarrow> ret (Inl (Wrap ''write chunk'' e))
     | Inr _ \<Rightarrow> do {
         t \<leftarrow> now;
         r \<leftarrow> exec_sql (q_CreateUploadChunk (chunk_row_of c s i n data (Unix t)));
         case r of
           Inl e \<Rightarrow> do { _ \<leftarrow> remove_chunk i (nat n); ret (Inl (Wrap ''record chunk'' e)) }
         | Inr _ \<Rightarrow> do {
             _ \<leftarrow> exec_sql (q_UpdateUploadSessionProgress i (i32 (s_chunks s + 1)) (i64 (s_bytes s + int (length data))) (Unix t));
             ret (Inr \<lparr>uc_session = i, uc_num = n, uc_size = int (length data),
                       uc_offset = i64 (n * s_chunk_size s), uc_hash = cs_hash c data, uc_received = Unix t\<rparr>)
           }
       }
   }"

text \<open>What \<^verbatim>\<open>UploadChunk\<close> does with the session row it has read. A chunk counts as present only if the lookup of
  its row succeeds.\<close>

definition accept_chunk :: "chunked_service \<Rightarrow> session_row \<Rightarrow> string \<Rightarrow> int \<Rightarrow> bytes \<Rightarrow> upload_chunk result prog" where
  "accept_chunk c s i n data =
     and_then (ret (session_state s)) (\<lambda>_. do {
       t \<leftarrow> now;
       if Unix t > s_expires s then do {
         _ \<leftarrow> exec_sql (q_UpdateUploadSessionStatus i ''expired'' (Unix t));
         ret (Inl ErrSessionExpired)
       }
       else if s_chunk_size s = 0 then ret (Inl panic_div)
       else if n < 0 \<or> n \<ge> total_chunks (s_total s) (s_chunk_size s) then ret (Inl ErrChunkOutOfRange)
       else do {
         k \<leftarrow> exec_sql (q_GetUploadChunk i (i32 n));
         case k of
           Inr _ \<Rightarrow> ret (Inl ErrChunkAlreadyUploaded)
         | Inl _ \<Rightarrow>
             if \<not> chunk_size_ok s n data then ret (Inl (Wrap ''expected another size'' ErrChunkSizeMismatch))
             else store_chunk c s i n data
       }
     })"

definition UploadChunk :: "chunked_service \<Rightarrow> string \<Rightarrow> int \<Rightarrow> bytes \<Rightarrow> upload_chunk result prog" where
  "UploadChunk c i n data = and_then (load_session i) (\<lambda>s. accept_chunk c s i n data)"

fun assemble :: "chunked_service \<Rightarrow> string \<Rightarrow> nat \<Rightarrow> chunk_row list \<Rightarrow> bytes \<Rightarrow> bytes result prog" where
  "assemble c i n [] acc = ret (Inr acc)"
| "assemble c i n (k # ks) acc = do {
     r \<leftarrow> read_chunk i n;
     case r of
       Inl e \<Rightarrow> ret (Inl (Wrap ''read chunk'' e))
     | Inr data \<Rightarrow>
         if cs_hash c data \<noteq> k_hash k then ret (Inl (Msg ''chunk hash mismatch''))
         else assemble c i (Suc n) ks (acc @ data)
   }"

definition finish_session :: "string \<Rightarrow> session_row \<Rightarrow> string \<Rightarrow> int \<Rightarrow> unit prog" where
  "finish_session i s h t = do {
     _ \<leftarrow> exec_sql (q_UpdateUploadSessionStatus i ''complete'' t);
     _ \<leftarrow> (if s_hash s = None then exec_sql (q_UpdateUploadSessionHash i (Some h) t) else ret (Inr ()));
     _ \<leftarrow> remove_dir i;
     ret ()
   }"

text \<open>The assembled bytes are saved and charged. The removal of the directory, which the code starts in the
  background, is the last step.\<close>

definition save_assembled ::
  "chunked_service \<Rightarrow> string \<Rightarrow> session_row \<Rightarrow> string \<Rightarrow> bytes \<Rightarrow> complete_response result prog" where
  "save_assembled c i s h data =
     (let mime = Resolve (cs_media c) data (str_of (s_mime s)); url = cs_cdn c @ ''/'' @ h in
      and_then (case cs_limits c of
                  None \<Rightarrow> ret (Inr ())
                | Some u \<Rightarrow> CheckUpload u (s_pubkey s) mime (int (length data))) (\<lambda>_. do {
        t \<leftarrow> now;
        and_then (wrap ''save blob'' (SaveWithDedup (cs_blobs c) (s_pubkey s) h url (int (length data)) mime data (Unix t) (s_mode s)))
          (\<lambda>(blob, newReference). do {
             _ \<leftarrow> (case cs_limits c of None \<Rightarrow> ret () | Some u \<Rightarrow> RecordUpload u (s_pubkey s));
             _ \<leftarrow> (case cs_quota c of
                     None \<Rightarrow> ret (Inr ())
                   | Some q \<Rightarrow> if newReference then IncrementUsage q (s_pubkey s) (int (length data)) else ret (Inr ()));
             _ \<leftarrow> finish_session i s h (Unix t);
             ret (Inr \<lparr>cp_blob = blob, cp_hash = h, cp_size = int (length data), cp_url = url\<rparr>)
           })
      }))"

definition complete_session :: "chunked_service \<Rightarrow> string \<Rightarrow> session_row \<Rightarrow> string \<Rightarrow> complete_response result prog" where
  "complete_session c i s expectedHash =
     and_then (ret (session_state s)) (\<lambda>_.
       if s_chunk_size s = 0 then ret (Inl panic_div)
       else let n = total_chunks (s_total s) (s_chunk_size s) in
         if s_chunks s \<noteq> n then ret (Inl (Wrap ''received'' ErrUploadIncomplete))
         else and_then (wrap ''get chunks'' (exec_sql (q_GetUploadChunks i))) (\<lambda>ks.
           if int (length ks) \<noteq> n then ret (Inl (Wrap ''database has'' ErrUploadIncomplete))
           else and_then (assemble c i 0 ks []) (\<lambda>data.
             let h = cs_hash c data;
                 want = (if expectedHash = [] \<and> s_hash s \<noteq> None then str_of (s_hash s) else expectedHash)
             in if want \<noteq> [] \<and> h \<noteq> want then ret (Inl (Wrap ''expected'' ErrHashMismatch))
                else save_assembled c i s h data)))"

definition CompleteUpload :: "chunked_service \<Rightarrow> string \<Rightarrow> string \<Rightarrow> complete_response result prog" where
  "CompleteUpload c i expectedHash = and_then (load_session i) (\<lambda>s. complete_session c i s expectedHash)"

definition AbortUpload :: "string \<Rightarrow> unit result prog" where
  "AbortUpload i = and_then (load_session i) (\<lambda>_. do {
     t \<leftarrow> now;
     r \<leftarrow> exec_sql (q_UpdateUploadSessionStatus i ''aborted'' (Unix t));
     case r of
       Inl e \<Rightarrow> ret (Inl (Wrap ''update session status'' e))
     | Inr _ \<Rightarrow> do {
         _ \<leftarrow> remove_dir i;
         _ \<leftarrow> exec_sql (q_DeleteUploadChunks i);
         ret (Inr ())
       }
   })"

definition GetSession :: "string \<Rightarrow> upload_session result prog" where
  "GetSession i = and_then (load_session i) (\<lambda>s.
     ret (if s_chunk_size s = 0 then Inl panic_div
          else Inr ((dbSessionToSession s)\<lparr>us_total_chunks := total_chunks (s_total s) (s_chunk_size s)\<rparr>)))"

definition GetChunks :: "string \<Rightarrow> upload_chunk list result prog" where
  "GetChunks i = do {
     r \<leftarrow> exec_sql (q_GetUploadChunks i);
     ret (case r of
            Inl e \<Rightarrow> Inl (Wrap ''get chunks'' e)
          | Inr ks \<Rightarrow> Inr (map (\<lambda>k. \<lparr>uc_session = k_session k, uc_num = k_num k, uc_size = k_size k,
                                     uc_offset = k_offset k, uc_hash = k_hash k, uc_received = k_received k\<rparr>) ks))
   }"

definition CleanupExpiredSessions :: "int result prog" where
  "CleanupExpiredSessions = do {
     t \<leftarrow> now;
     r \<leftarrow> exec_sql (q_DeleteExpiredSessions (Unix t));
     case r of
       Inl e \<Rightarrow> ret (Inl (Wrap ''delete expired sessions'' e))
     | Inr ids \<Rightarrow> do {
         _ \<leftarrow> for_each ids (\<lambda>i _. do { _ \<leftarrow> remove_dir i; ret () }) ();
         ret (Inr (int (length ids)))
       }
   }"

text \<open>What \<^verbatim>\<open>GET /upload/chunked/:session_id\<close> lists as missing.\<close>

definition missing_chunks :: "upload_session \<Rightarrow> upload_chunk list \<Rightarrow> int list" where
  "missing_chunks s ks = filter (\<lambda>n. n \<notin> uc_num ` set ks) (map int [0..<nat (us_total_chunks s)])"

end
