(* ===== verification/ChunkedRules.thy ===== *)
theory ChunkedRules
  imports Chunked "HOL-Library.Multiset"
begin

text \<open>
  What chunked uploads guarantee: which bytes a completed session stores, that chunks may come in any order, what a
  refused chunk leaves behind, the accounts, and how sessions end; and where they fall short.
\<close>

section \<open>Pieces\<close>

definition piece :: "nat \<Rightarrow> bytes \<Rightarrow> nat \<Rightarrow> bytes" where
  "piece c data i = take c (drop (i * c) data)"

lemma concat_pieces: "concat (map (piece c data) [0..<n]) = take (n * c) data"
  by (induction n) (simp_all add: piece_def take_add add.commute [of c])

lemma total_chunks_eq:
  assumes "0 < n" "0 < c" "n + c \<le> 2 ^ 63"
  shows "total_chunks n c = (n + c - 1) div c"
proof -
  have w: "i64 (i64 x - 1) = i64 (x - 1)" for x
    unfolding i64_def by (simp add: mod_simps)
  have r: "in_i64 (n + c - 1)" using assms by (simp add: in_i64_def)
  let ?k = "(n + c - 1) div c"
  note b = ceil_div_bounds [OF assms(1,2)]
  have "(?k - 1) * 1 \<le> (?k - 1) * c" using b(1) assms(2) by (intro mult_left_mono) simp_all
  then have "in_i64 ?k" using b(1,2) assms by (simp add: in_i64_def)
  then show ?thesis using assms r by (simp add: total_chunks_def w go_div_nonneg)
qed

text \<open>The plan of a session: with sizes whose sum fits in 64 bits, the announced number of chunks is the least that
  covers the file.\<close>

lemma total_chunks_bounds:
  assumes "0 < n" "0 < c" "n + c \<le> 2 ^ 63"
  shows "1 \<le> total_chunks n c" "(total_chunks n c - 1) * c < n" "n \<le> total_chunks n c * c" "total_chunks n c \<le> n"
proof -
  note e = total_chunks_eq [OF assms] and b = ceil_div_bounds [OF assms(1,2)]
  show "1 \<le> total_chunks n c" "(total_chunks n c - 1) * c < n" "n \<le> total_chunks n c * c" using b by (simp_all add: e)
  then have "(total_chunks n c - 1) * 1 \<le> (total_chunks n c - 1) * c" using assms(2) by (intro mult_left_mono) simp_all
  with \<open>(total_chunks n c - 1) * c < n\<close> show "total_chunks n c \<le> n" by simp
qed

section \<open>Reading a session and its chunks\<close>

text \<open>Only failures are used up.\<close>

definition looks :: "world \<Rightarrow> world \<Rightarrow> bool" where
  "looks w w' \<longleftrightarrow> (\<exists>fs. w' = w\<lparr>w_faults := fs\<rparr>)"

lemma looks_refl [simp]: "looks w w" "looks w (w\<lparr>w_faults := fs\<rparr>)"
  using looks_def [of w w] by (auto simp: looks_def intro: exI [of _ "w_faults w"])

lemma looks_trans: "looks w w1 \<Longrightarrow> looks w1 w2 \<Longrightarrow> looks w w2"
  by (auto simp: looks_def)

lemma looks_simps:
  "looks w w' \<Longrightarrow> w_db w' = w_db w \<and> w_objects w' = w_objects w \<and> w_saved w' = w_saved w \<and> w_files w' = w_files w
     \<and> w_now w' = w_now w \<and> w_lim w' = w_lim w \<and> w_rng w' = w_rng w"
  by (auto simp: looks_def)

lemma session_row: "q_GetUploadSession i d = (case session_of i d of None \<Rightarrow> Inl ErrNoRows | Some s \<Rightarrow> Inr s, d)"
  by (simp add: q_GetUploadSession_def first_row_def session_of_def)

lemma load_session_spec:
  "wp (load_session i) (\<lambda>r w'. looks w w' \<and> (\<forall>s. r = Inr s \<longrightarrow> session_of i (w_db w) = Some s)
     \<and> (session_of i (w_db w) = None \<longrightarrow> isl r)) w"
  unfolding load_session_def wp_bind
  by (rule wp_exec) (auto simp: wp_ret session_row split: option.splits if_splits)

lemma read_chunk_spec:
  "wp (read_chunk i n) (\<lambda>r w'. looks w w' \<and> (\<forall>b. r = Inr b \<longrightarrow> chunk_file i n w = Some b)) w"
  unfolding read_chunk_def wp_bind
  by (rule wp_tick) (auto simp: wp_simp chunk_file_def split: option.splits)

definition verified :: "chunked_service \<Rightarrow> string \<Rightarrow> nat \<Rightarrow> chunk_row list \<Rightarrow> bytes list \<Rightarrow> world \<Rightarrow> bool" where
  "verified c i n ks bs w \<longleftrightarrow> length bs = length ks
     \<and> (\<forall>j < length ks. chunk_file i (n + j) w = Some (bs ! j) \<and> cs_hash c (bs ! j) = k_hash (ks ! j))"

lemma verified_Cons:
  "chunk_file i n w = Some b \<Longrightarrow> cs_hash c b = k_hash k \<Longrightarrow> verified c i (Suc n) ks bs w \<Longrightarrow> verified c i n (k # ks) (b # bs) w"
  by (auto simp: verified_def nth_Cons split: nat.split)

lemma assemble_spec:
  "wp (assemble c i n ks acc) (\<lambda>r w'. looks w w'
     \<and> (\<forall>data. r = Inr data \<longrightarrow> (\<exists>bs. data = acc @ concat bs \<and> verified c i n ks bs w))) w"
proof (induction ks arbitrary: n acc w)
  case Nil
  then show ?case by (simp add: wp_ret verified_def)
next
  case (Cons k ks)
  show ?case
    unfolding assemble.simps wp_bind
  proof (rule wp_mono [OF read_chunk_spec], elim conjE)
    fix r :: "bytes result" and w1
    assume w1: "looks w w1" and r: "\<forall>b. r = Inr b \<longrightarrow> chunk_file i n w = Some b"
    have f: "chunk_file i m w1 = chunk_file i m w" for m using looks_simps [OF w1] by (simp add: chunk_file_def)
    then have v: "verified c i m xs bs w1 = verified c i m xs bs w" for m xs bs by (simp add: verified_def)
    show "wp (case r of Inl e \<Rightarrow> ret (Inl (Wrap ''read chunk'' e))
        | Inr data \<Rightarrow> if cs_hash c data \<noteq> k_hash k then ret (Inl (Msg ''chunk hash mismatch''))
            else assemble c i (Suc n) ks (acc @ data)) (\<lambda>r w'. looks w w'
       \<and> (\<forall>data. r = Inr data \<longrightarrow> (\<exists>bs. data = acc @ concat bs \<and> verified c i n (k # ks) bs w))) w1"
    proof (cases r)
      case (Inl e)
      then show ?thesis by (simp add: wp_ret w1)
    next
      case (Inr b)
      show ?thesis
      proof (cases "cs_hash c b = k_hash k")
        case False
        then show ?thesis by (simp add: Inr wp_ret w1)
      next
        case True
        then have n: "\<not> cs_hash c b \<noteq> k_hash k" by simp
        show ?thesis
          unfolding Inr sum.case if_not_P [OF n]
        proof (rule wp_mono [OF Cons.IH], intro conjI allI impI)
          fix x :: "bytes result" and w2
          assume a: "looks w1 w2 \<and> (\<forall>data. x = Inr data \<longrightarrow> (\<exists>bs. data = (acc @ b) @ concat bs \<and> verified c i (Suc n) ks bs w1))"
          then show "looks w w2" using looks_trans [OF w1] by blast
          fix data assume "x = Inr data"
          with a obtain bs where "data = (acc @ b) @ concat bs" "verified c i (Suc n) ks bs w" unfolding v by blast
          moreover have "chunk_file i n w = Some b" using r Inr by blast
          ultimately show "\<exists>bs. data = acc @ concat bs \<and> verified c i n (k # ks) bs w"
            using True verified_Cons by (intro exI [of _ "b # bs"]) simp
        qed
      qed
    qed
  qed
qed

section \<open>Completing a session\<close>

text \<open>Only the tables and files of the sessions change.\<close>

definition session_change :: "world \<Rightarrow> world \<Rightarrow> bool" where
  "session_change w w' \<longleftrightarrow>
     (\<exists>ss ks. w_db w' = (w_db w)\<lparr>t_sessions := ss, t_chunks := ks\<rparr>)
     \<and> w_objects w' = w_objects w \<and> w_saved w' = w_saved w \<and> same_env w w'"

lemma session_change_same: "w_db w' = w_db w \<Longrightarrow> w_objects w' = w_objects w \<Longrightarrow> w_saved w' = w_saved w \<Longrightarrow> same_env w w'
    \<Longrightarrow> session_change w w'"
  unfolding session_change_def
  by (intro conjI exI [of _ "t_sessions (w_db w)"] exI [of _ "t_chunks (w_db w)"]) simp_all

lemma looks_session_change: "looks w w' \<Longrightarrow> session_change w w'"
  by (rule session_change_same) (auto simp: looks_def same_env_def)

lemma session_change_refl [simp]: "session_change w w"
  by (rule session_change_same) simp_all

lemma session_change_trans: "session_change w w1 \<Longrightarrow> session_change w1 w2 \<Longrightarrow> session_change w w2"
  unfolding session_change_def same_env_def by (elim conjE exE, intro conjI) (simp_all, blast)

lemma session_change_frame:
  assumes "session_change w w'"
  shows "owned (w_db w') = owned (w_db w)" "balance pk (w_db w') = balance pk (w_db w)" "db_inv (w_db w') = db_inv (w_db w)"
    "w_saved w' = w_saved w" "w_objects w' = w_objects w" "w_now w' = w_now w" "w_lim w' = w_lim w"
  using assms by (auto simp: session_change_def same_env_def)

lemma session_query:
  assumes "\<And>d. \<exists>ss ks. snd (f d) = d\<lparr>t_sessions := ss, t_chunks := ks\<rparr>"
  shows "wp (exec_sql f) (\<lambda>_ w'. session_change w w' \<and> w_files w' = w_files w) w"
proof (rule wp_exec)
  fix fs :: "bool list" and r d assume "f (w_db w) = (r, d)"
  with assms [of "w_db w"] have "\<exists>ss ks. d = (w_db w)\<lparr>t_sessions := ss, t_chunks := ks\<rparr>" by simp
  then show "session_change w (w\<lparr>w_faults := fs, w_db := d\<rparr>) \<and> w_files (w\<lparr>w_faults := fs, w_db := d\<rparr>) = w_files w"
    by (simp add: session_change_def same_env_def)
qed (auto intro: session_change_same simp: same_env_def)

lemma update_session_tables: "\<exists>ss ks. update_session i f d = d\<lparr>t_sessions := ss, t_chunks := ks\<rparr>"
  by (rule exI, rule exI [of _ "t_chunks d"]) (simp add: update_session_def)

lemma session_queries:
  "wp (exec_sql (q_UpdateUploadSessionStatus i st t)) (\<lambda>_ w'. session_change w w' \<and> w_files w' = w_files w) w"
  "wp (exec_sql (q_UpdateUploadSessionHash i h t)) (\<lambda>_ w'. session_change w w' \<and> w_files w' = w_files w) w"
  "wp (exec_sql (q_UpdateUploadSessionProgress i n m t)) (\<lambda>_ w'. session_change w w' \<and> w_files w' = w_files w) w"
  "wp (exec_sql (q_DeleteUploadChunks i)) (\<lambda>_ w'. session_change w w' \<and> w_files w' = w_files w) w"
proof -
  have "\<exists>ss ks. snd (q_DeleteUploadChunks i d) = d\<lparr>t_sessions := ss, t_chunks := ks\<rparr>" for d
    by (rule exI [of _ "t_sessions d"], rule exI) (simp add: q_DeleteUploadChunks_def)
  then show "wp (exec_sql (q_DeleteUploadChunks i)) (\<lambda>_ w'. session_change w w' \<and> w_files w' = w_files w) w"
    by (rule session_query)
qed (rule session_query, simp add: q_UpdateUploadSessionStatus_def q_UpdateUploadSessionHash_def
      q_UpdateUploadSessionProgress_def update_session_tables)+

lemma file_ops:
  "wp (write_chunk i n data) (\<lambda>_ w'. session_change w w' \<and> w_db w' = w_db w) w"
  "wp (remove_chunk i n) (\<lambda>_ w'. session_change w w' \<and> w_db w' = w_db w) w"
  "wp (remove_dir i) (\<lambda>_ w'. session_change w w' \<and> w_db w' = w_db w) w"
  "wp (mk_dir i) (\<lambda>_ w'. session_change w w' \<and> w_db w' = w_db w) w"
  unfolding write_chunk_def remove_chunk_def remove_dir_def mk_dir_def wp_bind
  by (auto intro!: wp_tick session_change_same simp: wp_simp same_env_def set_file_def)

lemma finish_session_spec: "wp (finish_session i s h t) (\<lambda>_ w'. session_change w w') w"
  unfolding finish_session_def wp_bind
proof (rule wp_mono [OF session_queries(1)], elim conjE)
  fix w1 assume w1: "session_change w w1"
  have "wp (if s_hash s = None then exec_sql (q_UpdateUploadSessionHash i (Some h) t) else ret (Inr ()))
      (\<lambda>_ w'. session_change w1 w') w1"
    by (auto simp: wp_ret intro: wp_mono [OF session_queries(2)])
  then show "wp (if s_hash s = None then exec_sql (q_UpdateUploadSessionHash i (Some h) t) else ret (Inr ()))
      (\<lambda>_. wp (remove_dir i) (\<lambda>_. wp (ret ()) (\<lambda>_ w'. session_change w w'))) w1"
    by (rule wp_mono) (auto simp: wp_ret intro!: wp_mono [OF file_ops(3)] intro: session_change_trans [OF w1] session_change_trans)
qed

lemma limits_step: "wp (case u of None \<Rightarrow> ret (Inr ()) | Some u \<Rightarrow> CheckUpload u pk m n) (\<lambda>_. step w) w"
  "wp (case u of None \<Rightarrow> ret () | Some u \<Rightarrow> RecordUpload u pk) (\<lambda>_. step w) w"
  by (auto simp: wp_ret CheckUpload_step RecordUpload_step split: option.split)

lemma charge_any:
  assumes "db_inv (w_db w)"
  shows "wp (case q of None \<Rightarrow> ret (Inr ()) | Some q \<Rightarrow> if new then IncrementUsage q pk n else ret (Inr ()))
    (\<lambda>_ w'. db_inv (w_db w') \<and> only_users w w') w"
proof -
  have "db_inv (w_db w) \<and> only_users w w" using assms by (simp add: only_users_def)
  then show ?thesis using IncrementUsage_any [OF assms] by (simp add: wp_ret split: option.split)
qed

text \<open>The end that chunked and resumable uploads share: tier check, save, record, charge, and some \<open>rest\<close> that leaves owners
  and accounts alone.\<close>

lemma save_and_charge:
  assumes enc: "enc_ok bs" and w: "db_inv (w_db w)" "w_saved w = None"
    and rest: "\<And>t blob w1. db_inv (w_db w1) \<Longrightarrow> w_saved w1 = None
      \<Longrightarrow> wp (rest t blob) (\<lambda>r w'. (\<exists>x. r = Inr x \<and> R x) \<and> db_inv (w_db w') \<and> w_saved w' = None \<and> owned (w_db w') = owned (w_db w1)) w1"
  shows "wp (and_then (case u of None \<Rightarrow> ret (Inr ()) | Some l \<Rightarrow> CheckUpload l pk mime (int (length data))) (\<lambda>_. do {
      t \<leftarrow> now;
      and_then (wrap ''save blob'' (SaveWithDedup bs pk h url (int (length data)) mime data (Unix t) mode))
        (\<lambda>(blob, newReference). do {
           _ \<leftarrow> (case u of None \<Rightarrow> ret () | Some l \<Rightarrow> RecordUpload l pk);
           _ \<leftarrow> (case q of
                   None \<Rightarrow> ret (Inr ())
                 | Some q \<Rightarrow> if newReference then IncrementUsage q pk (int (length data)) else ret (Inr ()));
           rest t blob
         }) }))
    (\<lambda>r w'. db_inv (w_db w') \<and> w_saved w' = None \<and>
      (case r of
         Inl _ \<Rightarrow> failed_map bs h data (int (length data)) (owned (w_db w)) (owned (w_db w'))
           \<and> (\<forall>pk'. balance pk' (w_db w') = balance pk' (w_db w))
       | Inr x \<Rightarrow> R x \<and> (\<exists>ob. saved_map bs pk h data (int (length data)) ob (owned (w_db w)) (owned (w_db w'))))) w"
  (is "wp _ ?Q w")
proof -
  have fin: "wp (do {
        _ \<leftarrow> (case u of None \<Rightarrow> ret () | Some l \<Rightarrow> RecordUpload l pk);
        _ \<leftarrow> (case q of None \<Rightarrow> ret (Inr ()) | Some q \<Rightarrow> if new then IncrementUsage q pk (int (length data)) else ret (Inr ()));
        rest t blob }) ?Q w1"
    if w1: "db_inv (w_db w1)" "w_saved w1 = None" "saved_map bs pk h data (int (length data)) ob (owned (w_db w)) (owned (w_db w1))"
    for w1 new t blob ob
    unfolding wp_bind
  proof (rule wp_mono [OF limits_step(2)])
    fix w2 assume "step w1 w2"
    then have w2: "db_inv (w_db w2)" "w_saved w2 = None" "owned (w_db w2) = owned (w_db w1)"
      using w1 by (simp_all add: step_def calm_def)
    show "wp (case q of None \<Rightarrow> ret (Inr ()) | Some q \<Rightarrow> if new then IncrementUsage q pk (int (length data)) else ret (Inr ()))
      (\<lambda>_. wp (rest t blob) ?Q) w2"
    proof (rule wp_mono [OF charge_any [OF w2(1)]], elim conjE)
      fix w3 assume "db_inv (w_db w3)" "only_users w2 w3"
      then have w3: "db_inv (w_db w3)" "w_saved w3 = None" "owned (w_db w3) = owned (w_db w1)"
        using w2 by (simp_all add: only_users_def)
      show "wp (rest t blob) ?Q w3"
        by (rule wp_mono [OF rest [OF w3(1,2)]]) (use w3(3) w1(3) in auto)
    qed
  qed
  show ?thesis
  proof (rule wp_chain [where P = "\<lambda>_. step w"], rule wp_mono [OF limits_step(1)])
    fix r :: "unit result" and w1 assume "step w w1"
    then show "case r of Inl e \<Rightarrow> ?Q (Inl e) w1 | Inr _ \<Rightarrow> step w w1"
      using w by (simp add: step_def calm_def failed_map_def split: sum.split)
  next
    fix w1 assume "step w w1"
    then have w1: "db_inv (w_db w1)" "w_saved w1 = None" "owned (w_db w1) = owned (w_db w)"
      "\<And>pk'. balance pk' (w_db w1) = balance pk' (w_db w)"
      using w by (simp_all add: step_def calm_def)
    show "wp (do {
        t \<leftarrow> now;
        and_then (wrap ''save blob'' (SaveWithDedup bs pk h url (int (length data)) mime data (Unix t) mode))
          (\<lambda>(blob, newReference). do {
             _ \<leftarrow> (case u of None \<Rightarrow> ret () | Some l \<Rightarrow> RecordUpload l pk);
             _ \<leftarrow> (case q of
                     None \<Rightarrow> ret (Inr ())
                   | Some q \<Rightarrow> if newReference then IncrementUsage q pk (int (length data)) else ret (Inr ()));
             rest t blob
           }) }) ?Q w1"
      unfolding wp_bind wp_now wp_and_then wp_wrap
    proof (rule wp_mono [OF SaveWithDedup_spec [OF enc w1(1,2)]], elim conjE)
      fix r :: "(blob_desc \<times> bool) result" and w2 :: world
      assume w2: "w_saved w2 = None" "db_inv (w_db w2)" "others (w_db w2) = others (w_db w1)"
        and r: "case r of
            Inl _ \<Rightarrow> failed_map bs h data (int (length data)) (owned (w_db w1)) (owned (w_db w2))
          | Inr (desc, added) \<Rightarrow> added = (\<not> owns pk h (owned (w_db w1)))
              \<and> saved_map bs pk h data (int (length data)) (w_objects w2) (owned (w_db w1)) (owned (w_db w2))
              \<and> desc_charge (int (length data)) data h desc (owned (w_db w2))"
      show "(case case r of Inl e \<Rightarrow> Inl (Wrap ''save blob'' e) | Inr x \<Rightarrow> Inr x of Inl e \<Rightarrow> ?Q (Inl e)
        | Inr x \<Rightarrow> wp (case x of (blob, newReference) \<Rightarrow> do {
             _ \<leftarrow> (case u of None \<Rightarrow> ret () | Some l \<Rightarrow> RecordUpload l pk);
             _ \<leftarrow> (case q of
                     None \<Rightarrow> ret (Inr ())
                   | Some q \<Rightarrow> if newReference then IncrementUsage q pk (int (length data)) else ret (Inr ()));
             rest (w_now w1) blob
           }) ?Q) w2"
      proof (cases r)
        case (Inl e)
        then show ?thesis using w1 w2 r others_balance [OF w2(3)] by simp
      next
        case (Inr x)
        obtain desc new where x: "x = (desc, new)" by (cases x)
        show ?thesis
          unfolding Inr x sum.case prod.case
          by (rule fin [OF w2(2,1), where ob = "w_objects w2"]) (use r Inr x w1 in simp)
      qed
    qed
  qed
qed

text \<open>What completing does to the owners, whichever calls fail.\<close>

lemma save_assembled_spec:
  assumes "enc_ok (cs_blobs c)" "db_inv (w_db w)" "w_saved w = None"
  shows "wp (save_assembled c i s h data) (\<lambda>r w'. db_inv (w_db w') \<and> w_saved w' = None \<and>
    (case r of
       Inl _ \<Rightarrow> failed_map (cs_blobs c) h data (int (length data)) (owned (w_db w)) (owned (w_db w'))
         \<and> (\<forall>pk'. balance pk' (w_db w') = balance pk' (w_db w))
     | Inr resp \<Rightarrow> cp_hash resp = h \<and> cp_size resp = int (length data)
         \<and> (\<exists>ob. saved_map (cs_blobs c) (s_pubkey s) h data (int (length data)) ob (owned (w_db w)) (owned (w_db w'))))) w"
  unfolding save_assembled_def Let_def
proof (rule wp_mono [OF save_and_charge [where R = "\<lambda>x. cp_hash x = h \<and> cp_size x = int (length data)", OF assms]])
  fix t :: int and blob :: blob_desc and w1 :: world assume w1: "db_inv (w_db w1)" "w_saved w1 = None"
  let ?r = "\<lparr>cp_blob = blob, cp_hash = h, cp_size = int (length data), cp_url = cs_cdn c @ ''/'' @ h\<rparr>"
  show "wp (do { _ \<leftarrow> finish_session i s h (Unix t); ret (Inr ?r) } :: complete_response result prog)
    (\<lambda>r w'. (\<exists>x. r = Inr x \<and> cp_hash x = h \<and> cp_size x = int (length data)) \<and> db_inv (w_db w') \<and> w_saved w' = None
       \<and> owned (w_db w') = owned (w_db w1)) w1"
    unfolding wp_bind by (rule wp_mono [OF finish_session_spec]) (use w1 in \<open>simp add: wp_ret session_change_frame\<close>)
qed (simp split: sum.splits)

lemma keeps_quiet_files [keeps_rule]:
  "keeps quiet (write_chunk i n data)" "keeps quiet (read_chunk i n)" "keeps quiet (remove_chunk i n)"
  "keeps quiet (remove_dir i)" "keeps quiet (mk_dir i)" "keeps quiet (uuid_new c)"
  by (rule keepsI, simp add: write_chunk_def read_chunk_def remove_chunk_def remove_dir_def mk_dir_def uuid_new_def
      wp_simp no_fault quiet_def set_file_def)+

lemma keeps_quiet_chunked [keeps_rule]:
  "keeps quiet (load_session i)" "keeps quiet (finish_session i s h t)" "keeps quiet (assemble c i n ks acc)"
proof -
  show "keeps quiet (assemble c i n ks acc)" by (induction ks arbitrary: n acc) (auto intro!: keeps_rule)
qed (unfold load_session_def finish_session_def; intro keeps_rule)+

text \<open>What must hold of a session that is saved: every chunk row has its file, with the hash of the row.\<close>

definition assembled ::
  "chunked_service \<Rightarrow> string \<Rightarrow> string \<Rightarrow> session_row \<Rightarrow> bytes list \<Rightarrow> world \<Rightarrow> bool" where
  "assembled c i expected s bs w \<longleftrightarrow> session_of i (w_db w) = Some s \<and> session_state s = Inr ()
     \<and> s_chunks s = total_chunks (s_total s) (s_chunk_size s) \<and> int (length bs) = total_chunks (s_total s) (s_chunk_size s)
     \<and> verified c i 0 (sort_key k_num (chunks_of i (w_db w))) bs w
     \<and> (expected \<noteq> [] \<longrightarrow> cs_hash c (concat bs) = expected)"

lemma CompleteUpload_wp:
  assumes err: "\<And>e w1. looks w w1 \<Longrightarrow> (quiet w \<longrightarrow> quiet w1) \<Longrightarrow> Q (Inl e) w1"
    and save: "\<And>s bs w1. looks w w1 \<Longrightarrow> (quiet w \<longrightarrow> quiet w1) \<Longrightarrow> assembled c i expected s bs w
      \<Longrightarrow> wp (save_assembled c i s (cs_hash c (concat bs)) (concat bs)) Q w1"
  shows "wp (CompleteUpload c i expected) Q w"
proof -
  define A where "A s ks w1 \<longleftrightarrow> looks w w1 \<and> (quiet w \<longrightarrow> quiet w1) \<and> session_of i (w_db w) = Some s \<and> session_state s = Inr ()
      \<and> s_chunks s = total_chunks (s_total s) (s_chunk_size s) \<and> ks = sort_key k_num (chunks_of i (w_db w))" for s ks w1
  have last: "wp (let h = cs_hash c data;
           want = (if expected = [] \<and> s_hash s \<noteq> None then str_of (s_hash s) else expected)
         in if want \<noteq> [] \<and> h \<noteq> want then ret (Inl (Wrap ''expected'' ErrHashMismatch)) else save_assembled c i s h data) Q w1"
    if a: "A s ks w1" "int (length ks) = total_chunks (s_total s) (s_chunk_size s)" "data = concat bs" "verified c i 0 ks bs w"
    for s ks bs data w1
  proof -
    have w1: "looks w w1" "quiet w \<longrightarrow> quiet w1" using a(1) by (simp_all add: A_def)
    have "assembled c i expected s bs w" if "expected \<noteq> [] \<longrightarrow> cs_hash c (concat bs) = expected"
      using a(1,2,4) that by (simp add: A_def assembled_def) (simp add: verified_def)
    from save [OF w1 this] err [OF w1] a(3) show ?thesis by (auto simp: Let_def wp_ret)
  qed
  have asm: "wp (and_then (assemble c i 0 ks []) (\<lambda>data.
         let h = cs_hash c data;
             want = (if expected = [] \<and> s_hash s \<noteq> None then str_of (s_hash s) else expected)
         in if want \<noteq> [] \<and> h \<noteq> want then ret (Inl (Wrap ''expected'' ErrHashMismatch)) else save_assembled c i s h data)) Q w1"
    if a: "A s ks w1" "int (length ks) = total_chunks (s_total s) (s_chunk_size s)" for s ks w1
  proof (rule wp_chain [where P = "\<lambda>data w2. \<exists>bs. A s ks w2 \<and> data = concat bs \<and> verified c i 0 ks bs w"])
    have w1: "looks w w1" "quiet w \<longrightarrow> quiet w1" using a(1) by (simp_all add: A_def)
    then have v: "verified c i 0 ks bs w1 = verified c i 0 ks bs w" for bs
      using looks_simps [OF w1(1)] by (simp add: verified_def chunk_file_def)
    show "wp (assemble c i 0 ks []) (\<lambda>r w2. case r of Inl e \<Rightarrow> Q (Inl e) w2
        | Inr data \<Rightarrow> \<exists>bs. A s ks w2 \<and> data = concat bs \<and> verified c i 0 ks bs w) w1"
    proof (rule wp_mono [OF quiet_imp [OF keeps_quiet_chunked(3) assemble_spec]], elim conjE)
      fix r :: "bytes result" and w2
      assume w2: "quiet w1 \<longrightarrow> quiet w2" "looks w1 w2"
        and r: "\<forall>data. r = Inr data \<longrightarrow> (\<exists>bs. data = [] @ concat bs \<and> verified c i 0 ks bs w1)"
      have l: "looks w w2" "quiet w \<longrightarrow> quiet w2" using looks_trans [OF w1(1) w2(2)] w1 w2 by simp_all
      then have "A s ks w2" using a(1) by (simp add: A_def)
      with l r err show "case r of Inl e \<Rightarrow> Q (Inl e) w2
        | Inr data \<Rightarrow> \<exists>bs. A s ks w2 \<and> data = concat bs \<and> verified c i 0 ks bs w"
        by (auto simp: v split: sum.split)
    qed
  qed (use last a(2) in blast)
  have body: "wp (complete_session c i s expected) Q w1"
    if w1: "looks w w1" "quiet w \<longrightarrow> quiet w1" and s: "session_of i (w_db w) = Some s" for s w1
  proof -
    let ?n = "total_chunks (s_total s) (s_chunk_size s)"
    have e: "Q (Inl e) w1" for e by (rule err [OF w1])
    have rows: "wp (and_then (wrap ''get chunks'' (exec_sql (q_GetUploadChunks i))) (\<lambda>ks.
           if int (length ks) \<noteq> ?n then ret (Inl (Wrap ''database has'' ErrUploadIncomplete))
           else and_then (assemble c i 0 ks []) (\<lambda>data.
             let h = cs_hash c data;
                 want = (if expected = [] \<and> s_hash s \<noteq> None then str_of (s_hash s) else expected)
             in if want \<noteq> [] \<and> h \<noteq> want then ret (Inl (Wrap ''expected'' ErrHashMismatch))
                else save_assembled c i s h data))) Q w1"
      if n: "session_state s = Inr ()" "s_chunks s = ?n"
    proof (rule wp_chain [where P = "A s"])
      show "wp (wrap ''get chunks'' (exec_sql (q_GetUploadChunks i)))
        (\<lambda>r w'. case r of Inl e \<Rightarrow> Q (Inl e) w' | Inr ks \<Rightarrow> A s ks w') w1"
        unfolding wp_wrap
      proof (rule wp_exec_either)
        show "q_GetUploadChunks i (w_db w1) = (Inr (sort_key k_num (chunks_of i (w_db w))), w_db w1)"
          using looks_simps [OF w1(1)] by (simp add: q_GetUploadChunks_def)
        fix fs :: "bool list" assume q: "quiet w1 \<Longrightarrow> fs = []"
        have "looks w (w1\<lparr>w_faults := fs\<rparr>)" "quiet w \<longrightarrow> quiet (w1\<lparr>w_faults := fs\<rparr>)"
          using w1 q looks_trans [OF w1(1)] by (auto simp: quiet_def)
        then show "case case Inr (sort_key k_num (chunks_of i (w_db w))) of Inl e \<Rightarrow> Inl (Wrap ''get chunks'' e) | Inr x \<Rightarrow> Inr x of
            Inl e \<Rightarrow> Q (Inl e) (w1\<lparr>w_faults := fs, w_db := w_db w1\<rparr>)
          | Inr ks \<Rightarrow> A s ks (w1\<lparr>w_faults := fs, w_db := w_db w1\<rparr>)"
          using n s by (simp add: A_def)
      next
        fix fs :: "bool list" assume nq: "\<not> quiet w1"
        then have "looks w (w1\<lparr>w_faults := fs\<rparr>)" "quiet w \<longrightarrow> quiet (w1\<lparr>w_faults := fs\<rparr>)"
          using w1 looks_trans [OF w1(1)] by auto
        then show "case case Inl ErrIO of Inl e \<Rightarrow> Inl (Wrap ''get chunks'' e) | Inr x \<Rightarrow> Inr x of
            Inl e \<Rightarrow> Q (Inl e) (w1\<lparr>w_faults := fs\<rparr>) | Inr ks \<Rightarrow> A s ks (w1\<lparr>w_faults := fs\<rparr>)"
          by (simp add: err)
      qed
    next
      fix ks w2 assume a: "A s ks w2"
      then have "Q (Inl e) w2" for e by (simp add: A_def err)
      then show "wp (if int (length ks) \<noteq> ?n then ret (Inl (Wrap ''database has'' ErrUploadIncomplete))
           else and_then (assemble c i 0 ks []) (\<lambda>data.
             let h = cs_hash c data;
                 want = (if expected = [] \<and> s_hash s \<noteq> None then str_of (s_hash s) else expected)
             in if want \<noteq> [] \<and> h \<noteq> want then ret (Inl (Wrap ''expected'' ErrHashMismatch))
                else save_assembled c i s h data)) Q w2"
        using asm [OF a] by (simp add: wp_ret)
    qed
    show ?thesis
      unfolding complete_session_def
    proof (rule wp_chain [where P = "\<lambda>_ w'. w' = w1 \<and> session_state s = Inr ()"])
      show "wp (ret (session_state s)) (\<lambda>r w'. case r of Inl e \<Rightarrow> Q (Inl e) w' | Inr x \<Rightarrow> w' = w1 \<and> session_state s = Inr ()) w1"
        by (simp add: wp_ret e split: sum.split)
    qed (use rows e in \<open>auto simp: wp_ret Let_def\<close>)
  qed
  show ?thesis
    unfolding CompleteUpload_def
  proof (rule wp_chain [where P = "\<lambda>s w1. looks w w1 \<and> (quiet w \<longrightarrow> quiet w1) \<and> session_of i (w_db w) = Some s"])
    show "wp (load_session i) (\<lambda>r w'. case r of Inl e \<Rightarrow> Q (Inl e) w'
        | Inr s \<Rightarrow> looks w w' \<and> (quiet w \<longrightarrow> quiet w') \<and> session_of i (w_db w) = Some s) w"
      by (rule wp_mono [OF quiet_imp [OF keeps_quiet_chunked(1) load_session_spec]]) (auto simp: err split: sum.split)
  qed (use body in blast)
qed

section \<open>Accepting a chunk\<close>

lemma store_chunk_frame: "wp (store_chunk c s i n data) (\<lambda>_ w'. session_change w w') w"
  unfolding store_chunk_def wp_bind
proof (rule wp_mono [OF file_ops(1)], elim conjE)
  fix r :: "unit result" and w1 assume w1: "session_change w w1"
  let ?k = "chunk_row_of c s i n data (Unix (w_now w1))"
  have q: "wp (exec_sql (q_CreateUploadChunk k)) (\<lambda>_ w'. session_change w w') w1" for k
  proof (rule wp_mono [OF session_query])
    show "\<exists>ss ks. snd (q_CreateUploadChunk k d) = d\<lparr>t_sessions := ss, t_chunks := ks\<rparr>" for d
      by (rule exI [of _ "t_sessions d"], cases "snd (q_CreateUploadChunk k d) = d", rule exI [of _ "t_chunks d"], simp,
          rule exI) (auto simp: q_CreateUploadChunk_def split: if_splits)
  qed (use session_change_trans [OF w1] in blast)
  show "wp (case r of Inl e \<Rightarrow> ret (Inl (Wrap ''write chunk'' e))
     | Inr _ \<Rightarrow> do {
         t \<leftarrow> now;
         r \<leftarrow> exec_sql (q_CreateUploadChunk (chunk_row_of c s i n data (Unix t)));
         case r of
           Inl e \<Rightarrow> do { _ \<leftarrow> remove_chunk i (nat n); ret (Inl (Wrap ''record chunk'' e)) }
         | Inr _ \<Rightarrow> do {
             _ \<leftarrow> exec_sql (q_UpdateUploadSessionProgress i (i32 (s_chunks s + 1)) (i64 (s_bytes s + int (length data))) (Unix t));
             ret (Inr \<lparr>uc_session = i, uc_num = n, uc_size = int (length data),
                       uc_offset = i64 (n * s_chunk_size s), uc_hash = cs_hash c data, uc_received = Unix t\<rparr>)
           }
       }) (\<lambda>_ w'. session_change w w') w1"
  proof (cases r)
    case (Inl e)
    then show ?thesis by (simp add: wp_ret w1)
  next
    case (Inr u)
    show ?thesis
      unfolding Inr sum.case wp_bind wp_now
    proof (rule wp_mono [OF q])
      fix r :: "chunk_row result" and w2 assume w2: "session_change w w2"
      have "wp (remove_chunk i (nat n)) (\<lambda>_ w'. session_change w w') w2"
        by (rule wp_mono [OF file_ops(2)]) (use session_change_trans [OF w2] in blast)
      moreover have "wp (exec_sql (q_UpdateUploadSessionProgress i m k t)) (\<lambda>_ w'. session_change w w') w2" for m k t
        by (rule wp_mono [OF session_queries(3)]) (use session_change_trans [OF w2] in blast)
      ultimately show "wp (case r of
           Inl e \<Rightarrow> do { _ \<leftarrow> remove_chunk i (nat n); ret (Inl (Wrap ''record chunk'' e)) }
         | Inr _ \<Rightarrow> do {
             _ \<leftarrow> exec_sql (q_UpdateUploadSessionProgress i (i32 (s_chunks s + 1)) (i64 (s_bytes s + int (length data)))
                   (Unix (w_now w1)));
             ret (Inr \<lparr>uc_session = i, uc_num = n, uc_size = int (length data),
                       uc_offset = i64 (n * s_chunk_size s), uc_hash = cs_hash c data, uc_received = Unix (w_now w1)\<rparr>)
           }) (\<lambda>_ w'. session_change w w') w2"
        by (simp add: wp_bind wp_ret split: sum.split)
    qed
  qed
qed

text \<open>Which chunks are stored: those of an active, unexpired session, with a number of the plan and the right size,
  whose row is not there (as far as the lookup tells).\<close>

definition acceptable :: "string \<Rightarrow> session_row \<Rightarrow> int \<Rightarrow> bytes \<Rightarrow> world \<Rightarrow> bool" where
  "acceptable i s n data w \<longleftrightarrow> session_of i (w_db w) = Some s \<and> session_state s = Inr () \<and> Unix (w_now w) \<le> s_expires s
     \<and> s_chunk_size s \<noteq> 0 \<and> 0 \<le> n \<and> n < total_chunks (s_total s) (s_chunk_size s) \<and> chunk_size_ok s n data
     \<and> (quiet w \<longrightarrow> (\<forall>k \<in> set (chunks_of i (w_db w)). k_num k \<noteq> i32 n))"

lemma UploadChunk_wp:
  assumes err: "\<And>e w1. session_change w w1 \<Longrightarrow> w_files w1 = w_files w \<Longrightarrow> t_chunks (w_db w1) = t_chunks (w_db w) \<Longrightarrow> Q (Inl e) w1"
    and store: "\<And>s w1. looks w w1 \<Longrightarrow> (quiet w \<longrightarrow> quiet w1) \<Longrightarrow> acceptable i s n data w \<Longrightarrow> wp (store_chunk c s i n data) Q w1"
  shows "wp (UploadChunk c i n data) Q w"
proof -
  have e: "Q (Inl x) w1" if "looks w w1" for x w1
    using err [OF looks_session_change [OF that]] looks_simps [OF that] by simp
  have expire: "wp (exec_sql (q_UpdateUploadSessionStatus i ''expired'' t)) (\<lambda>_. wp (ret (Inl ErrSessionExpired)) Q) w1"
    if "looks w w1" for t w1
  proof (rule wp_exec)
    fix fs :: "bool list"
    show "wp (ret (Inl ErrSessionExpired)) Q (w1\<lparr>w_faults := fs\<rparr>)" unfolding wp_ret by (rule e) (use looks_trans [OF that] in simp)
    fix r :: "unit result" and d
    assume "q_UpdateUploadSessionStatus i ''expired'' t (w_db w1) = (r, d)"
    then have d: "d = update_session i (\<lambda>s. s\<lparr>s_status := ''expired'', s_updated := t\<rparr>) (w_db w1)"
      by (simp add: q_UpdateUploadSessionStatus_def)
    have c: "session_change w1 (w1\<lparr>w_faults := fs, w_db := d\<rparr>)"
      using update_session_tables by (simp add: session_change_def same_env_def d)
    show "wp (ret (Inl ErrSessionExpired)) Q (w1\<lparr>w_faults := fs, w_db := d\<rparr>)"
      unfolding wp_ret
      by (rule err [OF session_change_trans [OF looks_session_change [OF that] c]])
        (use looks_simps [OF that] in \<open>simp_all add: d update_session_def\<close>)
  qed
  have body: "wp (accept_chunk c s i n data) Q w1"
    if w1: "looks w w1" "quiet w \<longrightarrow> quiet w1" and s: "session_of i (w_db w) = Some s" for s w1
    unfolding accept_chunk_def
  proof (rule wp_chain [where P = "\<lambda>_ w'. w' = w1 \<and> session_state s = Inr ()"])
    show "wp (ret (session_state s)) (\<lambda>r w'. case r of Inl e \<Rightarrow> Q (Inl e) w' | Inr x \<Rightarrow> w' = w1 \<and> session_state s = Inr ()) w1"
      by (simp add: wp_ret e [OF w1(1)] split: sum.split)
  next
    fix u :: unit and w' assume "w' = w1 \<and> session_state s = Inr ()"
    then have w': "w' = w1" and st: "session_state s = Inr ()" by simp_all
    let ?n = "total_chunks (s_total s) (s_chunk_size s)"
    have t: "w_now w1 = w_now w" and d: "w_db w1 = w_db w" using looks_simps [OF w1(1)] by simp_all
    have row: "wp (exec_sql (q_GetUploadChunk i (i32 n))) (\<lambda>k. wp (case k of
           Inr _ \<Rightarrow> ret (Inl ErrChunkAlreadyUploaded)
         | Inl _ \<Rightarrow> if \<not> chunk_size_ok s n data then ret (Inl (Wrap ''expected another size'' ErrChunkSizeMismatch))
             else store_chunk c s i n data) Q) w1"
      if a: "Unix (w_now w) \<le> s_expires s" "s_chunk_size s \<noteq> 0" "0 \<le> n" "n < ?n"
    proof (rule wp_exec_either)
      show "q_GetUploadChunk i (i32 n) (w_db w1) = (first_row (\<lambda>k. k_session k = i \<and> k_num k = i32 n) (t_chunks (w_db w)), w_db w1)"
        by (simp add: q_GetUploadChunk_def d)
      have st': "wp (if \<not> chunk_size_ok s n data then ret (Inl (Wrap ''expected another size'' ErrChunkSizeMismatch))
             else store_chunk c s i n data) Q w2"
        if "looks w w2" "quiet w \<longrightarrow> quiet w2" "quiet w \<longrightarrow> (\<forall>k \<in> set (chunks_of i (w_db w)). k_num k \<noteq> i32 n)" for w2
        using store [OF that(1,2), of s] s st a that(3) by (auto simp: wp_ret e that(1) acceptable_def)
      fix fs :: "bool list"
      show "wp (case Inl ErrIO of
           Inr _ \<Rightarrow> ret (Inl ErrChunkAlreadyUploaded)
         | Inl _ \<Rightarrow> if \<not> chunk_size_ok s n data then ret (Inl (Wrap ''expected another size'' ErrChunkSizeMismatch))
             else store_chunk c s i n data) Q (w1\<lparr>w_faults := fs\<rparr>)" if "\<not> quiet w1"
        unfolding sum.case by (rule st') (use w1 that looks_trans [OF w1(1)] in auto)
      show "wp (case first_row (\<lambda>k. k_session k = i \<and> k_num k = i32 n) (t_chunks (w_db w)) of
           Inr _ \<Rightarrow> ret (Inl ErrChunkAlreadyUploaded)
         | Inl _ \<Rightarrow> if \<not> chunk_size_ok s n data then ret (Inl (Wrap ''expected another size'' ErrChunkSizeMismatch))
             else store_chunk c s i n data) Q (w1\<lparr>w_faults := fs, w_db := w_db w1\<rparr>)" if q: "quiet w1 \<Longrightarrow> fs = []"
      proof (cases "find (\<lambda>k. k_session k = i \<and> k_num k = i32 n) (t_chunks (w_db w))")
        case None
        then have no: "\<forall>k \<in> set (chunks_of i (w_db w)). k_num k \<noteq> i32 n" by (auto simp: find_None_iff chunks_of_def)
        show ?thesis
          unfolding first_row_def None option.case sum.case
          by (rule st') (use w1 q no looks_trans [OF w1(1)] in \<open>auto simp: quiet_def\<close>)
      next
        case (Some k)
        show ?thesis
          unfolding first_row_def Some option.case sum.case wp_ret by (rule e) (use looks_trans [OF w1(1)] in simp)
      qed
    qed
    show "wp (do {
       t \<leftarrow> now;
       if Unix t > s_expires s then do {
         _ \<leftarrow> exec_sql (q_UpdateUploadSessionStatus i ''expired'' (Unix t));
         ret (Inl ErrSessionExpired)
       }
       else if s_chunk_size s = 0 then ret (Inl panic_div)
       else if n < 0 \<or> n \<ge> ?n then ret (Inl ErrChunkOutOfRange)
       else do {
         k \<leftarrow> exec_sql (q_GetUploadChunk i (i32 n));
         case k of
           Inr _ \<Rightarrow> ret (Inl ErrChunkAlreadyUploaded)
         | Inl _ \<Rightarrow>
             if \<not> chunk_size_ok s n data then ret (Inl (Wrap ''expected another size'' ErrChunkSizeMismatch))
             else store_chunk c s i n data
       } }) Q w'"
      unfolding w' wp_bind wp_now wp_if t wp_ret using expire [OF w1(1)] row e [OF w1(1)] by (simp add: wp_bind wp_ret)
  qed
  show ?thesis
    unfolding UploadChunk_def
  proof (rule wp_chain [where P = "\<lambda>s w1. looks w w1 \<and> (quiet w \<longrightarrow> quiet w1) \<and> session_of i (w_db w) = Some s"])
    show "wp (load_session i) (\<lambda>r w'. case r of Inl e \<Rightarrow> Q (Inl e) w'
        | Inr s \<Rightarrow> looks w w' \<and> (quiet w \<longrightarrow> quiet w') \<and> session_of i (w_db w) = Some s) w"
      by (rule wp_mono [OF quiet_imp [OF keeps_quiet_chunked(1) load_session_spec]]) (auto simp: e split: sum.split)
  qed (use body in blast)
qed

lemma UploadChunk_frame: "wp (UploadChunk c i n data) (\<lambda>_ w'. session_change w w') w"
proof (rule UploadChunk_wp)
  fix s w1 assume "looks w w1"
  from session_change_trans [OF looks_session_change [OF this]]
  show "wp (store_chunk c s i n data) (\<lambda>_ w'. session_change w w') w1" by (rule wp_mono [OF store_chunk_frame])
qed

section \<open>Completed sessions\<close>

text \<open>C19. Whichever calls fail: a completed session was active, had all its chunks, and stored exactly the chunk files in
  order, each with the hash recorded for it, under the hash of the whole (the one the client asked for,
  if it asked for one), for the key of the session. A refused one charges nobody and gives nobody a blob.\<close>

theorem complete_outcome:
  assumes "enc_ok (cs_blobs c)" "db_inv (w_db w)" "w_saved w = None"
    and "run_state (CompleteUpload c i expected) w = (r, w')"
  shows "db_inv (w_db w') \<and> (case r of
      Inl _ \<Rightarrow> (\<forall>pk. balance pk (w_db w') = balance pk (w_db w))
        \<and> (\<exists>h data. failed_map (cs_blobs c) h data (int (length data)) (owned (w_db w)) (owned (w_db w')))
    | Inr resp \<Rightarrow> \<exists>s bs ob. assembled c i expected s bs w
        \<and> cp_hash resp = cs_hash c (concat bs) \<and> cp_size resp = int (length (concat bs))
        \<and> saved_map (cs_blobs c) (s_pubkey s) (cs_hash c (concat bs)) (concat bs) (int (length (concat bs))) ob
            (owned (w_db w)) (owned (w_db w')))" (is "?Q r w'")
proof -
  have "wp (CompleteUpload c i expected) ?Q w"
  proof (rule CompleteUpload_wp)
    fix e :: goerr and w1 assume "looks w w1"
    from looks_simps [OF this] assms(2) show "?Q (Inl e) w1" by (simp add: failed_map_def)
  next
    fix s bs w1 assume w1: "looks w w1" and a: "assembled c i expected s bs w"
    have d: "w_db w1 = w_db w" "w_saved w1 = None" using looks_simps [OF w1] assms(3) by simp_all
    have i: "db_inv (w_db w1)" using assms(2) d by simp
    show "wp (save_assembled c i s (cs_hash c (concat bs)) (concat bs)) ?Q w1"
    proof (rule wp_mono [OF save_assembled_spec [OF assms(1) i d(2)]], elim conjE)
      fix r :: "complete_response result" and w2 :: world
      assume "db_inv (w_db w2)" and r: "case r of
         Inl _ \<Rightarrow> failed_map (cs_blobs c) (cs_hash c (concat bs)) (concat bs) (int (length (concat bs))) (owned (w_db w1)) (owned (w_db w2))
           \<and> (\<forall>pk'. balance pk' (w_db w2) = balance pk' (w_db w1))
       | Inr resp \<Rightarrow> cp_hash resp = cs_hash c (concat bs) \<and> cp_size resp = int (length (concat bs))
           \<and> (\<exists>ob. saved_map (cs_blobs c) (s_pubkey s) (cs_hash c (concat bs)) (concat bs) (int (length (concat bs))) ob
                (owned (w_db w1)) (owned (w_db w2)))"
      then show "?Q r w2"
        using a by (cases r) (simp_all only: d sum.case, blast+)
    qed
  qed
  from wp_run [OF this assms(4)] show ?thesis .
qed

lemma saved_owns: "saved_map c pk h blob sz ob m m' \<Longrightarrow> owns pk h m'"
  by (cases "m h") (auto simp: saved_map_def add_owner_def owns_def)

definition chunked_example :: chunked_service where
  "chunked_example = \<lparr>cs_blobs = plain_service, cs_quota = Some (NewQuotaService True 100 100), cs_limits = None,
     cs_config = \<lparr>cc_default = 2, cc_min = 1, cc_max = 4, cc_max_ttl = 0, cc_default_ttl = 0\<rparr>, cs_cdn = ''http://cdn'',
     cs_media = sample_media, cs_hash = (\<lambda>b. replicate (length b) CHR ''h''), cs_uuid = (\<lambda>_. ''u'')\<rparr>"

definition example_session :: session_row where
  "example_session = \<lparr>s_id = ''u'', s_pubkey = ''c'', s_hash = None, s_total = 3, s_chunk_size = 2, s_mime = None, s_chunks = 0,
     s_bytes = 0, s_status = ''active'', s_mode = ''none'', s_created = 0, s_updated = 0, s_expires = 10\<rparr>"

text \<open>A session of three bytes in two chunks, of which the last is already there.\<close>

definition session_world :: world where
  "session_world = (start_world (single_db\<lparr>t_sessions := [example_session]\<rparr>))\<lparr>w_files := [''u'' \<mapsto> (\<lambda>_. None)]\<rparr>"

definition chunks_world :: world where
  "chunks_world = snd (run_state (do { _ \<leftarrow> UploadChunk chunked_example ''u'' 1 [9]; UploadChunk chunked_example ''u'' 0 [7, 8] })
     session_world)"

theorem complete_outcome_witness:
  "owns ''c'' ''hhh'' (owned (w_db (snd (run_state (CompleteUpload chunked_example ''u'' []) chunks_world))))"
proof -
  let ?m = "CompleteUpload chunked_example ''u'' []"
  have ok: "\<not> isl (fst (run_state ?m chunks_world))" by code_simp
  from run_Inr [OF this] obtain x w' where r: "run_state ?m chunks_world = (Inr x, w')" by blast
  have c: "enc_ok (cs_blobs chunked_example)" by (simp add: chunked_example_def enc_ok_def plain_service_def)
  have "wp (UploadChunk chunked_example ''u'' 1 [9])
      (\<lambda>_ w1. wp (UploadChunk chunked_example ''u'' 0 [7, 8]) (\<lambda>_ w2. session_change session_world w2) w1) session_world"
    by (rule wp_mono [OF UploadChunk_frame], rule wp_mono [OF UploadChunk_frame]) (rule session_change_trans)
  then have "session_change session_world chunks_world"
    unfolding chunks_world_def wp_bind [symmetric] by (rule wp_run) (rule run_pair)
  then have i: "db_inv (w_db chunks_world)" "w_saved chunks_world = None"
    using balanced_examples(2) by (simp_all add: session_change_frame session_world_def balanced_def)
  have "case fst (run_state ?m chunks_world) of Inl _ \<Rightarrow> False | Inr x \<Rightarrow> cp_hash x = ''hhh''" by code_simp
  then have h: "cp_hash x = ''hhh''" by (simp add: r)
  have "map_option s_pubkey (session_of ''u'' (w_db chunks_world)) = Some ''c''" by code_simp
  with complete_outcome [OF c i r] h show ?thesis
    unfolding r snd_conv sum.case by (auto simp: assembled_def dest: saved_owns)
qed

section \<open>Any order of the chunks\<close>

text \<open>A client that sends the pieces of its file in the order of a list.\<close>

fun upload_all :: "chunked_service \<Rightarrow> string \<Rightarrow> nat \<Rightarrow> bytes \<Rightarrow> nat list \<Rightarrow> unit result prog" where
  "upload_all c i sz data [] = ret (Inr ())"
| "upload_all c i sz data (n # ns) = and_then (UploadChunk c i (int n) (piece sz data n)) (\<lambda>_. upload_all c i sz data ns)"

definition plan :: "nat \<Rightarrow> bytes \<Rightarrow> nat" where
  "plan sz data = nat (total_chunks (int (length data)) (int sz))"

lemma plan_bounds:
  assumes "0 < sz" "data \<noteq> []" "int (length data) + int sz \<le> 2 ^ 63"
  shows "int (plan sz data) = total_chunks (int (length data)) (int sz)" "0 < plan sz data"
    "(plan sz data - 1) * sz < length data" "length data \<le> plan sz data * sz"
proof -
  have l: "0 < int (length data)" "0 < int sz" using assms by simp_all
  note b = total_chunks_bounds [OF l assms(3)]
  show e: "int (plan sz data) = total_chunks (int (length data)) (int sz)" using b(1) by (simp add: plan_def)
  show p: "0 < plan sz data" using b(1) by (simp add: plan_def)
  have "int ((plan sz data - 1) * sz) < int (length data)" using b(2) p unfolding e [symmetric] by (simp add: of_nat_diff)
  then show "(plan sz data - 1) * sz < length data" by (simp only: of_nat_less_iff)
  have "int (length data) \<le> int (plan sz data * sz)" using b(3) unfolding e [symmetric] by simp
  then show "length data \<le> plan sz data * sz" by (simp only: of_nat_le_iff)
qed

lemma piece_length:
  assumes "0 < sz" "data \<noteq> []" "int (length data) + int sz \<le> 2 ^ 63" "n < plan sz data"
  shows "length (piece sz data n) = (if n = plan sz data - 1 then length data - n * sz else sz)" "n * sz < length data"
proof -
  note b = plan_bounds [OF assms(1-3)]
  have "n * sz \<le> (plan sz data - 1) * sz" using assms(4) by (intro mult_le_mono1) simp
  then show "n * sz < length data" using b(3) by (rule le_less_trans)
  show "length (piece sz data n) = (if n = plan sz data - 1 then length data - n * sz else sz)"
  proof (cases "n = plan sz data - 1")
    case True
    then have "length data \<le> n * sz + sz" using b(2,4) by (cases "plan sz data") simp_all
    with True show ?thesis by (simp add: piece_def)
  next
    case False
    then have "Suc n \<le> plan sz data - 1" using assms(4) by simp
    then have "Suc n * sz \<le> (plan sz data - 1) * sz" by (rule mult_le_mono1)
    then have "sz \<le> length data - n * sz" using b(3) by simp
    with False show ?thesis by (simp add: piece_def)
  qed
qed

definition session_like :: "session_row \<Rightarrow> session_row \<Rightarrow> bool" where
  "session_like s s' \<longleftrightarrow> s' = s\<lparr>s_chunks := s_chunks s', s_bytes := s_bytes s', s_updated := s_updated s'\<rparr>"

lemma session_like_simps:
  assumes "session_like s s'"
  shows "s_total s' = s_total s" "s_chunk_size s' = s_chunk_size s" "s_status s' = s_status s" "s_expires s' = s_expires s"
    "s_pubkey s' = s_pubkey s" "s_hash s' = s_hash s" "s_mime s' = s_mime s" "s_mode s' = s_mode s" "s_id s' = s_id s"
  by (subst assms [unfolded session_like_def], simp)+

text \<open>A session of which the pieces in \<open>done\<close> have arrived. The size it declared need not be that of the file: it only has to
  make as many chunks.\<close>

definition partial :: "chunked_service \<Rightarrow> string \<Rightarrow> session_row \<Rightarrow> nat \<Rightarrow> bytes \<Rightarrow> nat list \<Rightarrow> world \<Rightarrow> bool" where
  "partial c i s sz data ns w \<longleftrightarrow> quiet w \<and> Unix (w_now w) \<le> s_expires s \<and> s_status s = ''active''
     \<and> total_chunks (s_total s) (int sz) = int (plan sz data) \<and> s_chunk_size s = int sz \<and> w_files w i \<noteq> None
     \<and> (\<exists>s'. session_of i (w_db w) = Some s' \<and> session_like s s' \<and> s_chunks s' = int (length ns))
     \<and> map (\<lambda>k. (k_num k, k_hash k)) (chunks_of i (w_db w)) = map (\<lambda>n. (int n, cs_hash c (piece sz data n))) ns
     \<and> (\<forall>n \<in> set ns. chunk_file i n w = Some (piece sz data n))"

lemma find_update_session:
  "(\<And>s. s_id (f s) = s_id s) \<Longrightarrow> find (session_is i) (update_where (session_is i) f ss) = map_option f (find (session_is i) ss)"
  by (induction ss) (auto simp: update_where_def session_is_def)

lemma session_of_update:
  "(\<And>s. s_id (f s) = s_id s) \<Longrightarrow> session_of i (update_session i f d) = map_option f (session_of i d)"
  by (simp add: session_of_def update_session_def find_update_session)

lemma session_of_frame [simp]: "session_of i (d\<lparr>t_chunks := ks\<rparr>) = session_of i d"
  "chunks_of i (update_session i f d) = chunks_of i d"
  by (simp_all add: session_of_def chunks_of_def update_session_def)

lemma UploadChunk_next:
  assumes p: "partial c i s sz data ns w" and sz: "0 < sz" "data \<noteq> []" "int (length data) + int sz \<le> 2 ^ 63"
    and n: "n < plan sz data" "n \<notin> set ns" and small: "plan sz data < 2 ^ 31" "length ns < plan sz data"
  shows "wp (UploadChunk c i (int n) (piece sz data n)) (\<lambda>r w'. \<not> isl r \<and> partial c i s sz data (ns @ [n]) w' \<and> session_change w w') w"
proof -
  obtain s' where s': "session_of i (w_db w) = Some s'" "session_like s s'" "s_chunks s' = int (length ns)"
    using p by (auto simp: partial_def)
  note l = session_like_simps [OF s'(2)]
  note pl = plan_bounds [OF sz] piece_length [OF sz n(1)]
  have f: "s_status s' = ''active''" "total_chunks (s_total s') (int sz) = int (plan sz data)" "s_chunk_size s' = int sz" "Unix (w_now w) \<le> s_expires s'"
    "quiet w" "w_faults w = []" using p by (simp_all add: partial_def l quiet_def)
  obtain fl where fl: "w_files w i = Some fl" using p by (auto simp: partial_def)
  have i32: "i32 (int n) = int n" "i32 (int (length ns) + 1) = int (length ns) + 1"
    using n(1) small by (simp_all add: in_i32_def)
  have nk: "find (\<lambda>k. k_session k = i \<and> k_num k = int n) (t_chunks (w_db w)) = None"
  proof -
    have "k_num ` set (chunks_of i (w_db w)) = int ` set ns"
      using arg_cong [where f = "\<lambda>xs. fst ` set xs", OF p [unfolded partial_def, THEN conjunct2, THEN conjunct2, THEN conjunct2,
          THEN conjunct2, THEN conjunct2, THEN conjunct2, THEN conjunct2, THEN conjunct1]] by (simp add: image_image)
    with n(2) have "int n \<notin> k_num ` set (chunks_of i (w_db w))" by auto
    then show ?thesis by (auto simp: find_None_iff chunks_of_def image_iff)
  qed
  have ok: "chunk_size_ok s' (int n) (piece sz data n)"
  proof -
    have i: "in_i64 (int (plan sz data) - 1)" using small pl(2) by (simp add: in_i64_def)
    have e: "(int n = int (plan sz data) - 1) = (n = plan sz data - 1)" using pl(2) by auto
    have m: "length data - n * sz \<le> sz" if "n = plan sz data - 1"
    proof -
      have "plan sz data * sz = n * sz + sz" using that pl(2) by (cases "plan sz data") simp_all
      then show ?thesis using pl(4) by simp
    qed
    show ?thesis
      unfolding chunk_size_ok_def Let_def f(2,3) using i m by (simp only: i64_id e pl(5) of_nat_le_iff) simp
  qed
  have kf: "k_session (chunk_row_of c s' i (int n) b t) = i" "k_num (chunk_row_of c s' i (int n) b t) = int n"
    "k_hash (chunk_row_of c s' i (int n) b t) = cs_hash c b" for b t
    by (simp_all add: chunk_row_of_def i32)
  have cr: "q_CreateUploadChunk (chunk_row_of c s' i (int n) b t) (w_db w)
      = (Inr (chunk_row_of c s' i (int n) b t), w_db w\<lparr>t_chunks := t_chunks (w_db w) @ [chunk_row_of c s' i (int n) b t]\<rparr>)" for b t
    using nk s'(1) by (auto simp: q_CreateUploadChunk_def kf find_None_iff)
  have b: "int n < total_chunks (s_total s') (int sz)" unfolding f(2) using n(1) by simp
  have up: "partial c i s sz data (ns @ [n]) w'" "session_change w w'"
    if w': "w' = w\<lparr>w_files := (w_files w)(i \<mapsto> fl(n \<mapsto> piece sz data n)), w_db := update_session i
        (\<lambda>s. s\<lparr>s_chunks := int (length ns) + 1, s_bytes := m, s_updated := t\<rparr>) (w_db w\<lparr>t_chunks := t_chunks (w_db w) @ [k]\<rparr>)\<rparr>"
      and k: "k_session k = i" "k_num k = int n" "k_hash k = cs_hash c (piece sz data n)" for w' m t k
  proof -
    have o: "session_of i (w_db w') = Some (s'\<lparr>s_chunks := int (length ns) + 1, s_bytes := m, s_updated := t\<rparr>)"
      by (simp add: w' session_of_update s'(1))
    have ch: "chunks_of i (w_db w') = chunks_of i (w_db w) @ [k]" by (simp add: w') (simp add: chunks_of_def k(1))
    have like: "session_like s (s'\<lparr>s_chunks := int (length ns) + 1, s_bytes := m, s_updated := t\<rparr>)"
      by (subst s'(2) [unfolded session_like_def]) (simp add: session_like_def)
    have fs: "\<forall>x \<in> set ns. chunk_file i x w = Some (piece sz data x)"
      "map (\<lambda>k. (k_num k, k_hash k)) (chunks_of i (w_db w)) = map (\<lambda>n. (int n, cs_hash c (piece sz data n))) ns"
      using p by (simp_all add: partial_def)
    show "partial c i s sz data (ns @ [n]) w'"
      using p n(2) fs by (auto simp: partial_def o ch like k) (auto simp: w' quiet_def chunk_file_def fl)
    show "session_change w w'"
      unfolding session_change_def w' update_session_def
      by (simp add: same_env_def, rule exI [of _ "update_where (session_is i) F ss" for F ss], rule exI, rule dbstate.equality)
        simp_all
  qed
  show ?thesis
    using f s' l fl nk ok cr kf i32 b sz(1)
    by (simp add: UploadChunk_def load_session_def accept_chunk_def store_chunk_def session_row wp_simp no_fault session_state_def
      q_GetUploadChunk_def first_row_def write_chunk_def q_UpdateUploadSessionProgress_def
      set_file_def up)
qed

lemma upload_all_spec:
  assumes "partial c i s sz data ms w" "0 < sz" "data \<noteq> []" "int (length data) + int sz \<le> 2 ^ 63" "plan sz data < 2 ^ 31"
    and "distinct (ms @ ns)" "set (ms @ ns) \<subseteq> {..<plan sz data}"
  shows "wp (upload_all c i sz data ns) (\<lambda>r w'. \<not> isl r \<and> partial c i s sz data (ms @ ns) w' \<and> session_change w w') w"
  using assms
proof (induction ns arbitrary: ms w)
  case Nil
  then show ?case by (simp add: wp_ret)
next
  case (Cons n ns)
  have "length (ms @ n # ns) \<le> plan sz data"
    using card_mono [OF _ Cons.prems(7)] distinct_card [OF Cons.prems(6)] by simp
  then have len: "length ms < plan sz data" by simp
  have n: "n < plan sz data" "n \<notin> set ms" using Cons.prems(6,7) by auto
  show ?case
    unfolding upload_all.simps
  proof (rule wp_chain [where P = "\<lambda>_ w1. partial c i s sz data (ms @ [n]) w1 \<and> session_change w w1"])
    show "wp (UploadChunk c i (int n) (piece sz data n)) (\<lambda>r w'. case r of
        Inl e \<Rightarrow> \<not> isl (Inl e :: unit result) \<and> partial c i s sz data (ms @ n # ns) w' \<and> session_change w w'
      | Inr _ \<Rightarrow> partial c i s sz data (ms @ [n]) w' \<and> session_change w w') w"
      by (rule wp_mono [OF UploadChunk_next [OF Cons.prems(1-4) n Cons.prems(5) len]]) (auto split: sum.split)
  next
    fix x w1 assume w1: "partial c i s sz data (ms @ [n]) w1 \<and> session_change w w1"
    show "wp (upload_all c i sz data ns) (\<lambda>r w'. \<not> isl r \<and> partial c i s sz data (ms @ n # ns) w' \<and> session_change w w') w1"
      by (rule wp_mono [OF Cons.IH [where ms = "ms @ [n]"]])
        (use w1 Cons.prems session_change_trans in auto)
  qed
qed

lemma assemble_quiet:
  assumes "quiet w" "verified c i n ks bs w"
  shows "wp (assemble c i n ks acc) Q w = Q (Inr (acc @ concat bs)) w"
  using assms(2)
proof (induction ks arbitrary: n acc bs)
  case Nil
  then show ?case by (simp add: wp_ret verified_def)
next
  case (Cons k ks)
  then obtain b bs' where b: "bs = b # bs'" by (cases bs) (auto simp: verified_def)
  have v: "chunk_file i n w = Some b" "cs_hash c b = k_hash k" "verified c i (Suc n) ks bs' w"
    using Cons.prems by (auto simp: verified_def b dest: spec [of _ 0] spec [of _ "Suc _"])
  have "wp (read_chunk i n) Q' w = Q' (Inr b) w" for Q'
    using assms(1) v(1) by (simp add: read_chunk_def wp_simp no_fault quiet_def chunk_file_def)
  then show ?case by (simp add: wp_bind v(2) Cons.IH [OF v(3)] b)
qed

lemma sorted_rows:
  assumes "map f xs = map int ns" "distinct ns" "set ns = {..<m}"
  shows "map f (sort_key f xs) = map int [0..<m]"
proof -
  have a: "image_mset f (mset xs) = image_mset int (mset ns)"
    using arg_cong [where f = mset, OF assms(1)] by simp
  have b: "mset ns = mset [0..<m]"
    by (rule set_eq_iff_mset_eq_distinct [THEN iffD1, OF assms(2) distinct_upt]) (simp add: assms(3) lessThan_atLeast0)
  have m: "mset (map int [0..<m]) = mset (map f (sort_key f xs))"
    unfolding mset_map mset_sort a b ..
  have so: "sorted (map int [0..<m])" by (simp add: sorted_map)
  have "sort (map f (sort_key f xs)) = map int [0..<m]"
    by (rule properties_for_sort [OF m so])
  moreover have "sort (map f (sort_key f xs)) = map f (sort_key f xs)" by (rule sorted_sort_id) (rule sorted_sort_key)
  ultimately show ?thesis by (rule trans [OF sym, rotated])
qed

lemma partial_assembled:
  assumes p: "partial c i s sz data ns w" and sz: "0 < sz" "data \<noteq> []" "int (length data) + int sz \<le> 2 ^ 63"
    and ns: "distinct ns" "set ns = {..<plan sz data}"
  obtains s' where "session_of i (w_db w) = Some s'" "session_like s s'" "s_chunks s' = total_chunks (s_total s') (s_chunk_size s')"
    "int (length (chunks_of i (w_db w))) = total_chunks (s_total s') (s_chunk_size s')"
    "verified c i 0 (sort_key k_num (chunks_of i (w_db w))) (map (piece sz data) [0..<plan sz data]) w"
proof -
  obtain s' where s': "session_of i (w_db w) = Some s'" "session_like s s'" "s_chunks s' = int (length ns)"
    using p by (auto simp: partial_def)
  note pl = plan_bounds [OF sz]
  have len: "length ns = plan sz data" using distinct_card [OF ns(1)] ns(2) by simp
  have rows: "map (\<lambda>k. (k_num k, k_hash k)) (chunks_of i (w_db w)) = map (\<lambda>n. (int n, cs_hash c (piece sz data n))) ns"
    and fs: "\<forall>n \<in> set ns. chunk_file i n w = Some (piece sz data n)"
    and f: "s_chunk_size s' = int sz" "total_chunks (s_total s') (int sz) = int (plan sz data)"
    using p by (simp_all add: partial_def session_like_simps [OF s'(2)])
  let ?ks = "sort_key k_num (chunks_of i (w_db w))"
  have lk: "length (chunks_of i (w_db w)) = plan sz data" using arg_cong [where f = length, OF rows] len by simp
  have "map k_num (chunks_of i (w_db w)) = map int ns"
    using arg_cong [where f = "map fst", OF rows] by (simp add: comp_def)
  from sorted_rows [OF this ns] have nums: "map k_num ?ks = map int [0..<plan sz data]" .
  have hash: "k_hash k = cs_hash c (piece sz data (nat (k_num k)))" if "k \<in> set ?ks" for k
  proof -
    have "(k_num k, k_hash k) \<in> set (map (\<lambda>k. (k_num k, k_hash k)) (chunks_of i (w_db w)))" using that by simp
    then show ?thesis unfolding rows by auto
  qed
  have "verified c i 0 ?ks (map (piece sz data) [0..<plan sz data]) w"
    unfolding verified_def
  proof (intro conjI allI impI)
    fix j assume jk: "j < length ?ks"
    then have j: "j < plan sz data" by (simp add: lk)
    then show "chunk_file i (0 + j) w = Some (map (piece sz data) [0..<plan sz data] ! j)" using fs ns(2) by simp
    have "map k_num ?ks ! j = int j" unfolding nums using j by simp
    then have kn: "k_num (?ks ! j) = int j" using jk by (simp only: nth_map)
    have "k_hash (?ks ! j) = cs_hash c (piece sz data j)" using hash [OF nth_mem [OF jk]] unfolding kn nat_int .
    then show "cs_hash c (map (piece sz data) [0..<plan sz data] ! j) = k_hash (?ks ! j)" using j by simp
  qed (simp add: lk)
  moreover have "s_chunks s' = total_chunks (s_total s') (s_chunk_size s')" unfolding s'(3) len f ..
  moreover have "int (length (chunks_of i (w_db w))) = total_chunks (s_total s') (s_chunk_size s')" unfolding lk f ..
  ultimately show ?thesis using that [OF s'(1,2)] by blast
qed

lemma session_state_active: "s_status s = ''active'' \<Longrightarrow> session_state s = Inr ()"
  by (simp add: session_state_def)

lemma CompleteUpload_ready:
  assumes p: "partial c i s sz data ns w" and sz: "0 < sz" "data \<noteq> []" "int (length data) + int sz \<le> 2 ^ 63"
    and ns: "distinct ns" "set ns = {..<plan sz data}" and h: "s_hash s = None"
  shows "\<exists>s'. session_like s s' \<and> (\<forall>Q. wp (CompleteUpload c i []) Q w = wp (save_assembled c i s' (cs_hash c data) data) Q w)"
proof -
  obtain s' where s': "session_of i (w_db w) = Some s'" "session_like s s'" "s_chunks s' = total_chunks (s_total s') (s_chunk_size s')"
    "int (length (chunks_of i (w_db w))) = total_chunks (s_total s') (s_chunk_size s')"
    and v: "verified c i 0 (sort_key k_num (chunks_of i (w_db w))) (map (piece sz data) [0..<plan sz data]) w"
    by (rule partial_assembled [OF p sz ns])
  have q: "quiet w" "w_faults w = []" using p by (simp_all add: partial_def quiet_def)
  have d: "concat (map (piece sz data) [0..<plan sz data]) = data" using plan_bounds(4) [OF sz] by (simp add: concat_pieces)
  have st: "session_state s' = Inr ()" "s_chunk_size s' \<noteq> 0" "s_hash s' = None"
    using p sz(1) h by (simp_all add: session_state_active partial_def session_like_simps [OF s'(2)])
  have "wp (CompleteUpload c i []) Q w = wp (save_assembled c i s' (cs_hash c data) data) Q w" for Q
    using q(2) s' st assemble_quiet [OF q(1) v]
    by (simp add: CompleteUpload_def load_session_def complete_session_def session_row wp_simp no_fault q_GetUploadChunks_def
        Let_def d)
  with s'(2) show ?thesis by blast
qed

lemma wp_True: "wp m (\<lambda>_ _. True) = (\<lambda>_. True)"
  by (rule ext) (simp add: wp_def split: prod.split)

text \<open>What is saved is charged in full, whatever the session declared and whatever the quota.\<close>

definition charged :: "chunked_service \<Rightarrow> string \<Rightarrow> bytes \<Rightarrow> string \<Rightarrow> int" where
  "charged c pk data pk' = (if pk' = pk \<and> cs_quota c \<noteq> None then int (length data) else 0)"

lemma save_assembled_new:
  assumes "cs_limits c = None" "quiet w" "w_saved w = None" "db_inv (w_db w)" "blob_of h (w_db w) = None"
    and "bs_encryptor (cs_blobs c) = None" "s_mode s = ''none''" "int (length data) < 2 ^ 63" "in_i64 (Unix (w_now w))"
  shows "wp (save_assembled c i s h data) (\<lambda>r w'. \<not> isl r) w"
  unfolding save_assembled_def Let_def assms(1) option.case wp_and_then wp_ret wp_bind wp_now wp_wrap sum.case
  by (rule wp_mono [OF SaveWithDedup_new [OF assms(2-9)]])
    (auto simp: wp_simp wp_True split: sum.split option.split)

lemma save_assembled_charges:
  assumes "cs_limits c = None" "quiet w" "w_saved w = None" "db_inv (w_db w)" "blob_of h (w_db w) = None"
    and "bs_encryptor (cs_blobs c) = None" "s_mode s = ''none''" "int (length data) < 2 ^ 63" "in_i64 (Unix (w_now w))"
    and "in_i64 (balance (s_pubkey s) (w_db w) + int (length data))"
  shows "wp (save_assembled c i s h data)
    (\<lambda>_ w'. \<forall>pk. balance pk (w_db w') = balance pk (w_db w) + charged c (s_pubkey s) data pk) w" (is "wp _ ?Q w")
proof -
  have enc: "enc_ok (cs_blobs c)" using assms(6) by (simp add: enc_ok_def)
  have free: "\<not> owns pk h (owned (w_db w))" for pk using assms(5) by (simp add: owns_def owned_def)
  note save = quiet_conj [OF assms(2) keeps_quiet_blobs(1) wp_conj [OF SaveWithDedup_new [OF assms(2-9)] SaveWithDedup_spec [OF enc assms(4,3)]]]
  have fin: "wp (finish_session i s h t) (\<lambda>_. ?Q r) w2"
    if "\<forall>pk. balance pk (w_db w2) = balance pk (w_db w) + charged c (s_pubkey s) data pk"
    for w2 t and r :: "complete_response result"
    by (rule wp_mono [OF finish_session_spec]) (use that in \<open>simp add: session_change_frame\<close>)
  show ?thesis
    unfolding save_assembled_def Let_def assms(1) option.case wp_and_then wp_ret wp_bind wp_now wp_wrap sum.case
  proof (rule wp_mono [OF save], elim conjE, goal_cases)
    case (1 r w1)
    then obtain desc where d: "r = Inr (desc, True)" using free by (cases r) auto
    have b1: "balance pk (w_db w1) = balance pk (w_db w)" for pk using 1 by (intro others_balance)
    show ?case
    proof (cases "cs_quota c")
      case None
      show ?thesis by (simp add: d None wp_simp) (rule fin, simp add: charged_def None b1)
    next
      case (Some q)
      have room: "in_i64 (balance (s_pubkey s) (w_db w1) + int (length data))" using assms(10) by (simp add: b1)
      show ?thesis unfolding d sum.case prod.case Some option.case if_True wp_bind wp_ret
      proof (rule wp_mono [OF IncrementUsage_law [OF _ _ room]], goal_cases)
        case (3 r' w2)
        show ?case by (rule fin) (use 3 in \<open>simp add: charged_def Some b1\<close>)
      qed (use 1 in simp_all)
    qed
  qed
qed

text \<open>A session without chunks that is planned for as many chunks as the file makes, and one that declared the file's size.\<close>

definition planned_session :: "string \<Rightarrow> session_row \<Rightarrow> nat \<Rightarrow> bytes \<Rightarrow> world \<Rightarrow> bool" where
  "planned_session i s sz data w \<longleftrightarrow> session_of i (w_db w) = Some s \<and> chunks_of i (w_db w) = [] \<and> w_files w i \<noteq> None
     \<and> s_status s = ''active'' \<and> s_chunks s = 0 \<and> total_chunks (s_total s) (int sz) = int (plan sz data) \<and> s_chunk_size s = int sz
     \<and> s_hash s = None \<and> s_mode s = ''none'' \<and> Unix (w_now w) \<le> s_expires s \<and> data \<noteq> [] \<and> 0 < sz
     \<and> int (length data) + int sz \<le> 2 ^ 63 \<and> plan sz data < 2 ^ 31"

definition fresh_session :: "string \<Rightarrow> session_row \<Rightarrow> nat \<Rightarrow> bytes \<Rightarrow> world \<Rightarrow> bool" where
  "fresh_session i s sz data w \<longleftrightarrow> session_of i (w_db w) = Some s \<and> chunks_of i (w_db w) = [] \<and> w_files w i \<noteq> None
     \<and> s_status s = ''active'' \<and> s_chunks s = 0 \<and> s_total s = int (length data) \<and> s_chunk_size s = int sz
     \<and> s_hash s = None \<and> s_mode s = ''none'' \<and> Unix (w_now w) \<le> s_expires s \<and> data \<noteq> [] \<and> 0 < sz
     \<and> int (length data) + int sz \<le> 2 ^ 63 \<and> plan sz data < 2 ^ 31"

lemma fresh_planned: "fresh_session i s sz data w \<Longrightarrow> planned_session i s sz data w"
  by (simp add: fresh_session_def planned_session_def plan_bounds(1))

lemma planned_partial: "quiet w \<Longrightarrow> planned_session i s sz data w \<Longrightarrow> partial c i s sz data [] w"
  by (simp add: planned_session_def partial_def session_like_def)

lemma send_and_complete:
  assumes "quiet w" "db_inv (w_db w)" "w_saved w = None" "in_i64 (Unix (w_now w))" "planned_session i s sz data w"
    and "cs_limits c = None" "bs_encryptor (cs_blobs c) = None" "blob_of (cs_hash c data) (w_db w) = None"
    and "distinct ns" "set ns = {..<plan sz data}"
  shows "wp (and_then (upload_all c i sz data ns) (\<lambda>_. CompleteUpload c i [])) (\<lambda>r w'. \<exists>resp b. r = Inr resp
    \<and> cp_hash resp = cs_hash c data \<and> cp_size resp = int (length data)
    \<and> owned (w_db w') = (owned (w_db w))(cs_hash c data := Some (b, {s_pubkey s})) \<and> served (cs_blobs c) b = Inr data
    \<and> (in_i64 (balance (s_pubkey s) (w_db w) + int (length data))
         \<longrightarrow> (\<forall>pk. balance pk (w_db w') = balance pk (w_db w) + charged c (s_pubkey s) data pk))) w" (is "wp _ ?Q w")
proof -
  let ?h = "cs_hash c data"
  have f: "0 < sz" "data \<noteq> []" "int (length data) + int sz \<le> 2 ^ 63" "plan sz data < 2 ^ 31" "s_hash s = None" "s_mode s = ''none''"
    using assms(5) by (simp_all add: planned_session_def)
  have enc: "enc_ok (cs_blobs c)" using assms(7) by (simp add: enc_ok_def)
  have ns: "distinct ([] @ ns)" "set ([] @ ns) \<subseteq> {..<plan sz data}" using assms(9,10) by simp_all
  show ?thesis
  proof (rule wp_chain [where P = "\<lambda>_ w1. partial c i s sz data ns w1 \<and> session_change w w1"],
      rule wp_mono [OF upload_all_spec [OF planned_partial [OF assms(1,5)] f(1-4) ns]], elim conjE)
    fix r :: "unit result" and w1 assume "\<not> isl r" "partial c i s sz data ([] @ ns) w1" "session_change w w1"
    then show "case r of Inl e \<Rightarrow> ?Q (Inl e) w1 | Inr _ \<Rightarrow> partial c i s sz data ns w1 \<and> session_change w w1"
      by (cases r) simp_all
  next
    fix w1 assume "partial c i s sz data ns w1 \<and> session_change w w1"
    then have w1: "partial c i s sz data ns w1" "session_change w w1" by simp_all
    have q: "quiet w1" using w1(1) by (simp add: partial_def)
    have bs: "t_blobs (w_db w1) = t_blobs (w_db w)" using w1(2) by (auto simp: session_change_def)
    have i: "w_saved w1 = None" "db_inv (w_db w1)" "blob_of ?h (w_db w1) = None" "in_i64 (Unix (w_now w1))"
      using assms(2-4,8) by (simp_all add: session_change_frame [OF w1(2)] bs blob_of_def)
    obtain s' where s': "session_like s s'" "\<And>Q. wp (CompleteUpload c i []) Q w1 = wp (save_assembled c i s' ?h data) Q w1"
      using CompleteUpload_ready [OF w1(1) f(1-3) assms(9,10) f(5)] by blast
    have m: "s_mode s' = ''none''" "s_pubkey s' = s_pubkey s" using f(6) by (simp_all add: session_like_simps [OF s'(1)])
    have len: "int (length data) < 2 ^ 63" using f(1,3) by linarith
    have bal: "balance pk (w_db w1) = balance pk (w_db w)" for pk by (simp add: session_change_frame [OF w1(2)])
    note new = assms(6) q i(1-3) assms(7) m(1) len i(4)
    have ok: "wp (save_assembled c i s' ?h data) (\<lambda>r w'. \<not> isl r \<and> (in_i64 (balance (s_pubkey s) (w_db w) + int (length data))
        \<longrightarrow> (\<forall>pk. balance pk (w_db w') = balance pk (w_db w) + charged c (s_pubkey s) data pk))) w1"
      using wp_conj [OF save_assembled_new [OF new] save_assembled_charges [OF new]] save_assembled_new [OF new]
      unfolding bal m(2) by (cases "in_i64 (balance (s_pubkey s) (w_db w) + int (length data))") simp_all
    show "wp (CompleteUpload c i []) ?Q w1"
      unfolding s'(2)
    proof (rule wp_mono [OF wp_conj [OF ok save_assembled_spec [OF enc i(2,1)]]], elim conjE)
      fix r :: "complete_response result" and w2 :: world
      assume r: "\<not> isl r" and c: "case r of
         Inl _ \<Rightarrow> failed_map (cs_blobs c) ?h data (int (length data)) (owned (w_db w1)) (owned (w_db w2))
           \<and> (\<forall>pk'. balance pk' (w_db w2) = balance pk' (w_db w1))
       | Inr resp \<Rightarrow> cp_hash resp = ?h \<and> cp_size resp = int (length data)
           \<and> (\<exists>ob. saved_map (cs_blobs c) (s_pubkey s') ?h data (int (length data)) ob (owned (w_db w1)) (owned (w_db w2)))"
        and b: "in_i64 (balance (s_pubkey s) (w_db w) + int (length data))
          \<longrightarrow> (\<forall>pk. balance pk (w_db w2) = balance pk (w_db w) + charged c (s_pubkey s) data pk)"
      from r obtain resp where resp: "r = Inr resp" by (cases r) simp_all
      have "owned (w_db w) ?h = None" using assms(8) by (simp add: owned_def)
      with c obtain b where "owned (w_db w2) = (owned (w_db w))(?h := Some (b, {s_pubkey s}))" "served (cs_blobs c) b = Inr data"
        "cp_hash resp = ?h" "cp_size resp = int (length data)"
        by (auto simp: resp saved_map_def m(2) session_change_frame [OF w1(2)])
      with b show "?Q r w2" unfolding resp by blast
    qed
  qed
qed

text \<open>C20. With no failing call, in a session that declared the size of the file and no hash, with no tier limits, no
  encryption and a blob that the server does not have yet, a client may send the chunks of its file in any order: each one is
  accepted, and completing the session then stores exactly the file, under its hash, with the key of the session as its only
  owner.\<close>

theorem chunks_in_any_order:
  assumes "quiet w" "db_inv (w_db w)" "w_saved w = None" "in_i64 (Unix (w_now w))" "fresh_session i s sz data w"
    and "cs_limits c = None" "bs_encryptor (cs_blobs c) = None" "blob_of (cs_hash c data) (w_db w) = None"
    and "distinct ns" "set ns = {..<plan sz data}"
    and "run_state (and_then (upload_all c i sz data ns) (\<lambda>_. CompleteUpload c i [])) w = (r, w')"
  shows "\<exists>resp b. r = Inr resp \<and> cp_hash resp = cs_hash c data
    \<and> owned (w_db w') = (owned (w_db w))(cs_hash c data := Some (b, {s_pubkey s})) \<and> served (cs_blobs c) b = Inr data"
  using wp_run [OF send_and_complete [OF assms(1-4) fresh_planned [OF assms(5)] assms(6-10)] assms(11)] by blast

theorem chunks_in_any_order_witness:
  "\<not> isl (fst (run_state (and_then (upload_all chunked_example ''u'' 2 [7, 8, 9] [1, 0])
      (\<lambda>_. CompleteUpload chunked_example ''u'' [])) session_world))"
proof -
  have p: "plan 2 [7, 8, 9] = 2" by (simp add: plan_def total_chunks_def go_div_def in_i64_def)
  have n: "distinct [1::nat, 0]" "set [1::nat, 0] = {..<plan 2 [7, 8, 9]}" by (auto simp: p)
  have h: "quiet session_world" "db_inv (w_db session_world)" "w_saved session_world = None" "in_i64 (Unix (w_now session_world))"
    "fresh_session ''u'' example_session 2 [7, 8, 9] session_world" "cs_limits chunked_example = None"
    "bs_encryptor (cs_blobs chunked_example) = None" "blob_of (cs_hash chunked_example [7, 8, 9]) (w_db session_world) = None"
    using balanced_examples(2)
    by (simp_all add: session_world_def balanced_def Unix_def in_i64_def fresh_session_def example_session_def session_of_def
        session_is_def chunks_of_def chunked_example_def plain_service_def quiet_def p)
      (simp_all add: single_db_def accounts_db_def sample_db_def sample_blob_def blob_of_def has_hash_def)
  from chunks_in_any_order [OF h n run_pair] show ?thesis by (auto simp: isl_def)
qed

end
