(* ===== verification/ChunkedLimits.thy ===== *)
theory ChunkedLimits
  imports ChunkedRules
begin

text \<open>
  The limits of chunked uploads: what one accepted or refused chunk changes, the plan and the lifetime of a new
  session, how sessions end; and three places where the code does not do what it means to.
\<close>

section \<open>One chunk\<close>

lemma chunk_file_set [simp]: "w_files w i \<noteq> None \<Longrightarrow> chunk_file i n (set_file i n x w) = x"
  by (auto simp: chunk_file_def set_file_def)

lemma write_chunk_spec:
  "wp (write_chunk i n data) (\<lambda>r w'. session_change w w' \<and> w_db w' = w_db w \<and> (r = Inr () \<longrightarrow> chunk_file i n w' = Some data)) w"
  unfolding write_chunk_def wp_bind
  by (auto intro!: wp_tick session_change_same simp: wp_simp same_env_def set_file_def chunk_file_def)

lemma store_chunk_spec:
  "wp (store_chunk c s i n data) (\<lambda>r w'. session_change w w' \<and> (case r of
       Inl _ \<Rightarrow> t_chunks (w_db w') = t_chunks (w_db w)
     | Inr ck \<Rightarrow> chunk_file i (nat n) w' = Some data \<and> uc_hash ck = cs_hash c data
         \<and> t_chunks (w_db w') = t_chunks (w_db w) @ [chunk_row_of c s i n data (Unix (w_now w))])) w" (is "wp _ ?Q w")
  unfolding store_chunk_def wp_bind
proof (rule wp_mono [OF write_chunk_spec], elim conjE)
  fix r :: "unit result" and w1
  assume w1: "session_change w w1" "w_db w1 = w_db w" and r: "r = Inr () \<longrightarrow> chunk_file i (nat n) w1 = Some data"
  have t: "w_now w1 = w_now w" using session_change_frame [OF w1(1)] by simp
  let ?k = "chunk_row_of c s i n data (Unix (w_now w))"
  have err: "wp (remove_chunk i (nat n)) (\<lambda>_. wp (ret (Inl e)) ?Q) w2"
    if w2: "session_change w w2" "t_chunks (w_db w2) = t_chunks (w_db w)" for e w2
  proof (rule wp_mono [OF file_ops(2)], elim conjE)
    fix x :: "unit result" and w3 assume "session_change w2 w3" "w_db w3 = w_db w2"
    then show "wp (ret (Inl e)) ?Q w3" using w2 session_change_trans by (auto simp: wp_ret)
  qed
  have fin: "wp (exec_sql (q_UpdateUploadSessionProgress i m k t)) (\<lambda>_. wp (ret (Inr ck)) ?Q) w2"
    if w2: "session_change w w2" "t_chunks (w_db w2) = t_chunks (w_db w) @ [?k]" "chunk_file i (nat n) w2 = Some data"
      "uc_hash ck = cs_hash c data" for m k t ck w2
  proof -
    have "wp (exec_sql (q_UpdateUploadSessionProgress i m k t)) (\<lambda>_ w3. (session_change w2 w3 \<and> w_files w3 = w_files w2)
        \<and> t_chunks (w_db w3) = t_chunks (w_db w2)) w2"
      by (rule wp_conj [OF session_queries(3)], rule wp_exec) (auto simp: q_UpdateUploadSessionProgress_def update_session_def)
    then show ?thesis
      by (rule wp_mono) (use w2 session_change_trans [OF w2(1)] in \<open>auto simp: wp_ret chunk_file_def\<close>)
  qed
  show "wp (case r of Inl e \<Rightarrow> ret (Inl (Wrap ''write chunk'' e))
     | Inr _ \<Rightarrow> do {
         t \<leftarrow> now;
         r \<leftarrow> exec_sql (q_CreateUploadChunk (chunk_row_of c s i n data (Unix t)));
         case r of
           Inl e \<Rightarrow> do { _ \<leftarrow> remove_chunk i (nat n); ret (Inl (Wrap ''record chunk'' e)) }
         | Inr _ \<Rightarrow> do {
             _ \<leftarrow> exec_sql (q_UpdateUploadSessionProgress i (i32 (s_chunks s + 1)) (i64 (s_bytes s + int (length data))) (Unix t));
             ret (Inr \<lparr>uc_session = i, uc_num = n, uc_size = int (length data),
                       uc_offset = i64 (n * s_chunk_size s), uc_hash = cs_hash c data, uc_received = Unix t\<rparr>)
           }
       }) ?Q w1"
  proof (cases r)
    case (Inl e)
    then show ?thesis using w1 by (simp add: wp_ret)
  next
    case (Inr u)
    show ?thesis
      unfolding Inr sum.case wp_bind wp_now t
    proof (rule wp_exec)
      fix fs :: "bool list"
      have "session_change w (w1\<lparr>w_faults := fs\<rparr>)" using session_change_trans [OF w1(1)] by (simp add: looks_session_change)
      then show "wp (case Inl ErrIO of
           Inl e \<Rightarrow> do { _ \<leftarrow> remove_chunk i (nat n); ret (Inl (Wrap ''record chunk'' e)) }
         | Inr _ \<Rightarrow> do {
             _ \<leftarrow> exec_sql (q_UpdateUploadSessionProgress i (i32 (s_chunks s + 1)) (i64 (s_bytes s + int (length data)))
                   (Unix (w_now w)));
             ret (Inr \<lparr>uc_session = i, uc_num = n, uc_size = int (length data),
                       uc_offset = i64 (n * s_chunk_size s), uc_hash = cs_hash c data, uc_received = Unix (w_now w)\<rparr>)
           }) ?Q (w1\<lparr>w_faults := fs\<rparr>)"
        unfolding sum.case wp_bind by (rule err) (simp add: w1)
    next
      fix fs :: "bool list" and x :: "chunk_row result" and d assume q: "q_CreateUploadChunk ?k (w_db w1) = (x, d)"
      let ?w2 = "w1\<lparr>w_faults := fs, w_db := d\<rparr>"
      have d: "d = (case x of Inl _ \<Rightarrow> w_db w | Inr _ \<Rightarrow> (w_db w)\<lparr>t_chunks := t_chunks (w_db w) @ [?k]\<rparr>)"
        using q w1(2) by (auto simp: q_CreateUploadChunk_def split: if_splits)
      have "\<exists>ss ks. d = (w_db w)\<lparr>t_sessions := ss, t_chunks := ks\<rparr>"
        by (rule exI [of _ "t_sessions (w_db w)"], rule exI [of _ "t_chunks d"]) (cases x, simp_all add: d)
      then have "session_change w1 ?w2" by (simp add: session_change_def same_env_def w1(2))
      then have c: "session_change w ?w2" by (rule session_change_trans [OF w1(1)])
      have f: "chunk_file i (nat n) ?w2 = Some data" using r Inr by (simp add: chunk_file_def)
      show "wp (case x of
           Inl e \<Rightarrow> do { _ \<leftarrow> remove_chunk i (nat n); ret (Inl (Wrap ''record chunk'' e)) }
         | Inr _ \<Rightarrow> do {
             _ \<leftarrow> exec_sql (q_UpdateUploadSessionProgress i (i32 (s_chunks s + 1)) (i64 (s_bytes s + int (length data)))
                   (Unix (w_now w)));
             ret (Inr \<lparr>uc_session = i, uc_num = n, uc_size = int (length data),
                       uc_offset = i64 (n * s_chunk_size s), uc_hash = cs_hash c data, uc_received = Unix (w_now w)\<rparr>)
           }) ?Q ?w2"
      proof (cases x)
        case (Inl e)
        show ?thesis unfolding Inl sum.case wp_bind by (rule err [OF c]) (simp add: d Inl)
      next
        case (Inr k)
        show ?thesis unfolding Inr sum.case wp_bind by (rule fin [OF c _ f]) (simp_all add: d Inr)
      qed
    qed
  qed
qed

text \<open>C21. Whichever calls fail: a chunk is accepted only for an active, unexpired session, with a number of its plan and
  a permitted size; then its row is appended with its hash and offset and its file holds exactly the bytes
  sent. A refused chunk adds no row. Neither changes blobs, owners or accounts.\<close>

theorem chunk_outcome:
  assumes "run_state (UploadChunk c i n data) w = (r, w')"
  shows "owned (w_db w') = owned (w_db w) \<and> balance pk (w_db w') = balance pk (w_db w) \<and> w_objects w' = w_objects w \<and> (case r of
      Inl _ \<Rightarrow> t_chunks (w_db w') = t_chunks (w_db w)
    | Inr ck \<Rightarrow> uc_hash ck = cs_hash c data \<and> chunk_file i (nat n) w' = Some data
        \<and> (\<exists>s. acceptable i s n data w \<and> t_chunks (w_db w') = t_chunks (w_db w) @ [chunk_row_of c s i n data (Unix (w_now w))]))"
    (is "?Q r w'")
proof -
  have "wp (UploadChunk c i n data) ?Q w"
  proof (rule UploadChunk_wp)
    fix e :: goerr and w1 assume "session_change w w1" "t_chunks (w_db w1) = t_chunks (w_db w)"
    then show "?Q (Inl e) w1" by (simp add: session_change_frame)
  next
    fix s w1 assume w1: "looks w w1" and a: "acceptable i s n data w"
    show "wp (store_chunk c s i n data) ?Q w1"
    proof (rule wp_mono [OF store_chunk_spec], elim conjE)
      fix r :: "upload_chunk result" and w2
      assume c: "session_change w1 w2" and r: "case r of
         Inl _ \<Rightarrow> t_chunks (w_db w2) = t_chunks (w_db w1)
       | Inr ck \<Rightarrow> chunk_file i (nat n) w2 = Some data \<and> uc_hash ck = cs_hash c data
           \<and> t_chunks (w_db w2) = t_chunks (w_db w1) @ [chunk_row_of c s i n data (Unix (w_now w1))]"
      show "?Q r w2"
        using r a session_change_frame [OF session_change_trans [OF looks_session_change [OF w1] c]] looks_simps [OF w1]
        by (auto split: sum.splits)
    qed
  qed
  from wp_run [OF this assms] show ?thesis .
qed

theorem chunk_outcome_witness:
  "chunk_file ''u'' 1 (snd (run_state (UploadChunk chunked_example ''u'' 1 [9]) session_world)) = Some [9]"
proof -
  have "\<not> isl (fst (run_state (UploadChunk chunked_example ''u'' 1 [9]) session_world))" by code_simp
  from run_Inr [OF this] obtain x w' where r: "run_state (UploadChunk chunked_example ''u'' 1 [9]) session_world = (Inr x, w')" by blast
  from chunk_outcome [OF r] show ?thesis by (simp add: r)
qed

section \<open>Opening a session\<close>

lemma session_chunk_size_range:
  "cc_min cf \<le> cc_max cf \<Longrightarrow> cc_min cf \<le> session_chunk_size cf n \<and> session_chunk_size cf n \<le> cc_max cf"
  by (simp add: session_chunk_size_def Let_def)

definition max_ttl :: "chunked_config \<Rightarrow> int" where
  "max_ttl cf = max (if cc_default_ttl cf = 0 then hour else cc_default_ttl cf) (if cc_max_ttl cf = 0 then 24 * hour else cc_max_ttl cf)"

lemma session_ttl_le: "session_ttl cf n \<le> max_ttl cf"
  by (auto simp: session_ttl_def max_ttl_def Let_def)

lemma open_session_spec:
  "wp (open_session c req sz ttl) (\<lambda>r w'. session_change w w' \<and> (\<forall>resp. r = Inr resp \<longrightarrow> sp_chunk_size resp = sz
     \<and> sp_total_chunks resp = total_chunks (sr_total req) sz \<and> sp_expires resp = i64 (Unix (w_now w) + go_div ttl second))) w"
  unfolding open_session_def uuid_new_def wp_bind wp_State prod.case wp_now Let_def
proof (rule wp_mono [OF session_query])
  show "\<exists>ss ks. snd (q_CreateUploadSession s d) = d\<lparr>t_sessions := ss, t_chunks := ks\<rparr>" for s d
    by (rule exI [of _ "t_sessions (snd (q_CreateUploadSession s d))"], rule exI [of _ "t_chunks d"])
      (simp add: q_CreateUploadSession_def)
next
  let ?w = "w\<lparr>w_rng := Suc (w_rng w)\<rparr>"
  fix r :: "session_row result" and w1 assume "session_change ?w w1 \<and> w_files w1 = w_files ?w"
  then have w1: "session_change w w1" by (simp add: session_change_def same_env_def)
  show "wp (case r of
         Inl e \<Rightarrow> ret (Inl (Wrap ''create session'' e))
       | Inr s \<Rightarrow> do {
           m \<leftarrow> mk_dir (cs_uuid c (w_rng w));
           case m of
             Inl e \<Rightarrow> do {
               _ \<leftarrow> exec_sql (q_DeleteUploadSession (cs_uuid c (w_rng w)));
               ret (Inl (Wrap ''create session directory'' e))
             }
           | Inr _ \<Rightarrow>
               ret (Inr \<lparr>sp_session = (dbSessionToSession s)\<lparr>us_total_chunks := total_chunks (sr_total req) sz\<rparr>, sp_chunk_size = sz,
                         sp_total_chunks = total_chunks (sr_total req) sz, sp_expires = i64 (Unix (w_now ?w) + go_div ttl second),
                         sp_url = cs_cdn c @ ''/upload/chunked/'' @ cs_uuid c (w_rng w)\<rparr>)
         }) (\<lambda>r w'. session_change w w' \<and> (\<forall>resp. r = Inr resp \<longrightarrow> sp_chunk_size resp = sz
     \<and> sp_total_chunks resp = total_chunks (sr_total req) sz \<and> sp_expires resp = i64 (Unix (w_now w) + go_div ttl second))) w1"
  proof (cases r)
    case (Inl e)
    then show ?thesis by (simp add: wp_ret w1)
  next
    case (Inr s)
    show ?thesis
      unfolding Inr sum.case wp_bind
    proof (rule wp_mono [OF file_ops(4)], elim conjE)
      fix m :: "unit result" and w2 assume "session_change w1 w2"
      then have w2: "session_change w w2" by (rule session_change_trans [OF w1])
      have del: "\<exists>ss ks. snd (q_DeleteUploadSession i d) = d\<lparr>t_sessions := ss, t_chunks := ks\<rparr>" for i d
        by (rule exI [of _ "t_sessions (snd (q_DeleteUploadSession i d))"], rule exI [of _ "t_chunks (snd (q_DeleteUploadSession i d))"])
          (simp add: q_DeleteUploadSession_def delete_sessions_def)
      have "wp (exec_sql (q_DeleteUploadSession i)) (\<lambda>_ w3. session_change w w3) w2" for i
        by (rule wp_mono [OF session_query [OF del]]) (use session_change_trans [OF w2] in blast)
      then show "wp (case m of
             Inl e \<Rightarrow> do {
               _ \<leftarrow> exec_sql (q_DeleteUploadSession (cs_uuid c (w_rng w)));
               ret (Inl (Wrap ''create session directory'' e))
             }
           | Inr _ \<Rightarrow>
               ret (Inr \<lparr>sp_session = (dbSessionToSession s)\<lparr>us_total_chunks := total_chunks (sr_total req) sz\<rparr>, sp_chunk_size = sz,
                         sp_total_chunks = total_chunks (sr_total req) sz, sp_expires = i64 (Unix (w_now ?w) + go_div ttl second),
                         sp_url = cs_cdn c @ ''/upload/chunked/'' @ cs_uuid c (w_rng w)\<rparr>))
        (\<lambda>r w'. session_change w w' \<and> (\<forall>resp. r = Inr resp \<longrightarrow> sp_chunk_size resp = sz
     \<and> sp_total_chunks resp = total_chunks (sr_total req) sz \<and> sp_expires resp = i64 (Unix (w_now w) + go_div ttl second))) w2"
        by (simp add: wp_bind wp_ret w2 split: sum.split)
    qed
  qed
qed

lemma keeps_clock: "keeps (\<lambda>w. w_now w = t) (CheckQuota q pk n)"
proof -
  have e: "keeps (\<lambda>w. w_now w = t) (exec_sql f)" for f :: "'a query" by (rule keepsI, rule wp_exec) simp_all
  have n: "keeps (\<lambda>w. w_now w = t) now" by (rule keepsI) (simp add: wp_now)
  show ?thesis unfolding CheckQuota_def GetOrCreateUser_def by (intro keeps_rule e n)
qed

lemma CreateSession_spec:
  assumes "db_inv (w_db w)"
  shows "wp (CreateSession c req) (\<lambda>r w'. owned (w_db w') = owned (w_db w) \<and> (\<forall>pk. balance pk (w_db w') = balance pk (w_db w))
    \<and> (\<forall>resp. r = Inr resp \<longrightarrow> 0 < sr_total req
       \<and> sp_chunk_size resp = session_chunk_size (cs_config c) (sr_chunk_size req)
       \<and> sp_total_chunks resp = total_chunks (sr_total req) (sp_chunk_size resp)
       \<and> sp_expires resp = i64 (Unix (w_now w) + go_div (session_ttl (cs_config c) (sr_ttl req)) second)
       \<and> (\<forall>q. cs_quota c = Some q \<longrightarrow> qs_enabled q \<longrightarrow> \<not> banned (sr_pubkey req) (w_db w)
            \<and> i64 (balance (sr_pubkey req) (w_db w) + sr_total req) \<le> quota_of q (sr_pubkey req) (w_db w)))) w" (is "wp _ ?Q w")
proof -
  let ?sz = "session_chunk_size (cs_config c) (sr_chunk_size req)" and ?ttl = "session_ttl (cs_config c) (sr_ttl req)"
  let ?G = "\<forall>q. cs_quota c = Some q \<longrightarrow> qs_enabled q \<longrightarrow> \<not> banned (sr_pubkey req) (w_db w)
            \<and> i64 (balance (sr_pubkey req) (w_db w) + sr_total req) \<le> quota_of q (sr_pubkey req) (w_db w)"
  have open': "wp (open_session c req ?sz ?ttl) ?Q w1" if w1: "step w w1" "w_now w1 = w_now w" and g: ?G "0 < sr_total req" for w1
    by (rule wp_mono [OF open_session_spec])
      (use w1 g in \<open>auto simp: session_change_frame step_def calm_def\<close>)
  have q: "wp (case cs_quota c of None \<Rightarrow> ret (Inr ())
      | Some q \<Rightarrow> wrap ''quota check failed'' (CheckQuota q (sr_pubkey req) (sr_total req)))
    (\<lambda>r w1. (step w w1 \<and> w_now w1 = w_now w) \<and> (r = Inr () \<longrightarrow> ?G)) w"
  proof (cases "cs_quota c")
    case None
    then show ?thesis by (simp add: wp_ret)
  next
    case (Some q)
    show ?thesis
      unfolding Some option.case wp_wrap
      by (rule wp_mono [OF wp_conj [OF CheckQuota_step [OF assms] keepsD [OF keeps_clock refl]]])
        (auto split: sum.splits)
  qed
  show ?thesis
  proof (cases "sr_total req \<le> 0 \<or> ?sz = 0")
    case True
    then show ?thesis by (auto simp: CreateSession_def Let_def wp_ret)
  next
    case False
    then have n: "\<not> sr_total req \<le> 0" "?sz \<noteq> 0" by simp_all
    show ?thesis
      unfolding CreateSession_def Let_def if_not_P [OF n(1)] if_not_P [OF n(2)]
    proof (rule wp_chain [where P = "\<lambda>_ w1. step w w1 \<and> w_now w1 = w_now w \<and> ?G"], rule wp_mono [OF q])
      fix r :: "unit result" and w1 assume "(step w w1 \<and> w_now w1 = w_now w) \<and> (r = Inr () \<longrightarrow> ?G)"
      then show "case r of Inl e \<Rightarrow> ?Q (Inl e) w1 | Inr x \<Rightarrow> step w w1 \<and> w_now w1 = w_now w \<and> ?G"
        by (cases r) (simp_all add: step_def calm_def)
    next
      fix x :: unit and w1 assume "step w w1 \<and> w_now w1 = w_now w \<and> ?G"
      then have w1: "step w w1" "w_now w1 = w_now w" and g: ?G by simp_all
      have tot: "0 < sr_total req" using n(1) by simp
      show "wp (and_then (ret (case cs_limits c of None \<Rightarrow> Inr ()
                | Some u \<Rightarrow> ValidateFileSize u (sr_pubkey req) (sr_total req))) (\<lambda>_. open_session c req ?sz ?ttl)) ?Q w1"
        unfolding wp_and_then wp_ret
        using open' [OF w1 g tot] w1 by (auto simp: step_def calm_def split: sum.split)
    qed
  qed
qed

text \<open>Whichever calls fail: a session that is opened fits the key's quota and charges nothing yet; its chunk size lies
  between the configured bounds, its chunks are just enough to cover the file, and it expires no later than
  the longest configured lifetime from now, whatever lifetime the client asks for.\<close>

theorem session_plan:
  assumes "db_inv (w_db w)" "0 < cc_min (cs_config c)" "cc_min (cs_config c) \<le> cc_max (cs_config c)"
    and "sr_total req + cc_max (cs_config c) \<le> 2 ^ 63" "0 \<le> Unix (w_now w)" "Unix (w_now w) < 2 ^ 62"
    and "\<bar>session_ttl (cs_config c) (sr_ttl req)\<bar> < 2 ^ 62"
    and "run_state (CreateSession c req) w = (Inr resp, w')"
  shows "(let n = sp_total_chunks resp; sz = sp_chunk_size resp in
      cc_min (cs_config c) \<le> sz \<and> sz \<le> cc_max (cs_config c) \<and> 1 \<le> n \<and> (n - 1) * sz < sr_total req \<and> sr_total req \<le> n * sz)
    \<and> sp_expires resp \<le> Unix (w_now w) + go_div (max_ttl (cs_config c)) second
    \<and> (\<forall>q. cs_quota c = Some q \<longrightarrow> qs_enabled q \<longrightarrow>
         i64 (balance (sr_pubkey req) (w_db w) + sr_total req) \<le> quota_of q (sr_pubkey req) (w_db w))
    \<and> balance pk (w_db w') = balance pk (w_db w)"
proof -
  let ?cf = "cs_config c" and ?sz = "sp_chunk_size resp" and ?ttl = "session_ttl (cs_config c) (sr_ttl req)"
  have r: "0 < sr_total req" "?sz = session_chunk_size ?cf (sr_chunk_size req)" "sp_total_chunks resp = total_chunks (sr_total req) ?sz"
    "sp_expires resp = i64 (Unix (w_now w) + go_div ?ttl second)" "balance pk (w_db w') = balance pk (w_db w)"
    and q: "\<forall>q. cs_quota c = Some q \<longrightarrow> qs_enabled q \<longrightarrow> \<not> banned (sr_pubkey req) (w_db w)
       \<and> i64 (balance (sr_pubkey req) (w_db w) + sr_total req) \<le> quota_of q (sr_pubkey req) (w_db w)"
    using wp_run [OF CreateSession_spec [OF assms(1)] assms(8)] by simp_all
  have sz: "cc_min ?cf \<le> ?sz" "?sz \<le> cc_max ?cf"
    using session_chunk_size_range [OF assms(3)] by (simp_all add: r(2))
  have b: "0 < ?sz" "sr_total req + ?sz \<le> 2 ^ 63" using sz assms(2,4) by linarith+
  note tc = total_chunks_bounds [OF r(1) b]
  have mono: "go_div x second \<le> go_div y second" if "x \<le> y" for x y
  proof -
    have d: "go_div x second = (if 0 \<le> x then x div second else - (- x div second))" for x
      by (cases "x = 0") (auto simp: go_div_def second_def sgn_if)
    have p: "0 < second" by (simp add: second_def)
    consider "0 \<le> x" | "x < 0" "0 \<le> y" | "y < 0" using that by linarith
    then show ?thesis
    proof cases
      case 1
      then show ?thesis using that p by (simp add: d zdiv_mono1)
    next
      case 2
      then have "0 \<le> - x div second" "0 \<le> y div second" using p by (simp_all add: pos_imp_zdiv_nonneg_iff)
      with 2 show ?thesis by (simp add: d)
    next
      case 3
      then have "- y div second \<le> - x div second" using that p by (intro zdiv_mono1) simp_all
      with 3 that show ?thesis by (simp add: d)
    qed
  qed
  have "\<bar>?ttl\<bar> div second \<le> \<bar>?ttl\<bar> div 1" by (rule zdiv_mono2) (simp_all add: second_def)
  moreover have "0 \<le> \<bar>?ttl\<bar> div second" by (simp add: second_def pos_imp_zdiv_nonneg_iff)
  ultimately have small: "\<bar>go_div ?ttl second\<bar> \<le> \<bar>?ttl\<bar>" by (auto simp: go_div_def abs_mult second_def sgn_if abs_if split: if_splits)
  have "in_i64 (Unix (w_now w) + go_div ?ttl second)" using small assms(5-7) by (simp add: in_i64_def, intro conjI) linarith+
  then have e: "sp_expires resp \<le> Unix (w_now w) + go_div (max_ttl ?cf) second"
    using mono [OF session_ttl_le [of ?cf "sr_ttl req"]] by (simp add: r(4))
  show ?thesis
    using sz tc e q r(5) unfolding Let_def r(3) by blast
qed

definition example_request :: "session_request" where
  "example_request = \<lparr>sr_pubkey = ''c'', sr_total = 9, sr_chunk_size = 0, sr_mime = [], sr_hash = [], sr_mode = [], sr_ttl = 999999\<rparr>"

theorem session_plan_witness:
  "\<exists>resp w'. run_state (CreateSession chunked_example example_request) (start_world single_db) = (Inr resp, w')
     \<and> sp_expires resp \<le> 24 * 3600 \<and> balance ''a'' (w_db w') = 2"
proof -
  let ?m = "CreateSession chunked_example example_request"
  have "\<not> isl (fst (run_state ?m (start_world single_db)))" by code_simp
  from run_Inr [OF this] obtain x w' where r: "run_state ?m (start_world single_db) = (Inr x, w')" by blast
  have "db_inv (w_db (start_world single_db))" using balanced_examples(2) by (simp add: balanced_def)
  moreover have "0 < cc_min (cs_config chunked_example)" "cc_min (cs_config chunked_example) \<le> cc_max (cs_config chunked_example)"
    "sr_total example_request + cc_max (cs_config chunked_example) \<le> 2 ^ 63" "0 \<le> Unix (w_now (start_world single_db))"
    "Unix (w_now (start_world single_db)) < 2 ^ 62" "\<bar>session_ttl (cs_config chunked_example) (sr_ttl example_request)\<bar> < 2 ^ 62"
    by (simp_all add: chunked_example_def example_request_def Unix_def session_ttl_def second_def in_i64_def hour_def minute_def Let_def)
  moreover have "Unix 0 + go_div (max_ttl (cs_config chunked_example)) second = 24 * 3600"
    by (simp add: chunked_example_def max_ttl_def second_def hour_def minute_def go_div_def Unix_def)
  ultimately show ?thesis using session_plan [OF _ _ _ _ _ _ _ r, of "''a''"] r by simp
qed

section \<open>The end of a session\<close>

lemma remove_dirs:
  "wp (for_each ids (\<lambda>i _. do { _ \<leftarrow> remove_dir i; ret () }) ()) (\<lambda>_ w'. w_db w' = w_db w \<and> w_objects w' = w_objects w
     \<and> (\<forall>i. i \<notin> set ids \<longrightarrow> w_files w' i = w_files w i) \<and> (quiet w \<longrightarrow> (\<forall>i \<in> set ids. w_files w' i = None))) w"
proof (induction ids arbitrary: w)
  case Nil
  then show ?case by (simp add: wp_ret)
next
  case (Cons i ids)
  have one: "wp (remove_dir i) (\<lambda>_ w'. (quiet w \<longrightarrow> quiet w') \<and> w_db w' = w_db w \<and> w_objects w' = w_objects w
     \<and> (\<forall>j. j \<noteq> i \<longrightarrow> w_files w' j = w_files w j) \<and> (quiet w \<longrightarrow> w_files w' i = None)) w"
  proof (rule quiet_imp [OF keeps_quiet_files(4)])
    show "wp (remove_dir i) (\<lambda>_ w'. w_db w' = w_db w \<and> w_objects w' = w_objects w
     \<and> (\<forall>j. j \<noteq> i \<longrightarrow> w_files w' j = w_files w j) \<and> (quiet w \<longrightarrow> w_files w' i = None)) w"
      by (cases "quiet w") (auto simp: remove_dir_def wp_simp no_fault quiet_def intro!: wp_tick)
  qed
  show ?case
    unfolding for_each.simps wp_bind wp_ret
    by (rule wp_mono [OF one], rule wp_mono [OF Cons.IH]) (auto simp: fun_eq_iff)
qed

text \<open>Whichever calls fail, the cleanup removes only sessions whose time has passed, with their chunk rows, and returns
  how many; every other session keeps its row, its chunks and its files, and no blob is touched.\<close>

theorem cleanup_spares_live_sessions:
  assumes "run_state CleanupExpiredSessions w = (r, w')"
  shows "owned (w_db w') = owned (w_db w) \<and> w_objects w' = w_objects w \<and> (case r of
      Inl _ \<Rightarrow> w_db w' = w_db w \<and> w_files w' = w_files w
    | Inr n \<Rightarrow> let dead = filter (\<lambda>s. s_expires s < Unix (w_now w)) (t_sessions (w_db w)) in
        n = int (length dead) \<and> t_sessions (w_db w') = filter (\<lambda>s. Unix (w_now w) \<le> s_expires s) (t_sessions (w_db w))
        \<and> t_chunks (w_db w') = filter (\<lambda>k. k_session k \<notin> s_id ` set dead) (t_chunks (w_db w))
        \<and> (\<forall>i. i \<notin> s_id ` set dead \<longrightarrow> w_files w' i = w_files w i)
        \<and> (quiet w \<longrightarrow> (\<forall>i \<in> s_id ` set dead. w_files w' i = None)))" (is "?Q r w'")
proof -
  let ?t = "Unix (w_now w)"
  let ?dead = "filter (\<lambda>s. s_expires s < ?t) (t_sessions (w_db w))"
  let ?d = "delete_sessions (\<lambda>s. s_expires s < ?t) (w_db w)"
  have d: "t_sessions ?d = filter (\<lambda>s. ?t \<le> s_expires s) (t_sessions (w_db w))"
    "t_chunks ?d = filter (\<lambda>k. k_session k \<notin> s_id ` set ?dead) (t_chunks (w_db w))" "owned ?d = owned (w_db w)"
    by (auto simp: delete_sessions_def not_less image_iff intro!: filter_cong)
  have "wp CleanupExpiredSessions ?Q w"
    unfolding CleanupExpiredSessions_def wp_bind wp_now
  proof (rule wp_exec_either)
    show "q_DeleteExpiredSessions ?t (w_db w) = (Inr (map s_id ?dead), ?d)" by (simp add: q_DeleteExpiredSessions_def)
    fix fs :: "bool list"
    let ?w = "w\<lparr>w_faults := fs, w_db := ?d\<rparr>"
    assume q: "quiet w \<Longrightarrow> fs = []"
    then have q': "quiet w \<longrightarrow> quiet ?w" by (simp add: quiet_def)
    have "wp (for_each (map s_id ?dead) (\<lambda>i _. do { _ \<leftarrow> remove_dir i; ret () }) ())
        (\<lambda>_. wp (ret (Inr (int (length (map s_id ?dead))))) ?Q) ?w"
      by (rule wp_mono [OF remove_dirs]) (use d q' in \<open>simp add: wp_ret Let_def\<close>)
    then show "wp (case Inr (map s_id ?dead) of Inl e \<Rightarrow> ret (Inl (Wrap ''delete expired sessions'' e))
        | Inr ids \<Rightarrow> do { _ \<leftarrow> for_each ids (\<lambda>i _. do { _ \<leftarrow> remove_dir i; ret () }) (); ret (Inr (int (length ids))) }) ?Q ?w"
      unfolding sum.case wp_bind .
  qed (simp add: wp_ret)
  from wp_run [OF this assms] show ?thesis .
qed

theorem cleanup_spares_live_sessions_witness:
  "w_files (snd (run_state CleanupExpiredSessions session_world)) ''u'' \<noteq> None"
proof -
  have t: "filter (\<lambda>s. s_expires s < Unix (w_now session_world)) (t_sessions (w_db session_world)) = []"
    by (simp add: session_world_def example_session_def Unix_def)
  have "w_files session_world ''u'' \<noteq> None" by (simp add: session_world_def)
  with cleanup_spares_live_sessions [OF run_pair, of session_world] show ?thesis
    by (cases "fst (run_state CleanupExpiredSessions session_world)") (simp_all add: t)
qed

section \<open>Where the limits fail\<close>

text \<open>C22. The size that a session declares, against which quota and limits are checked when it is opened, bounds only the number of
  its chunks. With no failing call, in a session planned for as many chunks as a file makes (no declared hash, no tier
  limits, no encryption, a blob that the server does not have yet, and an account that stays within 64 bits), the whole file is
  accepted in any order of its chunks, stored and charged to the key, however much longer it is than was declared and whatever
  the key's quota is.\<close>

theorem declared_size_not_enforced:
  assumes "quiet w" "db_inv (w_db w)" "w_saved w = None" "in_i64 (Unix (w_now w))" "planned_session i s sz data w"
    and "cs_limits c = None" "bs_encryptor (cs_blobs c) = None" "blob_of (cs_hash c data) (w_db w) = None" "cs_quota c = Some q"
    and "distinct ns" "set ns = {..<plan sz data}" "in_i64 (balance (s_pubkey s) (w_db w) + int (length data))"
    and "run_state (and_then (upload_all c i sz data ns) (\<lambda>_. CompleteUpload c i [])) w = (r, w')"
  shows "\<exists>resp b. r = Inr resp \<and> cp_size resp = int (length data)
    \<and> owned (w_db w') = (owned (w_db w))(cs_hash c data := Some (b, {s_pubkey s})) \<and> served (cs_blobs c) b = Inr data
    \<and> balance (s_pubkey s) (w_db w') = balance (s_pubkey s) (w_db w) + int (length data)"
  using wp_run [OF send_and_complete [OF assms(1-8,10,11)] assms(13)] assms(9,12) by (auto simp: charged_def)

text \<open>A key with a quota of two bytes opens a session for one byte and sends four.\<close>

definition small_quota :: chunked_service where
  "small_quota = chunked_example\<lparr>cs_quota := Some (NewQuotaService True 100 2)\<rparr>"

definition byte_session :: session_row where
  "byte_session = example_session\<lparr>s_pubkey := ''q'', s_total := 1, s_chunk_size := 4\<rparr>"

definition byte_world :: world where
  "byte_world = (start_world (single_db\<lparr>t_sessions := [byte_session]\<rparr>))\<lparr>w_files := [''u'' \<mapsto> (\<lambda>_. None)]\<rparr>"

lemma one_piece: "plan 4 [1, 2, 3, 4] = 1"
  by (simp add: plan_def total_chunks_def go_div_def in_i64_def)

theorem declared_size_not_enforced_witness:
  "s_total byte_session = 1 \<and> quota_of (NewQuotaService True 100 2) ''q'' (w_db byte_world) = 2
    \<and> balance ''q'' (w_db (snd (run_state (and_then (upload_all small_quota ''u'' 4 [1, 2, 3, 4] [0])
        (\<lambda>_. CompleteUpload small_quota ''u'' [])) byte_world))) = 4"
proof (intro conjI)
  have n: "distinct [0::nat]" "set [0::nat] = {..<plan 4 [1, 2, 3, 4]}" by (auto simp: one_piece)
  have b: "balance ''q'' (w_db byte_world) = 0" by code_simp
  have h: "quiet byte_world" "db_inv (w_db byte_world)" "w_saved byte_world = None" "in_i64 (Unix (w_now byte_world))"
    "planned_session ''u'' byte_session 4 [1, 2, 3, 4] byte_world" "cs_limits small_quota = None"
    "bs_encryptor (cs_blobs small_quota) = None" "blob_of (cs_hash small_quota [1, 2, 3, 4]) (w_db byte_world) = None"
    "cs_quota small_quota = Some (NewQuotaService True 100 2)"
    using balanced_examples(2)
    by (simp_all add: byte_world_def byte_session_def balanced_def Unix_def in_i64_def planned_session_def example_session_def
        session_of_def session_is_def chunks_of_def chunked_example_def small_quota_def plain_service_def quiet_def one_piece
        total_chunks_def go_div_def)
      (simp_all add: single_db_def accounts_db_def sample_db_def sample_blob_def blob_of_def has_hash_def)
  have pk: "s_pubkey byte_session = ''q''" by (simp add: byte_session_def)
  from declared_size_not_enforced [OF h n _ run_pair]
  show "balance ''q'' (w_db (snd (run_state (and_then (upload_all small_quota ''u'' 4 [1, 2, 3, 4] [0])
        (\<lambda>_. CompleteUpload small_quota ''u'' [])) byte_world))) = 4"
    by (auto simp: pk b in_i64_def simp del: upload_all.simps)
  show "s_total byte_session = 1" by (simp add: byte_session_def)
  show "quota_of (NewQuotaService True 100 2) ''q'' (w_db byte_world) = 2" by code_simp
qed

text \<open>Two requests that send different chunks and both read the session before either updates its progress.\<close>

definition concurrent_chunks :: "upload_chunk result prog" where
  "concurrent_chunks = and_then (load_session ''u'') (\<lambda>s1. and_then (load_session ''u'') (\<lambda>s2.
     and_then (accept_chunk chunked_example s1 ''u'' 0 [7, 8]) (\<lambda>_. accept_chunk chunked_example s2 ''u'' 1 [9])))"

text \<open>A world with a stored chunk, in which the next lookup of its row fails.\<close>

theorem concurrent_chunks_block_session:
  "let w = snd (run_state concurrent_chunks session_world) in
     \<not> isl (fst (run_state concurrent_chunks session_world))
     \<and> map k_num (chunks_of ''u'' (w_db w)) = [0, 1] \<and> map_option s_chunks (session_of ''u'' (w_db w)) = Some 1
     \<and> (case fst (run_state (CompleteUpload chunked_example ''u'' []) w) of Inl e \<Rightarrow> errors_is e ErrUploadIncomplete | Inr _ \<Rightarrow> False)
     \<and> fst (run_state (UploadChunk chunked_example ''u'' 1 [9]) w) = Inl ErrChunkAlreadyUploaded"
  unfolding Let_def by (intro conjI) code_simp+

text \<open>A failing lookup of the chunk row counts as "not there": sending a stored chunk again then overwrites its file, the
  insert of the row fails, and the clean-up removes the file of the chunk that was stored.\<close>

definition stored_chunk_world :: world where
  "stored_chunk_world = (snd (run_state (UploadChunk chunked_example ''u'' 1 [9]) session_world))\<lparr>w_faults := [False, True]\<rparr>"

text \<open>Two requests that send different chunks at the same time both read the session before either updates its progress:
  both are accepted, one is not counted, and the upload can neither be completed nor can a chunk be sent again.\<close>

theorem failed_chunk_lookup_drops_file:
  "chunk_file ''u'' 1 stored_chunk_world = Some [9]
     \<and> chunk_file ''u'' 1 (snd (run_state (UploadChunk chunked_example ''u'' 1 [9]) stored_chunk_world)) = None
     \<and> map k_num (chunks_of ''u'' (w_db (snd (run_state (UploadChunk chunked_example ''u'' 1 [9]) stored_chunk_world)))) = [1]"
  by (intro conjI) code_simp+

section \<open>Status codes\<close>

text \<open>The answers of the handlers: \<^verbatim>\<open>switch err\<close> compares with the sentinel errors themselves, not along the chain of
  wrapped errors.\<close>

definition chunk_status :: "goerr \<Rightarrow> int" where
  "chunk_status e =
     (if e = ErrSessionNotFound then 404 else if e = ErrSessionExpired \<or> e = ErrSessionAborted then 410
      else if e = ErrSessionComplete \<or> e = ErrChunkAlreadyUploaded then 409 else 400)"

definition complete_status :: "goerr \<Rightarrow> int" where
  "complete_status e =
     (if e = ErrSessionNotFound then 404 else if e = ErrSessionExpired \<or> e = ErrSessionAborted then 410
      else if e = ErrSessionComplete then 409 else if e = ErrUploadIncomplete \<or> e = ErrHashMismatch then 412 else 500)"

lemma incomplete_answers_500:
  assumes "run_state (CompleteUpload chunked_example ''u'' []) session_world = (Inl e, w')"
  shows "errors_is e ErrUploadIncomplete \<and> complete_status e = 500"
proof -
  have "fst (run_state (CompleteUpload chunked_example ''u'' []) session_world) = Inl (Wrap ''received'' ErrUploadIncomplete)"
    by code_simp
  then show ?thesis using assms by (simp add: complete_status_def)
qed

end
