(* ===== verification/Tus.thy ===== *)
theory Tus
  imports Upload
begin

text \<open>
  Resumable (tus) uploads: the queries of \<^verbatim>\<open>db/tus_uploads.sql.go\<close>, the store
  (\<^verbatim>\<open>src/service/tus_store.go\<close>) and the protocol handlers (\<^verbatim>\<open>src/api/gin/tus_controller.go\<close>). An upload is
  a row of \<^verbatim>\<open>tus_uploads\<close> with its offset, one row of \<^verbatim>\<open>tus_upload_chunks\<close> per appended chunk and one object
  in the blob storage per chunk, under a key with a random suffix. The encoding of the metadata (JSON), the
  names of chunk objects and upload ids, SHA-256 and the decoding of a checksum are parameters.
\<close>

section \<open>Queries\<close>

definition tus_of :: "string \<Rightarrow> dbstate \<Rightarrow> tus_row option" where
  "tus_of i d = find (\<lambda>u. tu_id u = i) (t_tus d)"

definition tus_chunks :: "string \<Rightarrow> dbstate \<Rightarrow> tus_chunk_row list" where
  "tus_chunks i d = filter (\<lambda>k. tc_upload k = i) (t_tus_chunks d)"

definition q_AdvanceTusUploadOffset :: "string \<Rightarrow> int \<Rightarrow> int \<Rightarrow> int \<Rightarrow> int query" where
  "q_AdvanceTusUploadOffset i old new expires d =
     (Inr (int (length (filter (\<lambda>u. tu_id u = i \<and> tu_offset u = old) (t_tus d)))),
      d\<lparr>t_tus := update_where (\<lambda>u. tu_id u = i \<and> tu_offset u = old) (\<lambda>u. u\<lparr>tu_offset := new, tu_expires := expires\<rparr>) (t_tus d)\<rparr>)"

definition q_CreateTusUpload :: "tus_row \<Rightarrow> unit query" where
  "q_CreateTusUpload u d =
     (if tus_of (tu_id u) d \<noteq> None then (Inl ErrConstraint, d) else (Inr (), d\<lparr>t_tus := t_tus d @ [u]\<rparr>))"

definition q_CreateTusUploadChunk :: "tus_chunk_row \<Rightarrow> unit query" where
  "q_CreateTusUploadChunk k d =
     (if \<exists>k' \<in> set (t_tus_chunks d). tc_upload k' = tc_upload k \<and> tc_offset k' = tc_offset k then (Inl ErrConstraint, d)
      else (Inr (), d\<lparr>t_tus_chunks := t_tus_chunks d @ [k]\<rparr>))"

definition delete_tus :: "(tus_row \<Rightarrow> bool) \<Rightarrow> int query" where
  "delete_tus P d = (Inr (int (length (filter P (t_tus d)))), d\<lparr>t_tus := filter (\<lambda>u. \<not> P u) (t_tus d)\<rparr>)"

definition q_DeleteTusUpload :: "string \<Rightarrow> int query" where
  "q_DeleteTusUpload i = delete_tus (\<lambda>u. tu_id u = i)"

definition q_DeleteTusUploadIfExpired :: "string \<Rightarrow> int \<Rightarrow> int query" where
  "q_DeleteTusUploadIfExpired i t = delete_tus (\<lambda>u. tu_id u = i \<and> tu_expires u < t)"

definition q_DeleteTusUploadChunks :: "string \<Rightarrow> string list query" where
  "q_DeleteTusUploadChunks i d =
     (Inr (map tc_key (tus_chunks i d)), d\<lparr>t_tus_chunks := filter (\<lambda>k. tc_upload k \<noteq> i) (t_tus_chunks d)\<rparr>)"

text \<open>Ordered by id; \<open>string_less\<close> is the order of the column's collation, taken bytewise.\<close>

fun string_le :: "string \<Rightarrow> string \<Rightarrow> bool" where
  "string_le [] _ = True"
| "string_le (_ # _) [] = False"
| "string_le (a # s) (b # t) = ((of_char a :: nat) < of_char b \<or> a = b \<and> string_le s t)"

fun insert_id :: "string \<Rightarrow> string list \<Rightarrow> string list" where
  "insert_id x [] = [x]"
| "insert_id x (y # ys) = (if string_le x y then x # y # ys else y # insert_id x ys)"

definition order_ids :: "string list \<Rightarrow> string list" where
  "order_ids xs = foldr insert_id xs []"

definition q_GetExpiredTusUploadIDs :: "int \<Rightarrow> int \<Rightarrow> string list query" where
  "q_GetExpiredTusUploadIDs t limit d =
     (if limit < 0 then (Inl ErrConstraint, d)
      else (Inr (take (nat limit) (order_ids (map tu_id (filter (\<lambda>u. tu_expires u < t) (t_tus d))))), d))"

definition q_GetTusUpload :: "string \<Rightarrow> tus_row query" where
  "q_GetTusUpload i d = (first_row (\<lambda>u. tu_id u = i) (t_tus d), d)"

definition q_GetTusUploadChunks :: "string \<Rightarrow> tus_chunk_row list query" where
  "q_GetTusUploadChunks i d = (Inr (sort_key tc_offset (tus_chunks i d)), d)"

section \<open>The store\<close>

type_synonym metadata = "(string \<times> string) list"

record tus_store =
  ts_key :: "string \<Rightarrow> int \<Rightarrow> nat \<Rightarrow> string"
  ts_encode :: "metadata \<Rightarrow> string"
  ts_decode :: "string \<Rightarrow> metadata option"
  ts_batch :: int

record tus_upload =
  tup_id :: string
  tup_pubkey :: string
  tup_size :: int
  tup_offset :: int
  tup_metadata :: metadata
  tup_created :: int
  tup_expires :: int

definition TusUploadTTL :: int where
  "TusUploadTTL = 24 * hour"

definition tus_Create :: "tus_store \<Rightarrow> tus_upload \<Rightarrow> unit result prog" where
  "tus_Create c u = exec_sql (q_CreateTusUpload
     \<lparr>tu_id = tup_id u, tu_pubkey = tup_pubkey u, tu_size = tup_size u, tu_offset = tup_offset u,
      tu_metadata = ts_encode c (tup_metadata u), tu_created = tup_created u, tu_expires = tup_expires u\<rparr>)"

definition tus_Get :: "tus_store \<Rightarrow> string \<Rightarrow> tus_upload result prog" where
  "tus_Get c i = do {
     r \<leftarrow> exec_sql (q_GetTusUpload i);
     ret (case r of
            Inl e \<Rightarrow> if errors_is e ErrNoRows then Inl ErrTusUploadNotFound else Inl e
          | Inr u \<Rightarrow> (case ts_decode c (tu_metadata u) of
                       None \<Rightarrow> Inl (Msg ''decode metadata'')
                     | Some m \<Rightarrow> Inr \<lparr>tup_id = tu_id u, tup_pubkey = tu_pubkey u, tup_size = tu_size u, tup_offset = tu_offset u,
                                      tup_metadata = m, tup_created = tu_created u, tup_expires = tu_expires u\<rparr>))
   }"

definition tusChunkKey :: "tus_store \<Rightarrow> string \<Rightarrow> int \<Rightarrow> string result prog" where
  "tusChunkKey c i offset = do {
     failed \<leftarrow> tick;
     if failed then ret (Inl (Wrap ''chunk key'' ErrIO))
     else State (\<lambda>w. (Inr (ts_key c i offset (w_rng w)), w\<lparr>w_rng := Suc (w_rng w)\<rparr>))
   }"

fun removeObjects :: "string list \<Rightarrow> unit prog" where
  "removeObjects [] = ret ()"
| "removeObjects (k # ks) = do { _ \<leftarrow> st_Delete k; removeObjects ks }"

definition recordChunk :: "string \<Rightarrow> int \<Rightarrow> int \<Rightarrow> string \<Rightarrow> unit result prog" where
  "recordChunk i offset newOffset key = with_tx (do {
     t \<leftarrow> now;
     a \<leftarrow> exec_sql (q_AdvanceTusUploadOffset i offset newOffset (Unix (t + TusUploadTTL)));
     case a of
       Inl e \<Rightarrow> ret (Inl e)
     | Inr advanced \<Rightarrow>
         if advanced = 0 then ret (Inl ErrTusOffsetConflict)
         else do {
           r \<leftarrow> exec_sql (q_CreateTusUploadChunk
                  \<lparr>tc_upload = i, tc_offset = offset, tc_size = i64 (newOffset - offset), tc_key = key\<rparr>);
           case r of
             Inl e \<Rightarrow> ret (Inl e)
           | Inr _ \<Rightarrow> do { k \<leftarrow> commit_tx; ret k }
         }
   })"

text \<open>The two halves of \<^verbatim>\<open>AppendChunk\<close>: the bytes are stored under a fresh key, then recorded; a chunk that cannot
  be recorded removes its own bytes.\<close>

definition put_chunk :: "tus_store \<Rightarrow> string \<Rightarrow> int \<Rightarrow> bytes \<Rightarrow> string result prog" where
  "put_chunk c i offset data = and_then (tusChunkKey c i offset) (\<lambda>key.
     and_then (wrap ''store chunk'' (st_Put key data)) (\<lambda>_. ret (Inr key)))"

definition finish_chunk :: "string \<Rightarrow> int \<Rightarrow> bytes \<Rightarrow> string \<Rightarrow> int result prog" where
  "finish_chunk i offset data key =
     (let newOffset = i64 (offset + int (length data)) in do {
        r \<leftarrow> recordChunk i offset newOffset key;
        case r of
          Inl e \<Rightarrow> do { _ \<leftarrow> removeObjects [key]; ret (Inl e) }
        | Inr _ \<Rightarrow> ret (Inr newOffset)
      })"

definition AppendChunk :: "tus_store \<Rightarrow> string \<Rightarrow> int \<Rightarrow> bytes \<Rightarrow> int result prog" where
  "AppendChunk c i offset data =
     (if data = [] then ret (Inr offset)
      else and_then (put_chunk c i offset data) (finish_chunk i offset data))"

definition tus_readChunk :: "tus_chunk_row \<Rightarrow> bytes result prog" where
  "tus_readChunk k = do {
     r \<leftarrow> st_Get (tc_key k);
     ret (case r of
            Inl e \<Rightarrow> Inl (Wrap ''read chunk at offset'' e)
          | Inr data \<Rightarrow> if int (length data) \<noteq> tc_size k then Inl (Msg ''chunk size'') else Inr data)
   }"

fun read_rows :: "int \<Rightarrow> tus_chunk_row list \<Rightarrow> int \<Rightarrow> bytes \<Rightarrow> bytes result prog" where
  "read_rows start [] pos buf =
     ret (if start > pos then Inl (Msg ''offset is past the upload'') else Inr buf)"
| "read_rows start (k # ks) pos buf =
     (if tc_offset k \<noteq> pos then ret (Inl (Msg ''chunk at another offset''))
      else let pos = i64 (pos + tc_size k) in
        if pos \<le> start then read_rows start ks pos buf
        else do {
          r \<leftarrow> tus_readChunk k;
          case r of
            Inl e \<Rightarrow> ret (Inl e)
          | Inr data \<Rightarrow>
              let skip = i64 (start - tc_offset k)
              in read_rows start ks pos (buf @ (if skip > 0 then drop (nat skip) data else data))
        })"

definition ReadFrom :: "string \<Rightarrow> int \<Rightarrow> bytes result prog" where
  "ReadFrom i start = and_then (exec_sql (q_GetTusUploadChunks i)) (\<lambda>ks. read_rows start ks 0 [])"

definition ReadAll :: "string \<Rightarrow> bytes result prog" where
  "ReadAll i = ReadFrom i 0"

definition store_deleteUpload :: "string \<Rightarrow> int query \<Rightarrow> bool result prog" where
  "store_deleteUpload i del = do {
     r \<leftarrow> with_tx (do {
       x \<leftarrow> exec_sql del;
       case x of
         Inl e \<Rightarrow> ret (Inl e)
       | Inr removed \<Rightarrow>
           if removed = 0 then ret (Inr None)
           else do {
             k \<leftarrow> exec_sql (q_DeleteTusUploadChunks i);
             case k of
               Inl e \<Rightarrow> ret (Inl e)
             | Inr keys \<Rightarrow> do { m \<leftarrow> commit_tx; ret (case m of Inl e \<Rightarrow> Inl e | Inr _ \<Rightarrow> Inr (Some keys)) }
           }
     });
     case r of
       Inl e \<Rightarrow> ret (Inl e)
     | Inr None \<Rightarrow> ret (Inr False)
     | Inr (Some keys) \<Rightarrow> do { _ \<leftarrow> removeObjects keys; ret (Inr True) }
   }"

definition tus_Delete :: "string \<Rightarrow> unit result prog" where
  "tus_Delete i = do {
     r \<leftarrow> store_deleteUpload i (q_DeleteTusUpload i);
     ret (case r of
            Inl e \<Rightarrow> Inl e
          | Inr removed \<Rightarrow> if removed then Inr () else Inl ErrTusUploadNotFound)
   }"

definition deleteIfExpired :: "string \<Rightarrow> int \<Rightarrow> bool result prog" where
  "deleteIfExpired i t = store_deleteUpload i (q_DeleteTusUploadIfExpired i t)"

text \<open>One batch of the sweep, and the sweep with a bound on the number of batches. Both return the number removed so far
  and the error, if any; the sweep is \<open>None\<close> if the bound is used up.\<close>

fun sweep_ids :: "string list \<Rightarrow> int \<Rightarrow> int \<Rightarrow> (int \<times> goerr option) prog" where
  "sweep_ids [] t removed = ret (removed, None)"
| "sweep_ids (i # ids) t removed = do {
     r \<leftarrow> deleteIfExpired i t;
     case r of
       Inl e \<Rightarrow> ret (removed, Some e)
     | Inr ok \<Rightarrow> sweep_ids ids t (if ok then removed + 1 else removed)
   }"

fun sweep_batches :: "nat \<Rightarrow> int \<Rightarrow> int \<Rightarrow> int \<Rightarrow> (int \<times> goerr option) option prog" where
  "sweep_batches 0 batch t removed = ret None"
| "sweep_batches (Suc fuel) batch t removed = do {
     r \<leftarrow> exec_sql (q_GetExpiredTusUploadIDs t (i32 batch));
     case r of
       Inl e \<Rightarrow> ret (Some (removed, Some e))
     | Inr ids \<Rightarrow> do {
         x \<leftarrow> sweep_ids ids t removed;
         case x of (removed, err) \<Rightarrow>
           if err \<noteq> None then ret (Some (removed, err))
           else if int (length ids) < batch then ret (Some (removed, None))
           else sweep_batches fuel batch t removed
       }
   }"

definition DeleteExpired :: "tus_store \<Rightarrow> nat \<Rightarrow> int \<Rightarrow> (int \<times> goerr option) option prog" where
  "DeleteExpired c fuel t = sweep_batches fuel (if ts_batch c \<le> 0 then 500 else ts_batch c) t 0"

section \<open>The handlers\<close>

record tus_handler =
  th_blobs :: blob_service
  th_quota :: "quota_service option"
  th_moderation :: bool
  th_acr :: "acr_service option"
  th_limits :: "upload_limits option"
  th_store :: tus_store
  th_cdn :: string
  th_max :: int
  th_media :: media
  th_hash :: "bytes \<Rightarrow> string"
  th_checksum :: "string \<Rightarrow> string option"
  th_uuid :: "nat \<Rightarrow> string"
  th_is_uuid :: "string \<Rightarrow> bool"

text \<open>What a handler answers: the status and, where it sets them, the headers with offset, length and location.\<close>

record tus_answer =
  ta_status :: int
  ta_offset :: "int option"
  ta_length :: "int option"
  ta_location :: "string option"

definition answer :: "int \<Rightarrow> tus_answer" where
  "answer st = \<lparr>ta_status = st, ta_offset = None, ta_length = None, ta_location = None\<rparr>"

definition tusMaxSize :: int where
  "tusMaxSize = 100 * 1024 * 1024 * 1024"

definition maxSize :: "tus_handler \<Rightarrow> int" where
  "maxSize h = (if th_max h > 0 then th_max h else tusMaxSize)"

definition chunkErrorStatus :: "goerr \<Rightarrow> int" where
  "chunkErrorStatus e =
     (if errors_is e ErrTusOffsetConflict then 409 else if errors_is e ErrTusChunkTooLarge then 413 else 500)"

definition lookupErrorStatus :: "goerr \<Rightarrow> int" where
  "lookupErrorStatus e = (if errors_is e ErrTusUploadNotFound then 404 else 500)"

definition ownsUpload :: "string \<Rightarrow> tus_upload \<Rightarrow> bool" where
  "ownsUpload caller u \<longleftrightarrow> caller \<noteq> [] \<and> caller = tup_pubkey u"

definition blocklistCheck :: "tus_handler \<Rightarrow> string \<Rightarrow> bool result prog" where
  "blocklistCheck h pk = (if \<not> th_moderation h then ret (Inr False) else IsBlocked pk)"

definition accessAllowed :: "tus_handler \<Rightarrow> string \<Rightarrow> bool" where
  "accessAllowed h pk = (case th_acr h of None \<Rightarrow> True | Some a \<Rightarrow> acr_Validate a pk ''UPLOAD'' = Inr ())"

text \<open>The body of a request: the bytes that arrive, and the error with which reading it then fails, if it does. A limited reader
  stops at its limit and does not see an error after it. A body without a declared length is metered while it is read and
  fails with \<open>errBandwidthExceeded\<close> once its address is over its upload limit; the limiter has then answered 429, and what
  the handler writes after it is dropped.\<close>

datatype body = Body bytes "goerr option"

definition errBandwidthExceeded :: goerr where
  "errBandwidthExceeded = Msg ''bandwidth limit exceeded''"

definition read_body :: "body \<Rightarrow> int \<Rightarrow> bytes result" where
  "read_body b n = (case b of Body data failure \<Rightarrow>
     if int (length data) \<ge> n then Inr (take (nat n) data)
     else (case failure of None \<Rightarrow> Inr data | Some e \<Rightarrow> Inl (Wrap ''read chunk'' e)))"

definition chunk_error_answer :: "goerr \<Rightarrow> int" where
  "chunk_error_answer e = (if errors_is e errBandwidthExceeded then 429 else chunkErrorStatus e)"

definition appendBody :: "tus_handler \<Rightarrow> body \<Rightarrow> tus_upload \<Rightarrow> int \<Rightarrow> int result prog" where
  "appendBody h b u offset =
     (let remaining = i64 (tup_size u - offset) in
      case read_body b (i64 (remaining + 1)) of
        Inl e \<Rightarrow> ret (Inl e)
      | Inr data \<Rightarrow> if int (length data) > remaining then ret (Inl ErrTusChunkTooLarge)
                    else AppendChunk (th_store h) (tup_id u) offset data)"

definition matchStoredTail :: "body \<Rightarrow> tus_upload \<Rightarrow> int \<Rightarrow> int result prog" where
  "matchStoredTail b u offset =
     (let remaining = i64 (tup_size u - offset) in
      case read_body b (i64 (remaining + 1)) of
        Inl e \<Rightarrow> ret (Inl e)
      | Inr data \<Rightarrow> and_then (wrap ''read upload'' (ReadFrom (tup_id u) offset)) (\<lambda>stored.
          ret (if int (length stored) \<noteq> remaining \<or> data \<noteq> stored
               then Inl (Wrap ''retried chunk does not match the stored upload'' ErrTusOffsetConflict)
               else Inr (tup_size u))))"

definition meta :: "metadata \<Rightarrow> string \<Rightarrow> string" where
  "meta m k = (case map_of m k of None \<Rightarrow> [] | Some v \<Rightarrow> v)"

definition declared_type :: "metadata \<Rightarrow> string" where
  "declared_type m =
     (let t = meta m ''filetype''; t = (if t = [] then meta m ''content-type'' else t)
      in if t = [] then ''application/octet-stream'' else t)"

text \<open>The checksum of an \<^verbatim>\<open>Upload-Checksum\<close> header: what follows the first space, if the algorithm is SHA-256.\<close>

definition expectedChecksum :: "string \<Rightarrow> string" where
  "expectedChecksum header =
     (let alg = takeWhile (\<lambda>c. c \<noteq> CHR '' '') header
      in if alg = ''sha256'' \<and> alg \<noteq> header then drop (length alg + 1) header else [])"

text \<open>The end of \<^verbatim>\<open>finalizeUpload\<close>: tier check, save, charge. The removal of the upload, which the code starts in the
  background, is the last step.\<close>

definition save_upload :: "tus_handler \<Rightarrow> string \<Rightarrow> tus_upload \<Rightarrow> bytes \<Rightarrow> blob_desc result prog" where
  "save_upload h i u data =
     (let hs = th_hash h data; stored = Resolve (th_media h) data (declared_type (tup_metadata u)); pk = tup_pubkey u in
      and_then (case th_limits h of None \<Rightarrow> ret (Inr ()) | Some l \<Rightarrow> CheckUpload l pk stored (int (length data))) (\<lambda>_. do {
        t \<leftarrow> now;
        and_then (wrap ''save blob'' (SaveWithDedup (th_blobs h) pk hs (th_cdn h @ ''/'' @ hs) (int (length data)) stored data (Unix t) ''none''))
          (\<lambda>(blob, newReference). do {
             _ \<leftarrow> (case th_limits h of None \<Rightarrow> ret () | Some l \<Rightarrow> RecordUpload l pk);
             _ \<leftarrow> (case th_quota h of
                     None \<Rightarrow> ret (Inr ())
                   | Some q \<Rightarrow> if newReference then IncrementUsage q pk (int (length data)) else ret (Inr ()));
             _ \<leftarrow> tus_Delete i;
             ret (Inr blob)
           })
      }))"

definition finalizeUpload :: "tus_handler \<Rightarrow> string \<Rightarrow> tus_upload \<Rightarrow> string \<Rightarrow> blob_desc result prog" where
  "finalizeUpload h i u checksum = do {
     b \<leftarrow> blocklistCheck h (tup_pubkey u);
     case b of
       Inl _ \<Rightarrow> ret (Inl ErrTusBlocklistUnavailable)
     | Inr blocked \<Rightarrow>
         if blocked then ret (Inl ErrPubkeyBlocked)
         else if \<not> accessAllowed h (tup_pubkey u) then ret (Inl ErrTusAccessDenied)
         else and_then (wrap ''read upload'' (ReadAll i)) (\<lambda>data.
           if int (length data) > maxSize h then ret (Inl ErrFileSizeLimit)
           else if checksum \<noteq> [] \<and> (case th_checksum h checksum of None \<Rightarrow> False | Some x \<Rightarrow> x \<noteq> th_hash h data)
           then ret (Inl (Msg ''checksum mismatch''))
           else save_upload h i u data)
   }"

text \<open>The end of \<^verbatim>\<open>tusCreate\<close>: the row, and the first chunk if the request carries one.\<close>

definition open_upload :: "tus_handler \<Rightarrow> string \<Rightarrow> int \<Rightarrow> metadata \<Rightarrow> int \<Rightarrow> body \<Rightarrow> tus_answer prog" where
  "open_upload h pk n metadata contentLength b = do {
     i \<leftarrow> State (\<lambda>w. (th_uuid h (w_rng w), w\<lparr>w_rng := Suc (w_rng w)\<rparr>));
     t \<leftarrow> now;
     let info = \<lparr>tup_id = i, tup_pubkey = pk, tup_size = n, tup_offset = 0, tup_metadata = metadata,
                 tup_created = Unix t, tup_expires = Unix (t + TusUploadTTL)\<rparr>
     in do {
       x \<leftarrow> tus_Create (th_store h) info;
       case x of
         Inl _ \<Rightarrow> ret (answer 500)
       | Inr _ \<Rightarrow>
           let ok = (answer 201)\<lparr>ta_location := Some (th_cdn h @ ''/files/'' @ i)\<rparr> in
           if contentLength > 0 then do {
             a \<leftarrow> appendBody h b info 0;
             case a of
               Inl e \<Rightarrow> do { _ \<leftarrow> tus_Delete i; ret (answer (chunk_error_answer e)) }
             | Inr offset \<Rightarrow> ret (ok\<lparr>ta_offset := Some offset\<rparr>)
           }
           else ret ok
     }
   }"

definition tusCreate ::
  "tus_handler \<Rightarrow> string option \<Rightarrow> string \<Rightarrow> metadata \<Rightarrow> int \<Rightarrow> body \<Rightarrow> tus_answer prog" where
  "tusCreate h caller uploadLength metadata contentLength b =
     (case caller of
        None \<Rightarrow> ret (answer 401)
      | Some pk \<Rightarrow> do {
          r \<leftarrow> blocklistCheck h pk;
          case r of
            Inl _ \<Rightarrow> ret (answer 503)
          | Inr blocked \<Rightarrow>
              if blocked then ret (answer 403)
              else if \<not> accessAllowed h pk then ret (answer 403)
              else if uploadLength = [] then ret (answer 400)
              else (case ParseInt uploadLength of (n, failed) \<Rightarrow>
                if failed \<or> n < 0 then ret (answer 400)
                else if n > maxSize h then ret (answer 413)
                else do {
                  q \<leftarrow> (case th_quota h of None \<Rightarrow> ret (Inr ()) | Some q \<Rightarrow> CheckQuota q pk n);
                  case q of
                    Inl _ \<Rightarrow> ret (answer 403)
                  | Inr _ \<Rightarrow>
                      if (case th_limits h of None \<Rightarrow> False | Some l \<Rightarrow> isl (ValidateFileSize l pk n)) then ret (answer 413)
                      else open_upload h pk n metadata contentLength b
                })
        })"

definition tusHead :: "tus_handler \<Rightarrow> string \<Rightarrow> string \<Rightarrow> tus_answer prog" where
  "tusHead h caller i =
     (if \<not> th_is_uuid h i then ret (answer 404)
      else do {
        r \<leftarrow> tus_Get (th_store h) i;
        case r of
          Inl e \<Rightarrow> ret (answer (lookupErrorStatus e))
        | Inr u \<Rightarrow>
            if \<not> ownsUpload caller u then ret (answer 403)
            else do {
              t \<leftarrow> now;
              if Unix t > tup_expires u then do { _ \<leftarrow> tus_Delete i; ret (answer 410) }
              else ret ((answer 200)\<lparr>ta_offset := Some (tup_offset u), ta_length := Some (tup_size u)\<rparr>)
            }
      })"

text \<open>The answer once the last byte is there.\<close>

definition tus_finish :: "tus_handler \<Rightarrow> string \<Rightarrow> tus_upload \<Rightarrow> string \<Rightarrow> int \<Rightarrow> tus_answer prog" where
  "tus_finish h i u checksum newOffset =
     (if newOffset \<ge> tup_size u then do {
        r \<leftarrow> finalizeUpload h i (u\<lparr>tup_offset := newOffset\<rparr>) checksum;
        case r of
          Inr _ \<Rightarrow> ret ((answer 204)\<lparr>ta_offset := Some newOffset\<rparr>)
        | Inl e \<Rightarrow>
            if errors_is e ErrPubkeyBlocked then do { _ \<leftarrow> tus_Delete i; ret ((answer 403)\<lparr>ta_offset := Some newOffset\<rparr>) }
            else if errors_is e ErrTusBlocklistUnavailable then ret ((answer 503)\<lparr>ta_offset := Some newOffset\<rparr>)
            else if errors_is e ErrTusAccessDenied then do { _ \<leftarrow> tus_Delete i; ret ((answer 403)\<lparr>ta_offset := Some newOffset\<rparr>) }
            else if errors_is e ErrFileSizeLimit then do { _ \<leftarrow> tus_Delete i; ret ((answer 413)\<lparr>ta_offset := Some newOffset\<rparr>) }
            else ret ((answer 500)\<lparr>ta_offset := Some newOffset\<rparr>)
      }
      else ret ((answer 204)\<lparr>ta_offset := Some newOffset\<rparr>))"

definition tus_write :: "tus_handler \<Rightarrow> string \<Rightarrow> tus_upload \<Rightarrow> int \<Rightarrow> string \<Rightarrow> body \<Rightarrow> tus_answer prog" where
  "tus_write h i u offset checksum b =
     (let finalizeRetry = (offset < tup_offset u \<and> tup_offset u \<ge> tup_size u) in
      if offset \<noteq> tup_offset u \<and> \<not> finalizeRetry then ret (answer 409)
      else do {
        r \<leftarrow> blocklistCheck h (tup_pubkey u);
        case r of
          Inl _ \<Rightarrow> ret (answer 503)
        | Inr blocked \<Rightarrow>
            if blocked then do { _ \<leftarrow> tus_Delete i; ret (answer 403) }
            else do {
              a \<leftarrow> (if finalizeRetry then matchStoredTail b u offset else appendBody h b u offset);
              case a of
                Inl e \<Rightarrow> ret (answer (chunk_error_answer e))
              | Inr newOffset \<Rightarrow> tus_finish h i u checksum newOffset
            }
      })"

definition tusPatch :: "tus_handler \<Rightarrow> string \<Rightarrow> string \<Rightarrow> string \<Rightarrow> string \<Rightarrow> string \<Rightarrow> body \<Rightarrow> tus_answer prog" where
  "tusPatch h caller i contentType uploadOffset checksum b =
     (if \<not> th_is_uuid h i then ret (answer 404)
      else if contentType \<noteq> ''application/offset+octet-stream'' then ret (answer 415)
      else if uploadOffset = [] then ret (answer 400)
      else (case ParseInt uploadOffset of (offset, failed) \<Rightarrow>
        if failed \<or> offset < 0 then ret (answer 400)
        else do {
          r \<leftarrow> tus_Get (th_store h) i;
          case r of
            Inl e \<Rightarrow> ret (answer (lookupErrorStatus e))
          | Inr u \<Rightarrow>
              if \<not> ownsUpload caller u then ret (answer 403)
              else do {
                t \<leftarrow> now;
                if Unix t > tup_expires u then do { _ \<leftarrow> tus_Delete i; ret (answer 410) }
                else tus_write h i u offset (expectedChecksum checksum) b
              }
        }))"

definition tusDelete :: "tus_handler \<Rightarrow> string \<Rightarrow> string \<Rightarrow> tus_answer prog" where
  "tusDelete h caller i =
     (if \<not> th_is_uuid h i then ret (answer 404)
      else do {
        r \<leftarrow> tus_Get (th_store h) i;
        case r of
          Inl e \<Rightarrow> ret (answer (lookupErrorStatus e))
        | Inr u \<Rightarrow>
            if \<not> ownsUpload caller u then ret (answer 403)
            else do {
              d \<leftarrow> tus_Delete i;
              ret (answer (case d of
                             Inl e \<Rightarrow> if errors_is e ErrTusUploadNotFound then 404 else 500
                           | Inr _ \<Rightarrow> 204))
            }
      })"

end
