(* ===== verification/TusRules.thy ===== *)
theory TusRules
  imports Tus ChunkedRules
begin

text \<open>
  What the store of resumable uploads guarantees: the chunks of an upload tile its bytes from 0 to the recorded offset,
  an append adds its bytes or changes nothing, reading returns what was appended, and the sweep of expired uploads ends.
\<close>

section \<open>The invariant and the abstract view\<close>

fun tiles :: "int \<Rightarrow> tus_chunk_row list \<Rightarrow> int \<Rightarrow> bool" where
  "tiles p [] q = (p = q)"
| "tiles p (k # ks) q = (tc_offset k = p \<and> 0 < tc_size k \<and> tiles (p + tc_size k) ks q)"

definition has_bytes :: "(string \<Rightarrow> bytes option) \<Rightarrow> tus_chunk_row \<Rightarrow> bool" where
  "has_bytes ob k \<longleftrightarrow> (\<exists>b. ob (tc_key k) = Some b \<and> int (length b) = tc_size k)"

definition chunk_bytes :: "(string \<Rightarrow> bytes option) \<Rightarrow> tus_chunk_row \<Rightarrow> bytes" where
  "chunk_bytes ob k = (case ob (tc_key k) of None \<Rightarrow> [] | Some b \<Rightarrow> b)"

definition tus_bytes :: "(string \<Rightarrow> bytes option) \<Rightarrow> tus_chunk_row list \<Rightarrow> bytes" where
  "tus_bytes ob ks = concat (map (chunk_bytes ob) ks)"

definition tus_state :: "dbstate \<Rightarrow> (string \<Rightarrow> bytes option) \<Rightarrow> bool" where
  "tus_state d ob \<longleftrightarrow> distinct (map tu_id (t_tus d)) \<and> distinct (map tc_key (t_tus_chunks d))
     \<and> (\<forall>u \<in> set (t_tus d). tiles 0 (tus_chunks (tu_id u) d) (tu_offset u) \<and> tu_offset u < 2 ^ 63)
     \<and> (\<forall>k \<in> set (t_tus_chunks d). has_bytes ob k \<and> tc_upload k \<in> tu_id ` set (t_tus d))"

abbreviation tus_inv :: "world \<Rightarrow> bool" where
  "tus_inv w \<equiv> tus_state (w_db w) (w_objects w)"

text \<open>An upload seen from outside: its creator, its declared size and the bytes received so far.\<close>

definition uploads_of :: "dbstate \<Rightarrow> (string \<Rightarrow> bytes option) \<Rightarrow> string \<Rightarrow> (string \<times> int \<times> bytes) option" where
  "uploads_of d ob i = map_option (\<lambda>u. (tu_pubkey u, tu_size u, tus_bytes ob (tus_chunks i d))) (tus_of i d)"

abbreviation uploads :: "world \<Rightarrow> string \<Rightarrow> (string \<times> int \<times> bytes) option" where
  "uploads w \<equiv> uploads_of (w_db w) (w_objects w)"

lemma tus_of_Some: "tus_of i d = Some u \<Longrightarrow> u \<in> set (t_tus d) \<and> tu_id u = i"
  unfolding tus_of_def by (auto simp: find_Some_iff)

lemma tus_of_None: "tus_of i d = None \<longleftrightarrow> i \<notin> tu_id ` set (t_tus d)"
  unfolding tus_of_def by (auto simp: find_None_iff)

lemma tus_of_unique: "distinct (map tu_id (t_tus d)) \<Longrightarrow> u \<in> set (t_tus d) \<Longrightarrow> tus_of (tu_id u) d = Some u"
proof -
  assume d: "distinct (map tu_id (t_tus d))" and u: "u \<in> set (t_tus d)"
  then obtain v where v: "tus_of (tu_id u) d = Some v" using tus_of_None [of "tu_id u" d] by (cases "tus_of (tu_id u) d") auto
  then have "v = u" using tus_of_Some [OF v] d u by (auto simp: distinct_map dest: inj_onD)
  with v show ?thesis by simp
qed

lemma find_update_row:
  assumes "\<And>r. k (f r) = k r"
  shows "find (\<lambda>r. k r = i) (update_where (\<lambda>r. k r = i \<and> P r) f rows)
    = map_option (\<lambda>r. if P r then f r else r) (find (\<lambda>r. k r = i) rows)"
  by (induction rows) (simp_all add: update_where_def assms)

lemma set_tus_chunks: "set (tus_chunks i d) = {k \<in> set (t_tus_chunks d). tc_upload k = i}"
  by (simp add: tus_chunks_def)

lemma tiles_append: "tiles p (ks @ [k]) q \<longleftrightarrow> tiles p ks (tc_offset k) \<and> 0 < tc_size k \<and> q = tc_offset k + tc_size k"
  by (induction ks arbitrary: p) auto

lemma tiles_bounds: "tiles p ks q \<Longrightarrow> p \<le> q \<and> (\<forall>k \<in> set ks. 0 < tc_size k \<and> p \<le> tc_offset k \<and> tc_offset k + tc_size k \<le> q)"
  by (induction ks arbitrary: p) fastforce+

lemma tiles_sorted: "tiles p ks q \<Longrightarrow> sorted (map tc_offset ks)"
  by (induction ks arbitrary: p) (use tiles_bounds in fastforce)+

lemma tiles_sort: "tiles p ks q \<Longrightarrow> sort_key tc_offset ks = ks"
  by (rule sort_key_id_if_sorted) (rule tiles_sorted)

lemma tiles_length: "tiles p ks q \<Longrightarrow> \<forall>k \<in> set ks. has_bytes ob k \<Longrightarrow> int (length (tus_bytes ob ks)) = q - p"
  by (induction ks arbitrary: p) (auto simp: tus_bytes_def has_bytes_def chunk_bytes_def split: option.splits)

lemma tus_bytes_append [simp]: "tus_bytes ob (ks @ ls) = tus_bytes ob ks @ tus_bytes ob ls"
  "tus_bytes ob [] = []" "tus_bytes ob [k] = chunk_bytes ob k"
  by (simp_all add: tus_bytes_def)

lemma tus_bytes_cong: "(\<And>k. k \<in> set ks \<Longrightarrow> ob' (tc_key k) = ob (tc_key k)) \<Longrightarrow> tus_bytes ob' ks = tus_bytes ob ks"
  unfolding tus_bytes_def by (rule arg_cong [where f = concat]) (simp add: chunk_bytes_def)

lemma tus_state_upload:
  assumes "tus_state d ob" "tus_of i d = Some u"
  shows "tiles 0 (tus_chunks i d) (tu_offset u)" "\<forall>k \<in> set (tus_chunks i d). has_bytes ob k"
    "int (length (tus_bytes ob (tus_chunks i d))) = tu_offset u" "0 \<le> tu_offset u" "tu_offset u < 2 ^ 63"
proof -
  note u = tus_of_Some [OF assms(2)]
  show t: "tiles 0 (tus_chunks i d) (tu_offset u)" "tu_offset u < 2 ^ 63" using assms(1) u by (auto simp: tus_state_def)
  show h: "\<forall>k \<in> set (tus_chunks i d). has_bytes ob k" using assms(1) by (simp add: tus_state_def set_tus_chunks)
  show "int (length (tus_bytes ob (tus_chunks i d))) = tu_offset u" using tiles_length [OF t(1) h] by simp
  show "0 \<le> tu_offset u" using tiles_bounds [OF t(1)] by simp
qed

text \<open>The invariant only looks at the objects of chunk rows.\<close>

definition tus_keys :: "dbstate \<Rightarrow> string set" where
  "tus_keys d = tc_key ` set (t_tus_chunks d)"

lemma tus_state_objects:
  assumes "\<And>k. k \<in> tus_keys d \<Longrightarrow> ob' k = ob k"
  shows "tus_state d ob' = tus_state d ob" "uploads_of d ob' = uploads_of d ob"
proof -
  have e: "ob' (tc_key k) = ob (tc_key k)" if "k \<in> set (t_tus_chunks d)" for k
    using assms that by (simp add: tus_keys_def)
  then have "has_bytes ob' k = has_bytes ob k" if "k \<in> set (t_tus_chunks d)" for k using that by (simp add: has_bytes_def)
  then show "tus_state d ob' = tus_state d ob" by (simp add: tus_state_def cong: ball_cong)
  show "uploads_of d ob' = uploads_of d ob"
    by (rule ext) (auto simp: uploads_of_def set_tus_chunks e intro!: tus_bytes_cong arg_cong2 [where f = map_option])
qed

lemma tus_state_tables:
  "t_tus d' = t_tus d \<Longrightarrow> t_tus_chunks d' = t_tus_chunks d \<Longrightarrow> tus_state d' ob = tus_state d ob"
  "t_tus d' = t_tus d \<Longrightarrow> t_tus_chunks d' = t_tus_chunks d \<Longrightarrow> uploads_of d' ob = uploads_of d ob"
  "t_tus_chunks d' = t_tus_chunks d \<Longrightarrow> tus_keys d' = tus_keys d"
  by (auto simp: tus_state_def uploads_of_def tus_of_def tus_chunks_def tus_keys_def)

section \<open>Appending a chunk\<close>

definition recorded :: "string \<Rightarrow> int \<Rightarrow> int \<Rightarrow> string \<Rightarrow> int \<Rightarrow> dbstate \<Rightarrow> dbstate" where
  "recorded i old new key e d =
     d\<lparr>t_tus := update_where (\<lambda>u. tu_id u = i \<and> tu_offset u = old) (\<lambda>u. u\<lparr>tu_offset := new, tu_expires := e\<rparr>) (t_tus d),
       t_tus_chunks := t_tus_chunks d @ [\<lparr>tc_upload = i, tc_offset = old, tc_size = i64 (new - old), tc_key = key\<rparr>]\<rparr>"

lemma recorded_simps [simp]:
  "tus_of j (recorded i old new key e d) =
     map_option (\<lambda>u. if j = i \<and> tu_offset u = old then u\<lparr>tu_offset := new, tu_expires := e\<rparr> else u) (tus_of j d)"
  "tus_chunks j (recorded i old new key e d) =
     tus_chunks j d @ (if j = i then [\<lparr>tc_upload = i, tc_offset = old, tc_size = i64 (new - old), tc_key = key\<rparr>] else [])"
  "t_tus_chunks (recorded i old new key e d) =
     t_tus_chunks d @ [\<lparr>tc_upload = i, tc_offset = old, tc_size = i64 (new - old), tc_key = key\<rparr>]"
  "map tu_id (t_tus (recorded i old new key e d)) = map tu_id (t_tus d)"
proof -
  show "tus_of j (recorded i old new key e d) =
     map_option (\<lambda>u. if j = i \<and> tu_offset u = old then u\<lparr>tu_offset := new, tu_expires := e\<rparr> else u) (tus_of j d)"
  proof (cases "j = i")
    case True
    then show ?thesis
      using find_update_row [of tu_id "\<lambda>u. u\<lparr>tu_offset := new, tu_expires := e\<rparr>" i "\<lambda>u. tu_offset u = old" "t_tus d"]
      by (simp add: tus_of_def recorded_def)
  next
    case False
    then have "find (\<lambda>u. tu_id u = j) (update_where (\<lambda>u. tu_id u = i \<and> tu_offset u = old)
        (\<lambda>u. u\<lparr>tu_offset := new, tu_expires := e\<rparr>) rows) = find (\<lambda>u. tu_id u = j) rows" for rows
      by (induction rows) (auto simp: update_where_def)
    then show ?thesis using False by (simp add: tus_of_def recorded_def option.map_ident)
  qed
qed (simp_all add: recorded_def tus_chunks_def map_update_where)

lemma recorded_state:
  fixes e :: int
  assumes inv: "tus_state d ob" and u: "tus_of i d = Some u" "tu_offset u = old"
    and b: "ob key = Some data" "data \<noteq> []" "key \<notin> tus_keys d" "old + int (length data) < 2 ^ 63"
  defines "d' \<equiv> recorded i old (old + int (length data)) key e d"
  shows "tus_state d' ob"
    and "uploads_of d' ob = (uploads_of d ob)(i \<mapsto> (tu_pubkey u, tu_size u, tus_bytes ob (tus_chunks i d) @ data))"
proof -
  let ?new = "old + int (length data)" and ?k = "\<lparr>tc_upload = i, tc_offset = old, tc_size = int (length data), tc_key = key\<rparr>"
  have sz: "i64 (?new - old) = int (length data)"
    using b(4) tus_state_upload(4) [OF inv u(1)] u(2) by (simp add: in_i64_def)
  have ids: "map tu_id (t_tus d') = map tu_id (t_tus d)" by (simp add: d'_def)
  have til: "tiles 0 (tus_chunks (tu_id v) d') (tu_offset v) \<and> tu_offset v < 2 ^ 63" if v: "v \<in> set (t_tus d')" for v
  proof -
    have "distinct (map tu_id (t_tus d'))" using inv unfolding ids by (simp add: tus_state_def)
    then have "tus_of (tu_id v) d' = Some v" by (rule tus_of_unique [OF _ v])
    then obtain v0 where v0: "tus_of (tu_id v) d = Some v0"
      "v = (if tu_id v = i \<and> tu_offset v0 = old then v0\<lparr>tu_offset := ?new, tu_expires := e\<rparr> else v0)"
      by (auto simp: d'_def)
    note t = tus_state_upload [OF inv v0(1)]
    show ?thesis
    proof (cases "tu_id v = i")
      case True
      then have "v0 = u" using v0(1) u(1) by simp
      then have "v = u\<lparr>tu_offset := ?new, tu_expires := e\<rparr>" using v0(2) True u(2) by simp
      then show ?thesis using t(1) True b \<open>v0 = u\<close> u(2) sz by (simp add: d'_def tiles_append)
    next
      case False
      then show ?thesis using v0(2) t(1,5) by (simp add: d'_def)
    qed
  qed
  have i: "i \<in> tu_id ` set (t_tus d)" using tus_of_Some [OF u(1)] by auto
  have "tu_id ` set (t_tus d') = tu_id ` set (t_tus d)" using arg_cong [OF ids, of set] by simp
  then show "tus_state d' ob"
    using inv b i til sz unfolding tus_state_def ids by (simp add: d'_def has_bytes_def tus_keys_def)
  show "uploads_of d' ob = (uploads_of d ob)(i \<mapsto> (tu_pubkey u, tu_size u, tus_bytes ob (tus_chunks i d) @ data))"
    by (rule ext) (auto simp: uploads_of_def d'_def u b chunk_bytes_def option.map_comp comp_def)
qed

lemma recordChunk_spec:
  assumes "tus_inv w" "w_saved w = None"
  shows "wp (recordChunk i old new key) (\<lambda>r w'. w_saved w' = None \<and> same_env w w' \<and> w_objects w' = w_objects w \<and>
    (case r of
       Inl _ \<Rightarrow> w_db w' = w_db w
     | Inr _ \<Rightarrow> (\<exists>u. tus_of i (w_db w) = Some u \<and> tu_offset u = old)
         \<and> (\<exists>e. w_db w' = recorded i old new key e (w_db w)))) w"
proof -
  let ?d = "w_db w"
  let ?Q = "\<lambda>r d'. case r of Inl _ \<Rightarrow> d' = ?d | Inr (_ :: unit) \<Rightarrow> (\<exists>u. tus_of i ?d = Some u \<and> tu_offset u = old)
         \<and> (\<exists>e. d' = recorded i old new key e ?d)"
  have match: "\<exists>u. tus_of i ?d = Some u \<and> tu_offset u = old"
    if "length (filter (\<lambda>u. tu_id u = i \<and> tu_offset u = old) (t_tus ?d)) \<noteq> 0"
  proof -
    have "\<exists>u \<in> set (t_tus ?d). tu_id u = i \<and> tu_offset u = old" using that by (simp add: filter_empty_conv)
    then obtain u where u: "u \<in> set (t_tus ?d)" "tu_id u = i" "tu_offset u = old" by blast
    then have "tus_of i ?d = Some u" using assms(1) tus_of_unique [of ?d u] by (simp add: tus_state_def)
    then show ?thesis using u by blast
  qed
  show ?thesis
    unfolding recordChunk_def
  proof (rule wp_with_tx [OF assms(2)], simp, intro txp_rule, goal_cases)
    case 4
    then show ?case by (auto simp: q_CreateTusUploadChunk_def split: if_splits)
  next
    case 5
    then show ?case by (auto simp: q_AdvanceTusUploadOffset_def)
  qed (use match in \<open>auto simp: q_AdvanceTusUploadOffset_def q_CreateTusUploadChunk_def recorded_def split: if_splits sum.splits\<close>)
qed

lemma keeps_rng [keeps_rule]:
  "keeps (\<lambda>w. w_rng w = n) tick" "keeps (\<lambda>w. w_rng w = n) now" "keeps (\<lambda>w. w_rng w = n) (exec_sql f)"
  "keeps (\<lambda>w. w_rng w = n) begin_tx" "keeps (\<lambda>w. w_rng w = n) commit_tx" "keeps (\<lambda>w. w_rng w = n) rollback_tx"
  "keeps (\<lambda>w. w_rng w = n) (st_Put h data)" "keeps (\<lambda>w. w_rng w = n) (st_Get h)" "keeps (\<lambda>w. w_rng w = n) (st_Delete h)"
  by (auto intro!: keepsI wp_intro wp_tick simp: wp_simp)

lemma keeps_store [keeps_rule]:
  shows "keeps (\<lambda>w. w_rng w = n) (recordChunk i old new key)" "keeps quiet (recordChunk i old new key)"
    "keeps (\<lambda>w. w_rng w = n) (removeObjects ks)" "keeps quiet (removeObjects ks)"
proof -
  show "keeps (\<lambda>w. w_rng w = n) (removeObjects ks)" "keeps quiet (removeObjects ks)"
    by (induction ks) (auto intro!: keeps_rule)
qed (unfold recordChunk_def with_tx_def; intro keeps_rule)+

lemma removeObjects_spec:
  "wp (removeObjects ks) (\<lambda>_ w'. w_db w' = w_db w \<and> w_saved w' = w_saved w \<and> same_env w w' \<and> w_rng w' = w_rng w
     \<and> (\<forall>k. k \<notin> set ks \<longrightarrow> w_objects w' k = w_objects w k) \<and> (quiet w \<longrightarrow> (\<forall>k \<in> set ks. w_objects w' k = None))) w"
proof (induction ks arbitrary: w)
  case (Cons k ks)
  have "wp (st_Delete k) (\<lambda>_ w'. w_db w' = w_db w \<and> w_saved w' = w_saved w \<and> same_env w w' \<and> w_rng w' = w_rng w
      \<and> (\<forall>j. j \<noteq> k \<longrightarrow> w_objects w' j = w_objects w j) \<and> (quiet w \<longrightarrow> w_objects w' k = None)) w"
    by (cases "quiet w") (auto simp: quiet_def no_fault same_env_def intro!: wp_intro)
  note d = quiet_imp [OF keeps_quiet(9) this]
  show ?case
    unfolding removeObjects.simps wp_bind
  proof (rule wp_mono [OF d], elim conjE)
    fix x w1
    assume w1: "quiet w \<longrightarrow> quiet w1" "w_db w1 = w_db w" "w_saved w1 = w_saved w" "same_env w w1" "w_rng w1 = w_rng w"
      "\<forall>j. j \<noteq> k \<longrightarrow> w_objects w1 j = w_objects w j" "quiet w \<longrightarrow> w_objects w1 k = None"
    have env: "same_env w1 w2 \<Longrightarrow> same_env w w2" for w2 by (rule same_env_trans [OF w1(4)])
    show "wp (removeObjects ks) (\<lambda>_ w'. w_db w' = w_db w \<and> w_saved w' = w_saved w \<and> same_env w w' \<and> w_rng w' = w_rng w
      \<and> (\<forall>j. j \<notin> set (k # ks) \<longrightarrow> w_objects w' j = w_objects w j)
      \<and> (quiet w \<longrightarrow> (\<forall>j \<in> set (k # ks). w_objects w' j = None))) w1"
    proof (rule wp_mono [OF Cons.IH], elim conjE, intro conjI impI allI)
      fix w2 assume w2: "\<forall>k. k \<notin> set ks \<longrightarrow> w_objects w2 k = w_objects w1 k"
        "quiet w1 \<longrightarrow> (\<forall>k \<in> set ks. w_objects w2 k = None)"
      show "\<forall>j \<in> set (k # ks). w_objects w2 j = None" if "quiet w"
      proof
        fix j assume "j \<in> set (k # ks)"
        then show "w_objects w2 j = None" using w1 w2 that by (cases "j \<in> set ks") auto
      qed
    qed (use w1 env in auto)
  qed
qed (simp add: wp_ret)

text \<open>The operation an append implements, on the abstract view.\<close>

definition spec_append ::
  "string \<Rightarrow> int \<Rightarrow> bytes \<Rightarrow> (string \<Rightarrow> (string \<times> int \<times> bytes) option) \<Rightarrow> (string \<Rightarrow> (string \<times> int \<times> bytes) option) option" where
  "spec_append i old data U =
     (case U i of
        None \<Rightarrow> None
      | Some (pk, sz, bs) \<Rightarrow> if old = int (length bs) then Some (U(i \<mapsto> (pk, sz, bs @ data))) else None)"

lemma spec_append_recorded:
  assumes "tus_state d ob" "tus_of i d = Some u" "tu_offset u = old" "ob key = Some data" "data \<noteq> []" "key \<notin> tus_keys d"
    "old + int (length data) < 2 ^ 63"
  shows "spec_append i old data (uploads_of d ob) = Some (uploads_of (recorded i old (old + int (length data)) key e d) ob)"
  unfolding recorded_state(2) [OF assms] spec_append_def
  using tus_state_upload(3) [OF assms(1,2)] assms(2,3) by (simp add: uploads_of_def)

lemma spec_append_None:
  assumes "tus_state d ob" "spec_append i old data (uploads_of d ob) = None"
  shows "\<not> (\<exists>u. tus_of i d = Some u \<and> tu_offset u = old)"
proof
  assume "\<exists>u. tus_of i d = Some u \<and> tu_offset u = old"
  then obtain u where u: "tus_of i d = Some u" "tu_offset u = old" by blast
  then show False using assms(2) tus_state_upload(3) [OF assms(1) u(1)] by (simp add: spec_append_def uploads_of_def)
qed

text \<open>Without failures the record is written exactly when the offset still is the expected one.\<close>

lemma recordChunk_quiet:
  assumes "tus_inv w" "w_saved w = None" "quiet w" "tus_of i (w_db w) = Some u" "tu_offset u = old"
  shows "wp (recordChunk i old new key) (\<lambda>r _. r = Inr ()) w"
proof -
  let ?d = "w_db w"
  note u = tus_of_Some [OF assms(4)]
  then have "filter (\<lambda>v. tu_id v = i \<and> tu_offset v = old) (t_tus ?d) \<noteq> []" using assms(5) by (auto simp: filter_empty_conv)
  then have len: "length (filter (\<lambda>v. tu_id v = i \<and> tu_offset v = old) (t_tus ?d)) \<noteq> 0" by simp
  have t: "tiles 0 (tus_chunks i ?d) old" using tus_state_upload(1) [OF assms(1,4)] assms(5) by simp
  have "\<not> (\<exists>k \<in> set (t_tus_chunks ?d). tc_upload k = i \<and> tc_offset k = old)"
  proof
    assume "\<exists>k \<in> set (t_tus_chunks ?d). tc_upload k = i \<and> tc_offset k = old"
    then obtain k where k: "k \<in> set (tus_chunks i ?d)" "tc_offset k = old" by (auto simp: set_tus_chunks)
    then show False using tiles_bounds [OF t] by fastforce
  qed
  then show ?thesis
    using assms(3) len unfolding recordChunk_def with_tx_def
    by (simp add: wp_simp no_fault quiet_def q_AdvanceTusUploadOffset_def q_CreateTusUploadChunk_def)
qed

lemma keeps_finish [keeps_rule]:
  "keeps (\<lambda>w. w_rng w = n) (finish_chunk i old data key)" "keeps quiet (finish_chunk i old data key)"
  unfolding finish_chunk_def Let_def by (intro keeps_rule)+

lemma finish_chunk_spec:
  assumes inv: "tus_inv w" "w_saved w = None"
    and key: "w_objects w key = Some data" "data \<noteq> []" "key \<notin> tus_keys (w_db w)"
    and len: "0 \<le> old" "old + int (length data) < 2 ^ 63"
  shows "wp (finish_chunk i old data key) (\<lambda>r w'. w_saved w' = None \<and> same_env w w' \<and> tus_inv w'
    \<and> (\<forall>k. k \<noteq> key \<longrightarrow> w_objects w' k = w_objects w k) \<and> tus_keys (w_db w') \<subseteq> insert key (tus_keys (w_db w))
    \<and> (case r of
         Inl _ \<Rightarrow> w_db w' = w_db w \<and> uploads w' = uploads w
           \<and> (quiet w \<longrightarrow> spec_append i old data (uploads w) = None \<and> w_objects w' key = None)
       | Inr n \<Rightarrow> n = old + int (length data) \<and> w_objects w' = w_objects w \<and> key \<in> tus_keys (w_db w')
           \<and> spec_append i old data (uploads w) = Some (uploads w'))) w" (is "wp _ ?Q w")
proof -
  let ?new = "old + int (length data)"
  have new: "i64 ?new = ?new" using len by (simp add: in_i64_def)
  have ok: "?Q (Inr ?new) w1"
    if w1: "w_saved w1 = None" "same_env w w1" "w_objects w1 = w_objects w" "tus_of i (w_db w) = Some u" "tu_offset u = old"
      "w_db w1 = recorded i old ?new key e (w_db w)" for w1 u e
  proof -
    note s = recorded_state(1) [OF inv(1) w1(4,5) key len(2), of e] spec_append_recorded [OF inv(1) w1(4,5) key len(2), of e]
    show ?thesis using w1 s by (auto simp: tus_keys_def)
  qed
  have err: "wp (removeObjects [key]) (\<lambda>_. wp (ret (Inl e)) ?Q) w1"
    if w1: "w_saved w1 = None" "same_env w w1" "w_objects w1 = w_objects w" "w_db w1 = w_db w"
      "quiet w \<longrightarrow> quiet w1 \<and> spec_append i old data (uploads w) = None" for w1 e
    unfolding wp_ret
  proof (rule wp_mono [OF removeObjects_spec], elim conjE)
    fix w2 assume w2: "w_db w2 = w_db w1" "w_saved w2 = w_saved w1" "same_env w1 w2"
      "\<forall>k. k \<notin> set [key] \<longrightarrow> w_objects w2 k = w_objects w1 k" "quiet w1 \<longrightarrow> (\<forall>k \<in> set [key]. w_objects w2 k = None)"
    then have ob: "\<And>k. k \<in> tus_keys (w_db w) \<Longrightarrow> w_objects w2 k = w_objects w k" using key(3) w1(3) by auto
    show "?Q (Inl e) w2"
      using w1 w2 inv(1) tus_state_objects [OF ob] same_env_trans [OF w1(2) w2(3)] by auto
  qed
  have spec: "spec_append i old data (uploads w) = None"
    if r: "wp (recordChunk i old ?new key) (\<lambda>r _. r = Inl e) w" "quiet w" for e
  proof (rule ccontr)
    assume "spec_append i old data (uploads w) \<noteq> None"
    then obtain u where u: "tus_of i (w_db w) = Some u" "tu_offset u = old"
      using tus_state_upload(3) [OF inv(1)]
      by (auto simp: spec_append_def uploads_of_def split: option.splits prod.splits if_splits)
    show False using wp_conj [OF r(1) recordChunk_quiet [OF inv r(2) u]] by (auto simp: wp_def split: prod.splits)
  qed
  show ?thesis
    unfolding finish_chunk_def Let_def new wp_bind
  proof (rule wpI, goal_cases)
    case (1 r w1)
    have s: "w_saved w1 = None \<and> same_env w w1 \<and> w_objects w1 = w_objects w \<and>
      (case r of Inl _ \<Rightarrow> w_db w1 = w_db w
       | Inr _ \<Rightarrow> (\<exists>u. tus_of i (w_db w) = Some u \<and> tu_offset u = old)
           \<and> (\<exists>e. w_db w1 = recorded i old ?new key e (w_db w)))"
      by (rule wp_run [OF recordChunk_spec [OF inv] 1])
    have q: "quiet w \<longrightarrow> quiet w1" using keeps_run [OF keeps_store(2)] 1 by (metis snd_conv)
    show ?case
    proof (cases r)
      case (Inl e)
      have "spec_append i old data (uploads w) = None" if "quiet w"
        by (rule spec [OF _ that]) (simp add: wp_def 1 Inl)
      then show ?thesis using s q Inl err [of w1 e] by (simp add: wp_simp)
    next
      case (Inr x)
      from s obtain u e where "tus_of i (w_db w) = Some u" "tu_offset u = old" "w_db w1 = recorded i old ?new key e (w_db w)"
        unfolding Inr sum.case by blast
      with s have "?Q (Inr ?new) w1" by (intro ok) simp_all
      then show ?thesis unfolding Inr sum.case wp_ret .
    qed
  qed
qed

text \<open>
  The store as its callers see it. The invariant adds that no key drawn in the future names a chunk that exists: the
  random suffix of a key does not repeat.
\<close>

definition no_repeats :: "tus_store \<Rightarrow> bool" where
  "no_repeats c \<longleftrightarrow> (\<forall>i j o1 o2 n m. ts_key c i o1 n = ts_key c j o2 m \<longrightarrow> n = m)"

definition store_ok :: "tus_store \<Rightarrow> world \<Rightarrow> bool" where
  "store_ok c w \<longleftrightarrow> tus_inv w \<and> w_saved w = None \<and> (\<forall>i old n. w_rng w \<le> n \<longrightarrow> ts_key c i old n \<notin> tus_keys (w_db w))"

lemma put_chunk_spec:
  "wp (put_chunk c i old data) (\<lambda>r w'. w_db w' = w_db w \<and> w_saved w' = w_saved w \<and> same_env w w' \<and> (quiet w \<longrightarrow> quiet w')
     \<and> (w_rng w' = w_rng w \<and> w_objects w' = w_objects w \<and> isl r
        \<or> w_rng w' = Suc (w_rng w) \<and> w_objects w' = w_objects w \<and> isl r
        \<or> w_rng w' = Suc (w_rng w) \<and> r = Inr (ts_key c i old (w_rng w))
          \<and> w_objects w' = (w_objects w)(ts_key c i old (w_rng w) \<mapsto> data)) \<and> (quiet w \<longrightarrow> \<not> isl r)) w"
proof (cases "quiet w")
  case True
  then show ?thesis
    by (simp add: put_chunk_def tusChunkKey_def wp_simp no_fault quiet_def same_env_def)
next
  case False
  then show ?thesis
    unfolding put_chunk_def tusChunkKey_def wp_simp
    by (intro wp_tick) (auto simp: wp_simp same_env_def intro!: wp_Put)
qed

lemma AppendChunk_spec:
  assumes c: "no_repeats c" "store_ok c w" and data: "data \<noteq> []" "0 \<le> old" "old + int (length data) < 2 ^ 63"
  shows "wp (AppendChunk c i old data) (\<lambda>r w'. store_ok c w' \<and> same_env w w'
    \<and> (case r of
         Inl _ \<Rightarrow> uploads w' = uploads w \<and> (quiet w \<longrightarrow> spec_append i old data (uploads w) = None)
       | Inr n \<Rightarrow> n = old + int (length data) \<and> spec_append i old data (uploads w) = Some (uploads w'))) w" (is "wp _ ?Q w")
proof -
  let ?key = "ts_key c i old (w_rng w)"
  have w: "tus_inv w" "w_saved w = None" "\<And>i old n. w_rng w \<le> n \<Longrightarrow> ts_key c i old n \<notin> tus_keys (w_db w)"
    using c(2) by (auto simp: store_ok_def)
  have fin: "wp (finish_chunk i old data ?key) ?Q w1"
    if w1: "w_db w1 = w_db w" "w_saved w1 = w_saved w" "same_env w w1" "quiet w \<longrightarrow> quiet w1" "w_rng w1 = Suc (w_rng w)"
      "w_objects w1 = (w_objects w)(?key \<mapsto> data)" for w1
  proof -
    have k: "?key \<notin> tus_keys (w_db w)" using w(3) [OF order_refl] .
    then have ob: "\<And>k. k \<in> tus_keys (w_db w) \<Longrightarrow> w_objects w1 k = w_objects w k" using w1(6) by auto
    have same: "tus_inv w1 = tus_inv w" "uploads w1 = uploads w"
      using tus_state_objects [of "w_db w" "w_objects w1" "w_objects w"] ob w1(1) by simp_all
    have pre: "tus_inv w1" "w_saved w1 = None" "w_objects w1 ?key = Some data" "?key \<notin> tus_keys (w_db w1)"
      using w same(1) k w1(1,2,6) by simp_all
    have k': "?key \<notin> tus_keys (w_db w)" by (rule k)
    show ?thesis
    proof (rule wp_mono [OF wp_conj [OF keepsD [OF keeps_finish(1) w1(5)]
            finish_chunk_spec [OF pre(1-3) data(1) pre(4) data(2,3)]]], elim conjE)
      fix r :: "int result" and w2
      assume w2: "w_rng w2 = Suc (w_rng w)" "w_saved w2 = None" "same_env w1 w2" "tus_inv w2"
        "tus_keys (w_db w2) \<subseteq> insert ?key (tus_keys (w_db w1))"
        and r: "case r of
         Inl _ \<Rightarrow> w_db w2 = w_db w1 \<and> uploads w2 = uploads w1
           \<and> (quiet w1 \<longrightarrow> spec_append i old data (uploads w1) = None \<and> w_objects w2 ?key = None)
       | Inr n \<Rightarrow> n = old + int (length data) \<and> w_objects w2 = w_objects w1 \<and> ?key \<in> tus_keys (w_db w2)
           \<and> spec_append i old data (uploads w1) = Some (uploads w2)"
      have "ts_key c j o' n \<noteq> ?key" if "Suc (w_rng w) \<le> n" for j o' n
        using c(1) that by (force simp: no_repeats_def)
      then have "store_ok c w2" using w2 w(3) w1(1) by (auto simp: store_ok_def)
      then show "?Q r w2"
        using r w1 same(2) same_env_trans [OF w1(3) w2(3)] by (auto split: sum.splits)
    qed
  qed
  have err: "?Q (Inl e) w1"
    if w1: "w_db w1 = w_db w" "w_saved w1 = w_saved w" "same_env w w1" "w_rng w \<le> w_rng w1" "w_objects w1 = w_objects w"
      "\<not> quiet w" for w1 and e :: goerr
    using w1 w by (auto simp: store_ok_def)
  show ?thesis
    unfolding AppendChunk_def if_not_P [OF data(1)] wp_and_then
  proof (rule wp_mono [OF put_chunk_spec], elim conjE)
    fix r :: "string result" and w1
    assume w1: "w_db w1 = w_db w" "w_saved w1 = w_saved w" "same_env w w1" "quiet w \<longrightarrow> quiet w1" "quiet w \<longrightarrow> \<not> isl r"
      and r: "w_rng w1 = w_rng w \<and> w_objects w1 = w_objects w \<and> isl r
        \<or> w_rng w1 = Suc (w_rng w) \<and> w_objects w1 = w_objects w \<and> isl r
        \<or> w_rng w1 = Suc (w_rng w) \<and> r = Inr ?key \<and> w_objects w1 = (w_objects w)(?key \<mapsto> data)"
    show "(case r of Inl e \<Rightarrow> ?Q (Inl e) | Inr key \<Rightarrow> wp (finish_chunk i old data key) ?Q) w1"
    proof (cases r)
      case (Inl e)
      then have "?Q (Inl e) w1" by (intro err) (use w1 r in auto)
      then show ?thesis using Inl by simp
    next
      case (Inr k)
      then show ?thesis using r fin [OF w1(1-4)] by simp
    qed
  qed
qed

section \<open>Reading back\<close>

lemma tus_readChunk_spec:
  assumes "has_bytes (w_objects w) k"
  shows "wp (tus_readChunk k) (\<lambda>r w'. looks w w' \<and> (quiet w \<longrightarrow> quiet w' \<and> \<not> isl r)
    \<and> (\<forall>b. r = Inr b \<longrightarrow> b = chunk_bytes (w_objects w) k)) w"
proof (cases "quiet w")
  case True
  then show ?thesis
    using assms by (auto simp: tus_readChunk_def wp_simp no_fault quiet_def has_bytes_def chunk_bytes_def)
next
  case False
  then show ?thesis
    using assms unfolding tus_readChunk_def wp_simp
    by (intro wp_Get) (auto simp: wp_simp has_bytes_def chunk_bytes_def)
qed

lemma keeps_quiet_read [keeps_rule]: "keeps quiet (read_rows start ks p buf)" "keeps quiet (tus_readChunk k)"
proof -
  have r: "keeps quiet (tus_readChunk k)" for k unfolding tus_readChunk_def by (intro keeps_rule)
  then show "keeps quiet (tus_readChunk k)" .
  show "keeps quiet (read_rows start ks p buf)"
    by (induction ks arbitrary: p buf) (auto simp: Let_def intro!: keeps_rule r)
qed

lemma drop_past: "int (length xs) \<le> m \<Longrightarrow> drop (nat m) (xs @ ys) = drop (nat (m - int (length xs))) ys"
  by (simp add: nat_diff_distrib)

lemma read_rows_spec:
  assumes "tiles p ks q" "\<forall>k \<in> set ks. has_bytes (w_objects w) k" "0 \<le> p" "q < 2 ^ 63" "0 \<le> start" "start < 2 ^ 63"
  shows "wp (read_rows start ks p buf) (\<lambda>r w'. looks w w'
    \<and> (\<forall>b. r = Inr b \<longrightarrow> start \<le> q \<and> b = buf @ drop (nat (start - p)) (tus_bytes (w_objects w) ks))
    \<and> (quiet w \<longrightarrow> quiet w' \<and> isl r = (q < start))) w"
  using assms
proof (induction ks arbitrary: p buf w)
  case Nil
  then show ?case by (auto simp: wp_simp)
next
  case (Cons k ks)
  let ?p = "p + tc_size k" and ?b = "chunk_bytes (w_objects w) k"
  have t: "tc_offset k = p" "0 < tc_size k" "tiles ?p ks q" using Cons.prems(1) by simp_all
  have q: "?p \<le> q" using tiles_bounds [OF t(3)] by simp
  then have p: "i64 ?p = ?p" "0 \<le> ?p" "\<not> tc_offset k \<noteq> p" using Cons.prems t by (simp_all add: in_i64_def)
  have sk: "i64 (start - p) = start - p" using Cons.prems q t by (simp add: in_i64_def)
  have k: "has_bytes (w_objects w) k" "\<forall>k \<in> set ks. has_bytes (w_objects w) k" using Cons.prems(2) by simp_all
  then have len: "int (length ?b) = tc_size k" by (auto simp: has_bytes_def chunk_bytes_def)
  have bytes: "tus_bytes (w_objects w) (k # ks) = ?b @ tus_bytes (w_objects w) ks" by (simp add: tus_bytes_def)
  show ?case
  proof (cases "?p \<le> start")
    case True
    have "drop (nat (start - p)) (tus_bytes (w_objects w) (k # ks)) = drop (nat (start - ?p)) (tus_bytes (w_objects w) ks)"
      unfolding bytes using drop_past [of ?b "start - p"] True len by (simp add: algebra_simps)
    then show ?thesis
      using Cons.IH [OF t(3) k(2) p(2) Cons.prems(4-6), of buf] True p t(1) by (simp add: Let_def)
  next
    case False
    let ?piece = "\<lambda>data. if 0 < start - p then drop (nat (start - p)) data else data"
    have d: "drop (nat (start - p)) (tus_bytes (w_objects w) (k # ks))
        = ?piece ?b @ drop (nat (start - ?p)) (tus_bytes (w_objects w) ks)"
      unfolding bytes using False len by (auto simp: nat_diff_distrib)
    have step: "read_rows start (k # ks) p buf = State_Monad.bind (tus_readChunk k)
        (\<lambda>r. case r of Inl e \<Rightarrow> ret (Inl e) | Inr data \<Rightarrow> read_rows start ks ?p (buf @ ?piece data))"
      using False p t(1) sk by (simp add: Let_def)
    show ?thesis
      unfolding step wp_bind
    proof (rule wp_mono [OF tus_readChunk_spec [OF k(1)]], elim conjE)
      fix r :: "bytes result" and w1
      assume w1: "looks w w1" "quiet w \<longrightarrow> quiet w1 \<and> \<not> isl r" and r: "\<forall>b. r = Inr b \<longrightarrow> b = ?b"
      have ob: "w_objects w1 = w_objects w" using looks_simps [OF w1(1)] by simp
      show "wp (case r of Inl e \<Rightarrow> ret (Inl e) | Inr data \<Rightarrow> read_rows start ks ?p (buf @ ?piece data))
        (\<lambda>r w'. looks w w'
          \<and> (\<forall>b. r = Inr b \<longrightarrow> start \<le> q \<and> b = buf @ drop (nat (start - p)) (tus_bytes (w_objects w) (k # ks)))
          \<and> (quiet w \<longrightarrow> quiet w' \<and> isl r = (q < start))) w1"
      proof (cases r)
        case (Inl e)
        then show ?thesis using w1 by (simp add: wp_ret)
      next
        case (Inr b)
        then have b: "b = ?b" using r by simp
        show ?thesis
          unfolding Inr sum.case b
          by (rule wp_mono [OF Cons.IH [OF t(3) _ p(2) Cons.prems(4-6)]])
            (use k(2) ob w1 d in \<open>auto intro: looks_trans\<close>)
      qed
    qed
  qed
qed

text \<open>Reading an upload from an offset returns exactly the bytes received from there on; without failures it succeeds
  unless the offset lies past the end.\<close>

lemma ReadFrom_spec:
  assumes "tus_inv w" "tus_of i (w_db w) = Some u" "0 \<le> start" "start < 2 ^ 63"
  shows "wp (ReadFrom i start) (\<lambda>r w'. looks w w'
    \<and> (\<forall>b. r = Inr b \<longrightarrow> start \<le> tu_offset u \<and> b = drop (nat start) (tus_bytes (w_objects w) (tus_chunks i (w_db w))))
    \<and> (quiet w \<longrightarrow> quiet w' \<and> isl r = (tu_offset u < start))) w"
proof -
  note u = tus_state_upload [OF assms(1,2)]
  show ?thesis
    unfolding ReadFrom_def wp_and_then
  proof (rule wp_exec_either)
    show "q_GetTusUploadChunks i (w_db w) = (Inr (tus_chunks i (w_db w)), w_db w)"
      by (simp add: q_GetTusUploadChunks_def tiles_sort [OF u(1)])
  next
    fix fs :: "bool list" assume fs: "quiet w \<Longrightarrow> fs = []"
    have l: "looks w (w\<lparr>w_faults := fs\<rparr>)" by simp
    have "wp (read_rows start (tus_chunks i (w_db w)) 0 []) (\<lambda>r w'. looks w w'
    \<and> (\<forall>b. r = Inr b \<longrightarrow> start \<le> tu_offset u \<and> b = drop (nat start) (tus_bytes (w_objects w) (tus_chunks i (w_db w))))
    \<and> (quiet w \<longrightarrow> quiet w' \<and> isl r = (tu_offset u < start))) (w\<lparr>w_faults := fs\<rparr>)"
      by (rule wp_mono [OF read_rows_spec [OF u(1) _ _ u(5) assms(3,4)]])
        (use u(2) fs looks_trans [OF l] in \<open>auto simp: quiet_def\<close>)
    then show "(case Inr (tus_chunks i (w_db w)) of Inl e \<Rightarrow> (\<lambda>w'. looks w w'
          \<and> (\<forall>b. Inl e = Inr b \<longrightarrow> start \<le> tu_offset u \<and> b = drop (nat start) (tus_bytes (w_objects w) (tus_chunks i (w_db w))))
          \<and> (quiet w \<longrightarrow> quiet w' \<and> isl (Inl e :: bytes result) = (tu_offset u < start)))
        | Inr ks \<Rightarrow> wp (read_rows start ks 0 []) (\<lambda>r w'. looks w w'
          \<and> (\<forall>b. r = Inr b \<longrightarrow> start \<le> tu_offset u \<and> b = drop (nat start) (tus_bytes (w_objects w) (tus_chunks i (w_db w))))
          \<and> (quiet w \<longrightarrow> quiet w' \<and> isl r = (tu_offset u < start)))) (w\<lparr>w_faults := fs, w_db := w_db w\<rparr>)"
      by simp
  qed simp
qed

section \<open>Resuming\<close>

text \<open>Attempts to append, at whatever offsets the client believes to be the next ones; the bytes of those accepted are
  collected.\<close>

fun attempts :: "(int \<Rightarrow> bytes \<Rightarrow> int result prog) \<Rightarrow> (int \<times> bytes) list \<Rightarrow> bytes \<Rightarrow> bytes prog" where
  "attempts app [] acc = ret acc"
| "attempts app ((old, data) # xs) acc = do {
     r \<leftarrow> app old data;
     attempts app xs (case r of Inl _ \<Rightarrow> acc | Inr _ \<Rightarrow> acc @ data)
   }"

definition sendable :: "(int \<times> bytes) list \<Rightarrow> bool" where
  "sendable xs \<longleftrightarrow> list_all (\<lambda>(old, data). data \<noteq> [] \<and> 0 \<le> old \<and> old + int (length data) < 2 ^ 63) xs"

text \<open>The contract between the store and the handlers: appending implements \<^const>\<open>spec_append\<close> or changes nothing, reading
  returns the bytes of the view.\<close>

locale resumable =
  fixes append :: "string \<Rightarrow> int \<Rightarrow> bytes \<Rightarrow> int result prog"
    and read :: "string \<Rightarrow> bytes result prog"
    and view :: "world \<Rightarrow> string \<Rightarrow> (string \<times> int \<times> bytes) option"
    and ok :: "world \<Rightarrow> bool"
  assumes append_law: "ok w \<Longrightarrow> data \<noteq> [] \<Longrightarrow> 0 \<le> old \<Longrightarrow> old + int (length data) < 2 ^ 63
      \<Longrightarrow> wp (append i old data) (\<lambda>r w'. ok w' \<and> (case r of
            Inl _ \<Rightarrow> view w' = view w | Inr _ \<Rightarrow> spec_append i old data (view w) = Some (view w'))) w"
    and read_law: "ok w \<Longrightarrow> view w i = Some (pk, sz, bs)
      \<Longrightarrow> wp (read i) (\<lambda>r w'. ok w' \<and> view w' = view w \<and> (\<forall>b. r = Inr b \<longrightarrow> b = bs)) w"
begin

lemma attempts_view:
  "ok w \<Longrightarrow> view w i = Some (pk, sz, bs) \<Longrightarrow> sendable xs
    \<Longrightarrow> wp (attempts (append i) xs bs) (\<lambda>acc w'. ok w' \<and> view w' i = Some (pk, sz, acc)) w"
proof (induction xs arbitrary: bs w)
  case Nil
  then show ?case by (simp add: wp_ret)
next
  case (Cons x xs)
  obtain old data where x: "x = (old, data)" by (cases x)
  then have s: "data \<noteq> []" "0 \<le> old" "old + int (length data) < 2 ^ 63" "sendable xs"
    using Cons.prems(3) by (simp_all add: sendable_def)
  show ?case
    unfolding x attempts.simps wp_bind
  proof (rule wp_mono [OF append_law [OF Cons.prems(1) s(1-3)]], elim conjE)
    fix r :: "int result" and w1
    assume w1: "ok w1" and r: "case r of Inl _ \<Rightarrow> view w1 = view w | Inr _ \<Rightarrow> spec_append i old data (view w) = Some (view w1)"
    have "view w1 i = Some (pk, sz, case r of Inl _ \<Rightarrow> bs | Inr _ \<Rightarrow> bs @ data)"
    proof (cases r)
      case (Inl e)
      then show ?thesis using r Cons.prems(2) by simp
    next
      case (Inr n)
      then have "spec_append i old data (view w) = Some (view w1)" using r by simp
      then have "view w1 = (view w)(i \<mapsto> (pk, sz, bs @ data))"
        using Cons.prems(2) by (simp add: spec_append_def split: if_splits)
      then show ?thesis using Inr by simp
    qed
    then show "wp (attempts (append i) xs (case r of Inl _ \<Rightarrow> bs | Inr _ \<Rightarrow> bs @ data))
        (\<lambda>acc w'. ok w' \<and> view w' i = Some (pk, sz, acc)) w1"
      by (rule Cons.IH [OF w1 _ s(4)])
  qed
qed

lemma attempts_read:
  assumes "ok w" "view w i = Some (pk, sz, bs)" "sendable xs"
  shows "wp (do { acc \<leftarrow> attempts (append i) xs bs; r \<leftarrow> read i; ret (acc, r) })
    (\<lambda>(acc, r) w'. ok w' \<and> view w' i = Some (pk, sz, acc) \<and> (\<forall>b. r = Inr b \<longrightarrow> b = acc)) w"
  unfolding wp_bind
proof (rule wp_mono [OF attempts_view [OF assms]], elim conjE)
  fix acc and w1 assume w1: "ok w1" "view w1 i = Some (pk, sz, acc)"
  show "wp (read i) (\<lambda>r. wp (ret (acc, r))
      (\<lambda>(acc, r) w'. ok w' \<and> view w' i = Some (pk, sz, acc) \<and> (\<forall>b. r = Inr b \<longrightarrow> b = acc))) w1"
    by (rule wp_mono [OF read_law [OF w1]]) (simp add: wp_ret w1(2))
qed

end

lemma store_ok_looks: "store_ok c w \<Longrightarrow> looks w w' \<Longrightarrow> store_ok c w' \<and> uploads w' = uploads w"
  by (auto simp: store_ok_def looks_def)

interpretation tus: resumable "AppendChunk c" ReadAll "\<lambda>w. uploads w" "\<lambda>w. no_repeats c \<and> store_ok c w" for c
proof (unfold_locales, goal_cases)
  case (1 w data old i)
  show ?case by (rule wp_mono [OF AppendChunk_spec]) (use 1 in \<open>auto split: sum.splits\<close>)
next
  case (2 w i pk sz bs)
  then have w: "tus_inv w" "store_ok c w" "no_repeats c" by (auto simp: store_ok_def)
  obtain u where u: "tus_of i (w_db w) = Some u" "bs = tus_bytes (w_objects w) (tus_chunks i (w_db w))"
    using 2(2) by (auto simp: uploads_of_def)
  show ?case
    unfolding ReadAll_def
  proof (rule wp_mono [OF ReadFrom_spec [OF w(1) u(1)]], simp, simp, elim conjE)
    fix r :: "bytes result" and w' assume l: "looks w w'"
      and r: "\<forall>b. r = Inr b \<longrightarrow> 0 \<le> tu_offset u \<and> b = drop (nat 0) (tus_bytes (w_objects w) (tus_chunks i (w_db w)))"
    show "(no_repeats c \<and> store_ok c w') \<and> uploads w' = uploads w \<and> (\<forall>b. r = Inr b \<longrightarrow> b = bs)"
      using store_ok_looks [OF w(2) l] w(3) r u(2) by simp
  qed
qed

section \<open>What the store guarantees\<close>

text \<open>C23. The store refines the abstract view of an upload as its bytes so far: whichever calls fail, an append either adds
  exactly its bytes at exactly the current end, or leaves every upload as it was; and without failures it is refused only
  where the abstract operation refuses it.
\<close>

theorem append_refines:
  assumes "no_repeats c" "store_ok c w" "data \<noteq> []" "0 \<le> old" "old + int (length data) < 2 ^ 63"
    and "run_state (AppendChunk c i old data) w = (r, w')"
  shows "store_ok c w' \<and> (case r of
      Inl _ \<Rightarrow> uploads w' = uploads w \<and> (quiet w \<longrightarrow> spec_append i old data (uploads w) = None)
    | Inr n \<Rightarrow> n = old + int (length data) \<and> spec_append i old data (uploads w) = Some (uploads w'))"
  using wp_run [OF AppendChunk_spec [OF assms(1-5)] assms(6)] by blast

definition example_store :: tus_store where
  "example_store = \<lparr>ts_key = (\<lambda>_ _ n. replicate n CHR ''k''), ts_encode = (\<lambda>_. []), ts_decode = (\<lambda>_. Some []), ts_batch = 2\<rparr>"

definition example_upload :: tus_row where
  "example_upload = \<lparr>tu_id = ''u'', tu_pubkey = ''alice'', tu_size = 3, tu_offset = 0, tu_metadata = [], tu_created = 0,
     tu_expires = 86400\<rparr>"

definition example_tus :: world where
  "example_tus = start_world (empty_db\<lparr>t_tus := [example_upload]\<rparr>)"

lemma example_store_ok: "no_repeats example_store" "store_ok example_store example_tus"
  by (auto simp: no_repeats_def example_store_def dest: arg_cong [where f = length])
    (simp add: store_ok_def tus_state_def example_tus_def start_world_def empty_db_def example_upload_def tus_chunks_def tus_keys_def)

lemma append_refines_witness:
  "uploads (snd (run_state (AppendChunk example_store ''u'' 0 [7]) example_tus)) ''u'' = Some (''alice'', 3, [7])"
proof -
  let ?run = "run_state (AppendChunk example_store ''u'' 0 [7]) example_tus"
  have r: "\<not> isl (fst ?run)" by code_simp
  have u: "uploads example_tus ''u'' = Some (''alice'', 3, [])" by code_simp
  show ?thesis
    using append_refines [OF example_store_ok _ _ _ run_pair, of "[7]" 0 "''u''"] r u
    by (cases "fst ?run") (auto simp: spec_append_def dest: sym)
qed

text \<open>C24. Whatever a client tries, wrong offsets, retries and failing calls included, what is read back in the end is the
  concatenation of the chunks that were accepted, in the order of their acceptance.
\<close>

theorem resumed_reads_accepted:
  assumes "no_repeats c" "store_ok c w" "uploads w i = Some (pk, sz, [])" "sendable xs"
    and "run_state (do { acc \<leftarrow> attempts (AppendChunk c i) xs []; r \<leftarrow> ReadAll i; ret (acc, r) }) w = ((acc, r), w')"
  shows "uploads w' i = Some (pk, sz, acc) \<and> (r = Inr acc \<or> isl r)"
proof -
  have "case (acc, r) of (acc, r) \<Rightarrow> (no_repeats c \<and> store_ok c w') \<and> uploads w' i = Some (pk, sz, acc) \<and> (\<forall>b. r = Inr b \<longrightarrow> b = acc)"
    using wp_run [OF tus.attempts_read [of c w i pk sz "[]" xs] assms(5)] assms(1-4) by simp
  then show ?thesis by (cases r) auto
qed

lemma resumed_reads_accepted_witness:
  "snd (fst (run_state (do { acc \<leftarrow> attempts (AppendChunk example_store ''u'') [(0, [7]), (0, [9]), (1, [8, 9])] [];
       r \<leftarrow> ReadAll ''u''; ret (acc, r) }) example_tus)) = Inr [7, 8, 9]"
proof -
  let ?run = "run_state (do { acc \<leftarrow> attempts (AppendChunk example_store ''u'') [(0, [7]), (0, [9]), (1, [8, 9])] [];
       r \<leftarrow> ReadAll ''u''; ret (acc, r) }) example_tus"
  have r: "\<not> isl (snd (fst ?run))" "fst (fst ?run) = [7, 8, 9]" by code_simp+
  have u: "uploads example_tus ''u'' = Some (''alice'', 3, [])" by code_simp
  have p: "?run = ((fst (fst ?run), snd (fst ?run)), snd ?run)" by simp
  show ?thesis using resumed_reads_accepted [OF example_store_ok u _ p] r by (auto simp: sendable_def)
qed

text \<open>Two requests have stored the bytes of a chunk for the same offset and now record them, one after the other: at most one
  is accepted; if the first one is, the upload grows by its bytes only, and its object stays while the other request
  removes nothing but its own. Without failures the first wins exactly when the offset is the current one, and then the
  loser's bytes are gone.
\<close>

theorem racing_appends:
  assumes "tus_inv w" "w_saved w = None"
    and "w_objects w k1 = Some d1" "w_objects w k2 = Some d2" "k1 \<noteq> k2" "k1 \<notin> tus_keys (w_db w)" "k2 \<notin> tus_keys (w_db w)"
    and "d1 \<noteq> []" "d2 \<noteq> []" "0 \<le> old" "old + int (length d1) < 2 ^ 63" "old + int (length d2) < 2 ^ 63"
    and "run_state (do { a \<leftarrow> finish_chunk i old d1 k1; b \<leftarrow> finish_chunk i old d2 k2; ret (a, b) }) w = ((r1, r2), w')"
  shows "(isl r1 \<or> isl r2)
    \<and> (\<not> isl r1 \<longrightarrow> spec_append i old d1 (uploads w) = Some (uploads w') \<and> w_objects w' k1 = Some d1)
    \<and> (quiet w \<and> spec_append i old d1 (uploads w) \<noteq> None \<longrightarrow> \<not> isl r1 \<and> w_objects w' k2 = None)"
proof -
  obtain w1 where run: "run_state (finish_chunk i old d1 k1) w = (r1, w1)" "run_state (finish_chunk i old d2 k2) w1 = (r2, w')"
    using assms(13) by (auto split: prod.splits)
  note s1 = wp_run [OF finish_chunk_spec [OF assms(1-3,8,6,10,11)] run(1)]
  have w1: "w_objects w1 k2 = Some d2" "k2 \<notin> tus_keys (w_db w1)" using s1 assms(4,5,7) by auto
  have w1': "tus_inv w1" "w_saved w1 = None" using s1 by simp_all
  note s2 = wp_run [OF finish_chunk_spec [OF w1' w1(1) assms(9) w1(2) assms(10,12)] run(2)]
  have q: "quiet w \<Longrightarrow> quiet w1" using keeps_run [OF keeps_finish(2), of w] run(1) by (metis snd_conv)
  show ?thesis
  proof (cases r1)
    case (Inl e)
    then show ?thesis using s1 by simp
  next
    case (Inr n)
    then have a: "spec_append i old d1 (uploads w) = Some (uploads w1)" "w_objects w1 = w_objects w" "k1 \<in> tus_keys (w_db w1)"
      using s1 by simp_all
    have grows: "\<exists>pk sz bs. U' = U(i \<mapsto> (pk, sz, bs @ d)) \<and> old = int (length bs)"
      if "spec_append i old d U = Some U'" for d U U'
      using that by (auto simp: spec_append_def simp del: fun_upd_apply split: option.splits if_splits) blast
    have "spec_append i old d2 (uploads w1) = None"
    proof (rule ccontr)
      assume "spec_append i old d2 (uploads w1) \<noteq> None"
      then obtain pk sz bs where b: "uploads w1 i = Some (pk, sz, bs)" "old = int (length bs)"
        by (auto simp: spec_append_def split: option.splits if_splits)
      obtain pk' sz' bs' where b': "uploads w1 = (uploads w)(i \<mapsto> (pk', sz', bs' @ d1))" "old = int (length bs')"
        using grows [OF a(1)] by blast
      then show False using b assms(8) by auto
    qed
    then obtain e where r2: "r2 = Inl e" using s2 by (cases r2) auto
    then show ?thesis using s2 a Inr assms(3,5) q by (auto simp: assms(3))
  qed
qed

definition example_race :: world where
  "example_race = example_tus\<lparr>w_objects := [''k1'' \<mapsto> [7], ''k2'' \<mapsto> [8, 9]]\<rparr>"

lemma racing_appends_witness:
  "w_objects (snd (run_state (do { a \<leftarrow> finish_chunk ''u'' 0 [7] ''k1''; b \<leftarrow> finish_chunk ''u'' 0 [8, 9] ''k2''; ret (a, b) })
     example_race)) ''k2'' = None"
proof -
  let ?run = "run_state (do { a \<leftarrow> finish_chunk ''u'' 0 [7] ''k1''; b \<leftarrow> finish_chunk ''u'' 0 [8, 9] ''k2''; ret (a, b) }) example_race"
  have p: "?run = ((fst (fst ?run), snd (fst ?run)), snd ?run)" by simp
  have inv: "tus_inv example_race" "w_saved example_race = None"
    using example_store_ok(2) by (simp_all add: example_race_def store_ok_def example_tus_def tus_state_def empty_db_def)
  have q: "quiet example_race \<and> spec_append ''u'' 0 [7] (uploads example_race) \<noteq> None"
    by (simp add: quiet_def example_race_def example_tus_def spec_append_def uploads_of_def tus_of_def empty_db_def
        example_upload_def tus_chunks_def)
  have k: "tus_keys (w_db example_race) = {}" by (simp add: tus_keys_def example_race_def example_tus_def empty_db_def)
  show ?thesis
    using racing_appends [OF inv _ _ _ _ _ _ _ _ _ _ p] q by (simp add: k) (simp add: example_race_def)
qed

end
