(* ===== verification/TusSweep.thy ===== *)
theory TusSweep
  imports TusRules
begin

text \<open>
  Removing resumable uploads: terminating one removes exactly its rows and its objects, and the sweep of expired uploads
  ends and removes exactly the expired ones.
\<close>

section \<open>Removing one upload\<close>

definition removed_upload :: "string \<Rightarrow> (tus_row \<Rightarrow> bool) \<Rightarrow> dbstate \<Rightarrow> dbstate" where
  "removed_upload i P d = d\<lparr>t_tus := filter (\<lambda>u. \<not> P u) (t_tus d),
     t_tus_chunks := filter (\<lambda>k. tc_upload k \<noteq> i) (t_tus_chunks d)\<rparr>"

lemma delete_tus_row: "q_DeleteTusUpload i = delete_tus (\<lambda>u. tu_id u = i)"
  "q_DeleteTusUploadIfExpired i t = delete_tus (\<lambda>u. tu_id u = i \<and> tu_expires u < t)"
  by (simp_all add: fun_eq_iff q_DeleteTusUpload_def q_DeleteTusUploadIfExpired_def)

lemma keeps_delete [keeps_rule]:
  "keeps (\<lambda>w. w_rng w = n) (store_deleteUpload i del)" "keeps quiet (store_deleteUpload i del)"
  unfolding store_deleteUpload_def with_tx_def by (intro keeps_rule)+

text \<open>Whichever calls fail: the rows go together or not at all, and only objects of the upload's chunks go.\<close>

lemma store_deleteUpload_spec:
  assumes "w_saved w = None"
  shows "wp (store_deleteUpload i (delete_tus P)) (\<lambda>r w'. w_saved w' = None \<and> same_env w w'
    \<and> (quiet w \<longrightarrow> \<not> isl r)
    \<and> (if r = Inr True
       then (\<exists>u \<in> set (t_tus (w_db w)). P u) \<and> w_db w' = removed_upload i P (w_db w)
         \<and> (\<forall>k. k \<notin> tc_key ` set (tus_chunks i (w_db w)) \<longrightarrow> w_objects w' k = w_objects w k)
         \<and> (quiet w \<longrightarrow> (\<forall>k \<in> tc_key ` set (tus_chunks i (w_db w)). w_objects w' k = None))
       else w_db w' = w_db w \<and> w_objects w' = w_objects w \<and> (r = Inr False \<longrightarrow> (\<forall>u \<in> set (t_tus (w_db w)). \<not> P u)))) w"
    (is "wp _ ?Q w")
proof -
  let ?d = "w_db w" and ?n = "int (length (filter P (t_tus (w_db w))))"
  define body where "body = do {
       x \<leftarrow> exec_sql (delete_tus P);
       case x of
         Inl e \<Rightarrow> ret (Inl e)
       | Inr removed \<Rightarrow>
           if removed = 0 then ret (Inr None)
           else do {
             k \<leftarrow> exec_sql (q_DeleteTusUploadChunks i);
             case k of
               Inl e \<Rightarrow> ret (Inl e)
             | Inr keys \<Rightarrow> do { m \<leftarrow> commit_tx; ret (case m of Inl e \<Rightarrow> Inl e | Inr _ \<Rightarrow> Inr (Some keys)) }
           }
     }"
  let ?P = "\<lambda>r d'. case r of
      Inl _ \<Rightarrow> d' = ?d
    | Inr None \<Rightarrow> d' = ?d \<and> ?n = 0
    | Inr (Some keys) \<Rightarrow> keys = map tc_key (tus_chunks i ?d) \<and> d' = removed_upload i P ?d \<and> ?n \<noteq> 0"
  have ch: "tus_chunks i (?d\<lparr>t_tus := us\<rparr>) = tus_chunks i ?d" for us by (simp add: tus_chunks_def)
  have "txp body ?P ?d ?d"
    unfolding body_def
    by (intro txp_rule) (auto simp: delete_tus_def q_DeleteTusUploadChunks_def removed_upload_def ch split: if_splits)
  then have tx: "wp (with_tx body) (\<lambda>r w'. w_saved w' = None \<and> same_env w w' \<and> w_objects w' = w_objects w \<and> ?P r (w_db w')) w"
    by (intro wp_with_tx [OF assms]) simp_all
  have txq: "keeps quiet (with_tx body)" unfolding body_def by (intro keeps_rule)
  have noerr: "wp (with_tx body) (\<lambda>r w'. quiet w \<longrightarrow> \<not> isl r) w"
  proof (cases "quiet w")
    case True
    then show ?thesis
      unfolding body_def with_tx_def
      by (simp add: wp_simp no_fault quiet_def delete_tus_def q_DeleteTusUploadChunks_def)
  qed (simp add: wp_def split: prod.split)
  have code: "store_deleteUpload i (delete_tus P) = do {
     r \<leftarrow> with_tx body;
     case r of
       Inl e \<Rightarrow> ret (Inl e)
     | Inr None \<Rightarrow> ret (Inr False)
     | Inr (Some keys) \<Rightarrow> do { _ \<leftarrow> removeObjects keys; ret (Inr True) }
   }" unfolding body_def store_deleteUpload_def ..
  show ?thesis
    unfolding code wp_bind
  proof (rule wp_mono [OF wp_conj [OF noerr quiet_imp [OF txq tx]]], elim conjE)
    fix r :: "string list option result" and w1
    assume w1: "quiet w \<longrightarrow> \<not> isl r" "quiet w \<longrightarrow> quiet w1" "w_saved w1 = None" "same_env w w1" "w_objects w1 = w_objects w"
      and r: "?P r (w_db w1)"
    have n: "?n = 0 \<longleftrightarrow> (\<forall>u \<in> set (t_tus ?d). \<not> P u)" by (simp add: filter_empty_conv)
    show "wp (case r of Inl e \<Rightarrow> ret (Inl e) | Inr None \<Rightarrow> ret (Inr False)
        | Inr (Some keys) \<Rightarrow> do { _ \<leftarrow> removeObjects keys; ret (Inr True) }) ?Q w1"
    proof (cases r)
      case (Inl e)
      then show ?thesis using w1 r by (simp add: wp_ret)
    next
      case (Inr ks)
      show ?thesis
      proof (cases ks)
        case None
        then show ?thesis using w1 r Inr n by (simp add: wp_ret)
      next
        case (Some keys)
        then have k: "keys = map tc_key (tus_chunks i ?d)" "w_db w1 = removed_upload i P ?d" "\<exists>u \<in> set (t_tus ?d). P u"
          using r Inr n by auto
        have env: "same_env w1 w2 \<Longrightarrow> same_env w w2" for w2 by (rule same_env_trans [OF w1(4)])
        show ?thesis
          unfolding Inr Some sum.case option.case wp_bind
          by (rule wp_mono [OF removeObjects_spec]) (use w1 k env in \<open>auto simp: wp_ret\<close>)
      qed
    qed
  qed
qed

lemma removed_simps:
  "t_tus (removed_upload i P d) = filter (\<lambda>u. \<not> P u) (t_tus d)"
  "t_tus_chunks (removed_upload i P d) = filter (\<lambda>k. tc_upload k \<noteq> i) (t_tus_chunks d)"
  "tus_chunks j (removed_upload i P d) = (if j = i then [] else tus_chunks j d)"
  by (auto simp: removed_upload_def tus_chunks_def filter_empty_conv intro: filter_cong)

lemma find_filter: "(\<And>r. P r \<Longrightarrow> Q r \<Longrightarrow> False) \<Longrightarrow> find P (filter (\<lambda>r. \<not> Q r) rows) = find P rows"
  by (induction rows) auto

lemma removed_state:
  assumes inv: "tus_state d ob" and u: "tus_of i d = Some u" "P u" and only: "\<And>v. P v \<Longrightarrow> tu_id v = i"
    and ob: "\<And>k. k \<notin> tc_key ` set (tus_chunks i d) \<Longrightarrow> ob' k = ob k"
  shows "tus_state (removed_upload i P d) ob'" "uploads_of (removed_upload i P d) ob' = (uploads_of d ob)(i := None)"
    "filter (\<lambda>v. \<not> P v) (t_tus d) = filter (\<lambda>v. tu_id v \<noteq> i) (t_tus d)"
    "length (t_tus d) = Suc (length (t_tus (removed_upload i P d)))"
proof -
  let ?d = "removed_upload i P d"
  have dist: "distinct (map tu_id (t_tus d))" "distinct (map tc_key (t_tus_chunks d))" using inv by (simp_all add: tus_state_def)
  have one: "v = u" if "v \<in> set (t_tus d)" "tu_id v = i" for v
    using tus_of_unique [OF dist(1) that(1)] that(2) u(1) by simp
  have P: "P v \<longleftrightarrow> tu_id v = i" if "v \<in> set (t_tus d)" for v using one [OF that] only u(2) by blast
  show rows: "filter (\<lambda>v. \<not> P v) (t_tus d) = filter (\<lambda>v. tu_id v \<noteq> i) (t_tus d)"
    by (rule filter_cong) (simp_all add: P)
  have keep: "ob' (tc_key k) = ob (tc_key k)" if k: "k \<in> set (t_tus_chunks d)" "tc_upload k \<noteq> i" for k
  proof (rule ob)
    show "tc_key k \<notin> tc_key ` set (tus_chunks i d)"
    proof
      assume "tc_key k \<in> tc_key ` set (tus_chunks i d)"
      then obtain k' where "k' \<in> set (t_tus_chunks d)" "tc_upload k' = i" "tc_key k' = tc_key k" by (auto simp: set_tus_chunks)
      then show False using k dist(2) by (auto simp: distinct_map dest: inj_onD)
    qed
  qed
  show "tus_state ?d ob'"
    using inv dist unfolding tus_state_def removed_simps rows
    by (auto simp: distinct_map_filter has_bytes_def keep)
  have f: "find (\<lambda>v. tu_id v = j) (filter (\<lambda>v. tu_id v \<noteq> i) (t_tus d)) = (if j = i then None else find (\<lambda>v. tu_id v = j) (t_tus d))" for j
    using find_filter [of "\<lambda>v. tu_id v = j" "\<lambda>v. tu_id v = i" "t_tus d"] by (auto simp: find_None_iff)
  show "uploads_of ?d ob' = (uploads_of d ob)(i := None)"
  proof
    fix j
    have "tus_bytes ob' (tus_chunks j d) = tus_bytes ob (tus_chunks j d)" if "j \<noteq> i"
      using that by (intro tus_bytes_cong keep) (auto simp: set_tus_chunks)
    then show "uploads_of ?d ob' j = ((uploads_of d ob)(i := None)) j"
      by (simp add: uploads_of_def tus_of_def removed_simps rows f)
  qed
  have "length (filter (\<lambda>v. tu_id v = i) rows) = (if i \<in> set (map tu_id rows) then 1 else 0)"
    if "distinct (map tu_id rows)" for rows
    using that by (induction rows) (auto simp: filter_empty_conv)
  from this [OF dist(1)] have "length (filter (\<lambda>v. tu_id v = i) (t_tus d)) = 1"
    using tus_of_Some [OF u(1)] by auto
  then show "length (t_tus d) = Suc (length (t_tus ?d))"
    unfolding removed_simps rows using sum_length_filter_compl [of "\<lambda>v. tu_id v = i" "t_tus d"] by simp
qed

section \<open>The sweep\<close>

definition expired_ids :: "int \<Rightarrow> dbstate \<Rightarrow> string list" where
  "expired_ids t d = map tu_id (filter (\<lambda>u. tu_expires u < t) (t_tus d))"

lemma order_ids: "length (order_ids xs) = length xs" "set (order_ids xs) = set xs"
proof -
  have "length (insert_id x ys) = Suc (length ys)" "set (insert_id x ys) = insert x (set ys)" for x ys
    by (induction ys) auto
  then show "length (order_ids xs) = length xs" "set (order_ids xs) = set xs"
    unfolding order_ids_def by (induction xs) auto
qed

lemma deleteIfExpired_spec:
  assumes "w_saved w = None"
  shows "wp (deleteIfExpired i t) (\<lambda>r w'. w_saved w' = None \<and> same_env w w'
    \<and> (quiet w \<longrightarrow> quiet w' \<and> \<not> isl r)
    \<and> (r = Inr True \<longrightarrow> i \<in> set (expired_ids t (w_db w)))
    \<and> (\<not> isl r \<longrightarrow> t_tus (w_db w') = filter (\<lambda>u. \<not> (tu_id u = i \<and> tu_expires u < t)) (t_tus (w_db w)))
    \<and> (isl r \<longrightarrow> w_db w' = w_db w)
    \<and> (tus_inv w \<longrightarrow> tus_inv w' \<and> (r = Inr True \<longrightarrow> length (t_tus (w_db w)) = Suc (length (t_tus (w_db w'))))
        \<and> uploads w' = (if r = Inr True then (uploads w)(i := None) else uploads w)
        \<and> (r = Inr False \<longrightarrow> length (t_tus (w_db w)) = length (t_tus (w_db w'))))) w"
proof -
  let ?P = "\<lambda>u. tu_id u = i \<and> tu_expires u < t"
  note s = quiet_imp [OF keeps_delete(2) store_deleteUpload_spec [OF assms, of i ?P]]
  show ?thesis
    unfolding deleteIfExpired_def delete_tus_row
  proof (rule wp_mono [OF s], elim conjE)
    fix r :: "bool result" and w'
    assume w': "quiet w \<longrightarrow> quiet w'" "w_saved w' = None" "same_env w w'" "quiet w \<longrightarrow> \<not> isl r"
      and r: "if r = Inr True
       then (\<exists>u \<in> set (t_tus (w_db w)). ?P u) \<and> w_db w' = removed_upload i ?P (w_db w)
         \<and> (\<forall>k. k \<notin> tc_key ` set (tus_chunks i (w_db w)) \<longrightarrow> w_objects w' k = w_objects w k)
         \<and> (quiet w \<longrightarrow> (\<forall>k \<in> tc_key ` set (tus_chunks i (w_db w)). w_objects w' k = None))
       else w_db w' = w_db w \<and> w_objects w' = w_objects w \<and> (r = Inr False \<longrightarrow> (\<forall>u \<in> set (t_tus (w_db w)). \<not> ?P u))"
    show "w_saved w' = None \<and> same_env w w' \<and> (quiet w \<longrightarrow> quiet w' \<and> \<not> isl r)
      \<and> (r = Inr True \<longrightarrow> i \<in> set (expired_ids t (w_db w)))
      \<and> (\<not> isl r \<longrightarrow> t_tus (w_db w') = filter (\<lambda>u. \<not> ?P u) (t_tus (w_db w)))
      \<and> (isl r \<longrightarrow> w_db w' = w_db w)
      \<and> (tus_inv w \<longrightarrow> tus_inv w' \<and> (r = Inr True \<longrightarrow> length (t_tus (w_db w)) = Suc (length (t_tus (w_db w'))))
          \<and> uploads w' = (if r = Inr True then (uploads w)(i := None) else uploads w)
          \<and> (r = Inr False \<longrightarrow> length (t_tus (w_db w)) = length (t_tus (w_db w'))))"
    proof (cases "r = Inr True")
      case True
      then obtain u where u: "u \<in> set (t_tus (w_db w))" "?P u" and d: "w_db w' = removed_upload i ?P (w_db w)"
        and ob: "\<And>k. k \<notin> tc_key ` set (tus_chunks i (w_db w)) \<Longrightarrow> w_objects w' k = w_objects w k"
        using r by auto
      have inv: "tus_inv w' \<and> uploads w' = (uploads w)(i := None)
          \<and> length (t_tus (w_db w)) = Suc (length (t_tus (w_db w')))" if "tus_inv w"
      proof -
        have "tus_of i (w_db w) = Some u" using tus_of_unique [OF _ u(1)] u(2) that by (simp add: tus_state_def)
        from removed_state [where P = ?P, OF that this u(2) _ ob] show ?thesis unfolding d by simp
      qed
      have "i \<in> set (expired_ids t (w_db w))" using u by (auto simp: expired_ids_def)
      then show ?thesis using True w' d inv by (simp add: removed_simps)
    next
      case False
      then have d: "w_db w' = w_db w" "w_objects w' = w_objects w" and n: "r = Inr False \<longrightarrow> (\<forall>u \<in> set (t_tus (w_db w)). \<not> ?P u)"
        using r by auto
      have "filter (\<lambda>u. \<not> ?P u) (t_tus (w_db w)) = t_tus (w_db w)" if "\<not> isl r"
        using n that False by (intro filter_True) (cases r; auto)
      then show ?thesis using False w' d by simp
    qed
  qed
qed

text \<open>One batch. \<open>swept ids t w w'\<close>: some of the uploads that were expired and listed are gone, nothing else.\<close>

definition swept :: "string set \<Rightarrow> int \<Rightarrow> world \<Rightarrow> world \<Rightarrow> bool" where
  "swept ids t w w' \<longleftrightarrow> w_saved w' = None \<and> same_env w w'
     \<and> (\<exists>P. t_tus (w_db w') = filter P (t_tus (w_db w)) \<and> (\<forall>u. \<not> P u \<longrightarrow> tu_id u \<in> ids \<and> tu_expires u < t))
     \<and> (tus_inv w \<longrightarrow> tus_inv w' \<and> (\<forall>j. j \<notin> ids \<longrightarrow> uploads w' j = uploads w j))"

lemma swept_refl: "w_saved w = None \<Longrightarrow> w_saved w' = None \<Longrightarrow> same_env w w' \<Longrightarrow> w_db w' = w_db w
    \<Longrightarrow> (tus_inv w \<Longrightarrow> tus_inv w' \<and> uploads w' = uploads w) \<Longrightarrow> swept ids t w w'"
  unfolding swept_def by (intro conjI exI [of _ "\<lambda>_. True"]) simp_all

lemma swept_trans:
  assumes "swept ids t w w1" "swept ids' t w1 w2" "ids \<subseteq> ids''" "ids' \<subseteq> ids''"
  shows "swept ids'' t w w2"
proof -
  obtain P where P: "t_tus (w_db w1) = filter P (t_tus (w_db w))" "\<forall>u. \<not> P u \<longrightarrow> tu_id u \<in> ids \<and> tu_expires u < t"
    using assms(1) unfolding swept_def by blast
  obtain R where R: "t_tus (w_db w2) = filter R (t_tus (w_db w1))" "\<forall>u. \<not> R u \<longrightarrow> tu_id u \<in> ids' \<and> tu_expires u < t"
    using assms(2) unfolding swept_def by blast
  have "t_tus (w_db w2) = filter (\<lambda>u. P u \<and> R u) (t_tus (w_db w))"
    using P(1) R(1) by (simp add: conj_commute)
  moreover have "\<forall>u. \<not> (P u \<and> R u) \<longrightarrow> tu_id u \<in> ids'' \<and> tu_expires u < t" using P(2) R(2) assms(3,4) by blast
  moreover have "w_saved w2 = None" "same_env w w2"
    using assms(1,2) same_env_trans [of w w1 w2] by (simp_all add: swept_def)
  moreover have "tus_inv w2 \<and> (\<forall>j. j \<notin> ids'' \<longrightarrow> uploads w2 j = uploads w j)" if i: "tus_inv w"
  proof -
    have "tus_inv w1" "\<forall>j. j \<notin> ids \<longrightarrow> uploads w1 j = uploads w j" using assms(1) i by (simp_all add: swept_def)
    moreover from this have "tus_inv w2" "\<forall>j. j \<notin> ids' \<longrightarrow> uploads w2 j = uploads w1 j" using assms(2) by (simp_all add: swept_def)
    ultimately show ?thesis using assms(3,4) by (metis subsetD)
  qed
  ultimately show ?thesis unfolding swept_def by blast
qed

lemma sweep_ids_spec:
  assumes "w_saved w = None"
  shows "wp (sweep_ids ids t n) (\<lambda>(m, err) w'. swept (set ids) t w w'
    \<and> (quiet w \<longrightarrow> quiet w' \<and> err = None)
    \<and> (err = None \<longrightarrow> (\<forall>u \<in> set (t_tus (w_db w')). \<not> (tu_id u \<in> set ids \<and> tu_expires u < t)))
    \<and> (tus_inv w \<and> err = None \<longrightarrow> m = n + int (length (t_tus (w_db w))) - int (length (t_tus (w_db w'))))) w"
  using assms
proof (induction ids arbitrary: n w)
  case Nil
  then show ?case by (simp add: wp_ret swept_refl)
next
  case (Cons i ids)
  show ?case
    unfolding sweep_ids.simps wp_bind
  proof (rule wp_mono [OF deleteIfExpired_spec [OF Cons.prems]], elim conjE)
    fix r :: "bool result" and w1
    assume w1: "w_saved w1 = None" "same_env w w1" "quiet w \<longrightarrow> quiet w1 \<and> \<not> isl r"
      "r = Inr True \<longrightarrow> i \<in> set (expired_ids t (w_db w))"
      and gone: "\<not> isl r \<longrightarrow> t_tus (w_db w1) = filter (\<lambda>u. \<not> (tu_id u = i \<and> tu_expires u < t)) (t_tus (w_db w))"
      and err: "isl r \<longrightarrow> w_db w1 = w_db w"
      and inv: "tus_inv w \<longrightarrow> tus_inv w1 \<and> (r = Inr True \<longrightarrow> length (t_tus (w_db w)) = Suc (length (t_tus (w_db w1))))
        \<and> uploads w1 = (if r = Inr True then (uploads w)(i := None) else uploads w)
        \<and> (r = Inr False \<longrightarrow> length (t_tus (w_db w)) = length (t_tus (w_db w1)))"
    show "wp (case r of Inl e \<Rightarrow> ret (n, Some e) | Inr ok \<Rightarrow> sweep_ids ids t (if ok then n + 1 else n))
      (\<lambda>(m, err) w'. swept (set (i # ids)) t w w' \<and> (quiet w \<longrightarrow> quiet w' \<and> err = None)
        \<and> (err = None \<longrightarrow> (\<forall>u \<in> set (t_tus (w_db w')). \<not> (tu_id u \<in> set (i # ids) \<and> tu_expires u < t)))
        \<and> (tus_inv w \<and> err = None \<longrightarrow> m = n + int (length (t_tus (w_db w))) - int (length (t_tus (w_db w'))))) w1"
    proof (cases r)
      case (Inl e)
      then have "swept (set (i # ids)) t w w1" using w1 err inv Cons.prems by (intro swept_refl) auto
      then show ?thesis using Inl w1 by (simp add: wp_ret)
    next
      case (Inr ok)
      have s1: "swept {i} t w w1"
        unfolding swept_def
        using w1 gone inv Inr by (intro conjI exI [of _ "\<lambda>u. \<not> (tu_id u = i \<and> tu_expires u < t)"]) auto
      have len: "tus_inv w \<longrightarrow> (if ok then n + 1 else n) + int (length (t_tus (w_db w1))) = n + int (length (t_tus (w_db w)))"
        using inv Inr by (cases ok) auto
      show ?thesis
        unfolding Inr sum.case
      proof (rule wp_mono_pair [OF Cons.IH [OF w1(1)]], elim conjE, simp only: prod.case, intro conjI impI)
        fix m err and w2
        assume s2: "swept (set ids) t w1 w2" and q: "quiet w1 \<longrightarrow> quiet w2 \<and> err = None"
          and g: "err = None \<longrightarrow> (\<forall>u \<in> set (t_tus (w_db w2)). \<not> (tu_id u \<in> set ids \<and> tu_expires u < t))"
          and m: "tus_inv w1 \<and> err = None \<longrightarrow> m = (if ok then n + 1 else n) + int (length (t_tus (w_db w1))) - int (length (t_tus (w_db w2)))"
        show "swept (set (i # ids)) t w w2" by (rule swept_trans [OF s1 s2]) auto
        show "quiet w2" "err = None" if "quiet w" using q w1(3) that by simp_all
        show "\<forall>u \<in> set (t_tus (w_db w2)). \<not> (tu_id u \<in> set (i # ids) \<and> tu_expires u < t)" if "err = None"
        proof -
          have "set (t_tus (w_db w2)) \<subseteq> set (t_tus (w_db w1))" using s2 by (auto simp: swept_def)
          then show ?thesis using g gone Inr that by auto
        qed
        show "m = n + int (length (t_tus (w_db w))) - int (length (t_tus (w_db w2)))" if "tus_inv w \<and> err = None"
          using m len inv that by auto
      qed
    qed
  qed
qed

definition expired_count :: "int \<Rightarrow> dbstate \<Rightarrow> nat" where
  "expired_count t d = length (filter (\<lambda>u. tu_expires u < t) (t_tus d))"

lemma filter_fewer: "x \<in> set xs \<Longrightarrow> P x \<Longrightarrow> x \<notin> set (filter Q xs) \<Longrightarrow> length (filter P (filter Q xs)) < length (filter P xs)"
proof -
  assume x: "x \<in> set xs" "P x" "x \<notin> set (filter Q xs)"
  have "filter P (filter Q xs) = filter Q (filter P xs)" by (simp add: conj_commute)
  moreover have "length (filter Q (filter P xs)) < length (filter P xs)"
    using x by (intro length_filter_less [of x]) auto
  ultimately show ?thesis by simp
qed

text \<open>A full batch makes progress, a short one leaves no expired upload.\<close>

lemma batch_progress:
  assumes ids: "q_GetExpiredTusUploadIDs t limit (w_db w) = (Inr ids, w_db w)"
    and s: "swept (set ids) t w w'"
    and gone: "\<forall>u \<in> set (t_tus (w_db w')). \<not> (tu_id u \<in> set ids \<and> tu_expires u < t)"
  shows "ids \<noteq> [] \<Longrightarrow> expired_count t (w_db w') < expired_count t (w_db w)"
    and "int (length ids) < limit \<Longrightarrow> expired_count t (w_db w') = 0"
proof -
  let ?all = "order_ids (expired_ids t (w_db w))"
  have t: "ids = take (nat limit) ?all" using ids by (simp add: q_GetExpiredTusUploadIDs_def expired_ids_def split: if_splits)
  obtain P where P: "t_tus (w_db w') = filter P (t_tus (w_db w))" using s unfolding swept_def by blast
  show "expired_count t (w_db w') < expired_count t (w_db w)" if "ids \<noteq> []"
  proof -
    obtain i where i: "i \<in> set ids" using \<open>ids \<noteq> []\<close> by (meson hd_in_set)
    then have "i \<in> set (expired_ids t (w_db w))" using t by (auto simp: order_ids(2) dest: in_set_takeD)
    then obtain u where u: "u \<in> set (t_tus (w_db w))" "tu_expires u < t" "tu_id u = i" by (auto simp: expired_ids_def)
    then have "u \<notin> set (filter P (t_tus (w_db w)))" using gone i unfolding P by blast
    from filter_fewer [where P = "\<lambda>u. tu_expires u < t", OF u(1,2) this] show ?thesis by (simp add: expired_count_def P)
  qed
  show "expired_count t (w_db w') = 0" if "int (length ids) < limit"
  proof -
    have "ids = ?all" using t that by (simp add: min_def split: if_splits)
    then have "set ids = set (expired_ids t (w_db w))" by (simp add: order_ids(2))
    then have "\<not> tu_expires u < t" if "u \<in> set (t_tus (w_db w'))" for u
      using gone that unfolding P by (auto simp: expired_ids_def)
    then show ?thesis by (simp add: expired_count_def filter_empty_conv)
  qed
qed

text \<open>What the sweep promises: it ends if the bound exceeds the number of expired uploads; without failures it has no
  error; and without an error no expired upload is left and the number reported is the number removed.\<close>

definition sweep_post :: "int \<Rightarrow> nat \<Rightarrow> int \<Rightarrow> world \<Rightarrow> (int \<times> goerr option) option \<Rightarrow> world \<Rightarrow> bool" where
  "sweep_post t fuel n w r w' \<longleftrightarrow> swept UNIV t w w' \<and> (expired_count t (w_db w) < fuel \<longrightarrow> r \<noteq> None)
     \<and> (quiet w \<longrightarrow> (\<forall>m err. r = Some (m, err) \<longrightarrow> err = None))
     \<and> (\<forall>m. r = Some (m, None) \<longrightarrow> expired_count t (w_db w') = 0
          \<and> (tus_inv w \<longrightarrow> m = n + int (length (t_tus (w_db w))) - int (length (t_tus (w_db w')))))"

lemma sweep_post_later:
  assumes s: "swept UNIV t w w1" and q: "quiet w \<longrightarrow> quiet w1"
    and m: "tus_inv w \<longrightarrow> m = n + int (length (t_tus (w_db w))) - int (length (t_tus (w_db w1)))"
    and less: "expired_count t (w_db w1) < expired_count t (w_db w)"
    and post: "sweep_post t fuel m w1 r w2"
  shows "sweep_post t (Suc fuel) n w r w2"
proof -
  have p: "swept UNIV t w1 w2" "expired_count t (w_db w1) < fuel \<Longrightarrow> r \<noteq> None"
    "\<And>k err. quiet w1 \<Longrightarrow> r = Some (k, err) \<Longrightarrow> err = None" "\<And>k. r = Some (k, None) \<Longrightarrow> expired_count t (w_db w2) = 0"
    "\<And>k. r = Some (k, None) \<Longrightarrow> tus_inv w1 \<Longrightarrow> k = m + int (length (t_tus (w_db w1))) - int (length (t_tus (w_db w2)))"
    using post unfolding sweep_post_def by blast+
  have "k = n + int (length (t_tus (w_db w))) - int (length (t_tus (w_db w2)))" if "r = Some (k, None)" "tus_inv w" for k
  proof -
    have "tus_inv w1" using s that(2) by (simp add: swept_def)
    from p(5) [OF that(1) this] m that(2) show ?thesis by simp
  qed
  moreover have "swept UNIV t w w2" by (rule swept_trans [OF s p(1)]) simp_all
  moreover have "r \<noteq> None" if "expired_count t (w_db w) < Suc fuel" using p(2) less that by linarith
  ultimately show ?thesis using p(3,4) q unfolding sweep_post_def by blast
qed

lemma sweep_batches_spec:
  assumes "w_saved w = None" "1 \<le> batch" "batch < 2 ^ 31"
  shows "wp (sweep_batches fuel batch t n) (sweep_post t fuel n w) w"
  using assms(1)
proof (induction fuel arbitrary: n w)
  case 0
  then show ?case by (simp add: wp_ret swept_refl sweep_post_def)
next
  case (Suc fuel)
  have b: "i32 batch = batch" using assms(2,3) by (simp add: in_i32_def)
  obtain ids where q: "q_GetExpiredTusUploadIDs t batch (w_db w) = (Inr ids, w_db w)"
    using assms(2) by (simp add: q_GetExpiredTusUploadIDs_def)
  show ?case
    unfolding sweep_batches.simps wp_bind b
  proof (rule wp_exec_either, rule q, goal_cases)
    case (1 fs)
    then show ?case using Suc.prems by (simp add: wp_ret swept_refl same_env_def sweep_post_def)
  next
    case (2 fs)
    let ?w = "w\<lparr>w_faults := fs, w_db := w_db w\<rparr>"
    have s0: "swept {} t w ?w" using Suc.prems by (intro swept_refl) (simp_all add: same_env_def)
    have sv: "w_saved ?w = None" and q0: "quiet w \<longrightarrow> quiet ?w" using Suc.prems 2 by (auto simp: quiet_def)
    show ?case
      unfolding sum.case wp_bind
    proof (rule wp_mono_pair [OF sweep_ids_spec [OF sv]], elim conjE)
      fix m :: int and err :: "goerr option" and w1
      assume s: "swept (set ids) t ?w w1" and q1: "quiet ?w \<longrightarrow> quiet w1 \<and> err = None"
        and gone: "err = None \<longrightarrow> (\<forall>u \<in> set (t_tus (w_db w1)). \<not> (tu_id u \<in> set ids \<and> tu_expires u < t))"
        and m: "tus_inv ?w \<and> err = None \<longrightarrow> m = n + int (length (t_tus (w_db ?w))) - int (length (t_tus (w_db w1)))"
      have s1: "swept (set ids) t w w1" by (rule swept_trans [OF s0 s]) auto
      have sU: "swept UNIV t w w1" by (rule swept_trans [OF s0 s]) auto
      have sv1: "w_saved w1 = None" using s1 by (simp add: swept_def)
      have qq: "quiet w \<longrightarrow> quiet w1 \<and> err = None" using q0 q1 by blast
      have mm: "tus_inv w \<longrightarrow> m = n + int (length (t_tus (w_db w))) - int (length (t_tus (w_db w1)))" if "err = None"
        using m that by simp
      show "wp (case (m, err) of (n, err) \<Rightarrow> if err \<noteq> None then ret (Some (n, err))
             else if int (length ids) < batch then ret (Some (n, None)) else sweep_batches fuel batch t n)
        (sweep_post t (Suc fuel) n w) w1"
      proof (cases "err = None")
        case False
        then have "sweep_post t (Suc fuel) n w (Some (m, err)) w1" using sU qq by (auto simp: sweep_post_def)
        then show ?thesis using False by (simp add: wp_ret)
      next
        case e: True
        note prog = batch_progress [OF q s1 mp [OF gone e]]
        show ?thesis
        proof (cases "int (length ids) < batch")
          case True
          have "sweep_post t (Suc fuel) n w (Some (m, None)) w1" using sU prog(2) [OF True] mm [OF e] by (simp add: sweep_post_def)
          then show ?thesis unfolding e prod.case if_P [OF True] by (simp add: wp_ret)
        next
          case False
          then have "ids \<noteq> []" using assms(2) by auto
          from sweep_post_later [OF sU _ mm [OF e] prog(1) [OF this]] qq
          have "wp (sweep_batches fuel batch t m) (sweep_post t (Suc fuel) n w) w1"
            by (intro wp_mono [OF Suc.IH [OF sv1]]) blast
          then show ?thesis unfolding e prod.case if_not_P [OF False] by simp
        qed
      qed
    qed
  qed
qed

lemma keeps_quiet_sweep [keeps_rule]: "keeps quiet (sweep_batches fuel batch t n)"
proof -
  have ids: "keeps quiet (sweep_ids ids t n)" for ids n
    by (induction ids arbitrary: n) (auto simp: deleteIfExpired_def intro!: keeps_rule)
  show ?thesis by (induction fuel arbitrary: n) (auto intro!: keeps_rule ids)
qed

section \<open>What the sweep guarantees\<close>

text \<open>C25. The sweep of expired uploads ends: a bound on the number of batches above the number of expired uploads is never
  reached, whichever calls fail, because a full batch removes every upload it lists or stops with an error. It only
  removes uploads that are expired at the time given.
\<close>

theorem sweep_terminates:
  assumes "w_saved w = None" "ts_batch c < 2 ^ 31" "expired_count t (w_db w) < fuel"
    and "run_state (DeleteExpired c fuel t) w = (r, w')"
  shows "r \<noteq> None \<and> (\<forall>u \<in> set (t_tus (w_db w)). t \<le> tu_expires u \<longrightarrow> u \<in> set (t_tus (w_db w')))"
proof -
  let ?b = "if ts_batch c \<le> 0 then 500 else ts_batch c"
  have "sweep_post t fuel 0 w r w'"
    by (rule wp_run [OF sweep_batches_spec assms(4) [unfolded DeleteExpired_def]]) (use assms(1,2) in auto)
  then have s: "swept UNIV t w w'" "r \<noteq> None" using assms(3) by (auto simp: sweep_post_def)
  then obtain P where "t_tus (w_db w') = filter P (t_tus (w_db w))" "\<forall>u. \<not> P u \<longrightarrow> tu_expires u < t"
    unfolding swept_def by blast
  then show ?thesis using s(2) by auto
qed

definition expired_world :: world where
  "expired_world = start_world (empty_db\<lparr>t_tus :=
     [example_upload, example_upload\<lparr>tu_id := ''v'', tu_expires := 5\<rparr>, example_upload\<lparr>tu_id := ''w'', tu_expires := 6\<rparr>,
      example_upload\<lparr>tu_id := ''x'', tu_expires := 7\<rparr>]\<rparr>)"

lemma sweep_terminates_witness:
  "fst (run_state (DeleteExpired example_store 4 10) expired_world) \<noteq> None
     \<and> example_upload \<in> set (t_tus (w_db (snd (run_state (DeleteExpired example_store 4 10) expired_world))))"
  using sweep_terminates [OF _ _ _ run_pair, of expired_world example_store 10 4]
  by (simp add: expired_world_def expired_count_def empty_db_def example_upload_def example_store_def)

text \<open>Without failures the sweep removes all the expired uploads and only them, reports how many, and keeps the store consistent:
  every upload that is left still has all its chunks.
\<close>

theorem sweep_exact:
  assumes "quiet w" "w_saved w = None" "tus_inv w" "ts_batch c < 2 ^ 31" "expired_count t (w_db w) < fuel"
    and "run_state (DeleteExpired c fuel t) w = (r, w')"
  shows "r = Some (int (expired_count t (w_db w)), None) \<and> tus_inv w'
    \<and> t_tus (w_db w') = filter (\<lambda>u. t \<le> tu_expires u) (t_tus (w_db w))"
proof -
  have post: "sweep_post t fuel 0 w r w'"
    by (rule wp_run [OF sweep_batches_spec assms(6) [unfolded DeleteExpired_def]]) (use assms(2,4) in auto)
  then obtain m where r: "r = Some (m, None)" using assms(1,5) by (auto simp: sweep_post_def)
  then have z: "expired_count t (w_db w') = 0" and s: "swept UNIV t w w'"
    and m: "m = int (length (t_tus (w_db w))) - int (length (t_tus (w_db w')))"
    using post assms(3) by (auto simp: sweep_post_def)
  obtain P where P: "t_tus (w_db w') = filter P (t_tus (w_db w))" "\<forall>u. \<not> P u \<longrightarrow> tu_expires u < t"
    using s unfolding swept_def by blast
  have "P u \<longleftrightarrow> t \<le> tu_expires u" if "u \<in> set (t_tus (w_db w))" for u
    using z P that by (auto simp: expired_count_def filter_empty_conv not_less)
  then have rows: "t_tus (w_db w') = filter (\<lambda>u. t \<le> tu_expires u) (t_tus (w_db w))" unfolding P(1) by (simp cong: filter_cong)
  have "length (filter (\<lambda>u. tu_expires u < t) us) + length (filter (\<lambda>u. t \<le> tu_expires u) us) = length us" for us
    using sum_length_filter_compl [of "\<lambda>u. tu_expires u < t" us] by (simp add: not_less)
  from this [of "t_tus (w_db w)"] have "m = int (expired_count t (w_db w))"
    using m unfolding rows expired_count_def by linarith
  then show ?thesis using r rows s assms(3) by (simp add: swept_def)
qed

lemma sweep_exact_witness:
  "fst (run_state (DeleteExpired example_store 4 10) expired_world) = Some (3, None)"
proof -
  have "tus_inv expired_world"
    by (simp add: tus_state_def expired_world_def empty_db_def example_upload_def tus_chunks_def)
  from sweep_exact [OF _ _ this _ _ run_pair, of example_store 10 4]
  show ?thesis by (simp add: quiet_def expired_world_def expired_count_def empty_db_def example_upload_def example_store_def)
qed

end
