(* ===== verification/TusOutcome.thy ===== *)
theory TusOutcome
  imports TusSweep UploadRules
begin

text \<open>
  What the handlers of the tus protocol guarantee: who may touch an upload, what a completed upload stores, and which
  promises of the other upload paths they do not keep.
\<close>

section \<open>Whose upload\<close>

text \<open>What the handlers read of a row.\<close>

definition info_of :: "tus_store \<Rightarrow> tus_row \<Rightarrow> tus_upload \<Rightarrow> bool" where
  "info_of c row u \<longleftrightarrow> tup_id u = tu_id row \<and> tup_pubkey u = tu_pubkey row \<and> tup_size u = tu_size row
     \<and> tup_offset u = tu_offset row \<and> tup_expires u = tu_expires row \<and> ts_decode c (tu_metadata row) = Some (tup_metadata u)"

lemma answer_status [simp]: "ta_status (answer st) = st"
  by (simp add: answer_def)

lemma tus_Get_spec:
  "wp (tus_Get c i) (\<lambda>r w'. looks w w' \<and> (quiet w \<longrightarrow> quiet w')
     \<and> (\<forall>u. r = Inr u \<longrightarrow> (\<exists>row. tus_of i (w_db w) = Some row \<and> info_of c row u))) w"
  unfolding tus_Get_def wp_bind
proof (rule wp_exec_either)
  show "q_GetTusUpload i (w_db w) = (case tus_of i (w_db w) of None \<Rightarrow> Inl ErrNoRows | Some u \<Rightarrow> Inr u, w_db w)"
    by (simp add: q_GetTusUpload_def first_row_def tus_of_def)
qed (auto simp: wp_ret quiet_def info_of_def looks_def split: option.splits sum.splits)

lemma foreign_refused:
  assumes "tus_of i (w_db w) = Some row" "caller \<noteq> tu_pubkey row"
  shows "wp (tusHead h caller i) (\<lambda>a w'. looks w w' \<and> ta_status a \<in> {403, 404, 500}) w"
    "wp (tusPatch h caller i ct off cs b) (\<lambda>a w'. looks w w' \<and> ta_status a \<in> {400, 403, 404, 415, 500}) w"
    "wp (tusDelete h caller i) (\<lambda>a w'. looks w w' \<and> ta_status a \<in> {403, 404, 500}) w"
proof -
  have get: "wp (do { r \<leftarrow> tus_Get (th_store h) i;
        case r of Inl e \<Rightarrow> ret (answer (lookupErrorStatus e))
        | Inr u \<Rightarrow> if \<not> ownsUpload caller u then ret (answer 403) else f u })
      (\<lambda>a w'. looks w w' \<and> ta_status a \<in> {403, 404, 500}) w" for f
    unfolding wp_bind
  proof (rule wp_mono [OF tus_Get_spec], elim conjE)
    fix r :: "tus_upload result" and w1
    assume w1: "looks w w1" and r: "\<forall>u. r = Inr u \<longrightarrow> (\<exists>row. tus_of i (w_db w) = Some row \<and> info_of (th_store h) row u)"
    have "\<not> ownsUpload caller u" if "r = Inr u" for u
      using r that assms by (auto simp: ownsUpload_def info_of_def)
    then show "wp (case r of Inl e \<Rightarrow> ret (answer (lookupErrorStatus e))
        | Inr u \<Rightarrow> if \<not> ownsUpload caller u then ret (answer 403) else f u)
      (\<lambda>a w'. looks w w' \<and> ta_status a \<in> {403, 404, 500}) w1"
      using w1 by (cases r) (simp_all add: wp_ret lookupErrorStatus_def)
  qed
  show "wp (tusHead h caller i) (\<lambda>a w'. looks w w' \<and> ta_status a \<in> {403, 404, 500}) w"
    unfolding tusHead_def wp_if using get by (simp add: wp_ret)
  show "wp (tusDelete h caller i) (\<lambda>a w'. looks w w' \<and> ta_status a \<in> {403, 404, 500}) w"
    unfolding tusDelete_def wp_if using get by (simp add: wp_ret)
  obtain offset failed where p: "ParseInt off = (offset, failed)" by (cases "ParseInt off")
  have st: "{403, 404, 500} \<subseteq> {400, 403, 404, 415, 500 :: int}" by auto
  show "wp (tusPatch h caller i ct off cs b) (\<lambda>a w'. looks w w' \<and> ta_status a \<in> {400, 403, 404, 415, 500}) w"
    unfolding tusPatch_def wp_if p prod.case
    by (auto simp: wp_ret intro!: wp_mono [OF get])
qed

text \<open>C26. Only its creator may touch an upload: whatever a request of another key says, and whichever calls fail, nothing is
  changed and the answer is a refusal.
\<close>

theorem foreign_key_refused:
  assumes "tus_of i (w_db w) = Some row" "caller \<noteq> tu_pubkey row"
    and "m \<in> {tusHead h caller i, tusPatch h caller i ct off cs b, tusDelete h caller i}"
    and "run_state m w = (a, w')"
  shows "ta_status a \<in> {400, 403, 404, 415, 500} \<and> w_db w' = w_db w \<and> w_objects w' = w_objects w"
proof -
  have "wp m (\<lambda>a w'. looks w w' \<and> ta_status a \<in> {400, 403, 404, 415, 500}) w"
    using assms(3) foreign_refused(2) [OF assms(1,2)]
    by (auto intro!: wp_mono [OF foreign_refused(1) [OF assms(1,2)]] wp_mono [OF foreign_refused(3) [OF assms(1,2)]])
  from wp_run [OF this assms(4)] show ?thesis using looks_simps by blast
qed

section \<open>Completed uploads\<close>

lemma removed_frame [simp]:
  "owned (removed_upload i P d) = owned d" "balance pk (removed_upload i P d) = balance pk d"
  "db_inv (removed_upload i P d) = db_inv d"
  by (simp_all add: removed_upload_def)

lemma tus_Delete_frame:
  assumes "w_saved w = None"
  shows "wp (tus_Delete i) (\<lambda>_ w'. w_saved w' = None \<and> owned (w_db w') = owned (w_db w)
    \<and> (\<forall>pk. balance pk (w_db w') = balance pk (w_db w)) \<and> db_inv (w_db w') = db_inv (w_db w)) w"
  unfolding tus_Delete_def wp_bind delete_tus_row
  by (rule wp_mono [OF store_deleteUpload_spec [OF assms]]) (auto simp: wp_ret split: if_splits)

lemma save_upload_spec:
  assumes "enc_ok (th_blobs h)" "db_inv (w_db w)" "w_saved w = None"
  shows "wp (save_upload h i u data) (\<lambda>r w'. db_inv (w_db w') \<and> w_saved w' = None \<and>
    (case r of
       Inl _ \<Rightarrow> failed_map (th_blobs h) (th_hash h data) data (int (length data)) (owned (w_db w)) (owned (w_db w'))
         \<and> (\<forall>pk'. balance pk' (w_db w') = balance pk' (w_db w))
     | Inr _ \<Rightarrow> True \<and> (\<exists>ob. saved_map (th_blobs h) (tup_pubkey u) (th_hash h data) data (int (length data)) ob
          (owned (w_db w)) (owned (w_db w'))))) w"
  unfolding save_upload_def Let_def
proof (rule save_and_charge [OF assms])
  fix t :: int and blob :: blob_desc and w1 :: world assume w1: "db_inv (w_db w1)" "w_saved w1 = None"
  show "wp (do { _ \<leftarrow> tus_Delete i; ret (Inr blob) } :: blob_desc result prog)
    (\<lambda>r w'. (\<exists>x. r = Inr x \<and> True) \<and> db_inv (w_db w') \<and> w_saved w' = None \<and> owned (w_db w') = owned (w_db w1)) w1"
    unfolding wp_bind by (rule wp_mono [OF tus_Delete_frame [OF w1(2)]]) (use w1 in \<open>simp add: wp_ret\<close>)
qed

definition is_blocklisted :: "string \<Rightarrow> dbstate \<Rightarrow> bool" where
  "is_blocklisted pk d \<longleftrightarrow> (\<exists>r \<in> set (t_blocklist d). bl_pubkey r = pk)"

lemma blocklistCheck_spec:
  "wp (blocklistCheck h pk) (\<lambda>r w'. looks w w' \<and> (quiet w \<longrightarrow> quiet w')
     \<and> (r = Inr False \<longrightarrow> th_moderation h \<longrightarrow> \<not> is_blocklisted pk (w_db w))) w"
  unfolding blocklistCheck_def wp_if IsBlocked_def
  by (auto simp: wp_ret q_IsBlocked_def quiet_def is_blocklisted_def intro!: wp_exec_either)

text \<open>What holds of an upload that is finalized: \<open>finalizable h u cs data w\<close>.\<close>

definition finalizable :: "tus_handler \<Rightarrow> tus_upload \<Rightarrow> string \<Rightarrow> bytes \<Rightarrow> world \<Rightarrow> bool" where
  "finalizable h u cs data w \<longleftrightarrow> (th_moderation h \<longrightarrow> \<not> is_blocklisted (tup_pubkey u) (w_db w))
     \<and> accessAllowed h (tup_pubkey u) \<and> int (length data) \<le> maxSize h
     \<and> (\<forall>x. cs \<noteq> [] \<longrightarrow> th_checksum h cs = Some x \<longrightarrow> x = th_hash h data)"

lemma finalizeUpload_wp:
  assumes inv: "tus_inv w" and row: "tus_of i (w_db w) = Some row"
    and err: "\<And>e w1. looks w w1 \<Longrightarrow> Q (Inl e) w1"
    and save: "\<And>w1. looks w w1 \<Longrightarrow> finalizable h u cs (tus_bytes (w_objects w) (tus_chunks i (w_db w))) w
      \<Longrightarrow> wp (save_upload h i u (tus_bytes (w_objects w) (tus_chunks i (w_db w)))) Q w1"
  shows "wp (finalizeUpload h i u cs) Q w"
proof -
  let ?data = "tus_bytes (w_objects w) (tus_chunks i (w_db w))"
  have read: "wp (and_then (wrap ''read upload'' (ReadAll i)) (\<lambda>data.
           if int (length data) > maxSize h then ret (Inl ErrFileSizeLimit)
           else if cs \<noteq> [] \<and> (case th_checksum h cs of None \<Rightarrow> False | Some x \<Rightarrow> x \<noteq> th_hash h data)
           then ret (Inl (Msg ''checksum mismatch''))
           else save_upload h i u data)) Q w1"
    if w1: "looks w w1" and a: "accessAllowed h (tup_pubkey u)"
      and b: "th_moderation h \<longrightarrow> \<not> is_blocklisted (tup_pubkey u) (w_db w)" for w1
  proof -
    have l: "w_db w1 = w_db w" "w_objects w1 = w_objects w" using looks_simps [OF w1] by simp_all
    have inv1: "tus_inv w1" "tus_of i (w_db w1) = Some row" using inv row l by simp_all
    show ?thesis
      unfolding wp_and_then wp_wrap ReadAll_def
    proof (rule wp_mono [OF ReadFrom_spec [OF inv1]], simp, simp, elim conjE)
      fix r :: "bytes result" and w2
      assume w2: "looks w1 w2"
        and r: "\<forall>b. r = Inr b \<longrightarrow> 0 \<le> tu_offset row \<and> b = drop (nat 0) (tus_bytes (w_objects w1) (tus_chunks i (w_db w1)))"
      have l2: "looks w w2" by (rule looks_trans [OF w1 w2])
      have d: "data = ?data" if "r = Inr data" for data using r that l by simp
      show "(case case r of Inl e \<Rightarrow> Inl (Wrap ''read upload'' e) | Inr x \<Rightarrow> Inr x of Inl e \<Rightarrow> Q (Inl e)
        | Inr data \<Rightarrow> wp (if int (length data) > maxSize h then ret (Inl ErrFileSizeLimit)
           else if cs \<noteq> [] \<and> (case th_checksum h cs of None \<Rightarrow> False | Some x \<Rightarrow> x \<noteq> th_hash h data)
           then ret (Inl (Msg ''checksum mismatch''))
           else save_upload h i u data) Q) w2"
      proof (cases r)
        case (Inl e)
        then show ?thesis by (simp add: err [OF l2])
      next
        case (Inr data)
        then show ?thesis
          using save [OF l2] err [OF l2] a b d [OF Inr] by (auto simp: wp_ret finalizable_def not_less split: option.splits)
      qed
    qed
  qed
  show ?thesis
    unfolding finalizeUpload_def wp_bind
  proof (rule wp_mono [OF blocklistCheck_spec], elim conjE)
    fix r :: "bool result" and w1
    assume w1: "looks w w1" and r: "r = Inr False \<longrightarrow> th_moderation h \<longrightarrow> \<not> is_blocklisted (tup_pubkey u) (w_db w)"
    show "wp (case r of Inl _ \<Rightarrow> ret (Inl ErrTusBlocklistUnavailable)
     | Inr blocked \<Rightarrow>
         if blocked then ret (Inl ErrPubkeyBlocked)
         else if \<not> accessAllowed h (tup_pubkey u) then ret (Inl ErrTusAccessDenied)
         else and_then (wrap ''read upload'' (ReadAll i)) (\<lambda>data.
           if int (length data) > maxSize h then ret (Inl ErrFileSizeLimit)
           else if cs \<noteq> [] \<and> (case th_checksum h cs of None \<Rightarrow> False | Some x \<Rightarrow> x \<noteq> th_hash h data)
           then ret (Inl (Msg ''checksum mismatch''))
           else save_upload h i u data)) Q w1"
      using read [OF w1] r err [OF w1] by (cases r) (auto simp: wp_ret)
  qed
qed

text \<open>C27. Whichever calls fail: an upload is finalized only for a key that is neither blocklisted nor without access, within the
  size cap, and, with a checksum, only if it matches; what the key then owns, under their hash, are exactly the bytes
  received. An upload that is not finalized charges nobody and gives nobody a blob.
\<close>

theorem finalize_outcome:
  assumes "enc_ok (th_blobs h)" "db_inv (w_db w)" "w_saved w = None" "tus_inv w" "uploads w i = Some (pk, sz, bs)"
    and "run_state (finalizeUpload h i u cs) w = (r, w')"
  shows "db_inv (w_db w') \<and> (case r of
      Inl _ \<Rightarrow> failed_map (th_blobs h) (th_hash h bs) bs (int (length bs)) (owned (w_db w)) (owned (w_db w'))
        \<and> (\<forall>pk'. balance pk' (w_db w') = balance pk' (w_db w))
    | Inr _ \<Rightarrow> finalizable h u cs bs w
        \<and> (\<exists>ob. saved_map (th_blobs h) (tup_pubkey u) (th_hash h bs) bs (int (length bs)) ob (owned (w_db w)) (owned (w_db w'))))"
  (is "?Q r w'")
proof -
  obtain row where row: "tus_of i (w_db w) = Some row" "tus_bytes (w_objects w) (tus_chunks i (w_db w)) = bs"
    using assms(5) by (auto simp: uploads_of_def)
  have "wp (finalizeUpload h i u cs) ?Q w"
  proof (rule finalizeUpload_wp [OF assms(4) row(1)])
    fix e :: goerr and w1 assume "looks w w1"
    from looks_simps [OF this] assms(2) show "?Q (Inl e) w1" by (simp add: failed_map_def)
  next
    fix w1 assume w1: "looks w w1" and f: "finalizable h u cs (tus_bytes (w_objects w) (tus_chunks i (w_db w))) w"
    have d: "w_db w1 = w_db w" "w_saved w1 = None" using looks_simps [OF w1] assms(3) by simp_all
    have inv: "db_inv (w_db w1)" using assms(2) d by simp
    have "wp (save_upload h i u bs) ?Q w1"
      by (rule wp_mono [OF save_upload_spec [OF assms(1) inv d(2)]]) (use f d row(2) in \<open>auto split: sum.splits\<close>)
    then show "wp (save_upload h i u (tus_bytes (w_objects w) (tus_chunks i (w_db w)))) ?Q w1" unfolding row(2) .
  qed
  from wp_run [OF this assms(6)] show ?thesis .
qed

section \<open>Lengths\<close>

text \<open>Every upload holds at most the bytes it declared, and it declared at most the cap.\<close>

definition sized :: "int \<Rightarrow> tus_row list \<Rightarrow> bool" where
  "sized m us \<longleftrightarrow> list_all (\<lambda>u. tu_offset u \<le> tu_size u \<and> 0 \<le> tu_size u \<and> tu_size u \<le> m) us"

text \<open>The same, knowing the declared lengths of some uploads.\<close>

definition sized_at :: "int \<Rightarrow> (string \<Rightarrow> int option) \<Rightarrow> dbstate \<Rightarrow> bool" where
  "sized_at m I d \<longleftrightarrow> sized m (t_tus d) \<and> (\<forall>u \<in> set (t_tus d). \<forall>n. I (tu_id u) = Some n \<longrightarrow> tu_size u = n)"

lemma keeps_other_tables: "(\<And>d. t_tus (snd (f d)) = t_tus d) \<Longrightarrow> keeps (on_db (sized_at m I)) (exec_sql f)"
  by (rule keeps_exec) (simp add: db_keeps_def sized_at_def)

lemma tus_untouched [simp]:
  "t_tus (snd (q_GetBlobFromHash h d)) = t_tus d" "t_tus (snd (q_HasBlobReference pk h d)) = t_tus d"
  "t_tus (snd (q_LockBlobRow h d)) = t_tus d" "t_tus (snd (q_CreateBlobReference pk h t d)) = t_tus d"
  "t_tus (snd (q_IncrementBlobRefCount h d)) = t_tus d" "t_tus (snd (q_InsertBlob b d)) = t_tus d"
  "t_tus (snd (q_GetOrCreateUser pk q1 q2 q3 d)) = t_tus d" "t_tus (snd (q_IncrementUserUsage k t pk d)) = t_tus d"
  "t_tus (snd (q_IsBlocked pk d)) = t_tus d" "t_tus (snd (q_GetTusUpload i d)) = t_tus d"
  "t_tus (snd (q_GetTusUploadChunks i d)) = t_tus d" "t_tus (snd (q_CreateTusUploadChunk ch d)) = t_tus d"
  "t_tus (snd (q_DeleteTusUploadChunks i d)) = t_tus d"
  by (simp_all add: q_GetBlobFromHash_def q_HasBlobReference_def q_LockBlobRow_def q_CreateBlobReference_def
      q_IncrementBlobRefCount_def q_InsertBlob_def q_GetOrCreateUser_def q_IncrementUserUsage_def q_IsBlocked_def
      add_ref_count_def q_GetTusUpload_def q_GetTusUploadChunks_def q_CreateTusUploadChunk_def q_DeleteTusUploadChunks_def update_user_def Let_def
      split: option.split)

lemma sized_filter: "sized m us \<Longrightarrow> sized m (filter P us)"
  by (auto simp: sized_def list_all_iff)

lemma keeps_tus_queries:
  "keeps (on_db (sized_at m I)) (exec_sql (delete_tus P))"
  "I i = Some n \<Longrightarrow> new \<le> n \<Longrightarrow> keeps (on_db (sized_at m I)) (exec_sql (q_AdvanceTusUploadOffset i old new e))"
  "(\<And>n. I (tu_id u) = Some n \<Longrightarrow> tu_size u = n) \<Longrightarrow> sized m [u] \<Longrightarrow> keeps (on_db (sized_at m I)) (exec_sql (q_CreateTusUpload u))"
proof -
  show "keeps (on_db (sized_at m I)) (exec_sql (delete_tus P))"
    by (rule keeps_exec) (simp add: db_keeps_def sized_at_def sized_filter delete_tus_def)
  show "keeps (on_db (sized_at m I)) (exec_sql (q_AdvanceTusUploadOffset i old new e))" if "I i = Some n" "new \<le> n"
  proof (rule keeps_exec, unfold db_keeps_def, intro allI impI)
    fix d assume d: "sized_at m I d"
    define f where "f u = (if tu_id u = i \<and> tu_offset u = old then u\<lparr>tu_offset := new, tu_expires := e\<rparr> else u)" for u :: tus_row
    have f: "tu_offset (f u) \<le> tu_size (f u)" "tu_size (f u) = tu_size u" "tu_id (f u) = tu_id u"
      and u: "0 \<le> tu_size u" "tu_size u \<le> m" "\<And>n. I (tu_id u) = Some n \<Longrightarrow> tu_size u = n" if "u \<in> set (t_tus d)" for u
      using d that \<open>I i = Some n\<close> \<open>new \<le> n\<close> by (auto simp: sized_at_def sized_def list_all_iff f_def)
    have "t_tus (snd (q_AdvanceTusUploadOffset i old new e d)) = map f (t_tus d)"
      by (simp add: q_AdvanceTusUploadOffset_def update_where_def f_def)
    then show "sized_at m I (snd (q_AdvanceTusUploadOffset i old new e d))"
      unfolding sized_at_def sized_def list_all_iff using f u by auto
  qed
  show "keeps (on_db (sized_at m I)) (exec_sql (q_CreateTusUpload u))" if "\<And>n. I (tu_id u) = Some n \<Longrightarrow> tu_size u = n" "sized m [u]"
    using that by (intro keeps_exec) (auto simp: db_keeps_def sized_at_def q_CreateTusUpload_def sized_def)
qed

lemma keeps_sized_shared [keeps_rule]:
  "keeps (on_db (sized_at m I)) (SaveWithDedup c pk h url sz mime blob t mode)"
  "keeps (on_db (sized_at m I)) (IncrementUsage q pk k)" "keeps (on_db (sized_at m I)) (CheckQuota q pk k)"
  "keeps (on_db (sized_at m I)) (blocklistCheck hn pk)" "keeps (on_db (sized_at m I)) (tus_Get ts j)"
  "keeps (on_db (sized_at m I)) (removeObjects ks)"
proof -
  show "keeps (on_db (sized_at m I)) (removeObjects ks)" by (induction ks) (auto intro!: keeps_rule)
qed (unfold SaveWithDedup_def save_new_def Save_def seal_blob_def seal_server_def Encrypt_def read_random_def HasReference_def addReference_def
    IncrementUsage_def CheckQuota_def GetOrCreateUser_def blocklistCheck_def IsBlocked_def tus_Get_def Let_def,
    (intro keeps_rule keeps_other_tables; simp)+)

lemma keeps_sized_store [keeps_rule]:
  "keeps (on_db (sized_at m I)) (tus_Delete j)" "keeps (on_db (sized_at m I)) (ReadFrom j start)"
  "keeps (on_db (sized_at m I)) (put_chunk c j old data)"
  "I i = Some n \<Longrightarrow> int (length data) \<le> n - old \<Longrightarrow> 0 \<le> old \<Longrightarrow> n < 2 ^ 63 \<Longrightarrow> keeps (on_db (sized_at m I)) (AppendChunk c i old data)"
proof -
  have rows: "keeps (on_db (sized_at m I)) (read_rows start ks p buf)" for ks p buf
    by (induction ks arbitrary: p buf) (auto simp: Let_def tus_readChunk_def intro!: keeps_rule)
  show "keeps (on_db (sized_at m I)) (ReadFrom j start)"
    unfolding ReadFrom_def by (intro keeps_rule rows keeps_other_tables) simp
  show "keeps (on_db (sized_at m I)) (tus_Delete j)"
    unfolding tus_Delete_def store_deleteUpload_def delete_tus_row
    by (intro keeps_rule keeps_tus_queries keeps_other_tables) simp
  have put: "keeps (on_db (sized_at m I)) (put_chunk c j old data)" for j old data
    unfolding put_chunk_def tusChunkKey_def by (intro keeps_rule)
  then show "keeps (on_db (sized_at m I)) (put_chunk c j old data)" .
  assume len: "I i = Some n" "int (length data) \<le> n - old" "0 \<le> old" "n < 2 ^ 63"
  then have new: "i64 (old + int (length data)) \<le> n" by (simp add: in_i64_def)
  show "keeps (on_db (sized_at m I)) (AppendChunk c i old data)"
    unfolding AppendChunk_def finish_chunk_def recordChunk_def Let_def
    by (intro keeps_rule put keeps_tus_queries(2) [where I = I and i = i, OF len(1) new] keeps_other_tables) simp
qed

lemma keeps_sized_handlers [keeps_rule]:
  "keeps (on_db (sized_at m I)) (save_upload h j u data)" "keeps (on_db (sized_at m I)) (finalizeUpload h j u cs)"
  "keeps (on_db (sized_at m I)) (tus_finish h j u cs k)" "keeps (on_db (sized_at m I)) (matchStoredTail b u off)"
  by (unfold tus_finish_def finalizeUpload_def save_upload_def CheckUpload_def checkDailyRoom_def RecordUpload_def ReadAll_def
      matchStoredTail_def read_body_def Let_def; intro keeps_rule)+

lemma keeps_sized_append [keeps_rule]:
  assumes "I (tup_id u) = Some (tup_size u)" "0 \<le> off" "0 \<le> tup_size u" "tup_size u < 2 ^ 63" "off < 2 ^ 63"
  shows "keeps (on_db (sized_at m I)) (appendBody h b u off)"
proof -
  have r: "i64 (tup_size u - off) = tup_size u - off" using assms by (simp add: in_i64_def)
  show ?thesis
    unfolding appendBody_def Let_def r using assms
    by (auto intro!: keeps_rule split: sum.split)
qed

lemma ParseInt_range: "ParseInt s = (n, False) \<Longrightarrow> in_i64 n"
  by (auto simp: ParseInt_def in_i64_def Let_def split: prod.splits option.splits if_splits)

lemma keeps_sized_write:
  assumes "I (tup_id u) = Some (tup_size u)" "0 \<le> off" "0 \<le> tup_size u" "tup_size u < 2 ^ 63" "off < 2 ^ 63"
  shows "keeps (on_db (sized_at m I)) (tus_write h i u off cs b)"
  unfolding tus_write_def Let_def by (intro keeps_rule assms)

text \<open>Creating and appending keep every upload within the length it declared, and that within the cap.\<close>

lemma tusPatch_sized:
  assumes d: "distinct (map tu_id (t_tus (w_db w)))" "sized_at m Map.empty (w_db w)" "w_saved w = None" and m: "m < 2 ^ 63"
  shows "wp (tusPatch h caller i ct off cs b) (\<lambda>_. on_db (sized_at m Map.empty)) w"
proof -
  let ?J = "on_db (sized_at m Map.empty)"
  obtain k failed where p: "ParseInt off = (k, failed)" by (cases "ParseInt off")
  have J: "?J w" using d by (simp add: on_db_def)
  have body: "wp (case r of
        Inl e \<Rightarrow> ret (answer (lookupErrorStatus e))
      | Inr u \<Rightarrow>
          if \<not> ownsUpload caller u then ret (answer 403)
          else do {
            t \<leftarrow> now;
            if Unix t > tup_expires u then do { _ \<leftarrow> tus_Delete i; ret (answer 410) }
            else tus_write h i u k (expectedChecksum cs) b
          }) (\<lambda>_. ?J) w1"
    if w1: "looks w w1" and r: "\<forall>u. r = Inr u \<longrightarrow> (\<exists>row. tus_of i (w_db w) = Some row \<and> info_of (th_store h) row u)"
      and k: "0 \<le> k" "k < 2 ^ 63" for r w1
  proof (cases r)
    case (Inl e)
    then show ?thesis using d looks_simps [OF w1] by (simp add: wp_ret on_db_def)
  next
    case (Inr u)
    then obtain row where row: "tus_of i (w_db w) = Some row" "info_of (th_store h) row u" using r by blast
    let ?I = "[i \<mapsto> tup_size u]"
    have mem: "row \<in> set (t_tus (w_db w))" "tu_id row = i" using tus_of_Some [OF row(1)] by simp_all
    have "v = row" if "v \<in> set (t_tus (w_db w))" "tu_id v = i" for v
      using tus_of_unique [OF d(1) that(1)] that(2) row(1) by simp
    then have "sized_at m ?I (w_db w)" using d(2) row(2) by (auto simp: sized_at_def info_of_def)
    then have w1: "on_db (sized_at m ?I) w1" using looks_simps [OF w1] d(3) by (simp add: on_db_def)
    have u: "?I (tup_id u) = Some (tup_size u)" "0 \<le> tup_size u" "tup_size u < 2 ^ 63"
      using d(2) row(2) mem m by (auto simp: sized_at_def info_of_def sized_def list_all_iff)
    have "keeps (on_db (sized_at m ?I)) (if \<not> ownsUpload caller u then ret (answer 403)
          else do {
            t \<leftarrow> now;
            if Unix t > tup_expires u then do { _ \<leftarrow> tus_Delete i; ret (answer 410) }
            else tus_write h i u k (expectedChecksum cs) b
          })"
      by (intro keeps_rule keeps_sized_write u k)
    from wp_mono [OF keepsD [OF this w1]] show ?thesis unfolding Inr sum.case by (auto simp: on_db_def sized_at_def)
  qed
  have ok: "0 \<le> k" "k < 2 ^ 63" if "\<not> (failed \<or> k < 0)" using that p ParseInt_range [of off k] by (auto simp: in_i64_def)
  show ?thesis
    unfolding tusPatch_def p prod.case wp_if wp_bind
    by (auto simp: wp_ret J intro!: wp_mono [OF tus_Get_spec] body ok)
qed

lemma keeps_sized_rest [keeps_rule]:
  "keeps (on_db (sized_at m I)) (tusHead h caller i)" "keeps (on_db (sized_at m I)) (tusDelete h caller i)"
  by (unfold tusHead_def tusDelete_def; intro keeps_rule)+

lemma keeps_both: "keeps P p \<Longrightarrow> keeps R p \<Longrightarrow> keeps (\<lambda>w. P w \<and> R w) p"
  unfolding keeps_def by (simp add: wp_conj)

lemma keeps_saved [keeps_rule]:
  "keeps (\<lambda>w. w_saved w = None) tick" "keeps (\<lambda>w. w_saved w = None) now" "keeps (\<lambda>w. w_saved w = None) (exec_sql f)"
  "keeps (\<lambda>w. w_saved w = None) (with_tx p)"
  "keeps (\<lambda>w. w_saved w = None) (State (\<lambda>w. (v w, w\<lparr>w_rng := g w\<rparr>)))"
  "keeps (\<lambda>w. w_saved w = None) (st_Put key data)" "keeps (\<lambda>w. w_saved w = None) (st_Delete key)"
  by (rule keepsI; auto simp: wp_simp with_tx_def wp_def [of p] intro!: wp_intro wp_tick split: prod.split)+

lemma keeps_saved_tus [keeps_rule]:
  "keeps (\<lambda>w. w_saved w = None) (CheckQuota q pk k)" "keeps (\<lambda>w. w_saved w = None) (blocklistCheck h pk)"
  "keeps (\<lambda>w. w_saved w = None) (tus_Create c u)" "keeps (\<lambda>w. w_saved w = None) (tus_Delete j)"
  "keeps (\<lambda>w. w_saved w = None) (appendBody h b u off)"
proof -
  have ks: "keeps (\<lambda>w. w_saved w = None) (removeObjects ks)" for ks by (induction ks) (auto intro!: keeps_rule)
  show "keeps (\<lambda>w. w_saved w = None) (CheckQuota q pk k)" "keeps (\<lambda>w. w_saved w = None) (blocklistCheck h pk)"
    "keeps (\<lambda>w. w_saved w = None) (tus_Create c u)" "keeps (\<lambda>w. w_saved w = None) (tus_Delete j)"
    "keeps (\<lambda>w. w_saved w = None) (appendBody h b u off)"
    by (unfold CheckQuota_def GetOrCreateUser_def blocklistCheck_def IsBlocked_def tus_Create_def tus_Delete_def
        store_deleteUpload_def appendBody_def AppendChunk_def put_chunk_def tusChunkKey_def finish_chunk_def recordChunk_def
        Let_def; intro keeps_rule ks)+
qed

abbreviation well_sized :: "int \<Rightarrow> world \<Rightarrow> bool" where
  "well_sized m w \<equiv> on_db (sized_at m Map.empty) w \<and> w_saved w = None"

lemma open_upload_sized:
  assumes "0 \<le> n" "n \<le> m" "m < 2 ^ 63"
  shows "keeps (well_sized m) (open_upload h pk n metadata len b)"
  unfolding open_upload_def Let_def
proof (rule keeps_bind [OF _ keeps_bind])
  show "keeps (well_sized m) (State (\<lambda>w. (th_uuid h (w_rng w), w\<lparr>w_rng := Suc (w_rng w)\<rparr>)))" "keeps (well_sized m) now"
    by (intro keeps_both keeps_rule)+
next
  fix i t
  let ?info = "\<lparr>tup_id = i, tup_pubkey = pk, tup_size = n, tup_offset = 0, tup_metadata = metadata,
                 tup_created = Unix t, tup_expires = Unix (t + TusUploadTTL)\<rparr>"
  let ?p = "do {
       x \<leftarrow> tus_Create (th_store h) ?info;
       case x of
         Inl _ \<Rightarrow> ret (answer 500)
       | Inr _ \<Rightarrow>
           if len > 0 then do {
             a \<leftarrow> appendBody h b ?info 0;
             case a of
               Inl e \<Rightarrow> do { _ \<leftarrow> tus_Delete i; ret (answer (chunk_error_answer e)) }
             | Inr offset \<Rightarrow> ret ((answer 201)\<lparr>ta_location := Some (th_cdn h @ ''/files/'' @ i), ta_offset := Some offset\<rparr>)
           }
           else ret ((answer 201)\<lparr>ta_location := Some (th_cdn h @ ''/files/'' @ i)\<rparr>)
     }"
  show "keeps (well_sized m) ?p"
  proof (rule keepsI, elim conjE)
    fix w assume w: "on_db (sized_at m Map.empty) w" "w_saved w = None"
    show "wp ?p (\<lambda>_. well_sized m) w"
    proof (cases "tus_of i (w_db w)")
      case None
      let ?I = "[i \<mapsto> n]"
      have "sized_at m ?I (w_db w)" using w(1) None by (auto simp: on_db_def sized_at_def tus_of_None)
      then have w': "on_db (sized_at m ?I) w \<and> w_saved w = None" using w(2) by (simp add: on_db_def)
      have create: "keeps (on_db (sized_at m ?I)) (tus_Create (th_store h) ?info)"
        unfolding tus_Create_def by (rule keeps_tus_queries(3)) (use assms in \<open>auto simp: sized_def\<close>)
      have "keeps (on_db (sized_at m ?I)) ?p" by (intro keeps_rule create) (use assms in simp_all)
      moreover have "keeps (\<lambda>w. w_saved w = None) ?p" by (intro keeps_rule)
      ultimately have "wp ?p (\<lambda>_ w. on_db (sized_at m ?I) w \<and> w_saved w = None) w" using w' by (intro wp_conj keepsD) simp_all
      then show ?thesis by (rule wp_mono) (auto simp: on_db_def sized_at_def)
    next
      case (Some u)
      then show ?thesis
        unfolding tus_Create_def wp_bind using w
        by (intro wp_exec) (auto simp: wp_ret q_CreateTusUpload_def on_db_def)
    qed
  qed
qed

lemma tusCreate_sized:
  assumes "m = maxSize h" "m < 2 ^ 63"
  shows "keeps (well_sized m) (tusCreate h caller len metadata contentLength b)"
proof -
  obtain n failed where p: "ParseInt len = (n, failed)" by (cases "ParseInt len")
  have q: "keeps (well_sized m) (CheckQuota q pk k)" "keeps (well_sized m) (blocklistCheck h pk)" for q pk k
    by (intro keeps_both keeps_rule)+
  have o: "\<not> (failed \<or> n < 0) \<Longrightarrow> \<not> n > maxSize h \<Longrightarrow> keeps (well_sized m) (open_upload h pk n metadata contentLength b)" for pk
    using assms by (intro open_upload_sized) auto
  show ?thesis
    unfolding tusCreate_def p prod.case
    by (auto split: option.split intro!: keeps_rule q o)
qed

text \<open>C28. Whatever requests say, creating and appending keep every upload within the length it declared and that within the cap.
\<close>

theorem lengths_bounded:
  assumes "distinct (map tu_id (t_tus (w_db w)))" "w_saved w = None" "sized (maxSize h) (t_tus (w_db w))" "maxSize h < 2 ^ 63"
    and "m \<in> {tusCreate h key len metadata contentLength b, tusHead h caller i, tusPatch h caller i ct off cs b, tusDelete h caller i}"
    and "run_state m w = (a, w')"
  shows "sized (maxSize h) (t_tus (w_db w'))"
proof -
  let ?m = "maxSize h"
  have w: "well_sized ?m w" "sized_at ?m Map.empty (w_db w)" using assms(2,3) by (simp_all add: on_db_def sized_at_def)
  have c: "wp (tusCreate h key len metadata contentLength b) (\<lambda>_. on_db (sized_at ?m Map.empty)) w"
    by (rule wp_mono [OF keepsD [OF tusCreate_sized [OF refl assms(4)] w(1)]]) simp
  have "wp m (\<lambda>_. on_db (sized_at ?m Map.empty)) w"
    using assms(5) c tusPatch_sized [OF assms(1) w(2) assms(2,4)] keepsD [OF keeps_sized_rest(1)] keepsD [OF keeps_sized_rest(2)] w(1)
    by blast
  from wp_run [OF this assms(6)] show ?thesis by (simp add: on_db_def sized_at_def)
qed

section \<open>Examples and shortcomings\<close>

definition tus_example :: tus_handler where
  "tus_example = \<lparr>th_blobs = plain_service, th_quota = Some (NewQuotaService True 100 100), th_moderation = True, th_acr = None,
     th_limits = None, th_store = example_store, th_cdn = ''http://cdn'', th_max = 10, th_media = sample_media,
     th_hash = (\<lambda>b. replicate (length b) CHR ''h''), th_checksum = (\<lambda>_. None), th_uuid = (\<lambda>_. ''u''), th_is_uuid = (\<lambda>_. True)\<rparr>"

lemma foreign_key_refused_witness:
  "w_db (snd (run_state (tusDelete tus_example ''bob'' ''u'') example_tus)) = w_db example_tus"
proof -
  have "tus_of ''u'' (w_db example_tus) = Some example_upload" by (simp add: example_tus_def tus_of_def example_upload_def)
  from foreign_key_refused [OF this _ _ run_pair, of "''bob''" "tusDelete tus_example ''bob'' ''u''" tus_example] show ?thesis
    by (simp add: example_upload_def)
qed

text \<open>An upload of two bytes, all received.\<close>

definition full_upload :: world where
  "full_upload = snd (run_state (AppendChunk example_store ''u'' 0 [7, 8])
     (start_world (empty_db\<lparr>t_tus := [example_upload\<lparr>tu_size := 2\<rparr>]\<rparr>)))"

lemma full_upload_facts: "w_saved full_upload = None" "tus_inv full_upload" "uploads full_upload ''u'' = Some (''alice'', 2, [7, 8])"
  "db_inv (w_db full_upload)"
proof -
  let ?w = "start_world (empty_db\<lparr>t_tus := [example_upload\<lparr>tu_size := 2\<rparr>]\<rparr>)"
  have ok: "store_ok example_store ?w"
    by (simp add: store_ok_def tus_state_def empty_db_def example_upload_def tus_chunks_def tus_keys_def)
  have r: "\<not> isl (fst (run_state (AppendChunk example_store ''u'' 0 [7, 8]) ?w))" by code_simp
  have u: "uploads ?w ''u'' = Some (''alice'', 2, [])" by code_simp
  have a: "store_ok example_store full_upload \<and> same_env ?w full_upload
    \<and> (case fst (run_state (AppendChunk example_store ''u'' 0 [7, 8]) ?w) of
      Inl _ \<Rightarrow> uploads full_upload = uploads ?w \<and> (quiet ?w \<longrightarrow> spec_append ''u'' 0 [7, 8] (uploads ?w) = None)
    | Inr n \<Rightarrow> n = 0 + int (length [7, 8 :: byte]) \<and> spec_append ''u'' 0 [7, 8] (uploads ?w) = Some (uploads full_upload))"
    unfolding full_upload_def by (rule wp_run [OF AppendChunk_spec [OF example_store_ok(1) ok] run_pair]) simp_all
  show "w_saved full_upload = None" "tus_inv full_upload" using a by (simp_all add: store_ok_def)
  show "uploads full_upload ''u'' = Some (''alice'', 2, [7, 8])"
    using a r u by (cases "fst (run_state (AppendChunk example_store ''u'' 0 [7, 8]) ?w)") (auto simp: spec_append_def dest: sym)
  have "t_blobs (w_db full_upload) = [] \<and> t_refs (w_db full_upload) = [] \<and> t_users (w_db full_upload) = []" by code_simp
  then show "db_inv (w_db full_upload)" by (simp add: db_inv_def db_keys_def ref_counts_def)
qed

lemma finalize_outcome_witness:
  "owns ''alice'' ''hh'' (owned (w_db (snd (run_state (finalizeUpload tus_example ''u''
     \<lparr>tup_id = ''u'', tup_pubkey = ''alice'', tup_size = 2, tup_offset = 2, tup_metadata = [], tup_created = 0, tup_expires = 9\<rparr> [])
     full_upload))))"
proof -
  let ?m = "finalizeUpload tus_example ''u''
     \<lparr>tup_id = ''u'', tup_pubkey = ''alice'', tup_size = 2, tup_offset = 2, tup_metadata = [], tup_created = 0, tup_expires = 9\<rparr> []"
  have "\<not> isl (fst (run_state ?m full_upload))" by code_simp
  from run_Inr [OF this] obtain x w' where r: "run_state ?m full_upload = (Inr x, w')" by blast
  have c: "enc_ok (th_blobs tus_example)" by (simp add: tus_example_def enc_ok_def plain_service_def)
  have h: "th_hash tus_example [7, 8] = ''hh''" by code_simp
  from finalize_outcome [OF c full_upload_facts(4,1,2,3) r] show ?thesis
    unfolding r snd_conv sum.case h by (auto dest: saved_owns)
qed

lemma lengths_bounded_witness:
  "sized 10 (t_tus (w_db (snd (run_state (tusPatch tus_example ''alice'' ''u'' ''application/offset+octet-stream'' ''0'' [] (Body [1, 2, 3, 4] None)) example_tus))))"
proof -
  have m: "maxSize tus_example = 10" by (simp add: maxSize_def tus_example_def)
  let ?p = "tusPatch tus_example ''alice'' ''u'' ''application/offset+octet-stream'' ''0'' [] (Body [1, 2, 3, 4] None)"
  have "sized (maxSize tus_example) (t_tus (w_db (snd (run_state ?p example_tus))))"
    by (rule lengths_bounded [OF _ _ _ _ _ run_pair, where m = ?p])
      (auto simp: m example_tus_def empty_db_def example_upload_def sized_def)
  then show ?thesis unfolding m .
qed

text \<open>A creation request that carries the whole file is answered with 201 and an offset equal to the length, so that a client
  takes the upload for complete; but no blob is stored and the upload stays. Only a further, empty append finishes it.
\<close>

theorem whole_file_at_creation_not_stored:
  "case run_state (tusCreate tus_example (Some ''alice'') ''2'' [] 2 (Body [7, 8] None)) (start_world empty_db) of (a, w) \<Rightarrow>
     ta_status a = 201 \<and> ta_offset a = Some 2 \<and> t_blobs (w_db w) = [] \<and> length (t_tus (w_db w)) = 1
     \<and> (case run_state (tusPatch tus_example ''alice'' ''u'' ''application/offset+octet-stream'' ''2'' [] (Body [] None)) w of (a, w) \<Rightarrow>
          ta_status a = 204 \<and> map b_hash (t_blobs (w_db w)) = [''hh''] \<and> t_tus (w_db w) = [])"
  by code_simp

definition removed_world :: world where
  "removed_world = full_upload\<lparr>w_db := snd (q_AddRemovedBlob ''hh'' ''illegal'' ''adm'' None 0 (w_db full_upload))\<rparr>"

text \<open>The tus path does not look at the removed hashes: a blob that moderation removed is stored again, where an upload with
  \<^verbatim>\<open>PUT /upload\<close> is refused.
\<close>

theorem tus_restores_removed_hash:
  "fst (q_IsHashRemoved ''hh'' (w_db removed_world)) = Inr True
     \<and> (case run_state (tusPatch tus_example ''alice'' ''u'' ''application/offset+octet-stream'' ''2'' [] (Body [] None)) removed_world of
          (a, w) \<Rightarrow> ta_status a = 204 \<and> map b_hash (t_blobs (w_db w)) = [''hh''] \<and> map r_pubkey (t_refs (w_db w)) = [''alice''])
     \<and> fst (run_state (UploadBlob open_services ''hh'' ''alice'' [7, 8] ''none'' []) removed_world) = Inl ErrHashRemoved"
  by code_simp

end
