(* ===== verification/Encoding.thy ===== *)
theory Encoding
  imports Encryption
begin

text \<open>
  Text encodings of the standard library: strings as bytes, the URL alphabet of base64 with and without padding
  (\<^verbatim>\<open>base64.URLEncoding\<close>, \<^verbatim>\<open>base64.RawURLEncoding\<close>), \<^verbatim>\<open>strings.Split\<close> and the decimal scan of \<^verbatim>\<open>fmt.Sscanf\<close>.
\<close>

section \<open>Strings and bytes\<close>

definition str_bytes :: "string \<Rightarrow> bytes" where
  "str_bytes s = map of_char s"

definition bytes_str :: "bytes \<Rightarrow> string" where
  "bytes_str bs = map (\<lambda>b. char_of (unat b)) bs"

lemma char_of_unat: "char_of (unat (of_char c :: byte)) = c"
proof -
  have "(of_char c :: byte) = word_of_nat (of_char c :: nat)" by (simp only: of_nat_of_char)
  moreover have "(of_char c :: nat) < 2 ^ LENGTH(8)"
    using of_char_of [of "of_char c :: nat"] mod_less_divisor [of 256 "of_char c :: nat"] by simp
  ultimately have "unat (of_char c :: byte) = (of_char c :: nat)" by (simp add: unat_of_nat take_bit_nat_eq_self del: of_nat_of_char)
  then show ?thesis by simp
qed

lemma bytes_str_inverse [simp]: "bytes_str (str_bytes s) = s"
  by (simp add: bytes_str_def str_bytes_def char_of_unat comp_def)

lemma str_bytes_eq [simp]: "str_bytes s = str_bytes t \<longleftrightarrow> s = t"
  using bytes_str_inverse [of s] bytes_str_inverse [of t] by metis

section \<open>Base64 for URLs\<close>

definition url_char :: "char \<Rightarrow> char" where
  "url_char c = (if c = CHR ''+'' then CHR ''-'' else if c = CHR ''/'' then CHR ''_'' else c)"

definition std_char :: "char \<Rightarrow> char" where
  "std_char c = (if c = CHR ''-'' then CHR ''+'' else if c = CHR ''_'' then CHR ''/''
     else if c = CHR ''+'' \<or> c = CHR ''/'' then CHR ''!'' else c)"

definition url_encode :: "bytes \<Rightarrow> string" where
  "url_encode bs = map url_char (b64_encode bs)"

definition url_decode :: "string \<Rightarrow> bytes option" where
  "url_decode s = b64_decode (map std_char s)"

definition raw_encode :: "bytes \<Rightarrow> string" where
  "raw_encode bs = filter (\<lambda>c. c \<noteq> CHR ''='') (url_encode bs)"

text \<open>Without padding, line breaks are skipped first and a padding character is an error.\<close>

definition pad4 :: "string \<Rightarrow> string" where
  "pad4 s = s @ replicate ((4 - length s mod 4) mod 4) CHR ''=''"

definition raw_decode :: "string \<Rightarrow> bytes option" where
  "raw_decode s =
     (let s = filter (\<lambda>c. c \<noteq> CHR 0x0A \<and> c \<noteq> CHR 0x0D) s
      in if CHR ''='' \<in> set s then None else url_decode (pad4 s))"

lemma url_std_char: "c \<in> set b64_alphabet \<union> {CHR ''=''} \<Longrightarrow> std_char (url_char c) = c"
  by (auto simp: std_char_def url_char_def b64_alphabet_def)

lemma b64_char_in: "n < 64 \<Longrightarrow> b64_char n \<in> set b64_alphabet"
  unfolding b64_char_def by (rule nth_mem) (simp add: b64_alphabet_def)

lemma b64_encode_chars: "set (b64_encode bs) \<subseteq> set b64_alphabet \<union> {CHR ''=''}"
  by (induction bs rule: b64_encode.induct) (auto simp: b64_char_in b64_byte)

lemma url_roundtrip: "url_decode (url_encode bs) = Some bs"
proof -
  have "map std_char (map url_char (b64_encode bs)) = map (\<lambda>c. c) (b64_encode bs)"
    unfolding map_map using b64_encode_chars [of bs] by (intro map_cong refl) (auto simp: url_std_char)
  then show ?thesis by (simp add: url_decode_def url_encode_def b64_roundtrip)
qed

lemma url_char_plain: "n < 64 \<Longrightarrow> url_char (b64_char n) \<noteq> CHR ''='' \<and> url_char (b64_char n) \<noteq> CHR 0x0A \<and> url_char (b64_char n) \<noteq> CHR 0x0D"
  by (auto simp: url_char_def)

lemma pad4_step: "pad4 (a # b # c # d # s) = a # b # c # d # pad4 s"
  by (simp add: pad4_def)

lemma pad_raw: "pad4 (filter (\<lambda>c. c \<noteq> CHR ''='') (map url_char (b64_encode bs))) = map url_char (b64_encode bs)"
proof (induction bs rule: b64_encode.induct)
  case (2 a)
  have "url_char CHR ''='' = CHR ''=''" by (simp add: url_char_def)
  then show ?case using url_char_plain by (simp add: b64_byte pad4_def numeral_2_eq_2)
next
  case (3 a b)
  have "url_char CHR ''='' = CHR ''=''" by (simp add: url_char_def)
  then show ?case using url_char_plain by (simp add: b64_byte pad4_def)
next
  case (4 a b c cs)
  then show ?case using url_char_plain by (simp add: b64_byte pad4_step)
qed (simp add: pad4_def)

lemma raw_encode_plain: "c \<in> set (raw_encode bs) \<Longrightarrow> c \<noteq> CHR ''='' \<and> c \<noteq> CHR 0x0A \<and> c \<noteq> CHR 0x0D"
  using b64_encode_chars [of bs] by (auto simp: raw_encode_def url_encode_def url_char_def b64_alphabet_def split: if_splits)

lemma raw_roundtrip: "raw_decode (raw_encode bs) = Some bs"
proof -
  have "filter (\<lambda>c. c \<noteq> CHR 0x0A \<and> c \<noteq> CHR 0x0D) (raw_encode bs) = raw_encode bs"
    using raw_encode_plain by (intro filter_True) blast
  moreover have "CHR ''='' \<notin> set (raw_encode bs)" using raw_encode_plain by blast
  moreover have "pad4 (raw_encode bs) = url_encode bs" using pad_raw by (simp add: raw_encode_def url_encode_def)
  ultimately show ?thesis by (simp add: raw_decode_def url_roundtrip)
qed

section \<open>Splitting and scanning\<close>

fun split_on :: "char \<Rightarrow> string \<Rightarrow> string list" where
  "split_on c [] = [[]]"
| "split_on c (x # xs) = (if x = c then [] # split_on c xs
     else (case split_on c xs of [] \<Rightarrow> [[x]] | y # ys \<Rightarrow> (x # y) # ys))"

lemma split_on_not_Nil [simp]: "split_on c s \<noteq> []"
  by (cases s) (auto split: list.split)

lemma split_on_plain: "c \<notin> set s \<Longrightarrow> split_on c s = [s]"
  by (induction s) auto

lemma split_on_append: "c \<notin> set s \<Longrightarrow> split_on c (s @ c # t) = s # split_on c t"
  by (induction s) auto

lemma split_on_3: "split_on c s = [x, y, z] \<Longrightarrow> s = x @ c # y @ c # z"
proof -
  have join: "concat (map (\<lambda>p. c # p) (split_on c s)) = c # s" for s
  proof (induction s)
    case (Cons x xs)
    then show ?case by (auto split: list.splits)
  qed simp
  assume "split_on c s = [x, y, z]"
  then show ?thesis using join [of s] by simp
qed

text \<open>\<^verbatim>\<open>fmt.Sscanf(s, "%d", &x)\<close> with an \<^verbatim>\<open>int64\<close> that was 0: leading spaces, a sign, the longest run of digits; what follows
  is ignored, and on an error (a line break before the digits is one) the variable stays 0. White space outside ASCII, which
  Go skips too, is taken for an error.\<close>

definition is_blank :: "char \<Rightarrow> bool" where
  "is_blank c \<longleftrightarrow> c = CHR '' '' \<or> c = CHR 0x09 \<or> c = CHR 0x0B \<or> c = CHR 0x0C \<or> c = CHR 0x0D"

definition scan_int :: "string \<Rightarrow> int" where
  "scan_int s =
     (let s = dropWhile is_blank s;
          (neg, ds) = (case s of [] \<Rightarrow> (False, [])
                       | c # cs \<Rightarrow> if c = CHR ''-'' then (True, cs) else if c = CHR ''+'' then (False, cs) else (False, s));
          (n, failed) = ParseInt ((if neg then ''-'' else []) @ takeWhile (\<lambda>c. digit_val c \<noteq> None) ds)
      in if failed then 0 else n)"

lemma digits_fmt: "\<forall>c \<in> set (fmt_nat n). digit_val c \<noteq> None"
proof (induction n rule: fmt_nat.induct)
  case (1 n)
  show ?case by (subst fmt_nat.simps) (use 1 in auto)
qed

lemma scan_FormatInt: "in_i64 x \<Longrightarrow> scan_int (FormatInt x) = x"
proof -
  assume x: "in_i64 x"
  obtain d cs where d: "d < 10" "fmt_nat (nat \<bar>x\<bar>) = digit d # cs" using fmt_nat_Cons by blast
  have dig: "\<not> is_blank (digit d)" using digit_val_digit [OF d(1)] by (auto simp: is_blank_def digit_val_def)
  have all: "takeWhile (\<lambda>c. digit_val c \<noteq> None) (fmt_nat n) = fmt_nat n" for n
    using digits_fmt by (simp add: takeWhile_eq_all_conv)
  have b: "\<not> is_blank CHR ''-''" by (simp add: is_blank_def)
  note p = ParseInt_FormatInt [OF x]
  show ?thesis
  proof (cases "x < 0")
    case True
    have "takeWhile (\<lambda>c. digit_val c \<noteq> None) (fmt_nat (nat (- x))) = fmt_nat (nat (- x))" by (rule all)
    then show ?thesis using True p b by (simp only: scan_int_def FormatInt_def Let_def) (simp del: not_None_eq takeWhile_eq_all_conv)
  next
    case False
    then have f: "FormatInt x = digit d # cs" using d(2) by (simp add: FormatInt_def)
    have "takeWhile (\<lambda>c. digit_val c \<noteq> None) (digit d # cs) = digit d # cs" using all [of "nat \<bar>x\<bar>"] d(2) by simp
    then show ?thesis using p f dig digit_no_sign [OF d(1)] by (simp add: scan_int_def Let_def del: not_None_eq)
  qed
qed

lemma FormatInt_no_colon: "CHR '':'' \<notin> set (FormatInt x)"
proof -
  have "digit_val CHR '':'' = None" by (simp add: digit_val_def)
  then have "CHR '':'' \<notin> set (fmt_nat n)" for n using digits_fmt [of n] by blast
  then show ?thesis by (simp add: FormatInt_def)
qed

end
