(* ===== verification/Auth.thy ===== *)
theory Auth
  imports Encoding
begin

text \<open>
  Request authentication (\<^verbatim>\<open>src/api/gin/auth_middleware.go\<close>): the checks of a kind-24242 \<^verbatim>\<open>Authorization\<close>
  header and the middleware of an endpoint. The JSON decoder and the signature check of the Nostr library are
  parameters. Instants are in nanoseconds; the clock is read three times, \<open>c 0\<close>, \<open>c 1\<close> and \<open>c 2\<close>.
\<close>

section \<open>Events and headers\<close>

record nostr_event =
  ev_pubkey :: string
  ev_kind :: int
  ev_created :: int
  ev_tags :: "string list list"

record nostr_lib =
  nl_parse :: "bytes \<Rightarrow> nostr_event option"
  nl_signed :: "nostr_event \<Rightarrow> bool"

record auth_tags =
  at_t :: string
  at_x :: string
  at_xs :: "string list"

text \<open>The header is refused with a reason, accepted, or its handling panics.\<close>

datatype 'a auth_outcome = Panic | Rejected string | Accepted 'a

type_synonym clock = "nat \<Rightarrow> int"

definition clockSkewTolerance :: int where "clockSkewTolerance = 60 * second"
definition maxAuthLifetime :: int where "maxAuthLifetime = 3600 * second"

text \<open>\<^verbatim>\<open>time.Unix(n, 0)\<close> counts seconds from the year 1 in an \<^verbatim>\<open>int64\<close> that wraps.\<close>

definition time_Unix :: "int \<Rightarrow> int" where
  "time_Unix n = (i64 (n + 62135596800) - 62135596800) * second"

definition auth_prefix :: string where
  "auth_prefix = ''Nostr ''"

definition has_prefix :: "string \<Rightarrow> string \<Rightarrow> bool" where
  "has_prefix s p \<longleftrightarrow> take (length p) s = p"

definition trim_prefix :: "string \<Rightarrow> string \<Rightarrow> string" where
  "trim_prefix s p = (if has_prefix s p then drop (length p) s else s)"

text \<open>The loop over the tags; reading the first element of an empty tag panics.\<close>

fun scan_tags :: "string list list \<Rightarrow> string \<times> auth_tags \<Rightarrow> (string \<times> auth_tags) option" where
  "scan_tags [] s = Some s"
| "scan_tags (tag # tags) (expi, at) =
     (case tag of
        [] \<Rightarrow> None
      | k # vs \<Rightarrow>
          (case vs of
             [v] \<Rightarrow> if k = ''expiration'' then scan_tags tags (v, at)
                    else if k = ''t'' then scan_tags tags (expi, at\<lparr>at_t := v\<rparr>)
                    else if k = ''x'' then scan_tags tags (expi, at\<lparr>at_x := v, at_xs := at_xs at @ [v]\<rparr>)
                    else scan_tags tags (expi, at)
           | _ \<Rightarrow> scan_tags tags (expi, at)))"

definition no_tags :: auth_tags where
  "no_tags = \<lparr>at_t = [], at_x = [], at_xs = []\<rparr>"

definition check_expiration :: "clock \<Rightarrow> nostr_event \<Rightarrow> string \<Rightarrow> auth_tags \<Rightarrow> (nostr_event \<times> auth_tags) auth_outcome" where
  "check_expiration c ev expi at =
     (if expi = [] \<or> at_t at = [] then Rejected ''missing expiration or t tag''
      else case ParseInt expi of (n, convErr) \<Rightarrow>
        if convErr then Rejected ''expiration tag is not a unix timestamp''
        else if time_Unix n < c 1 - clockSkewTolerance then Rejected ''expiration is in the past''
        else if time_Unix n > c 2 + (maxAuthLifetime + clockSkewTolerance) then Rejected ''expiration too far in the future''
        else Accepted (ev, at))"

definition verifyAuthHeader :: "nostr_lib \<Rightarrow> clock \<Rightarrow> string \<Rightarrow> (nostr_event \<times> auth_tags) auth_outcome" where
  "verifyAuthHeader lib c hdr =
     (if hdr = [] then Rejected ''missing Authorization header''
      else if \<not> has_prefix hdr auth_prefix then Rejected ''missing Nostr header prefix''
      else case b64_decode (trim_prefix hdr auth_prefix) of
        None \<Rightarrow> Rejected ''base64 decode failed''
      | Some eventBytes \<Rightarrow>
          (case nl_parse lib eventBytes of
             None \<Rightarrow> Rejected ''event json decode failed''
           | Some ev \<Rightarrow>
               if \<not> nl_signed lib ev then Rejected ''invalid event signature''
               else if ev_kind ev \<noteq> 24242 then Rejected ''wrong event kind (want 24242)''
               else if time_Unix (ev_created ev) > c 0 + clockSkewTolerance then Rejected ''created_at too far in the future''
               else (case scan_tags (ev_tags ev) ([], no_tags) of
                       None \<Rightarrow> Panic
                     | Some (expi, at) \<Rightarrow> check_expiration c ev expi at)))"

text \<open>The middleware of an endpoint: what it puts into the request context, the key and the \<^verbatim>\<open>x\<close> tags.\<close>

record auth_ctx =
  ac_pk :: string
  ac_x :: string
  ac_xs :: "string list"

definition nostrAuthMiddleware :: "nostr_lib \<Rightarrow> string \<Rightarrow> clock \<Rightarrow> string \<Rightarrow> auth_ctx auth_outcome" where
  "nostrAuthMiddleware lib action c hdr =
     (case verifyAuthHeader lib c hdr of
        Panic \<Rightarrow> Panic
      | Rejected r \<Rightarrow> Rejected r
      | Accepted (ev, at) \<Rightarrow>
          if at_t at \<noteq> action then Rejected ''t tag does not match endpoint action''
          else if action = ''upload'' \<and> at_x at = [] then Rejected ''upload requires x tag''
          else if action = ''delete'' \<and> at_x at = [] then Rejected ''delete requires x tag''
          else Accepted \<lparr>ac_pk = ev_pubkey ev, ac_x = at_x at, ac_xs = at_xs at\<rparr>)"

text \<open>The limiters ask for the verified signer of a request, none for a header that does not verify.\<close>

definition verifiedPubkey :: "nostr_lib \<Rightarrow> clock \<Rightarrow> string \<Rightarrow> string auth_outcome" where
  "verifiedPubkey lib c hdr =
     (if hdr = [] then Accepted []
      else case verifyAuthHeader lib c hdr of
             Panic \<Rightarrow> Panic
           | Rejected _ \<Rightarrow> Accepted []
           | Accepted (ev, _) \<Rightarrow> Accepted (ev_pubkey ev))"

section \<open>What an accepted header says\<close>

text \<open>The reference: the last value of a two-element tag, and every value in order.\<close>

definition tag_values :: "string \<Rightarrow> string list list \<Rightarrow> string list" where
  "tag_values k tags = map (\<lambda>tag. tag ! 1) (filter (\<lambda>tag. length tag = 2 \<and> tag ! 0 = k) tags)"

definition last_or_empty :: "string list \<Rightarrow> string" where
  "last_or_empty vs = (if vs = [] then [] else last vs)"

lemma tag_values_simps [simp]:
  "tag_values k [] = []"
  "tag_values k (tag # tags) = (if length tag = 2 \<and> tag ! 0 = k then tag ! 1 # tag_values k tags else tag_values k tags)"
  by (simp_all add: tag_values_def)

lemma last_or_empty_Cons: "(if vs = [] then v else last_or_empty vs) = last (v # vs)"
  by (simp add: last_or_empty_def)

definition scanned :: "string list list \<Rightarrow> string \<times> auth_tags \<Rightarrow> string \<times> auth_tags" where
  "scanned tags s =
     (last (fst s # tag_values ''expiration'' tags),
      \<lparr>at_t = last (at_t (snd s) # tag_values ''t'' tags), at_x = last (at_x (snd s) # tag_values ''x'' tags),
       at_xs = at_xs (snd s) @ tag_values ''x'' tags\<rparr>)"

lemma scan_tags_eq: "scan_tags tags s = (if [] \<in> set tags then None else Some (scanned tags s))"
proof (induction tags arbitrary: s)
  case Nil
  show ?case by (cases s) (simp add: scanned_def)
next
  case (Cons tag tags)
  obtain expi at where s: "s = (expi, at)" by (cases s)
  consider "tag = []" | k where "tag = [k]" | k v where "tag = [k, v]" | k v w ws where "tag = k # v # w # ws"
    by (metis list.exhaust)
  then show ?case by cases (simp_all add: s Cons.IH scanned_def)
qed

definition event_of :: "nostr_lib \<Rightarrow> string \<Rightarrow> nostr_event option" where
  "event_of lib hdr =
     (if has_prefix hdr auth_prefix then Option.bind (b64_decode (trim_prefix hdr auth_prefix)) (nl_parse lib) else None)"

definition expires_at :: "nostr_event \<Rightarrow> int" where
  "expires_at ev = time_Unix (fst (ParseInt (last_or_empty (tag_values ''expiration'' (ev_tags ev)))))"

definition well_tagged :: "nostr_event \<Rightarrow> string \<Rightarrow> bool" where
  "well_tagged ev action \<longleftrightarrow> [] \<notin> set (ev_tags ev)
     \<and> last_or_empty (tag_values ''expiration'' (ev_tags ev)) \<noteq> []
     \<and> \<not> snd (ParseInt (last_or_empty (tag_values ''expiration'' (ev_tags ev))))
     \<and> last_or_empty (tag_values ''t'' (ev_tags ev)) = action \<and> action \<noteq> []
     \<and> (action \<in> {''upload'', ''delete''} \<longrightarrow> last_or_empty (tag_values ''x'' (ev_tags ev)) \<noteq> [])"

definition timely :: "clock \<Rightarrow> nostr_event \<Rightarrow> bool" where
  "timely c ev \<longleftrightarrow> time_Unix (ev_created ev) \<le> c 0 + clockSkewTolerance
     \<and> c 1 - clockSkewTolerance \<le> expires_at ev \<and> expires_at ev \<le> c 2 + maxAuthLifetime + clockSkewTolerance"

lemma scan_start:
  "scan_tags tags ([], no_tags) =
     (if [] \<in> set tags then None
      else Some (last_or_empty (tag_values ''expiration'' tags),
        \<lparr>at_t = last_or_empty (tag_values ''t'' tags), at_x = last_or_empty (tag_values ''x'' tags), at_xs = tag_values ''x'' tags\<rparr>))"
  by (simp add: scan_tags_eq scanned_def no_tags_def last_or_empty_def)

definition verified_event :: "nostr_lib \<Rightarrow> clock \<Rightarrow> string \<Rightarrow> string \<Rightarrow> nostr_event \<Rightarrow> bool" where
  "verified_event lib c hdr action ev \<longleftrightarrow>
     event_of lib hdr = Some ev \<and> nl_signed lib ev \<and> ev_kind ev = 24242 \<and> timely c ev \<and> well_tagged ev action"

lemma verify_event: "verifyAuthHeader lib c hdr =
    (if hdr = [] then Rejected ''missing Authorization header''
     else if \<not> has_prefix hdr auth_prefix then Rejected ''missing Nostr header prefix''
     else case event_of lib hdr of
       None \<Rightarrow> Rejected (if b64_decode (trim_prefix hdr auth_prefix) = None then ''base64 decode failed'' else ''event json decode failed'')
     | Some ev \<Rightarrow>
         if \<not> nl_signed lib ev then Rejected ''invalid event signature''
         else if ev_kind ev \<noteq> 24242 then Rejected ''wrong event kind (want 24242)''
         else if time_Unix (ev_created ev) > c 0 + clockSkewTolerance then Rejected ''created_at too far in the future''
         else if [] \<in> set (ev_tags ev) then Panic
         else check_expiration c ev (last_or_empty (tag_values ''expiration'' (ev_tags ev)))
           \<lparr>at_t = last_or_empty (tag_values ''t'' (ev_tags ev)), at_x = last_or_empty (tag_values ''x'' (ev_tags ev)),
            at_xs = tag_values ''x'' (ev_tags ev)\<rparr>)"
  by (simp add: verifyAuthHeader_def event_of_def scan_start split: option.splits)

lemma check_expiration_accepted:
  "check_expiration c ev expi at = Accepted r \<longleftrightarrow>
     expi \<noteq> [] \<and> at_t at \<noteq> [] \<and> \<not> snd (ParseInt expi) \<and> c 1 - clockSkewTolerance \<le> time_Unix (fst (ParseInt expi))
     \<and> time_Unix (fst (ParseInt expi)) \<le> c 2 + maxAuthLifetime + clockSkewTolerance \<and> r = (ev, at)"
  by (cases "ParseInt expi") (auto simp: check_expiration_def)

lemma event_of_prefix: "event_of lib hdr = Some ev \<Longrightarrow> hdr \<noteq> [] \<and> has_prefix hdr auth_prefix"
  by (auto simp: event_of_def has_prefix_def auth_prefix_def split: if_splits)

lemma verify_accepted:
  "verifyAuthHeader lib c hdr = Accepted (ev, at) \<longleftrightarrow>
     event_of lib hdr = Some ev \<and> nl_signed lib ev \<and> ev_kind ev = 24242 \<and> timely c ev \<and> [] \<notin> set (ev_tags ev)
     \<and> last_or_empty (tag_values ''expiration'' (ev_tags ev)) \<noteq> []
     \<and> \<not> snd (ParseInt (last_or_empty (tag_values ''expiration'' (ev_tags ev))))
     \<and> last_or_empty (tag_values ''t'' (ev_tags ev)) \<noteq> []
     \<and> at = \<lparr>at_t = last_or_empty (tag_values ''t'' (ev_tags ev)), at_x = last_or_empty (tag_values ''x'' (ev_tags ev)),
            at_xs = tag_values ''x'' (ev_tags ev)\<rparr>"
proof (cases "event_of lib hdr")
  case None
  then show ?thesis by (simp add: verify_event)
next
  case (Some e)
  then show ?thesis using event_of_prefix [OF Some]
    by (auto simp: verify_event timely_def expires_at_def check_expiration_accepted)
qed

lemma middleware_cases:
  "nostrAuthMiddleware lib action c hdr = Accepted ctx \<longleftrightarrow>
     (\<exists>ev at. verifyAuthHeader lib c hdr = Accepted (ev, at) \<and> at_t at = action
        \<and> (action \<in> {''upload'', ''delete''} \<longrightarrow> at_x at \<noteq> [])
        \<and> ctx = \<lparr>ac_pk = ev_pubkey ev, ac_x = at_x at, ac_xs = at_xs at\<rparr>)"
  by (cases "verifyAuthHeader lib c hdr") (auto simp: nostrAuthMiddleware_def split: if_splits)

lemma middleware_accepted:
  "nostrAuthMiddleware lib action c hdr = Accepted ctx \<longleftrightarrow>
     (\<exists>ev. verified_event lib c hdr action ev
        \<and> ctx = \<lparr>ac_pk = ev_pubkey ev, ac_x = last_or_empty (tag_values ''x'' (ev_tags ev)), ac_xs = tag_values ''x'' (ev_tags ev)\<rparr>)"
  unfolding middleware_cases verify_accepted verified_event_def well_tagged_def by auto

section \<open>Properties\<close>

text \<open>C32. An endpoint accepts an \<^verbatim>\<open>Authorization\<close> header exactly when it is the base64 of an event of kind 24242 that
  carries a valid signature, is timely within the clock tolerance, has no empty tag, an expiration that is a number, the
  endpoint's verb as its last \<^verbatim>\<open>t\<close> tag and, for uploads and deletes, a non-empty last \<^verbatim>\<open>x\<close> tag; the handler then sees the
  signer's key and the event's \<^verbatim>\<open>x\<close> tags.\<close>
theorem auth_accepts_exactly:
  "nostrAuthMiddleware lib action c hdr = Accepted ctx \<longleftrightarrow>
     (\<exists>ev. verified_event lib c hdr action ev
        \<and> ctx = \<lparr>ac_pk = ev_pubkey ev, ac_x = last_or_empty (tag_values ''x'' (ev_tags ev)), ac_xs = tag_values ''x'' (ev_tags ev)\<rparr>)"
  by (rule middleware_accepted)

text \<open>C33. A header is good for one verb and one key, and only for a bounded time: whenever two requests are accepted with
  the same header, they are for the same verb, act for the same key, and the second is accepted at most one hour and two
  minutes after the first.\<close>
theorem auth_replay_window:
  assumes "nostrAuthMiddleware lib action c hdr = Accepted ctx" "nostrAuthMiddleware lib action' c' hdr = Accepted ctx'"
  shows "c' 1 \<le> c 2 + maxAuthLifetime + 2 * clockSkewTolerance \<and> action' = action \<and> ctx' = ctx"
  using assms unfolding middleware_accepted verified_event_def timely_def well_tagged_def by auto

definition example_event :: nostr_event where
  "example_event = \<lparr>ev_pubkey = ''alice'', ev_kind = 24242, ev_created = 1000,
     ev_tags = [[''t'', ''delete''], [''x'', ''h''], [''expiration'', ''1300'']]\<rparr>"

definition example_lib :: nostr_lib where
  "example_lib = \<lparr>nl_parse = (\<lambda>bs. if bs = str_bytes ''{}'' then Some example_event else None), nl_signed = (\<lambda>_. True)\<rparr>"

lemma auth_replay_window_witness:
  "(\<lambda>i. 1200 * second) 1 \<le> (\<lambda>i. 1000 * second) (2 :: nat) + maxAuthLifetime + 2 * clockSkewTolerance \<and> ''delete'' = ''delete''
     \<and> (\<lparr>ac_pk = ''alice'', ac_x = ''h'', ac_xs = [''h'']\<rparr> :: auth_ctx) = \<lparr>ac_pk = ''alice'', ac_x = ''h'', ac_xs = [''h'']\<rparr>"
proof (rule auth_replay_window)
  show "nostrAuthMiddleware example_lib ''delete'' (\<lambda>i. 1000 * second) (auth_prefix @ b64_encode (str_bytes ''{}''))
      = Accepted \<lparr>ac_pk = ''alice'', ac_x = ''h'', ac_xs = [''h'']\<rparr>"
    by code_simp
  show "nostrAuthMiddleware example_lib ''delete'' (\<lambda>i. 1200 * second) (auth_prefix @ b64_encode (str_bytes ''{}''))
      = Accepted \<lparr>ac_pk = ''alice'', ac_x = ''h'', ac_xs = [''h'']\<rparr>"
    by code_simp
qed

text \<open>A header whose event is signed, of the right kind and not from the future but has an empty tag makes the handling
  panic, at every endpoint and in the limiters, rather than being refused.\<close>
theorem empty_tag_panics:
  assumes "event_of lib hdr = Some ev" "nl_signed lib ev" "ev_kind ev = 24242"
    "time_Unix (ev_created ev) \<le> c 0 + clockSkewTolerance" "[] \<in> set (ev_tags ev)"
  shows "nostrAuthMiddleware lib action c hdr = Panic \<and> verifiedPubkey lib c hdr = Panic"
  using assms event_of_prefix [OF assms(1)] by (simp add: nostrAuthMiddleware_def verifiedPubkey_def verify_event)

definition hollow_lib :: nostr_lib where
  "hollow_lib = \<lparr>nl_parse = (\<lambda>_. Some (example_event\<lparr>ev_tags := [[]]\<rparr>)), nl_signed = (\<lambda>_. True)\<rparr>"

lemma empty_tag_panics_witness:
  "nostrAuthMiddleware hollow_lib ''list'' (\<lambda>_. 1000 * second) auth_prefix = Panic
     \<and> verifiedPubkey hollow_lib (\<lambda>_. 1000 * second) auth_prefix = Panic"
proof (rule empty_tag_panics)
  show "event_of hollow_lib auth_prefix = Some (example_event\<lparr>ev_tags := [[]]\<rparr>)" by code_simp
  show "nl_signed hollow_lib (example_event\<lparr>ev_tags := [[]]\<rparr>)" by code_simp
  show "ev_kind (example_event\<lparr>ev_tags := [[]]\<rparr>) = 24242" by code_simp
  show "time_Unix (ev_created (example_event\<lparr>ev_tags := [[]]\<rparr>)) \<le> (\<lambda>_. 1000 * second) 0 + clockSkewTolerance" by code_simp
  show "[] \<in> set (ev_tags (example_event\<lparr>ev_tags := [[]]\<rparr>))" by code_simp
qed

end
