(* ===== verification/AdminAuth.thy ===== *)
theory AdminAuth
  imports Auth
begin

text \<open>
  Operator sessions (\<^verbatim>\<open>src/api/gin/admin_auth.go\<close>): login with a signed Nostr event, signed session tokens with their
  in-memory cache, validation, logout, and the check of the operator routes (\<^verbatim>\<open>adminAuthMiddleware\<close> of
  \<^verbatim>\<open>admin_controller.go\<close>). The HMAC of the server's random key, in hexadecimal, is the parameter \<open>sign\<close>.
\<close>

section \<open>Sessions\<close>

record admin_session =
  as_pubkey :: string
  as_created :: int
  as_expires :: int

record admin_auth =
  aa_admin :: string
  aa_sign :: "string \<Rightarrow> string"
  aa_sessions :: "string \<Rightarrow> admin_session option"

definition NewAdminAuthManager :: "string \<Rightarrow> (string \<Rightarrow> string) \<Rightarrow> admin_auth" where
  "NewAdminAuthManager admin sign = \<lparr>aa_admin = admin, aa_sign = sign, aa_sessions = Map.empty\<rparr>"

definition session_data :: "string \<Rightarrow> string \<Rightarrow> string" where
  "session_data pk expiry = pk @ '':'' @ expiry"

definition session_token :: "(string \<Rightarrow> string) \<Rightarrow> string \<Rightarrow> string \<Rightarrow> string" where
  "session_token sign pk expiry = url_encode (str_bytes (session_data pk expiry @ '':'' @ sign (session_data pk expiry)))"

definition admin_CreateSession :: "clock \<Rightarrow> string \<Rightarrow> admin_auth \<Rightarrow> string \<times> admin_auth" where
  "admin_CreateSession c pk m =
     (let session = \<lparr>as_pubkey = pk, as_created = c 0, as_expires = c 1 + 24 * 3600 * second\<rparr>;
          token = session_token (aa_sign m) pk (FormatInt (Unix (as_expires session)))
      in (token, m\<lparr>aa_sessions := (aa_sessions m)(token \<mapsto> session)\<rparr>))"

definition InvalidateSession :: "string \<Rightarrow> admin_auth \<Rightarrow> admin_auth" where
  "InvalidateSession token m = m\<lparr>aa_sessions := (aa_sessions m)(token := None)\<rparr>"

definition verify_signature :: "admin_auth \<Rightarrow> string \<Rightarrow> string \<Rightarrow> bool" where
  "verify_signature m data signature \<longleftrightarrow> aa_sign m data = signature"

text \<open>A token that is not cached is accepted on its signature and cached; the time zero of Go is an absent creation time.\<close>

definition check_token :: "clock \<Rightarrow> string \<Rightarrow> admin_auth \<Rightarrow> admin_session result" where
  "check_token c token m =
     (case url_decode token of
        None \<Rightarrow> Inl (Msg ''invalid token format'')
      | Some decoded \<Rightarrow>
          (case split_on (CHR '':'') (bytes_str decoded) of
             [pk, expiryStr, sig] \<Rightarrow>
               if \<not> verify_signature m (session_data pk expiryStr) sig then Inl (Msg ''invalid token signature'')
               else let expiry = scan_int expiryStr in
                 if Unix (c 0) > expiry then Inl (Msg ''session expired'')
                 else if pk \<noteq> aa_admin m then Inl (Msg ''not an admin'')
                 else Inr \<lparr>as_pubkey = pk, as_created = - 62135596800 * second, as_expires = time_Unix expiry\<rparr>
           | _ \<Rightarrow> Inl (Msg ''invalid token structure'')))"

definition ValidateSession :: "clock \<Rightarrow> string \<Rightarrow> admin_auth \<Rightarrow> admin_session result \<times> admin_auth" where
  "ValidateSession c token m =
     (case aa_sessions m token of
        Some session \<Rightarrow>
          if c 0 > as_expires session then (Inl (Msg ''session expired''), InvalidateSession token m)
          else (Inr session, m)
      | None \<Rightarrow>
          (case check_token c token m of
             Inl e \<Rightarrow> (Inl e, m)
           | Inr session \<Rightarrow> (Inr session, m\<lparr>aa_sessions := (aa_sessions m)(token \<mapsto> session)\<rparr>)))"

section \<open>Login, logout and the checks of the routes\<close>

text \<open>The last value of a tag with at least two elements.\<close>

definition last_value :: "string \<Rightarrow> string list list \<Rightarrow> string" where
  "last_value k tags =
     fold (\<lambda>tag v. if length tag \<ge> 2 \<and> tag ! 0 = k then tag ! 1 else v) tags []"

definition VerifyNostrAdminAuth :: "nostr_lib \<Rightarrow> clock \<Rightarrow> string \<Rightarrow> admin_auth \<Rightarrow> string result" where
  "VerifyNostrAdminAuth lib c eventBase64 m =
     (case b64_decode eventBase64 of
        None \<Rightarrow> Inl (Msg ''invalid base64'')
      | Some eventBytes \<Rightarrow>
          (case nl_parse lib eventBytes of
             None \<Rightarrow> Inl (Msg ''invalid JSON'')
           | Some ev \<Rightarrow>
               if \<not> nl_signed lib ev then Inl (Msg ''invalid signature'')
               else if ev_kind ev \<noteq> 24242 then Inl (Msg ''invalid event kind'')
               else if time_Unix (ev_created ev) > c 0 then Inl (Msg ''event created_at is in the future'')
               else if last_value ''t'' (ev_tags ev) \<noteq> ''admin'' then Inl (Msg ''invalid action'')
               else if last_value ''expiration'' (ev_tags ev) = [] then Inl (Msg ''missing expiration tag'')
               else if Unix (c 1) > scan_int (last_value ''expiration'' (ev_tags ev)) then Inl (Msg ''auth event expired'')
               else if ev_pubkey ev \<noteq> aa_admin m then Inl (Msg ''not authorized: pubkey is not admin'')
               else Inr (ev_pubkey ev)))"

datatype login_answer = LoginInvalid | LoginRefused goerr | LoginOk string int string

text \<open>\<^verbatim>\<open>authEvent\<close> is what the JSON body binds, none when it does not parse.\<close>

definition adminLogin :: "nostr_lib \<Rightarrow> clock \<Rightarrow> string option \<Rightarrow> admin_auth \<Rightarrow> login_answer \<times> admin_auth" where
  "adminLogin lib c authEvent m =
     (case authEvent of
        None \<Rightarrow> (LoginInvalid, m)
      | Some e \<Rightarrow>
          if e = [] then (LoginInvalid, m)
          else (case VerifyNostrAdminAuth lib c e m of
                  Inl err \<Rightarrow> (LoginRefused err, m)
                | Inr pk \<Rightarrow>
                    (case admin_CreateSession (\<lambda>i. c (i + 2)) pk m of
                       (token, m') \<Rightarrow> (LoginOk token (Unix (c 4 + 24 * 3600 * second)) pk, m'))))"

record admin_request =
  rq_cookie :: "string option"
  rq_header :: string

definition bearer :: string where "bearer = ''Bearer ''"

definition session_of_request :: "admin_request \<Rightarrow> string" where
  "session_of_request r =
     (let token = (case rq_cookie r of Some t \<Rightarrow> t | None \<Rightarrow> [])
      in if token = [] \<and> has_prefix (rq_header r) bearer then trim_prefix (rq_header r) bearer else token)"

definition AdminSessionMiddleware :: "clock \<Rightarrow> admin_request \<Rightarrow> admin_auth \<Rightarrow> admin_session result \<times> admin_auth" where
  "AdminSessionMiddleware c r m =
     (if session_of_request r = [] then (Inl (Msg ''authentication required''), m)
      else case ValidateSession c (session_of_request r) m of
             (Inl _, m') \<Rightarrow> (Inl (Msg ''invalid or expired session''), m')
           | (Inr s, m') \<Rightarrow> (Inr s, m'))"

definition adminCheckSession :: "clock \<Rightarrow> admin_request \<Rightarrow> admin_auth \<Rightarrow> (string \<times> int) option \<times> admin_auth" where
  "adminCheckSession c r m =
     (if session_of_request r = [] then (None, m)
      else case ValidateSession c (session_of_request r) m of
             (Inl _, m') \<Rightarrow> (None, m')
           | (Inr s, m') \<Rightarrow> (Some (as_pubkey s, Unix (as_expires s)), m'))"

definition adminLogout :: "admin_request \<Rightarrow> admin_auth \<Rightarrow> admin_auth" where
  "adminLogout r m =
     (case rq_cookie r of
        None \<Rightarrow> m
      | Some token \<Rightarrow> if token \<noteq> [] then InvalidateSession token m else m)"

text \<open>The check of the federation and AI moderation routes reads the key an earlier middleware put into the context.\<close>

definition adminAuthMiddleware :: "string \<Rightarrow> string option \<Rightarrow> unit result" where
  "adminAuthMiddleware admin pk =
     (case pk of
        None \<Rightarrow> Inl (Msg ''unauthorized'')
      | Some p \<Rightarrow> if p \<noteq> admin then Inl (Msg ''admin access required'') else Inr ())"

section \<open>Tokens\<close>

definition no_colon :: "string \<Rightarrow> bool" where
  "no_colon s \<longleftrightarrow> CHR '':'' \<notin> set s"

definition hex_signatures :: "(string \<Rightarrow> string) \<Rightarrow> bool" where
  "hex_signatures sign \<longleftrightarrow> (\<forall>d. no_colon (sign d))"

lemma split_session:
  assumes "no_colon pk" "no_colon e" "no_colon sig"
  shows "split_on (CHR '':'') (session_data pk e @ '':'' @ sig) = [pk, e, sig]"
  using assms by (simp add: session_data_def no_colon_def split_on_append split_on_plain)

definition carries :: "string \<Rightarrow> (string \<Rightarrow> string) \<Rightarrow> string \<Rightarrow> string \<Rightarrow> bool" where
  "carries admin sign token e \<longleftrightarrow>
     map_option bytes_str (url_decode token) = Some (session_data admin e @ '':'' @ sign (session_data admin e))"

lemma session_token_carries: "carries pk sign (session_token sign pk e) e"
  by (simp add: carries_def session_token_def url_roundtrip)

lemma check_token_accepts:
  assumes "check_token c token m = Inr s"
  obtains e where "carries (aa_admin m) (aa_sign m) token e" "Unix (c 0) \<le> scan_int e"
    "as_pubkey s = aa_admin m" "as_expires s = time_Unix (scan_int e)"
proof -
  obtain d where d: "url_decode token = Some d" using assms by (auto simp: check_token_def split: option.splits)
  then obtain pk e sig where p: "split_on (CHR '':'') (bytes_str d) = [pk, e, sig]"
    using assms by (auto simp: check_token_def split: list.splits)
  have "aa_sign m (session_data pk e) = sig" "Unix (c 0) \<le> scan_int e" "pk = aa_admin m"
    "as_pubkey s = aa_admin m" "as_expires s = time_Unix (scan_int e)"
    using assms by (auto simp: check_token_def d p verify_signature_def Let_def split: if_splits)
  moreover have "bytes_str d = session_data pk e @ '':'' @ sig" using split_on_3 [OF p] by (simp add: session_data_def)
  ultimately show thesis using d by (intro that) (auto simp: carries_def)
qed

lemma check_token_session:
  assumes "no_colon pk" "no_colon e" "no_colon (aa_sign m (session_data pk e))" "pk = aa_admin m" "Unix (c 0) \<le> scan_int e"
  shows "check_token c (session_token (aa_sign m) pk e) m
    = Inr \<lparr>as_pubkey = pk, as_created = - 62135596800 * second, as_expires = time_Unix (scan_int e)\<rparr>"
  using assms split_session [OF assms(1-3)]
  by (simp add: check_token_def session_token_def url_roundtrip verify_signature_def)

section \<open>Reachable managers\<close>

definition sane_clock :: "clock \<Rightarrow> bool" where
  "sane_clock c \<longleftrightarrow> (\<forall>i. 0 \<le> c i \<and> c i < 2 ^ 62)"

inductive admin_step :: "nostr_lib \<Rightarrow> admin_auth \<Rightarrow> admin_auth \<Rightarrow> bool" for lib where
  login: "sane_clock c \<Longrightarrow> admin_step lib m (snd (adminLogin lib c authEvent m))"
| guarded: "sane_clock c \<Longrightarrow> admin_step lib m (snd (AdminSessionMiddleware c r m))"
| session_check: "sane_clock c \<Longrightarrow> admin_step lib m (snd (adminCheckSession c r m))"
| logout: "admin_step lib m (adminLogout r m)"

definition genuine :: "string \<Rightarrow> (string \<Rightarrow> string) \<Rightarrow> string \<Rightarrow> admin_session \<Rightarrow> bool" where
  "genuine admin sign token s \<longleftrightarrow> as_pubkey s = admin
     \<and> (\<exists>e. carries admin sign token e \<and> (\<forall>t. t \<le> as_expires s \<longrightarrow> Unix t \<le> scan_int e))"

definition manager_inv :: "string \<Rightarrow> (string \<Rightarrow> string) \<Rightarrow> admin_auth \<Rightarrow> bool" where
  "manager_inv admin sign m \<longleftrightarrow> aa_admin m = admin \<and> aa_sign m = sign
     \<and> (\<forall>token s. aa_sessions m token = Some s \<longrightarrow> genuine admin sign token s)"

lemma in_i64_scan: "in_i64 (scan_int e)"
proof -
  have "in_i64 (if failed then 0 else n)" if "ParseInt s = (n, failed)" for s n failed
    using that by (auto simp: ParseInt_def in_i64_def Let_def split: list.splits option.splits prod.splits if_splits)
  then show ?thesis unfolding scan_int_def Let_def by (auto split: prod.split)
qed

lemma time_Unix_le: "in_i64 e \<Longrightarrow> t \<le> time_Unix e \<Longrightarrow> Unix t \<le> e"
proof -
  assume e: "in_i64 e" and t: "t \<le> time_Unix e"
  have "i64 (e + 62135596800) \<le> e + 62135596800"
  proof (cases "e + 62135596800 \<le> 9223372036854775807")
    case True
    then show ?thesis using e by (simp add: i64_id in_i64_def)
  next
    case False
    then show ?thesis using i64_range [of "e + 62135596800"] by (simp add: in_i64_def)
  qed
  then have "t \<le> e * second" using t by (simp add: time_Unix_def second_def)
  then show ?thesis using zdiv_mono1 [of t "e * second" "10 ^ 9"] by (simp add: Unix_def second_def)
qed

lemma genuine_checked: "check_token c token m = Inr s \<Longrightarrow> genuine (aa_admin m) (aa_sign m) token s"
  by (elim check_token_accepts) (auto simp: genuine_def intro: time_Unix_le in_i64_scan)

lemma in_i64_expiry: "sane_clock c \<Longrightarrow> in_i64 (Unix (c 1 + 24 * 3600 * second))"
  by (simp add: sane_clock_def in_i64_def Unix_def second_def) (smt (verit) pos_imp_zdiv_nonneg_iff int_div_less_self)

lemma genuine_created:
  assumes "sane_clock c" "admin_CreateSession c pk m = (token, m')"
  shows "\<exists>s. aa_sessions m' = (aa_sessions m)(token \<mapsto> s) \<and> genuine pk (aa_sign m) token s
     \<and> aa_admin m' = aa_admin m \<and> aa_sign m' = aa_sign m"
proof -
  let ?x = "c 1 + 24 * 3600 * second"
  have "in_i64 (Unix ?x)" by (rule in_i64_expiry [OF assms(1)])
  then have "t \<le> ?x \<Longrightarrow> Unix t \<le> scan_int (FormatInt (Unix ?x))" for t
    by (simp add: scan_FormatInt Unix_def zdiv_mono1)
  then have "genuine pk (aa_sign m) (session_token (aa_sign m) pk (FormatInt (Unix ?x)))
      \<lparr>as_pubkey = pk, as_created = c 0, as_expires = ?x\<rparr>"
    using session_token_carries unfolding genuine_def by fastforce
  then show ?thesis using assms(2) unfolding admin_CreateSession_def Let_def by fastforce
qed

lemma VerifyNostrAdminAuth_admin: "VerifyNostrAdminAuth lib c e m = Inr pk \<Longrightarrow> pk = aa_admin m"
  by (auto simp: VerifyNostrAdminAuth_def split: option.splits if_splits)

lemma inv_invalidate: "manager_inv admin sign m \<Longrightarrow> manager_inv admin sign (InvalidateSession t m)"
  by (auto simp: manager_inv_def InvalidateSession_def)

lemma inv_validate:
  assumes "manager_inv admin sign m" "ValidateSession c token m = (r, m')"
  shows "manager_inv admin sign m' \<and> (\<forall>s. r = Inr s \<longrightarrow> genuine admin sign token s)"
  using assms inv_invalidate [OF assms(1), of token] genuine_checked [of c token m]
  by (auto simp: ValidateSession_def manager_inv_def split: option.splits if_splits sum.splits)

lemma inv_login:
  assumes "manager_inv admin sign m" "sane_clock c"
  shows "manager_inv admin sign (snd (adminLogin lib c a m))"
proof -
  have sane: "sane_clock (\<lambda>i. c (i + 2))" using assms(2) by (simp add: sane_clock_def)
  have "manager_inv admin sign m'" if "admin_CreateSession (\<lambda>i. c (i + 2)) pk m = (token, m')" "pk = aa_admin m" for pk token m'
    using genuine_created [OF sane that(1)] assms(1) that(2) by (auto simp: manager_inv_def split: if_splits)
  then show ?thesis using assms(1) VerifyNostrAdminAuth_admin [of lib c _ m]
    by (fastforce simp: adminLogin_def split: option.splits sum.splits prod.splits)
qed

lemma inv_step:
  assumes "admin_step lib m m'" "manager_inv admin sign m"
  shows "manager_inv admin sign m'"
  using assms
proof cases
  case (login c a)
  then show ?thesis using inv_login assms(2) by simp
next
  case (guarded c r)
  then show ?thesis using assms(2) inv_validate [OF assms(2), of c "session_of_request r"]
    by (auto simp: AdminSessionMiddleware_def split: prod.splits sum.splits)
next
  case (session_check c r)
  then show ?thesis using assms(2) inv_validate [OF assms(2), of c "session_of_request r"]
    by (auto simp: adminCheckSession_def split: prod.splits sum.splits)
next
  case (logout r)
  then show ?thesis using assms(2) inv_invalidate by (auto simp: adminLogout_def split: option.splits)
qed

lemma inv_reachable:
  "(admin_step lib)\<^sup>*\<^sup>* (NewAdminAuthManager admin sign) m \<Longrightarrow> manager_inv admin sign m"
  by (induction rule: rtranclp_induct) (simp add: manager_inv_def NewAdminAuthManager_def, rule inv_step)

section \<open>Properties\<close>

lemma ValidateSession_genuine:
  assumes "manager_inv admin sign m" "ValidateSession c token m = (Inr s, m')"
  shows "as_pubkey s = admin \<and> (\<exists>e. carries admin sign token e \<and> Unix (c 0) \<le> scan_int e)"
proof (cases "aa_sessions m token")
  case None
  then have "check_token c token m = Inr s" using assms(2) by (auto simp: ValidateSession_def split: sum.splits)
  then show ?thesis using assms(1) by (elim check_token_accepts) (auto simp: manager_inv_def)
next
  case (Some s')
  then have "s' = s" "c 0 \<le> as_expires s" using assms(2) by (auto simp: ValidateSession_def split: if_splits)
  then show ?thesis using inv_validate [OF assms] by (auto simp: genuine_def)
qed

text \<open>C34. After any sequence of logins, requests and logouts, the session middleware in front of the operator routes lets a
  request through only if its cookie or bearer token carries the server's signature over the administrator's key and an
  expiry that has not passed, and the session it hands on is the administrator's. A request without a token, or with any
  other token, cached or not, is answered 401.\<close>
theorem admin_tokens_authentic:
  assumes "(admin_step lib)\<^sup>*\<^sup>* (NewAdminAuthManager admin sign) m" "AdminSessionMiddleware c r m = (decision, m')"
  shows "(case decision of
      Inr s \<Rightarrow> session_of_request r \<noteq> [] \<and> as_pubkey s = admin
        \<and> (\<exists>e. carries admin sign (session_of_request r) e \<and> Unix (c 0) \<le> scan_int e)
    | Inl e \<Rightarrow> e = Msg (if session_of_request r = [] then ''authentication required'' else ''invalid or expired session''))"
proof (cases decision)
  case (Inl e)
  then show ?thesis using assms(2) by (auto simp: AdminSessionMiddleware_def split: if_splits prod.splits sum.splits)
next
  case (Inr s)
  then have "session_of_request r \<noteq> []" "ValidateSession c (session_of_request r) m = (Inr s, m')"
    using assms(2) by (auto simp: AdminSessionMiddleware_def split: if_splits prod.splits sum.splits)
  then show ?thesis using ValidateSession_genuine [OF inv_reachable [OF assms(1)]] by (simp add: Inr)
qed

text \<open>Logging out does not end a session: a token that a login issued is accepted again, and cached again, by the first
  request that presents it after the logout, until the expiry written into it.\<close>
theorem logout_does_not_revoke:
  assumes "hex_signatures (aa_sign m)" "no_colon (aa_admin m)" "sane_clock c"
    "admin_CreateSession c (aa_admin m) m = (token, m1)" "token \<noteq> []"
    "Unix (c' 0) \<le> Unix (c 1 + 24 * 3600 * second)"
    "m2 = adminLogout \<lparr>rq_cookie = Some token, rq_header = []\<rparr> m1"
  shows "aa_sessions m2 token = None
     \<and> (\<exists>s. fst (AdminSessionMiddleware c' \<lparr>rq_cookie = Some token, rq_header = []\<rparr> m2) = Inr s \<and> as_pubkey s = aa_admin m
         \<and> aa_sessions (snd (AdminSessionMiddleware c' \<lparr>rq_cookie = Some token, rq_header = []\<rparr> m2)) token = Some s)"
proof -
  let ?e = "Unix (c 1 + 24 * 3600 * second)"
  have e: "scan_int (FormatInt ?e) = ?e" by (rule scan_FormatInt) (rule in_i64_expiry [OF assms(3)])
  have m2: "aa_admin m2 = aa_admin m" "aa_sign m2 = aa_sign m" "aa_sessions m2 token = None"
    and tok: "token = session_token (aa_sign m) (aa_admin m) (FormatInt ?e)"
    using assms(4,5,7) by (auto simp: admin_CreateSession_def adminLogout_def InvalidateSession_def Let_def)
  have "check_token c' token m2 = Inr \<lparr>as_pubkey = aa_admin m, as_created = - 62135596800 * second, as_expires = time_Unix ?e\<rparr>"
    unfolding tok m2(2) [symmetric] using assms(1,2,6) e FormatInt_no_colon [of ?e]
    by (subst check_token_session) (simp_all add: m2 hex_signatures_def no_colon_def)
  then show ?thesis using assms(5) m2(3)
    by (simp add: AdminSessionMiddleware_def session_of_request_def ValidateSession_def)
qed

definition admin_lib :: nostr_lib where
  "admin_lib = \<lparr>nl_parse = (\<lambda>_. Some \<lparr>ev_pubkey = ''alice'', ev_kind = 24242, ev_created = 1000,
     ev_tags = [[''t'', ''admin''], [''expiration'', ''1300'']]\<rparr>), nl_signed = (\<lambda>_. True)\<rparr>"

definition admin_manager :: admin_auth where
  "admin_manager = NewAdminAuthManager ''alice'' (\<lambda>_. ''00'')"

definition admin_token :: string where
  "admin_token = fst (admin_CreateSession (\<lambda>_. 1000 * second) ''alice'' admin_manager)"

definition token_holder :: admin_auth where
  "token_holder = snd (admin_CreateSession (\<lambda>_. 1000 * second) ''alice'' admin_manager)"

definition logged_in :: admin_auth where
  "logged_in = snd (adminLogin admin_lib (\<lambda>_. 1000 * second) (Some ''AAAA'') admin_manager)"

definition cookie_request :: admin_request where
  "cookie_request = \<lparr>rq_cookie = Some admin_token, rq_header = []\<rparr>"

lemma sane_example: "sane_clock (\<lambda>_. 1000 * second)"
  by (simp add: sane_clock_def second_def)

lemma logged_in_eq: "logged_in = token_holder"
proof -
  have "VerifyNostrAdminAuth admin_lib (\<lambda>_. 1000 * second) ''AAAA'' admin_manager = Inr ''alice''" by code_simp
  then show ?thesis
    by (simp add: logged_in_def token_holder_def adminLogin_def split: prod.split)
qed

lemma admin_token_cached:
  "aa_sessions token_holder admin_token
     = Some \<lparr>as_pubkey = ''alice'', as_created = 1000 * second, as_expires = 1000 * second + 24 * 3600 * second\<rparr>"
  by (simp add: token_holder_def admin_token_def admin_CreateSession_def Let_def)

lemma session_token_not_Nil: "session_token sign pk e \<noteq> []"
proof
  assume "session_token sign pk e = []"
  then have "url_decode [] = Some (str_bytes (session_data pk e @ '':'' @ sign (session_data pk e)))"
    using url_roundtrip unfolding session_token_def by metis
  then show False by (simp add: url_decode_def b64_decode_def str_bytes_def)
qed

lemma admin_tokens_authentic_witness:
  "isl (fst (AdminSessionMiddleware (\<lambda>_. 2000 * second) \<lparr>rq_cookie = None, rq_header = ''Bearer x''\<rparr> logged_in))
   \<and> (\<exists>e. carries ''alice'' (\<lambda>_. ''00'') admin_token e \<and> Unix (2000 * second) \<le> scan_int e)"
proof
  have reach: "(admin_step admin_lib)\<^sup>*\<^sup>* (NewAdminAuthManager ''alice'' (\<lambda>_. ''00'')) logged_in"
    unfolding logged_in_def admin_manager_def by (rule r_into_rtranclp, rule admin_step.login, rule sane_example)
  have token: "session_of_request cookie_request = admin_token" "admin_token \<noteq> []"
    by (simp_all add: cookie_request_def session_of_request_def admin_token_def admin_CreateSession_def Let_def session_token_not_Nil)
  have "AdminSessionMiddleware (\<lambda>_. 2000 * second) cookie_request logged_in
      = (Inr \<lparr>as_pubkey = ''alice'', as_created = 1000 * second, as_expires = 1000 * second + 24 * 3600 * second\<rparr>, logged_in)"
    by (simp add: logged_in_eq AdminSessionMiddleware_def ValidateSession_def token admin_token_cached second_def)
  from admin_tokens_authentic [OF reach this]
  show "\<exists>e. carries ''alice'' (\<lambda>_. ''00'') admin_token e \<and> Unix (2000 * second) \<le> scan_int e" by (simp add: token)
  have x: "session_of_request \<lparr>rq_cookie = None, rq_header = ''Bearer x''\<rparr> = ''x''"
    by (simp add: session_of_request_def bearer_def has_prefix_def trim_prefix_def)
  have "\<not> carries ''alice'' (\<lambda>_. ''00'') ''x'' e" for e
  proof -
    have "url_decode ''x'' = None" by code_simp
    then show ?thesis by (simp add: carries_def)
  qed
  then show "isl (fst (AdminSessionMiddleware (\<lambda>_. 2000 * second) \<lparr>rq_cookie = None, rq_header = ''Bearer x''\<rparr> logged_in))"
    using admin_tokens_authentic [OF reach surjective_pairing, where c = "\<lambda>_. 2000 * second" and r = "\<lparr>rq_cookie = None, rq_header = ''Bearer x''\<rparr>"]
    by (auto simp: x split: sum.splits)
qed

lemma logout_does_not_revoke_witness:
  "aa_sessions (adminLogout cookie_request token_holder) admin_token = None
     \<and> (\<exists>s. fst (AdminSessionMiddleware (\<lambda>_. 2000 * second) cookie_request (adminLogout cookie_request token_holder)) = Inr s
         \<and> as_pubkey s = aa_admin admin_manager
         \<and> aa_sessions (snd (AdminSessionMiddleware (\<lambda>_. 2000 * second) cookie_request (adminLogout cookie_request token_holder)))
             admin_token = Some s)"
proof -
  have m: "aa_admin admin_manager = ''alice''" "aa_sign admin_manager = (\<lambda>_. ''00'')"
    by (simp_all add: admin_manager_def NewAdminAuthManager_def)
  have hex: "hex_signatures (aa_sign admin_manager)" by (simp add: m hex_signatures_def no_colon_def)
  have plain: "no_colon (aa_admin admin_manager)" by (simp add: m no_colon_def)
  have made: "admin_CreateSession (\<lambda>_. 1000 * second) (aa_admin admin_manager) admin_manager = (admin_token, token_holder)"
    by (simp add: m admin_token_def token_holder_def)
  have some: "admin_token \<noteq> []" by (simp add: admin_token_def admin_CreateSession_def Let_def session_token_not_Nil)
  have early: "Unix (2000 * second) \<le> Unix (1000 * second + 24 * 3600 * second)" by code_simp
  from logout_does_not_revoke [OF hex plain sane_example made some early refl]
  show ?thesis unfolding cookie_request_def .
qed

end
