(* ===== verification/UrlSign.thy ===== *)
theory UrlSign
  imports Encoding
begin

text \<open>
  Signed links of the media mirror (\<^verbatim>\<open>src/src/pkg/urlsign/urlsign.go\<close>). HMAC-SHA256, a function of key and message,
  is the parameter \<open>hmac\<close>; instants are in nanoseconds.
\<close>

section \<open>Signing\<close>

type_synonym hmac = "bytes \<Rightarrow> bytes \<Rightarrow> bytes"

datatype sign_error = ErrBadSignature | ErrExpired | ErrMalformed | ErrNoKey | ErrShortKey nat | ErrNegativeTTL

record signer =
  sg_key :: bytes
  sg_ttl :: int

definition MinKeyLength :: nat where "MinKeyLength = 32"

definition NewSigner :: "string \<Rightarrow> int \<Rightarrow> sign_error + signer" where
  "NewSigner key ttl =
     (if key = [] then Inl ErrNoKey
      else if length key < MinKeyLength then Inl (ErrShortKey (length key))
      else if ttl < 0 then Inl ErrNegativeTTL
      else Inr \<lparr>sg_key = str_bytes key, sg_ttl = ttl\<rparr>)"

definition TTL :: "signer \<Rightarrow> int" where
  "TTL s = sg_ttl s"

definition signed_message :: "string \<Rightarrow> int \<Rightarrow> string" where
  "signed_message url expiresAt = url @ [CHR 0x0A] @ FormatInt expiresAt"

definition mac :: "hmac \<Rightarrow> signer \<Rightarrow> string \<Rightarrow> int \<Rightarrow> bytes" where
  "mac hmac s url expiresAt = hmac (sg_key s) (str_bytes (signed_message url expiresAt))"

definition Sign :: "hmac \<Rightarrow> signer \<Rightarrow> int \<Rightarrow> string \<Rightarrow> int \<times> string" where
  "Sign hmac s t url =
     (let expiresAt = (if sg_ttl s > 0 then Unix (t + sg_ttl s) else 0)
      in (expiresAt, raw_encode (mac hmac s url expiresAt)))"

definition unix_time :: "int \<Rightarrow> int" where
  "unix_time n = (i64 (n + 62135596800) - 62135596800) * 10 ^ 9"

definition Verify :: "hmac \<Rightarrow> signer \<Rightarrow> int \<Rightarrow> string \<Rightarrow> int \<Rightarrow> string \<Rightarrow> sign_error option" where
  "Verify hmac s t url expiresAt signature =
     (case raw_decode signature of
        None \<Rightarrow> Some ErrMalformed
      | Some got \<Rightarrow>
          if mac hmac s url expiresAt \<noteq> got then Some ErrBadSignature
          else if expiresAt \<noteq> 0 \<and> t > unix_time expiresAt then Some ErrExpired
          else None)"

definition EncodeURL :: "string \<Rightarrow> string" where
  "EncodeURL url = raw_encode (str_bytes url)"

definition DecodeURL :: "string \<Rightarrow> sign_error + string" where
  "DecodeURL encoded = (case raw_decode encoded of None \<Rightarrow> Inl ErrMalformed | Some b \<Rightarrow> Inr (bytes_str b))"

section \<open>Properties\<close>

definition no_newline :: "string \<Rightarrow> bool" where
  "no_newline s \<longleftrightarrow> CHR 0x0A \<notin> set s"

lemma FormatInt_no_newline: "CHR 0x0A \<notin> set (FormatInt x)"
proof -
  have "digit_val CHR 0x0A = None" by (simp add: digit_val_def)
  then have "CHR 0x0A \<notin> set (fmt_nat n)" for n using digits_fmt [of n] by blast
  then show ?thesis by (simp add: FormatInt_def)
qed

lemma FormatInt_inject: "in_i64 x \<Longrightarrow> in_i64 y \<Longrightarrow> FormatInt x = FormatInt y \<Longrightarrow> x = y"
  using scan_FormatInt by metis

text \<open>The signed message determines the link and its expiry.\<close>

lemma signed_message_inject:
  assumes "no_newline u" "no_newline v" "in_i64 x" "in_i64 y" "signed_message u x = signed_message v y"
  shows "u = v \<and> x = y"
proof -
  have "split_on CHR 0x0A (signed_message w z) = [w, FormatInt z]" if "no_newline w" for w z
    using that FormatInt_no_newline [of z] by (simp add: signed_message_def no_newline_def split_on_append split_on_plain)
  then show ?thesis using assms FormatInt_inject by (metis list.inject)
qed

text \<open>A signature made for a link and an expiry verifies for another link and expiry only if the HMAC gives both their
  messages the same code and the expiry has not passed; and the messages are the same only if link and expiry are: the
  newline keeps them apart. So a signed link verifies until it expires, and nothing else does short of an HMAC collision.\<close>
theorem link_signature_exact:
  assumes "no_newline u" "no_newline v" "in_i64 e" "Sign hmac s t u = (x, sig)" "in_i64 x"
  shows "(Verify hmac s t' v e sig = None \<longleftrightarrow>
            hmac (sg_key s) (str_bytes (signed_message v e)) = hmac (sg_key s) (str_bytes (signed_message u x))
            \<and> (e = 0 \<or> t' \<le> unix_time e))
     \<and> (signed_message v e = signed_message u x \<longleftrightarrow> v = u \<and> e = x)"
proof -
  have sig: "raw_decode sig = Some (mac hmac s u x)" using assms(4) by (auto simp: Sign_def Let_def raw_roundtrip)
  have "signed_message v e = signed_message u x \<longleftrightarrow> v = u \<and> e = x"
    using signed_message_inject [OF assms(2,1,3,5)] by blast
  then show ?thesis by (auto simp: Verify_def sig mac_def)
qed

definition plain_signer :: signer where
  "plain_signer = \<lparr>sg_key = [], sg_ttl = 0\<rparr>"

lemma link_signature_exact_witness:
  "(Verify (\<lambda>k m. rev m) plain_signer 5 ''b'' 0 (snd (Sign (\<lambda>k m. rev m) plain_signer 1 ''a'')) = None \<longleftrightarrow>
      rev (str_bytes (signed_message ''b'' 0)) = rev (str_bytes (signed_message ''a'' 0)) \<and> ((0 :: int) = 0 \<or> 5 \<le> unix_time 0))
   \<and> (signed_message ''b'' 0 = signed_message ''a'' 0 \<longleftrightarrow> ''b'' = ''a'' \<and> (0 :: int) = 0)"
  by (rule link_signature_exact) (simp_all add: no_newline_def in_i64_def Sign_def plain_signer_def)

text \<open>The transport encoding of a link loses nothing: what \<^verbatim>\<open>EncodeURL\<close> writes, \<^verbatim>\<open>DecodeURL\<close> reads back.\<close>
theorem link_transport_roundtrip:
  "DecodeURL (EncodeURL url) = Inr url"
  by (simp add: DecodeURL_def EncodeURL_def raw_roundtrip)

end
