(* ===== verification/Batch.thy ===== *)
theory Batch
  imports UploadRules Expiration
begin

text \<open>
  Batch operations (\<^verbatim>\<open>src/src/service/batch_service.go\<close>, the checks of \<^verbatim>\<open>src/api/gin/batch_controller.go\<close>):
  several uploads, deletes, status lookups or an archive in one request, and the table of jobs. The archive is the list
  of its entries; that the zip and tar writers of the standard library put an entry into the buffer is not modelled.
\<close>

section \<open>Requests and answers\<close>

record batch_config =
  bc_max_upload_files :: nat
  bc_max_download_files :: nat
  bc_max_delete_files :: nat
  bc_max_upload_bytes :: int
  bc_max_file_bytes :: int
  bc_job_ttl :: int

definition DefaultBatchConfig :: batch_config where
  "DefaultBatchConfig = \<lparr>bc_max_upload_files = 50, bc_max_download_files = 100, bc_max_delete_files = 100,
     bc_max_upload_bytes = 500 * 1024 * 1024, bc_max_file_bytes = 0, bc_job_ttl = 24 * 3600 * second\<rparr>"

record batch_file =
  bf_name :: string
  bf_mime :: string
  bf_size :: int
  bf_read :: "bytes result"

record batch_item =
  bi_index :: nat
  bi_hash :: string
  bi_name :: string
  bi_success :: bool
  bi_error :: "goerr option"
  bi_size :: int
  bi_mime :: string
  bi_url :: string

record batch_request =
  br_pubkey :: string
  br_files :: "batch_file list"
  br_mode :: string
  br_expires_in :: int
  br_allowed :: "string list option"

record batch_response =
  bp_total :: nat
  bp_success :: nat
  bp_failure :: nat
  bp_results :: "batch_item list"

definition blank_item :: "nat \<Rightarrow> batch_item" where
  "blank_item i = \<lparr>bi_index = i, bi_hash = [], bi_name = [], bi_success = False, bi_error = None, bi_size = 0,
                   bi_mime = [], bi_url = []\<rparr>"

definition refused :: "batch_item \<Rightarrow> goerr \<Rightarrow> batch_item" where
  "refused item e = item\<lparr>bi_success := False, bi_error := Some e\<rparr>"

definition respond :: "batch_item list \<Rightarrow> batch_response" where
  "respond items = \<lparr>bp_total = length items, bp_success = length (filter bi_success items),
     bp_failure = length (filter (\<lambda>x. \<not> bi_success x) items), bp_results = items\<rparr>"

section \<open>Upload\<close>

definition batch_mode :: "string \<Rightarrow> string" where
  "batch_mode m = (if m = [] then ''none'' else m)"

text \<open>One file: the item of the answer and the bytes to charge for it.\<close>

definition batch_store ::
  "services \<Rightarrow> bool \<Rightarrow> batch_request \<Rightarrow> int \<Rightarrow> batch_item \<Rightarrow> string \<Rightarrow> bytes \<Rightarrow> (batch_item \<times> int) prog" where
  "batch_store c expiring req t item stored data = do {
     r \<leftarrow> SaveWithDedup (sv_blobs c) (br_pubkey req) (bi_hash item) (sv_cdn c @ ''/'' @ bi_hash item) (int (length data))
            stored data t (batch_mode (br_mode req));
     case r of
       Inl e \<Rightarrow> ret (refused item (Wrap ''failed to save'' e), 0)
     | Inr (desc, newReference) \<Rightarrow> do {
         _ \<leftarrow> RecordUpload (sv_limits c) (br_pubkey req);
         _ \<leftarrow> (if br_expires_in req > 0 \<and> expiring
               then SetExpirationTTL (bi_hash item) (i64 (br_expires_in req * second)) else ret (Inr ()));
         ret (item\<lparr>bi_success := True, bi_size := d_size desc, bi_mime := d_type desc, bi_url := d_url desc\<rparr>,
              if newReference then d_size desc else 0)
       }
   }"

definition batch_upload_one ::
  "services \<Rightarrow> batch_config \<Rightarrow> bool \<Rightarrow> batch_request \<Rightarrow> int \<Rightarrow> nat \<Rightarrow> batch_file \<Rightarrow> (batch_item \<times> int) prog" where
  "batch_upload_one c bc expiring req t i file =
     (let item = (blank_item i)\<lparr>bi_name := bf_name file\<rparr> in
      case bf_read file of
        Inl e \<Rightarrow> ret (refused item (Wrap ''failed to read file'' e), 0)
      | Inr data \<Rightarrow>
          if bc_max_file_bytes bc > 0 \<and> int (length data) > bc_max_file_bytes bc then ret (refused item ErrFileSizeLimit, 0)
          else let stored = Resolve (sv_media c) data (bf_mime file) in do {
            l \<leftarrow> CheckUpload (sv_limits c) (br_pubkey req) stored (int (length data));
            case l of
              Inl e \<Rightarrow> ret (refused item e, 0)
            | Inr _ \<Rightarrow>
                let item = item\<lparr>bi_hash := sv_hash c data\<rparr> in
                if br_allowed req \<noteq> None \<and> sv_hash c data \<notin> set (the (br_allowed req))
                then ret (refused item (Msg ''auth token does not authorize uploading this file''), 0)
                else batch_store c expiring req t item stored data
          })"

fun batch_upload_all ::
  "services \<Rightarrow> batch_config \<Rightarrow> bool \<Rightarrow> batch_request \<Rightarrow> int \<Rightarrow> nat \<Rightarrow> batch_file list \<Rightarrow> (batch_item list \<times> int) prog" where
  "batch_upload_all c bc expiring req t i [] = ret ([], 0)"
| "batch_upload_all c bc expiring req t i (file # files) = do {
     (item, n) \<leftarrow> batch_upload_one c bc expiring req t i file;
     (items, rest) \<leftarrow> batch_upload_all c bc expiring req t (i + 1) files;
     ret (item # items, i64 (n + rest))
   }"

definition batch_Upload :: "services \<Rightarrow> batch_config \<Rightarrow> bool \<Rightarrow> batch_request \<Rightarrow> batch_response result prog" where
  "batch_Upload c bc expiring req =
     (if br_files req = [] then ret (Inl (Msg ''no files provided''))
      else if length (br_files req) > bc_max_upload_files bc then ret (Inl (Msg ''too many files''))
      else let totalSize = foldl (\<lambda>s f. i64 (s + bf_size f)) 0 (br_files req) in
        if totalSize > bc_max_upload_bytes bc then ret (Inl (Msg ''total size exceeds max''))
        else and_then (wrap ''quota check failed'' (if qs_enabled (sv_quota c) then CheckQuota (sv_quota c) (br_pubkey req) totalSize
                                                    else ret (Inr ()))) (\<lambda>_. do {
          t \<leftarrow> now;
          (items, chargeSize) \<leftarrow> batch_upload_all c bc expiring req (Unix t) 0 (br_files req);
          _ \<leftarrow> (if qs_enabled (sv_quota c) \<and> chargeSize > 0 then IncrementUsage (sv_quota c) (br_pubkey req) chargeSize
                else ret (Inr ()));
          ret (Inr (respond items))
        }))"

section \<open>Delete\<close>

definition batch_delete_one :: "services \<Rightarrow> string \<Rightarrow> nat \<Rightarrow> string \<Rightarrow> (batch_item \<times> int) prog" where
  "batch_delete_one c pk i h =
     (let item = (blank_item i)\<lparr>bi_hash := h\<rparr> in do {
        has \<leftarrow> HasReference pk h;
        case has of
          Inl e \<Rightarrow> ret (refused item (Wrap ''failed to check reference'' e), 0)
        | Inr has \<Rightarrow>
            if \<not> has then ret (refused item (Msg ''not found or not authorized''), 0)
            else do {
              g \<leftarrow> GetFromHash (sv_blobs c) h;
              let blobSize = (case g of Inl _ \<Rightarrow> 0 | Inr blob \<Rightarrow> d_size blob);
              r \<leftarrow> DeleteReference (sv_blobs c) pk h;
              case r of
                Inl e \<Rightarrow> if errors_is e ErrReferenceNotFound then ret (refused item (Msg ''not found or not authorized''), 0)
                         else ret (refused item (Wrap ''failed to delete'' e), 0)
              | Inr _ \<Rightarrow> ret (item\<lparr>bi_success := True, bi_size := blobSize\<rparr>, blobSize)
            }
      })"

fun batch_delete_all :: "services \<Rightarrow> string \<Rightarrow> nat \<Rightarrow> string list \<Rightarrow> (batch_item list \<times> int) prog" where
  "batch_delete_all c pk i [] = ret ([], 0)"
| "batch_delete_all c pk i (h # hs) = do {
     (item, n) \<leftarrow> batch_delete_one c pk i h;
     (items, rest) \<leftarrow> batch_delete_all c pk (i + 1) hs;
     ret (item # items, i64 (n + rest))
   }"

definition batch_Delete :: "services \<Rightarrow> batch_config \<Rightarrow> string \<Rightarrow> string list \<Rightarrow> batch_response result prog" where
  "batch_Delete c bc pk hs =
     (if hs = [] then ret (Inl (Msg ''no hashes provided''))
      else if length hs > bc_max_delete_files bc then ret (Inl (Msg ''too many files''))
      else do {
        (items, totalFreedSize) \<leftarrow> batch_delete_all c pk 0 hs;
        _ \<leftarrow> (if qs_enabled (sv_quota c) \<and> totalFreedSize > 0 then DecrementUsage pk totalFreedSize else ret (Inr ()));
        ret (Inr (respond items))
      })"

section \<open>Download and status\<close>

definition extensions :: "(string \<times> string) list" where
  "extensions = [(''image/jpeg'', ''.jpg''), (''image/png'', ''.png''), (''image/gif'', ''.gif''), (''image/webp'', ''.webp''),
     (''image/svg+xml'', ''.svg''), (''video/mp4'', ''.mp4''), (''video/webm'', ''.webm''), (''video/quicktime'', ''.mov''),
     (''audio/mpeg'', ''.mp3''), (''audio/wav'', ''.wav''), (''audio/ogg'', ''.ogg''), (''application/pdf'', ''.pdf''),
     (''text/plain'', ''.txt''), (''text/html'', ''.html''), (''text/css'', ''.css''), (''application/json'', ''.json''),
     (''application/xml'', ''.xml'')]"

definition addExtension :: "string \<Rightarrow> string \<Rightarrow> string" where
  "addExtension name mime = (case map_of extensions mime of Some ext \<Rightarrow> name @ ext | None \<Rightarrow> name)"

type_synonym entry = "string \<times> bytes"

text \<open>One blob of the archive: its entry holds the object as the storage backend has it.\<close>

definition archive_one :: "services \<Rightarrow> nat \<Rightarrow> string \<Rightarrow> (entry option \<times> batch_item) prog" where
  "archive_one c i h =
     (let item = (blank_item i)\<lparr>bi_hash := h\<rparr> in do {
        g \<leftarrow> GetFromHash (sv_blobs c) h;
        case g of
          Inl e \<Rightarrow> ret (None, refused item (Wrap ''blob not found'' e))
        | Inr blob \<Rightarrow> do {
            r \<leftarrow> st_Get h;
            case r of
              Inl e \<Rightarrow> ret (None, refused item (Wrap ''failed to read'' e))
            | Inr data \<Rightarrow>
                let filename = (if d_type blob \<noteq> [] then addExtension h (d_type blob) else h)
                in ret (Some (filename, data),
                     item\<lparr>bi_success := True, bi_size := int (length data), bi_mime := d_type blob, bi_name := filename\<rparr>)
          }
      })"

fun archive_all :: "services \<Rightarrow> nat \<Rightarrow> string list \<Rightarrow> (entry list \<times> batch_item list) prog" where
  "archive_all c i [] = ret ([], [])"
| "archive_all c i (h # hs) = do {
     (e, item) \<leftarrow> archive_one c i h;
     (es, items) \<leftarrow> archive_all c (i + 1) hs;
     ret ((case e of None \<Rightarrow> es | Some x \<Rightarrow> x # es), item # items)
   }"

record archive =
  av_format :: string
  av_filename :: string
  av_type :: string
  av_entries :: "entry list"
  av_items :: "batch_item list"

definition batch_Download :: "services \<Rightarrow> batch_config \<Rightarrow> string list \<Rightarrow> string \<Rightarrow> archive result prog" where
  "batch_Download c bc hs fmt =
     (if hs = [] then ret (Inl (Msg ''no hashes provided''))
      else if length hs > bc_max_download_files bc then ret (Inl (Msg ''too many files''))
      else let fmt = (if fmt = [] then ''zip'' else fmt) in
        if fmt \<notin> {''zip'', ''tar'', ''tar.gz''} then ret (Inl (Msg ''unsupported format''))
        else do {
          (es, items) \<leftarrow> archive_all c 0 hs;
          t \<leftarrow> now;
          ret (Inr \<lparr>av_format = fmt, av_filename = ''batch-download-'' @ FormatInt (Unix t) @ ''.'' @ fmt,
                    av_type = (if fmt = ''zip'' then ''application/zip'' else if fmt = ''tar'' then ''application/x-tar''
                               else ''application/gzip''),
                    av_entries = es, av_items = items\<rparr>)
        })"

record status_item =
  si_hash :: string
  si_exists :: bool
  si_size :: int
  si_mime :: string
  si_created :: int
  si_url :: string

definition status_one :: "services \<Rightarrow> string \<Rightarrow> status_item prog" where
  "status_one c h =
     (let item = \<lparr>si_hash = h, si_exists = False, si_size = 0, si_mime = [], si_created = 0, si_url = []\<rparr> in do {
        (found, err) \<leftarrow> Exists h;
        if err \<noteq> None then ret item
        else if \<not> found then ret item
        else do {
          g \<leftarrow> GetFromHash (sv_blobs c) h;
          ret (case g of
                 Inl _ \<Rightarrow> item\<lparr>si_exists := True\<rparr>
               | Inr blob \<Rightarrow> item\<lparr>si_exists := True, si_size := d_size blob, si_mime := d_type blob,
                              si_created := d_uploaded blob, si_url := d_url blob\<rparr>)
        }
      })"

fun status_all :: "services \<Rightarrow> string list \<Rightarrow> status_item list prog" where
  "status_all c [] = ret []"
| "status_all c (h # hs) = do { x \<leftarrow> status_one c h; xs \<leftarrow> status_all c hs; ret (x # xs) }"

definition batch_Status :: "services \<Rightarrow> string list \<Rightarrow> status_item list result prog" where
  "batch_Status c hs =
     (if hs = [] then ret (Inl (Msg ''no hashes provided''))
      else do { xs \<leftarrow> status_all c hs; ret (Inr xs) })"

section \<open>Jobs\<close>

datatype job_status = JobPending | JobProcessing | JobComplete | JobFailed | JobPartial

record batch_job =
  bj_status :: job_status
  bj_pubkey :: string
  bj_completed :: int
  bj_error :: string

type_synonym jobs = "(string \<times> batch_job) list"

definition GetJob :: "string \<Rightarrow> jobs \<Rightarrow> batch_job result" where
  "GetJob i js = (case map_of js i of Some j \<Rightarrow> Inr j | None \<Rightarrow> Inl (Msg ''job not found''))"

definition CancelJob :: "int \<Rightarrow> string \<Rightarrow> jobs \<Rightarrow> unit result \<times> jobs" where
  "CancelJob t i js =
     (case map_of js i of
        None \<Rightarrow> (Inl (Msg ''job not found''), js)
      | Some j \<Rightarrow>
          if bj_status j = JobPending \<or> bj_status j = JobProcessing
          then (Inr (), AList.update i (j\<lparr>bj_status := JobFailed, bj_error := ''cancelled'', bj_completed := Unix t\<rparr>) js)
          else (Inl (Msg ''job cannot be cancelled''), js))"

definition CleanupExpiredJobs :: "batch_config \<Rightarrow> int \<Rightarrow> jobs \<Rightarrow> nat \<times> jobs" where
  "CleanupExpiredJobs bc t js =
     (let cutoff = Unix (t - bc_job_ttl bc);
          old = (\<lambda>(i, j). bj_completed j > 0 \<and> bj_completed j < cutoff)
      in (length (filter old js), filter (\<lambda>x. \<not> old x) js))"

section \<open>The checks of the endpoints\<close>

datatype batch_refusal = Unavailable | Blocked | AccessDenied | BadHashes | NotNamed string | JobMissing | NotYours

text \<open>\<^verbatim>\<open>refuseBlockedUploader\<close> and the platform access rule.\<close>

definition mayUpload :: "services \<Rightarrow> string \<Rightarrow> (batch_refusal option) prog" where
  "mayUpload c pk = do {
     b \<leftarrow> (if sv_moderation c then IsBlocked pk else ret (Inr False));
     ret (case b of
            Inl _ \<Rightarrow> Some Unavailable
          | Inr True \<Rightarrow> Some Blocked
          | Inr False \<Rightarrow> (case acr_Validate (sv_acr c) pk ''UPLOAD'' of Inl _ \<Rightarrow> Some AccessDenied | Inr _ \<Rightarrow> None))
   }"

definition BatchUpload :: "services \<Rightarrow> batch_config \<Rightarrow> bool \<Rightarrow> string \<Rightarrow> string list \<Rightarrow> batch_request
    \<Rightarrow> (batch_refusal + batch_response result) prog" where
  "BatchUpload c bc expiring pk xs req = do {
     m \<leftarrow> mayUpload c pk;
     case m of
       Some e \<Rightarrow> ret (Inl e)
     | None \<Rightarrow> do {
         r \<leftarrow> batch_Upload c bc expiring (req\<lparr>br_pubkey := pk, br_allowed := Some xs\<rparr>);
         ret (Inr r)
       }
   }"

definition BatchDelete :: "services \<Rightarrow> batch_config \<Rightarrow> string \<Rightarrow> string list \<Rightarrow> string list
    \<Rightarrow> (batch_refusal + batch_response result) prog" where
  "BatchDelete c bc pk xs hs =
     (if hs = [] then ret (Inl BadHashes)
      else case find (\<lambda>h. h \<notin> set xs) hs of
             Some h \<Rightarrow> ret (Inl (NotNamed h))
           | None \<Rightarrow> do { r \<leftarrow> batch_Delete c bc pk hs; ret (Inr r) })"

definition ownedJob :: "string \<Rightarrow> string \<Rightarrow> jobs \<Rightarrow> batch_refusal + batch_job" where
  "ownedJob caller i js =
     (case GetJob i js of
        Inl _ \<Rightarrow> Inl JobMissing
      | Inr j \<Rightarrow> if bj_pubkey j \<noteq> caller then Inl NotYours else Inr j)"

end
