(* ===== verification/BatchRules.thy ===== *)
theory BatchRules
  imports Batch BlobReads
begin

text \<open>
  Properties of the batch operations: which owners a batch delete or upload can change, whatever calls fail, the
  accounts they keep, and what a batch download puts into the archive.
\<close>

lemma wp_ifI: "(b \<Longrightarrow> wp m Q w) \<Longrightarrow> (\<not> b \<Longrightarrow> wp n Q w) \<Longrightarrow> wp (if b then m else n) Q w"
  by simp

section \<open>Dropping owners\<close>

definition drop_step :: "string \<Rightarrow> string set \<Rightarrow> owner_map \<Rightarrow> owner_map \<Rightarrow> bool" where
  "drop_step pk H m m' \<longleftrightarrow> (\<exists>h \<in> H. owns pk h m \<and> m' = drop_owner pk h m)"

abbreviation drops :: "string \<Rightarrow> string set \<Rightarrow> owner_map \<Rightarrow> owner_map \<Rightarrow> bool" where
  "drops pk H \<equiv> (drop_step pk H)\<^sup>*\<^sup>*"

lemma owns_drop_owner: "owns pk' h' (drop_owner pk h m) \<longleftrightarrow> owns pk' h' m \<and> \<not> (pk' = pk \<and> h' = h)"
  by (auto simp: owns_def drop_owner_def split: option.splits)

lemma drops_mono: "drops pk H m m' \<Longrightarrow> H \<subseteq> H' \<Longrightarrow> drops pk H' m m'"
  by (erule mono_rtranclp [rule_format, rotated]) (auto simp: drop_step_def)

lemma drops_owns:
  "drops pk H m m' \<Longrightarrow> (owns pk' h m' \<longrightarrow> owns pk' h m) \<and> (owns pk' h m \<longrightarrow> owns pk' h m' \<or> pk' = pk \<and> h \<in> H)"
  by (induction rule: rtranclp_induct) (auto simp: drop_step_def owns_drop_owner)

lemma drop_owner_Some: "drop_owner pk h m h' = Some (b, S) \<Longrightarrow> \<exists>S'. m h' = Some (b, S')"
  by (auto simp: drop_owner_def split: if_splits option.splits)

lemma drops_modes: "drops pk H m m' \<Longrightarrow> m' h = Some (b, S) \<Longrightarrow> \<exists>S'. m h = Some (b, S')"
proof (induction arbitrary: S rule: rtranclp_induct)
  case (step y z)
  then show ?case using drop_owner_Some unfolding drop_step_def by metis
qed blast

section \<open>Batch delete\<close>

definition plain_blobs :: "string set \<Rightarrow> owner_map \<Rightarrow> bool" where
  "plain_blobs H m \<longleftrightarrow> (\<forall>h \<in> H. \<forall>b S. m h = Some (b, S) \<longrightarrow> b_mode b \<noteq> ''server'')"

definition steady :: "world \<Rightarrow> world \<Rightarrow> bool" where
  "steady w w' \<longleftrightarrow> (quiet w \<longrightarrow> quiet w') \<and> w_saved w' = None \<and> db_inv (w_db w') \<and> others (w_db w') = others (w_db w) \<and> same_env w w'"

lemma steady_trans: "steady w w1 \<Longrightarrow> steady w1 w2 \<Longrightarrow> steady w w2"
  by (auto simp: steady_def intro: same_env_trans)

lemma GetFromHash_size:
  "wp (GetFromHash c h) (\<lambda>r w'. (quiet w \<longrightarrow> quiet w') \<and> reads_only w w'
     \<and> (\<forall>x b S. r = Inr x \<longrightarrow> owned (w_db w) h = Some (b, S) \<longrightarrow> d_size x = charge b)
     \<and> (quiet w \<longrightarrow> plain_blobs {h} (owned (w_db w)) \<longrightarrow> owned (w_db w) h \<noteq> None \<longrightarrow> (\<exists>x. r = Inr x))) w"
proof -
  have size: "wp (GetFromHash c h) (\<lambda>r w'. (quiet w \<longrightarrow> quiet w') \<and> reads_only w w'
     \<and> (\<forall>x b S. r = Inr x \<longrightarrow> owned (w_db w) h = Some (b, S) \<longrightarrow> d_size x = charge b)) w"
    by (rule quiet_imp [OF keeps_quiet_blobs(4)], rule wp_mono [OF GetFromHash_reads]) (auto simp: owned_def)
  have plain: "wp (GetFromHash c h) (\<lambda>r w'. quiet w \<longrightarrow> plain_blobs {h} (owned (w_db w)) \<longrightarrow> owned (w_db w) h \<noteq> None
     \<longrightarrow> (\<exists>x. r = Inr x)) w"
  proof (cases "quiet w \<and> plain_blobs {h} (owned (w_db w)) \<and> owned (w_db w) h \<noteq> None")
    case True
    then obtain b where "blob_of h (w_db w) = Some b" "b_mode b \<noteq> ''server''"
      by (auto simp: owned_def plain_blobs_def bare_def)
    with True have "wp (GetFromHash c h) (\<lambda>r w'. \<exists>x. r = Inr x) w"
      by (intro wp_mono [OF GetFromHash_plain]) auto
    then show ?thesis by (rule wp_mono) simp
  qed (simp add: wp_def)
  show ?thesis by (rule wp_mono [OF wp_conj [OF size plain]]) auto
qed

definition deleted_one :: "string \<Rightarrow> string \<Rightarrow> world \<Rightarrow> batch_item \<times> int \<Rightarrow> world \<Rightarrow> bool" where
  "deleted_one pk h w x w' \<longleftrightarrow> steady w w' \<and> bi_hash (fst x) = h \<and>
     (if bi_success (fst x)
      then owns pk h (owned (w_db w)) \<and> owned (w_db w') = drop_owner pk h (owned (w_db w))
        \<and> (quiet w \<longrightarrow> plain_blobs {h} (owned (w_db w)) \<longrightarrow> (\<forall>b S. owned (w_db w) h = Some (b, S) \<longrightarrow> snd x = charge b))
      else owned (w_db w') = owned (w_db w) \<and> snd x = 0)"

lemma batch_delete_one_spec:
  assumes inv: "db_inv (w_db w)" and s: "w_saved w = None"
  shows "wp (batch_delete_one c pk i h) (deleted_one pk h w) w"
proof -
  let ?item = "(blank_item i)\<lparr>bi_hash := h\<rparr>"
  have keys: "db_keys (w_db w)" using inv by (simp add: db_inv_def)
  have no: "deleted_one pk h w (refused ?item e, 0) w1" if "reads_only w w1" "quiet w \<longrightarrow> quiet w1" for e w1
    using that inv s by (simp add: deleted_one_def refused_def steady_def reads_only_def)
  have rem: "wp (do { r \<leftarrow> DeleteReference (sv_blobs c) pk h;
        case r of
          Inl e \<Rightarrow> if errors_is e ErrReferenceNotFound then ret (refused ?item (Msg ''not found or not authorized''), 0)
                   else ret (refused ?item (Wrap ''failed to delete'' e), 0)
        | Inr _ \<Rightarrow> ret (?item\<lparr>bi_success := True, bi_size := n\<rparr>, n) }) (deleted_one pk h w) w2"
    if "reads_only w w2" "quiet w \<longrightarrow> quiet w2"
      and n: "quiet w \<longrightarrow> plain_blobs {h} (owned (w_db w)) \<longrightarrow> (\<forall>b S. owned (w_db w) h = Some (b, S) \<longrightarrow> n = charge b)" for n w2
  proof -
    have w2: "w_db w2 = w_db w" "w_saved w2 = None" "same_env w w2" using that(1) s by (simp_all add: reads_only_def)
    have "wp (DeleteReference (sv_blobs c) pk h) (\<lambda>r w'. (quiet w2 \<longrightarrow> quiet w') \<and> w_saved w' = None \<and> same_env w2 w'
     \<and> (case r of
          Inl _ \<Rightarrow> w_db w' = w_db w2 \<and> w_objects w' = w_objects w2
        | Inr lst \<Rightarrow>
            owns pk h (owned (w_db w2)) \<and> db_inv (w_db w')
            \<and> owned (w_db w') = drop_owner pk h (owned (w_db w2)) \<and> lst = (owned (w_db w') h = None)
            \<and> others (w_db w') = others (w_db w2)
            \<and> (w_objects w' = w_objects w2 \<or> lst \<and> w_objects w' = (w_objects w2)(h := None)))) w2"
      by (rule quiet_imp [OF keeps_quiet_blobs(2) DeleteReference_spec]) (use w2 inv in simp_all)
    then show ?thesis
      unfolding wp_bind
      by (rule wp_mono) (use that w2 inv n in \<open>auto simp: wp_simp deleted_one_def refused_def steady_def
            intro: same_env_trans split: sum.splits\<close>)
  qed
  show ?thesis
    unfolding batch_delete_one_def Let_def wp_bind
  proof (rule wp_mono [OF quiet_imp [OF keeps_quiet_blobs(6) HasReference_reads [OF keys]]], elim conjE)
    fix r :: "bool result" and w1
    assume w1: "quiet w \<longrightarrow> quiet w1" "reads_only w w1" and r: "\<forall>x. r = Inr x \<longrightarrow> x = owns pk h (owned (w_db w))"
    show "wp (case r of Inl e \<Rightarrow> ret (refused ?item (Wrap ''failed to check reference'' e), 0)
        | Inr has \<Rightarrow>
            if \<not> has then ret (refused ?item (Msg ''not found or not authorized''), 0)
            else do {
              g \<leftarrow> GetFromHash (sv_blobs c) h;
              r \<leftarrow> DeleteReference (sv_blobs c) pk h;
              case r of
                Inl e \<Rightarrow> if errors_is e ErrReferenceNotFound then ret (refused ?item (Msg ''not found or not authorized''), 0)
                         else ret (refused ?item (Wrap ''failed to delete'' e), 0)
              | Inr _ \<Rightarrow> ret (?item\<lparr>bi_success := True, bi_size := case g of Inl _ \<Rightarrow> 0 | Inr blob \<Rightarrow> d_size blob\<rparr>,
                              case g of Inl _ \<Rightarrow> 0 | Inr blob \<Rightarrow> d_size blob)
            }) (deleted_one pk h w) w1"
    proof (cases "\<exists>x. r = Inr x \<and> x")
      case False
      then show ?thesis using no w1 by (auto simp: wp_simp split: sum.splits)
    next
      case True
      then have rx: "r = Inr True" by auto
      then have "owns pk h (owned (w_db w))" using r by blast
      then have o: "owned (w_db w) h \<noteq> None" by (cases "owned (w_db w) h") (simp_all add: owns_def)
      have "wp (do {
              g \<leftarrow> GetFromHash (sv_blobs c) h;
              r \<leftarrow> DeleteReference (sv_blobs c) pk h;
              case r of
                Inl e \<Rightarrow> if errors_is e ErrReferenceNotFound then ret (refused ?item (Msg ''not found or not authorized''), 0)
                         else ret (refused ?item (Wrap ''failed to delete'' e), 0)
              | Inr _ \<Rightarrow> ret (?item\<lparr>bi_success := True, bi_size := case g of Inl _ \<Rightarrow> 0 | Inr blob \<Rightarrow> d_size blob\<rparr>,
                              case g of Inl _ \<Rightarrow> 0 | Inr blob \<Rightarrow> d_size blob)
            }) (deleted_one pk h w) w1"
        unfolding wp_bind [of "GetFromHash (sv_blobs c) h"]
      proof (rule wp_mono [OF GetFromHash_size], elim conjE, rule rem)
        fix g :: "blob_desc result" and w2
        assume g: "reads_only w1 w2" "quiet w1 \<longrightarrow> quiet w2"
            "\<forall>x b S. g = Inr x \<longrightarrow> owned (w_db w1) h = Some (b, S) \<longrightarrow> d_size x = charge b"
            "quiet w1 \<longrightarrow> plain_blobs {h} (owned (w_db w1)) \<longrightarrow> owned (w_db w1) h \<noteq> None \<longrightarrow> (\<exists>x. g = Inr x)"
        then show "reads_only w w2" "quiet w \<longrightarrow> quiet w2" using w1 reads_only_trans by blast+
        show "quiet w \<longrightarrow> plain_blobs {h} (owned (w_db w)) \<longrightarrow> (\<forall>b S. owned (w_db w) h = Some (b, S) \<longrightarrow>
            (case g of Inl _ \<Rightarrow> 0 | Inr blob \<Rightarrow> d_size blob) = charge b)"
          using g(3,4) w1 o by (cases g) (auto simp: reads_only_def)
      qed
      then show ?thesis by (simp add: rx)
    qed
  qed
qed

lemma drop_step_accounts:
  assumes "drop_step pk H m m'" "finite (dom m)" "sizes_ok m"
  shows "finite (dom m') \<and> sizes_ok m' \<and> usage pk m' \<le> usage pk m \<and> (pk' \<noteq> pk \<longrightarrow> usage pk' m' = usage pk' m)"
proof -
  obtain h where h: "owns pk h m" "m' = drop_owner pk h m" using assms(1) by (auto simp: drop_step_def)
  then obtain b S where b: "m h = Some (b, S)" "pk \<in> S" by (auto simp: owns_def split: option.splits)
  have "dom m' \<subseteq> dom m" by (auto simp: h drop_owner_def split: option.splits if_splits)
  then show ?thesis
    using assms(2,3) finite_subset charge_le_usage [OF assms(2,3) b] usage_drop_owner [OF assms(2) b]
    by (auto simp: h(2) sizes_ok_drop)
qed

lemma drops_accounts:
  "drops pk H m m' \<Longrightarrow> finite (dom m) \<Longrightarrow> sizes_ok m
    \<Longrightarrow> finite (dom m') \<and> sizes_ok m' \<and> usage pk m' \<le> usage pk m \<and> (pk' \<noteq> pk \<longrightarrow> usage pk' m' = usage pk' m)"
proof (induction rule: rtranclp_induct)
  case (step y z)
  then show ?case using drop_step_accounts [OF step(2), of pk'] by auto
qed simp

definition deleted_all :: "string \<Rightarrow> string list \<Rightarrow> world \<Rightarrow> batch_item list \<times> int \<Rightarrow> world \<Rightarrow> bool" where
  "deleted_all pk hs w x w' \<longleftrightarrow> steady w w' \<and> map bi_hash (fst x) = hs
     \<and> drops pk (set hs) (owned (w_db w)) (owned (w_db w'))
     \<and> (\<forall>y \<in> set (fst x). bi_success y \<longrightarrow> \<not> owns pk (bi_hash y) (owned (w_db w')))
     \<and> (quiet w \<longrightarrow> plain_blobs (set hs) (owned (w_db w)) \<longrightarrow> sizes_ok (owned (w_db w)) \<longrightarrow> in_i64 (usage pk (owned (w_db w)))
        \<longrightarrow> snd x = usage pk (owned (w_db w)) - usage pk (owned (w_db w')))"

lemma deleted_one_total:
  assumes "deleted_one pk h w x w'" "quiet w" "plain_blobs {h} (owned (w_db w))"
  shows "snd x = usage pk (owned (w_db w)) - usage pk (owned (w_db w'))"
proof (cases "bi_success (fst x)")
  case True
  then obtain b S where b: "owned (w_db w) h = Some (b, S)" "pk \<in> S"
    using assms(1) by (auto simp: deleted_one_def owns_def split: option.splits)
  then show ?thesis using assms True usage_drop_owner [OF finite_dom_owned b] by (simp add: deleted_one_def)
next
  case False
  then show ?thesis using assms(1) by (simp add: deleted_one_def)
qed

lemma deleted_one_drops: "deleted_one pk h w x w' \<Longrightarrow> drops pk {h} (owned (w_db w)) (owned (w_db w'))"
  by (auto simp: deleted_one_def drop_step_def split: if_splits)

lemma deleted_cons:
  assumes "deleted_one pk h w (item, n) w1" "deleted_all pk hs w1 (items, freed) w2"
  shows "deleted_all pk (h # hs) w (item # items, i64 (n + freed)) w2"
proof -
  let ?m = "owned (w_db w)" and ?m1 = "owned (w_db w1)" and ?m2 = "owned (w_db w2)"
  note d1 = deleted_one_drops [OF assms(1)]
  have d2: "drops pk (set hs) ?m1 ?m2" and s: "steady w w1" "steady w1 w2"
    using assms by (simp_all add: deleted_all_def deleted_one_def)
  have "drops pk (set (h # hs)) ?m ?m2"
    using drops_mono [OF d1, of "set (h # hs)"] drops_mono [OF d2, of "set (h # hs)"] by (auto intro: rtranclp_trans)
  moreover have "bi_success item \<Longrightarrow> \<not> owns pk h ?m2"
    using assms(1) drops_owns [OF d2, of pk h] by (auto simp: deleted_one_def owns_drop_owner)
  moreover have "i64 (n + freed) = usage pk ?m - usage pk ?m2"
    if q: "quiet w" "plain_blobs (set (h # hs)) ?m" "sizes_ok ?m" "in_i64 (usage pk ?m)"
  proof -
    have a1: "sizes_ok ?m1 \<and> usage pk ?m1 \<le> usage pk ?m" using drops_accounts [OF d1 finite_dom_owned q(3)] by blast
    have a2: "usage pk ?m2 \<le> usage pk ?m1" "0 \<le> usage pk ?m2"
      using drops_accounts [OF d2 finite_dom_owned] a1 usage_nonneg by blast+
    have "plain_blobs (set hs) ?m1" using q(2) drops_modes [OF d1] by (fastforce simp: plain_blobs_def)
    then have "freed = usage pk ?m1 - usage pk ?m2"
      using assms(2) q a1 a2 s(1) by (auto simp: deleted_all_def steady_def in_i64_def)
    moreover have "n = usage pk ?m - usage pk ?m1"
      using deleted_one_total [OF assms(1) q(1)] q(2) by (simp add: plain_blobs_def)
    ultimately show ?thesis using a1 a2 q(4) by (simp add: i64_id in_i64_def)
  qed
  ultimately show ?thesis
    using assms s steady_trans by (auto simp: deleted_all_def deleted_one_def)
qed

lemma batch_delete_all_spec:
  "db_inv (w_db w) \<Longrightarrow> w_saved w = None \<Longrightarrow> wp (batch_delete_all c pk i hs) (deleted_all pk hs w) w"
proof (induction hs arbitrary: i w)
  case Nil
  then show ?case by (simp add: wp_simp deleted_all_def steady_def)
next
  case (Cons h hs)
  show ?case
    unfolding batch_delete_all.simps wp_bind
  proof (rule wp_mono [OF batch_delete_one_spec [OF Cons.prems]])
    fix x :: "batch_item \<times> int" and w1
    assume one: "deleted_one pk h w x w1"
    then have w1: "db_inv (w_db w1)" "w_saved w1 = None" by (simp_all add: deleted_one_def steady_def)
    obtain item n where x: "x = (item, n)" by (cases x)
    show "wp (case x of (item, n) \<Rightarrow> do { (items, freed) \<leftarrow> batch_delete_all c pk (i + 1) hs;
        ret (item # items, i64 (n + freed)) }) (deleted_all pk (h # hs) w) w1"
      unfolding x prod.case wp_bind
    proof (rule wp_mono [OF Cons.IH [OF w1]])
      fix y :: "batch_item list \<times> int" and w2
      assume "deleted_all pk hs w1 y w2"
      then show "wp (case y of (items, freed) \<Rightarrow> ret (item # items, i64 (n + freed))) (deleted_all pk (h # hs) w) w2"
        using deleted_cons [OF one [unfolded x]] by (cases y) (simp add: wp_simp)
    qed
  qed
qed

section \<open>Batch upload\<close>

text \<open>Setting an expiry changes no owner and no charge.\<close>

definition undated :: "owner_map \<Rightarrow> string \<Rightarrow> (blob_row \<times> string set) option" where
  "undated m h = map_option (\<lambda>(b, S). (b\<lparr>b_expires := None\<rparr>, S)) (m h)"

lemma undated_eq:
  assumes "undated m' = undated m"
  shows "owns pk h m' = owns pk h m" "charge_at h m' = charge_at h m" "usage pk m' = usage pk m" "sizes_ok m' = sizes_ok m"
proof -
  have e: "undated m' h = undated m h" for h using assms by simp
  have c: "charge (b\<lparr>b_expires := x\<rparr>) = charge b" for b x by (simp add: charge_def split: option.split)
  have o: "owns pk h m \<longleftrightarrow> (case undated m h of None \<Rightarrow> False | Some (b, S) \<Rightarrow> pk \<in> S)" for pk h m
    by (auto simp: owns_def undated_def split: option.split)
  have a: "charge_at h m = (case undated m h of None \<Rightarrow> 0 | Some (b, S) \<Rightarrow> charge b)" for h m
    by (auto simp: charge_at_def undated_def c split: option.split)
  have s: "sizes_ok m \<longleftrightarrow> (\<forall>h b S. undated m h = Some (b, S) \<longrightarrow> 0 \<le> charge b \<and> (b_mode b \<noteq> ''server'' \<longrightarrow> charge b = b_size b))" for m
    by (fastforce simp: sizes_ok_def undated_def c)
  show "owns pk h m' = owns pk h m" "charge_at h m' = charge_at h m" "sizes_ok m' = sizes_ok m"
    unfolding o a s by (simp_all only: e)
  show "usage pk m' = usage pk m" unfolding usage_def o a by (simp only: e)
qed

lemma expiry_effect:
  assumes "q_SetBlobExpiration h e d = (r, d')" "db_inv d"
  shows "undated (owned d') = undated (owned d)" "db_inv d'" "others d' = others d"
proof -
  have d': "d' = d\<lparr>t_blobs := update_where (has_hash h) (\<lambda>b. b\<lparr>b_expires := e\<rparr>) (t_blobs d)\<rparr>"
    using assms(1) by (simp add: q_SetBlobExpiration_def)
  have o: "owner_set h' d' = owner_set h' d" "n_refs h' d' = n_refs h' d" for h'
    by (simp_all add: d' owner_set_def owners_def n_refs_def)
  show "undated (owned d') = undated (owned d)"
    by (rule ext) (auto simp: undated_def owned_def o blob_of_def, auto simp: d' find_update_where bare_def
        option.map_comp comp_def intro!: map_option_cong)
  show "others d' = others d" by (simp add: d')
  have m: "map b_hash (t_blobs d') = map b_hash (t_blobs d)" by (simp add: d' update_where_def)
  then have k: "b_hash ` set (t_blobs d') = b_hash ` set (t_blobs d)" by (metis list.set_map)
  have "db_keys d'" using assms(2) m k by (simp add: db_keys_def db_inv_def) (simp add: d')
  moreover have "ref_counts d'"
    using assms(2) unfolding ref_counts_def db_inv_def o by (auto simp: d' update_where_def)
  ultimately show "db_inv d'" by (simp add: db_inv_def)
qed

definition kept :: "world \<Rightarrow> world \<Rightarrow> bool" where
  "kept w w' \<longleftrightarrow> (quiet w \<longrightarrow> quiet w') \<and> w_saved w' = None \<and> db_inv (w_db w') \<and> (\<forall>pk. balance pk (w_db w') = balance pk (w_db w))"

lemma kept_trans: "kept w w1 \<Longrightarrow> kept w1 w2 \<Longrightarrow> kept w w2"
  by (auto simp: kept_def)

lemma kept_step: "kept w w1 \<Longrightarrow> step w1 w2 \<Longrightarrow> kept w w2 \<and> owned (w_db w2) = owned (w_db w1)"
  by (auto simp: kept_def step_def calm_def)

text \<open>What one file may do: at most one key gains one blob, and it is charged for what it gained.\<close>

definition gained :: "string \<Rightarrow> string set \<Rightarrow> owner_map \<Rightarrow> batch_item \<times> int \<Rightarrow> owner_map \<Rightarrow> bool" where
  "gained pk H m x m' \<longleftrightarrow>
     (\<forall>pk' h. owns pk' h m' \<longleftrightarrow> owns pk' h m \<or> bi_success (fst x) \<and> pk' = pk \<and> h = bi_hash (fst x))
     \<and> (bi_success (fst x) \<longrightarrow> bi_hash (fst x) \<in> H)
     \<and> (sizes_ok m \<longrightarrow> sizes_ok m' \<and> 0 \<le> snd x \<and> (\<forall>pk'. usage pk' m' = usage pk' m + (if pk' = pk then snd x else 0)))"

lemma gained_nothing: "\<not> bi_success item \<Longrightarrow> gained pk H m (item, 0) m"
  by (simp add: gained_def)

lemma gained_failed:
  assumes "failed_map c h blob (int (length blob)) m m'" "\<not> bi_success item" "finite (dom m)"
  shows "gained pk H m (item, 0) m'"
proof (cases "m' = m")
  case False
  then obtain b where "m h = None" "m' = m(h := Some (b, {}))" using assms(1) by (auto simp: failed_map_def)
  then show ?thesis using assms(2) sizes_ok_failed [OF _ assms(1)] usage_ownerless [OF assms(3)]
    by (auto simp: gained_def owns_def)
qed (simp add: gained_nothing assms(2))

lemma gained_saved:
  assumes "saved_map c pk h blob (int (length blob)) ob m m'" "m' h = Some (b, S)" "finite (dom m)"
    and "bi_success item" "bi_hash item = h" "h \<in> H" "n = (if owns pk h m then 0 else charge b)"
  shows "gained pk H m (item, n) m'"
proof -
  have own: "owns pk' h' m' \<longleftrightarrow> owns pk' h' m \<or> pk' = pk \<and> h' = h" for pk' h'
    using assms(1) by (auto simp: saved_map_def add_owner_def owns_def split: option.splits if_splits)
  have "0 \<le> charge b" if "sizes_ok m" using sizes_ok_saved [OF that assms(1)] assms(2) by (auto simp: sizes_ok_def)
  then show ?thesis
    using own usage_saved [OF assms(3,1,2)] sizes_ok_saved [OF _ assms(1)] assms(4-7) by (auto simp: gained_def)
qed

lemma gained_undated: "gained pk H m x m1 \<Longrightarrow> undated m2 = undated m1 \<Longrightarrow> gained pk H m x m2"
proof -
  assume g: "gained pk H m x m1" and u: "undated m2 = undated m1"
  show ?thesis using g unfolding gained_def undated_eq [OF u] .
qed

lemma SetExpirationTTL_kept:
  assumes "db_inv (w_db w)" "w_saved w = None"
  shows "wp (SetExpirationTTL h n) (\<lambda>_ w'. kept w w' \<and> undated (owned (w_db w')) = undated (owned (w_db w))) w"
proof -
  have e: "wp (SetExpirationTTL h n) (\<lambda>_ w'. w_saved w' = None \<and> db_inv (w_db w') \<and> others (w_db w') = others (w_db w)
      \<and> undated (owned (w_db w')) = undated (owned (w_db w))) w"
    unfolding SetExpirationTTL_def SetExpiration_def wp_simp
    by (rule wp_exec) (use assms in \<open>simp_all add: expiry_effect\<close>)
  have q: "keeps quiet (SetExpirationTTL h n)"
    unfolding SetExpirationTTL_def SetExpiration_def by (intro keeps_rule)
  show ?thesis
  proof (rule wp_mono [OF quiet_imp [OF q e]], elim conjE, intro conjI)
    fix w' assume w': "quiet w \<longrightarrow> quiet w'" "w_saved w' = None" "db_inv (w_db w')" "others (w_db w') = others (w_db w)"
    show "kept w w'" using w'(1-3) others_balance [OF w'(4)] by (simp add: kept_def)
  qed
qed

lemma batch_store_spec:
  assumes "enc_ok (sv_blobs c)" "db_inv (w_db w)" "w_saved w = None" "bi_hash item \<in> H"
  shows "wp (batch_store c expiring req t item stored data) (\<lambda>x w'. kept w w'
    \<and> gained (br_pubkey req) H (owned (w_db w)) x (owned (w_db w'))) w"
proof -
  let ?pk = "br_pubkey req" and ?h = "bi_hash item" and ?m = "owned (w_db w)"
  show ?thesis
    unfolding batch_store_def wp_bind
  proof (rule wp_mono [OF quiet_imp [OF keeps_quiet_blobs(1) SaveWithDedup_spec [OF assms(1-3)]]], elim conjE)
    fix r :: "(blob_desc \<times> bool) result" and w1
    assume w1: "quiet w \<longrightarrow> quiet w1" "w_saved w1 = None" "db_inv (w_db w1)" "others (w_db w1) = others (w_db w)"
      and r: "case r of
          Inl _ \<Rightarrow> failed_map (sv_blobs c) ?h data (int (length data)) ?m (owned (w_db w1))
        | Inr (desc, added) \<Rightarrow> added = (\<not> owns ?pk ?h ?m)
            \<and> saved_map (sv_blobs c) ?pk ?h data (int (length data)) (w_objects w1) ?m (owned (w_db w1))
            \<and> desc_charge (int (length data)) data ?h desc (owned (w_db w1))"
    have k1: "kept w w1" using w1 by (simp add: kept_def others_balance [OF w1(4)])
    show "wp (case r of
           Inl e \<Rightarrow> ret (refused item (Wrap ''failed to save'' e), 0)
         | Inr (desc, newReference) \<Rightarrow> do {
             _ \<leftarrow> RecordUpload (sv_limits c) ?pk;
             _ \<leftarrow> (if br_expires_in req > 0 \<and> expiring
                   then SetExpirationTTL ?h (i64 (br_expires_in req * second)) else ret (Inr ()));
             ret (item\<lparr>bi_success := True, bi_size := d_size desc, bi_mime := d_type desc, bi_url := d_url desc\<rparr>,
                  if newReference then d_size desc else 0)
           }) (\<lambda>x w'. kept w w' \<and> gained ?pk H ?m x (owned (w_db w'))) w1"
    proof (cases r)
      case (Inl e)
      then show ?thesis using k1 r gained_failed [OF _ _ finite_dom_owned] by (simp add: wp_simp refused_def)
    next
      case (Inr x)
      obtain desc added where x: "x = (desc, added)" by (cases x)
      obtain b S where b: "owned (w_db w1) ?h = Some (b, S)" "d_size desc = charge b"
        using r by (auto simp: Inr x desc_charge_def)
      have g: "gained ?pk H ?m (item\<lparr>bi_success := True, bi_size := d_size desc, bi_mime := d_type desc, bi_url := d_url desc\<rparr>,
          if added then d_size desc else 0) (owned (w_db w1))"
      proof (rule gained_saved [where m = ?m and m' = "owned (w_db w1)" and h = ?h and b = b and S = S])
        show "saved_map (sv_blobs c) ?pk ?h data (int (length data)) (w_objects w1) ?m (owned (w_db w1))"
          using r by (simp add: Inr x)
        show "(if added then d_size desc else 0) = (if owns ?pk ?h ?m then 0 else charge b)"
          using r by (simp add: Inr x b(2))
      qed (use assms(4) b(1) finite_dom_owned in simp_all)
      show ?thesis
        unfolding Inr x sum.case prod.case wp_bind
      proof (rule wp_mono [OF RecordUpload_step])
        fix w2 assume "step w1 w2"
        from kept_step [OF k1 this] have k2: "kept w w2" "owned (w_db w2) = owned (w_db w1)" by auto
        then have w2: "db_inv (w_db w2)" "w_saved w2 = None" by (simp_all add: kept_def)
        have g2: "gained ?pk H ?m (item\<lparr>bi_success := True, bi_size := d_size desc, bi_mime := d_type desc, bi_url := d_url desc\<rparr>,
          if added then d_size desc else 0) (owned (w_db w2))" using g by (simp add: k2(2))
        show "wp (if br_expires_in req > 0 \<and> expiring
                   then SetExpirationTTL ?h (i64 (br_expires_in req * second)) else ret (Inr ()))
           (\<lambda>_. wp (ret (item\<lparr>bi_success := True, bi_size := d_size desc, bi_mime := d_type desc, bi_url := d_url desc\<rparr>,
                  if added then d_size desc else 0)) (\<lambda>x w'. kept w w' \<and> gained ?pk H ?m x (owned (w_db w')))) w2"
          unfolding wp_if wp_ret
          using k2(1) g2 by (auto intro!: wp_mono [OF SetExpirationTTL_kept [OF w2]] intro: kept_trans gained_undated)
      qed
    qed
  qed
qed

text \<open>The hashes a request may store under: those of its files that its token names.\<close>

definition allowed_hashes :: "services \<Rightarrow> batch_request \<Rightarrow> batch_file list \<Rightarrow> string set" where
  "allowed_hashes c req files = {sv_hash c data | data. Inr data \<in> bf_read ` set files}
     \<inter> (case br_allowed req of None \<Rightarrow> UNIV | Some hs \<Rightarrow> set hs)"

lemma batch_upload_one_spec:
  assumes "enc_ok (sv_blobs c)" "db_inv (w_db w)" "w_saved w = None" "file \<in> set files"
  shows "wp (batch_upload_one c bc expiring req t i file) (\<lambda>x w'. kept w w'
    \<and> gained (br_pubkey req) (allowed_hashes c req files) (owned (w_db w)) x (owned (w_db w'))) w"
proof -
  let ?Q = "\<lambda>x w'. kept w w' \<and> gained (br_pubkey req) (allowed_hashes c req files) (owned (w_db w)) x (owned (w_db w'))"
  let ?item = "(blank_item i)\<lparr>bi_name := bf_name file\<rparr>"
  have k0: "kept w w" using assms(2,3) by (simp add: kept_def)
  have no: "wp (ret (refused item e, 0)) ?Q w1" if "kept w w1" "owned (w_db w1) = owned (w_db w)" for item e w1
    using that gained_nothing [of "refused item e"] by (simp add: wp_simp refused_def)
  show ?thesis
  proof (cases "bf_read file")
    case (Inl e)
    then show ?thesis using no k0 by (simp add: batch_upload_one_def)
  next
    case (Inr data)
    have body: "wp (do {
            l \<leftarrow> CheckUpload (sv_limits c) (br_pubkey req) stored (int (length data));
            case l of
              Inl e \<Rightarrow> ret (refused ?item e, 0)
            | Inr _ \<Rightarrow>
                let item = ?item\<lparr>bi_hash := sv_hash c data\<rparr> in
                if br_allowed req \<noteq> None \<and> sv_hash c data \<notin> set (the (br_allowed req))
                then ret (refused item (Msg ''auth token does not authorize uploading this file''), 0)
                else batch_store c expiring req t item stored data
          }) ?Q w" for stored
      unfolding wp_bind Let_def
    proof (rule wp_mono [OF CheckUpload_step])
      fix l :: "unit result" and w1
      assume "step w w1"
      from kept_step [OF k0 this] have k1: "kept w w1" "owned (w_db w1) = owned (w_db w)" by auto
      then have w1: "db_inv (w_db w1)" "w_saved w1 = None" by (simp_all add: kept_def)
      let ?i = "?item\<lparr>bi_hash := sv_hash c data\<rparr>"
      have "wp (batch_store c expiring req t ?i stored data) ?Q w1"
        if "\<not> (br_allowed req \<noteq> None \<and> sv_hash c data \<notin> set (the (br_allowed req)))"
      proof -
        have "Inr data \<in> bf_read ` set files" using assms(4) Inr by (metis image_eqI)
        then have "bi_hash ?i \<in> allowed_hashes c req files"
          using that by (auto simp: allowed_hashes_def split: option.split)
        from batch_store_spec [OF assms(1) w1 this] show ?thesis
          by (rule wp_mono) (use k1 in \<open>auto intro: kept_trans\<close>)
      qed
      then show "wp (case l of
              Inl e \<Rightarrow> ret (refused ?item e, 0)
            | Inr _ \<Rightarrow>
                if br_allowed req \<noteq> None \<and> sv_hash c data \<notin> set (the (br_allowed req))
                then ret (refused ?i (Msg ''auth token does not authorize uploading this file''), 0)
                else batch_store c expiring req t ?i stored data) ?Q w1"
        using no [OF k1] by (simp split: sum.split)
    qed
    show ?thesis
      unfolding batch_upload_one_def Inr sum.case Let_def
      by (rule wp_ifI) (rule no [OF k0 refl], rule body [unfolded Let_def])
  qed
qed

definition uploaded_all :: "string \<Rightarrow> string set \<Rightarrow> world \<Rightarrow> batch_item list \<times> int \<Rightarrow> world \<Rightarrow> bool" where
  "uploaded_all pk H w x w' \<longleftrightarrow> kept w w'
     \<and> (\<forall>pk' h. owns pk' h (owned (w_db w')) \<longleftrightarrow>
          owns pk' h (owned (w_db w)) \<or> pk' = pk \<and> (\<exists>y \<in> set (fst x). bi_success y \<and> bi_hash y = h))
     \<and> (\<forall>y \<in> set (fst x). bi_success y \<longrightarrow> bi_hash y \<in> H)
     \<and> (sizes_ok (owned (w_db w)) \<longrightarrow> sizes_ok (owned (w_db w'))
        \<and> usage pk (owned (w_db w)) \<le> usage pk (owned (w_db w'))
        \<and> (\<forall>pk'. pk' \<noteq> pk \<longrightarrow> usage pk' (owned (w_db w')) = usage pk' (owned (w_db w)))
        \<and> (in_i64 (usage pk (owned (w_db w'))) \<longrightarrow> snd x = usage pk (owned (w_db w')) - usage pk (owned (w_db w))))"

lemma uploaded_cons:
  assumes k: "kept w w1" and g: "gained pk H (owned (w_db w)) (item, n) (owned (w_db w1))"
    and a: "uploaded_all pk H w1 (items, rest) w2"
  shows "uploaded_all pk H w (item # items, i64 (n + rest)) w2"
proof -
  let ?m = "owned (w_db w)" and ?m1 = "owned (w_db w1)" and ?m2 = "owned (w_db w2)"
  have books: "sizes_ok ?m2 \<and> usage pk ?m \<le> usage pk ?m2 \<and> (\<forall>pk'. pk' \<noteq> pk \<longrightarrow> usage pk' ?m2 = usage pk' ?m)
      \<and> (in_i64 (usage pk ?m2) \<longrightarrow> i64 (n + rest) = usage pk ?m2 - usage pk ?m)" if "sizes_ok ?m"
  proof -
    have 1: "sizes_ok ?m1" "0 \<le> n" "\<forall>pk'. usage pk' ?m1 = usage pk' ?m + (if pk' = pk then n else 0)"
      using g that by (simp_all add: gained_def)
    have 2: "sizes_ok ?m2" "usage pk ?m1 \<le> usage pk ?m2" "\<forall>pk'. pk' \<noteq> pk \<longrightarrow> usage pk' ?m2 = usage pk' ?m1"
      "in_i64 (usage pk ?m2) \<longrightarrow> rest = usage pk ?m2 - usage pk ?m1"
      using a 1(1) by (simp_all add: uploaded_all_def)
    have "0 \<le> usage pk ?m" using that by (rule usage_nonneg)
    then show ?thesis using 1 2 by (auto simp: i64_id in_i64_def)
  qed
  have own: "\<forall>pk' h. owns pk' h ?m2 \<longleftrightarrow> owns pk' h ?m \<or> pk' = pk \<and> (\<exists>y \<in> set (item # items). bi_success y \<and> bi_hash y = h)"
    using g a by (auto simp: gained_def uploaded_all_def)
  have named: "\<forall>y \<in> set (item # items). bi_success y \<longrightarrow> bi_hash y \<in> H"
    using g a by (auto simp: gained_def uploaded_all_def)
  have "kept w w2" using k a by (auto simp: uploaded_all_def intro: kept_trans)
  then show ?thesis using own named books by (simp add: uploaded_all_def)
qed

lemma batch_upload_all_spec:
  assumes "enc_ok (sv_blobs c)"
  shows "db_inv (w_db w) \<Longrightarrow> w_saved w = None \<Longrightarrow> set fs \<subseteq> set files \<Longrightarrow>
    wp (batch_upload_all c bc expiring req t i fs) (uploaded_all (br_pubkey req) (allowed_hashes c req files) w) w"
proof (induction fs arbitrary: i w)
  case Nil
  then show ?case by (simp add: wp_simp uploaded_all_def kept_def)
next
  case (Cons f fs)
  have f: "f \<in> set files" "set fs \<subseteq> set files" using Cons.prems(3) by auto
  show ?case
    unfolding batch_upload_all.simps wp_bind
  proof (rule wp_mono [OF batch_upload_one_spec [OF assms Cons.prems(1,2) f(1)]], elim conjE)
    fix x :: "batch_item \<times> int" and w1
    assume k: "kept w w1" and g: "gained (br_pubkey req) (allowed_hashes c req files) (owned (w_db w)) x (owned (w_db w1))"
    then have w1: "db_inv (w_db w1)" "w_saved w1 = None" by (simp_all add: kept_def)
    obtain item n where x: "x = (item, n)" by (cases x)
    show "wp (case x of (item, n) \<Rightarrow> do { (items, rest) \<leftarrow> batch_upload_all c bc expiring req t (i + 1) fs;
        ret (item # items, i64 (n + rest)) }) (uploaded_all (br_pubkey req) (allowed_hashes c req files) w) w1"
      unfolding x prod.case wp_bind
    proof (rule wp_mono [OF Cons.IH [OF w1 f(2)]])
      fix y :: "batch_item list \<times> int" and w2
      assume "uploaded_all (br_pubkey req) (allowed_hashes c req files) w1 y w2"
      then show "wp (case y of (items, rest) \<Rightarrow> ret (item # items, i64 (n + rest)))
          (uploaded_all (br_pubkey req) (allowed_hashes c req files) w) w2"
        using uploaded_cons [OF k g [unfolded x]] by (cases y) (simp add: wp_simp)
    qed
  qed
qed

section \<open>Properties\<close>

lemma batch_Delete_wp:
  assumes "db_inv (w_db w)" "w_saved w = None"
    and err: "\<And>e. Q (Inl e) w"
    and fin: "\<And>items n w1. deleted_all pk hs w (items, n) w1 \<Longrightarrow>
      wp (if qs_enabled (sv_quota c) \<and> n > 0 then DecrementUsage pk n else ret (Inr ())) (\<lambda>_. Q (Inr (respond items))) w1"
  shows "wp (batch_Delete c bc pk hs) Q w"
proof -
  have all: "wp (do { (items, totalFreedSize) \<leftarrow> batch_delete_all c pk 0 hs;
        _ \<leftarrow> (if qs_enabled (sv_quota c) \<and> totalFreedSize > 0 then DecrementUsage pk totalFreedSize else ret (Inr ()));
        ret (Inr (respond items)) }) Q w"
    unfolding wp_bind
  proof (rule wp_mono [OF batch_delete_all_spec [OF assms(1,2)]])
    fix x :: "batch_item list \<times> int" and w1
    assume "deleted_all pk hs w x w1"
    then show "wp (case x of (items, totalFreedSize) \<Rightarrow> do {
        _ \<leftarrow> (if qs_enabled (sv_quota c) \<and> totalFreedSize > 0 then DecrementUsage pk totalFreedSize else ret (Inr ()));
        ret (Inr (respond items)) }) Q w1"
      using fin by (cases x) (simp add: wp_bind wp_ret)
  qed
  show ?thesis
    unfolding batch_Delete_def
    by (intro wp_ifI) (simp_all only: wp_ret err all)
qed

definition delete_safe :: "string \<Rightarrow> string set \<Rightarrow> world \<Rightarrow> (batch_refusal + batch_response result) \<Rightarrow> world \<Rightarrow> bool" where
  "delete_safe pk H w r w' \<longleftrightarrow> db_inv (w_db w')
     \<and> (\<forall>pk' h. owns pk' h (owned (w_db w')) \<longrightarrow> owns pk' h (owned (w_db w)))
     \<and> (\<forall>pk' h. owns pk' h (owned (w_db w)) \<longrightarrow> owns pk' h (owned (w_db w')) \<or> pk' = pk \<and> h \<in> H)
     \<and> (\<forall>resp. r = Inr (Inr resp) \<longrightarrow> (\<forall>x \<in> set (bp_results resp). bi_success x \<longrightarrow> \<not> owns pk (bi_hash x) (owned (w_db w'))))"

lemma BatchDelete_safe:
  assumes "db_inv (w_db w)" "w_saved w = None"
  shows "wp (BatchDelete c bc pk xs hs) (delete_safe pk (set hs \<inter> set xs) w) w"
proof -
  have none: "delete_safe pk H w (Inl e) w" "delete_safe pk H w (Inr (Inl e')) w" for e e' H
    using assms by (simp_all add: delete_safe_def)
  have run: "wp (batch_Delete c bc pk hs) (\<lambda>r. delete_safe pk (set hs \<inter> set xs) w (Inr r)) w" if sub: "set hs \<subseteq> set xs"
  proof (rule batch_Delete_wp [OF assms])
    fix items n w1 assume d: "deleted_all pk hs w (items, n) w1"
    then have w1: "db_inv (w_db w1)" by (simp add: deleted_all_def steady_def)
    have H: "set hs \<inter> set xs = set hs" using sub by blast
    have safe: "delete_safe pk (set hs \<inter> set xs) w (Inr (Inr (respond items))) w2"
      if "db_inv (w_db w2)" "owned (w_db w2) = owned (w_db w1)" for w2
      using d that drops_owns [of pk "set hs"] unfolding deleted_all_def delete_safe_def H respond_def
      by (auto simp: that(2))
    show "wp (if qs_enabled (sv_quota c) \<and> n > 0 then DecrementUsage pk n else ret (Inr ()))
        (\<lambda>_. delete_safe pk (set hs \<inter> set xs) w (Inr (Inr (respond items)))) w1"
      unfolding wp_if wp_ret using safe w1
      by (auto intro!: wp_mono [OF DecrementUsage_any [OF w1]] simp: only_users_def)
  qed (rule none)
  show ?thesis
  proof (cases "hs = [] \<or> find (\<lambda>h. h \<notin> set xs) hs \<noteq> None")
    case True
    then show ?thesis using none by (auto simp: BatchDelete_def wp_ret split: option.split)
  next
    case False
    then have "set hs \<subseteq> set xs" by (auto simp: find_None_iff)
    from run [OF this] False show ?thesis by (simp add: BatchDelete_def wp_bind wp_ret)
  qed
qed

text \<open>C35. A batch delete takes no more than its token allows, whichever calls fail: nobody gains a blob, and the only owner
  that can lose one is the signer, for hashes that are both in the request and among the token's \<^verbatim>\<open>x\<close> tags; what the answer
  reports as deleted the signer no longer owns.\<close>
theorem batch_delete_safe:
  assumes "db_inv (w_db w)" "w_saved w = None" "run_state (BatchDelete c bc pk xs hs) w = (r, w')"
  shows "db_inv (w_db w')
     \<and> (\<forall>pk' h. owns pk' h (owned (w_db w')) \<longrightarrow> owns pk' h (owned (w_db w)))
     \<and> (\<forall>pk' h. owns pk' h (owned (w_db w)) \<longrightarrow> owns pk' h (owned (w_db w')) \<or> pk' = pk \<and> h \<in> set hs \<inter> set xs)
     \<and> (\<forall>resp. r = Inr (Inr resp) \<longrightarrow> (\<forall>x \<in> set (bp_results resp). bi_success x \<longrightarrow> \<not> owns pk (bi_hash x) (owned (w_db w'))))"
  using wp_run [OF BatchDelete_safe [OF assms(1,2)] assms(3)] by (simp add: delete_safe_def)

lemma batch_delete_balanced:
  assumes "quiet w" "balanced (w_db w)" "w_saved w = None" "qs_enabled (sv_quota c)"
    and "plain_blobs (set hs) (owned (w_db w))" "in_i64 (balance pk (w_db w))"
  shows "wp (batch_Delete c bc pk hs) (\<lambda>_ w'. balanced (w_db w')) w"
proof (rule batch_Delete_wp)
  let ?m = "owned (w_db w)"
  have b: "db_inv (w_db w)" "sizes_ok ?m" "balance pk' (w_db w) = usage pk' ?m" for pk'
    using assms(2) by (simp_all add: balanced_def)
  then show "db_inv (w_db w)" "w_saved w = None" "balanced (w_db w)" using assms(2,3) by simp_all
  fix items n w1
  assume d: "deleted_all pk hs w (items, n) w1"
  let ?m1 = "owned (w_db w1)"
  have w1: "quiet w1" "db_inv (w_db w1)" "others (w_db w1) = others (w_db w)" and dr: "drops pk (set hs) ?m ?m1"
    using d assms(1) by (simp_all add: deleted_all_def steady_def)
  have bal: "balance pk' (w_db w1) = usage pk' ?m" for pk' using others_balance [OF w1(3)] b(3) by simp
  have ok: "sizes_ok ?m1" "usage pk ?m1 \<le> usage pk ?m" "\<And>pk'. pk' \<noteq> pk \<Longrightarrow> usage pk' ?m1 = usage pk' ?m"
    using drops_accounts [OF dr finite_dom_owned b(2)] by blast+
  have n: "n = usage pk ?m - usage pk ?m1" using d assms(1,5,6) b by (simp add: deleted_all_def)
  have nn: "0 \<le> usage pk ?m1" using ok(1) by (rule usage_nonneg)
  show "wp (if qs_enabled (sv_quota c) \<and> n > 0 then DecrementUsage pk n else ret (Inr ())) (\<lambda>_ w'. balanced (w_db w')) w1"
  proof (cases "n > 0")
    case False
    then have "usage pk' ?m1 = usage pk' ?m" for pk' using n ok(2,3) by (cases "pk' = pk") auto
    then have "balanced (w_db w1)" using w1(2) ok(1) bal by (simp add: balanced_def)
    then show ?thesis using False by (simp add: wp_ret)
  next
    case True
    have "wp (DecrementUsage pk n) (\<lambda>r w'. quiet w' \<and> only_users w1 w'
        \<and> quota.accounted (\<lambda>pk d. usage pk (owned d)) (w_db w')) w1"
      by (rule quota.credit_keeps [OF w1(1,2)]) (use True n nn bal ok(3) assms(6) b(3) in auto)
    then show ?thesis using assms(4) True ok(1)
      by (simp add: wp_if) (erule wp_mono, auto simp: balanced_accounted only_users_def)
  qed
qed

text \<open>When no call fails, quotas are on and none of the listed blobs was encrypted by the server, a batch delete keeps
  every account equal to what its key's blobs are charged, however often a hash is listed.\<close>
theorem batch_delete_keeps_balanced:
  assumes "quiet w" "balanced (w_db w)" "w_saved w = None" "qs_enabled (sv_quota c)"
    "plain_blobs (set hs) (owned (w_db w))" "in_i64 (balance pk (w_db w))"
    "run_state (batch_Delete c bc pk hs) w = (r, w')"
  shows "balanced (w_db w')"
  using wp_run [OF batch_delete_balanced [OF assms(1-6)] assms(7)] .

lemma BatchUpload_wp:
  assumes c: "enc_ok (sv_blobs c)" and inv: "db_inv (w_db w)" and s: "w_saved w = None"
    and err: "\<And>r w1. calm w w1 \<Longrightarrow> (quiet w \<longrightarrow> quiet w1) \<Longrightarrow> isl r \<or> (\<exists>e. r = Inr (Inl e)) \<Longrightarrow> Q r w1"
    and fin: "\<And>items n w1 w2. calm w w1 \<Longrightarrow> (quiet w \<longrightarrow> quiet w1)
        \<Longrightarrow> uploaded_all pk (allowed_hashes c (req\<lparr>br_allowed := Some xs\<rparr>) (br_files req)) w1 (items, n) w2
        \<Longrightarrow> wp (if qs_enabled (sv_quota c) \<and> n > 0 then IncrementUsage (sv_quota c) pk n else ret (Inr ()))
             (\<lambda>_. Q (Inr (Inr (respond items)))) w2"
  shows "wp (BatchUpload c bc expiring pk xs req) Q w"
proof -
  let ?req = "req\<lparr>br_pubkey := pk, br_allowed := Some xs\<rparr>"
  have may: "wp (mayUpload c pk) (\<lambda>_ w1. calm w w1 \<and> (quiet w \<longrightarrow> quiet w1)) w"
  proof -
    have m: "wp (mayUpload c pk) (\<lambda>_ w1. calm w w1) w"
      unfolding mayUpload_def IsBlocked_def wp_bind
      by (rule wp_ifI) (auto simp: wp_simp q_IsBlocked_def calm_def intro!: wp_exec)
    have k: "keeps quiet (mayUpload c pk)"
      unfolding mayUpload_def IsBlocked_def by (intro keeps_rule)
    show ?thesis by (rule wp_mono [OF quiet_imp [OF k m]]) auto
  qed
  have go: "wp (batch_Upload c bc expiring ?req) (\<lambda>r. Q (Inr r)) w1" if w1: "calm w w1" "quiet w \<longrightarrow> quiet w1" for w1
  proof -
    have e: "Q (Inr (Inl e)) w2" if "calm w1 w2" "quiet w1 \<longrightarrow> quiet w2" for e w2
      using err [of w2 "Inr (Inl e)"] that w1 calm_trans by blast
    have main: "wp (do {
          t \<leftarrow> now;
          (items, chargeSize) \<leftarrow> batch_upload_all c bc expiring ?req (Unix t) 0 (br_files ?req);
          _ \<leftarrow> (if qs_enabled (sv_quota c) \<and> chargeSize > 0 then IncrementUsage (sv_quota c) (br_pubkey ?req) chargeSize
                else ret (Inr ()));
          ret (Inr (respond items)) }) (\<lambda>r. Q (Inr r)) w2"
      if w2: "calm w1 w2" "quiet w1 \<longrightarrow> quiet w2" for w2
    proof -
      have i: "db_inv (w_db w2)" "w_saved w2 = None" using w1 w2 inv s by (simp_all add: calm_def)
      have cw: "calm w w2" "quiet w \<longrightarrow> quiet w2" using w1 w2 calm_trans by blast+
      have H: "allowed_hashes c ?req (br_files req) = allowed_hashes c (req\<lparr>br_allowed := Some xs\<rparr>) (br_files req)"
        by (simp add: allowed_hashes_def)
      show ?thesis
        unfolding wp_bind wp_now
      proof (rule wp_mono [OF batch_upload_all_spec [OF c i, of _ "br_files req"]])
        show "set (br_files ?req) \<subseteq> set (br_files req)" by simp
        fix x :: "batch_item list \<times> int" and w3
        assume a: "uploaded_all (br_pubkey ?req) (allowed_hashes c ?req (br_files req)) w2 x w3"
        show "wp (case x of (items, chargeSize) \<Rightarrow> do {
            _ \<leftarrow> (if qs_enabled (sv_quota c) \<and> chargeSize > 0 then IncrementUsage (sv_quota c) (br_pubkey ?req) chargeSize
                else ret (Inr ()));
            ret (Inr (respond items)) }) (\<lambda>r. Q (Inr r)) w3"
        proof (cases x)
          case (Pair items n)
          have "br_pubkey ?req = pk" by simp
          then show ?thesis using fin [OF cw, of items n w3] a unfolding H Pair prod.case wp_bind wp_ret by (simp only:)
        qed
      qed
    qed
    show ?thesis
      unfolding batch_Upload_def Let_def
    proof (intro wp_ifI)
      have "wp (if qs_enabled (sv_quota c) then CheckQuota (sv_quota c) (br_pubkey ?req) n else ret (Inr ()))
          (\<lambda>_ w2. calm w1 w2 \<and> (quiet w1 \<longrightarrow> quiet w2)) w1" for n
      proof (rule wp_ifI)
        have d: "db_inv (w_db w1)" using w1(1) inv by (simp add: calm_def)
        show "wp (CheckQuota (sv_quota c) (br_pubkey ?req) n) (\<lambda>_ w2. calm w1 w2 \<and> (quiet w1 \<longrightarrow> quiet w2)) w1"
          by (rule wp_mono [OF quiet_imp [OF keeps_quiet_quota(1) CheckQuota_spec [OF d]]]) auto
      qed (simp add: wp_ret)
      then show "wp (and_then (wrap ''quota check failed'' (if qs_enabled (sv_quota c)
            then CheckQuota (sv_quota c) (br_pubkey ?req) (foldl (\<lambda>s f. i64 (s + bf_size f)) 0 (br_files ?req)) else ret (Inr ())))
          (\<lambda>_. do {
          t \<leftarrow> now;
          (items, chargeSize) \<leftarrow> batch_upload_all c bc expiring ?req (Unix t) 0 (br_files ?req);
          _ \<leftarrow> (if qs_enabled (sv_quota c) \<and> chargeSize > 0 then IncrementUsage (sv_quota c) (br_pubkey ?req) chargeSize
                else ret (Inr ()));
          ret (Inr (respond items)) })) (\<lambda>r. Q (Inr r)) w1"
        unfolding wp_and_then wp_wrap
      proof (rule wp_mono, elim conjE)
        fix r :: "unit result" and w2
        assume "calm w1 w2" "quiet w1 \<longrightarrow> quiet w2"
        then show "(case (case r of Inl e \<Rightarrow> Inl (Wrap ''quota check failed'' e) | Inr x \<Rightarrow> Inr x) of
            Inl e \<Rightarrow> (\<lambda>r. Q (Inr r)) (Inl e)
          | Inr _ \<Rightarrow> wp (do {
          t \<leftarrow> now;
          (items, chargeSize) \<leftarrow> batch_upload_all c bc expiring ?req (Unix t) 0 (br_files ?req);
          _ \<leftarrow> (if qs_enabled (sv_quota c) \<and> chargeSize > 0 then IncrementUsage (sv_quota c) (br_pubkey ?req) chargeSize
                else ret (Inr ()));
          ret (Inr (respond items)) }) (\<lambda>r. Q (Inr r))) w2"
          by (cases r) (simp_all only: sum.case e main)
      qed
    qed (simp_all add: wp_ret e)
  qed
  show ?thesis
    unfolding BatchUpload_def wp_bind
    by (rule wp_mono [OF may]) (auto simp: wp_ret wp_bind err intro!: wp_mono [OF go] split: option.split)
qed

definition upload_safe :: "string \<Rightarrow> string set \<Rightarrow> world \<Rightarrow> (batch_refusal + batch_response result) \<Rightarrow> world \<Rightarrow> bool" where
  "upload_safe pk H w r w' \<longleftrightarrow> db_inv (w_db w')
     \<and> (\<forall>pk' h. owns pk' h (owned (w_db w)) \<longrightarrow> owns pk' h (owned (w_db w')))
     \<and> (\<forall>pk' h. owns pk' h (owned (w_db w')) \<longrightarrow> owns pk' h (owned (w_db w)) \<or> pk' = pk \<and> h \<in> H)
     \<and> (\<forall>resp. r = Inr (Inr resp) \<longrightarrow> (\<forall>x \<in> set (bp_results resp). bi_success x \<longrightarrow> owns pk (bi_hash x) (owned (w_db w'))))"

lemma BatchUpload_safe:
  assumes "enc_ok (sv_blobs c)" "db_inv (w_db w)" "w_saved w = None"
  shows "wp (BatchUpload c bc expiring pk xs req)
    (upload_safe pk (allowed_hashes c (req\<lparr>br_allowed := Some xs\<rparr>) (br_files req)) w) w"
proof (rule BatchUpload_wp [OF assms])
  let ?H = "allowed_hashes c (req\<lparr>br_allowed := Some xs\<rparr>) (br_files req)"
  show "upload_safe pk ?H w r w1" if "calm w w1" "isl r \<or> (\<exists>e. r = Inr (Inl e))" for r w1
    using that assms(2) by (auto simp: upload_safe_def calm_def)
  fix items n w1 w2
  assume w1: "calm w w1" and u: "uploaded_all pk ?H w1 (items, n) w2"
  have i: "db_inv (w_db w2)" using u by (simp add: uploaded_all_def kept_def)
  have safe: "upload_safe pk ?H w (Inr (Inr (respond items))) w3" if "db_inv (w_db w3)" "owned (w_db w3) = owned (w_db w2)" for w3
    using u w1 that(1) unfolding upload_safe_def that(2) uploaded_all_def calm_def respond_def by auto
  show "wp (if qs_enabled (sv_quota c) \<and> n > 0 then IncrementUsage (sv_quota c) pk n else ret (Inr ()))
      (\<lambda>_. upload_safe pk ?H w (Inr (Inr (respond items)))) w2"
    by (rule wp_ifI) (auto simp: wp_ret only_users_def intro!: wp_mono [OF IncrementUsage_any [OF i]] safe i)
qed

text \<open>C36. A batch upload gives no more than its token allows, whichever calls fail: nobody loses a blob, and the only owner
  that can gain one is the signer, for hashes that the token names and that one of the request's files has; what the answer
  reports as stored the signer owns.\<close>
theorem batch_upload_safe:
  assumes "enc_ok (sv_blobs c)" "db_inv (w_db w)" "w_saved w = None"
    "run_state (BatchUpload c bc expiring pk xs req) w = (r, w')"
  shows "db_inv (w_db w')
     \<and> (\<forall>pk' h. owns pk' h (owned (w_db w)) \<longrightarrow> owns pk' h (owned (w_db w')))
     \<and> (\<forall>pk' h. owns pk' h (owned (w_db w')) \<longrightarrow> owns pk' h (owned (w_db w))
          \<or> pk' = pk \<and> h \<in> set xs \<and> (\<exists>f \<in> set (br_files req). \<exists>data. bf_read f = Inr data \<and> sv_hash c data = h))
     \<and> (\<forall>resp. r = Inr (Inr resp) \<longrightarrow> (\<forall>x \<in> set (bp_results resp). bi_success x \<longrightarrow> owns pk (bi_hash x) (owned (w_db w'))))"
proof -
  have "h \<in> set xs \<and> (\<exists>f \<in> set (br_files req). \<exists>data. bf_read f = Inr data \<and> sv_hash c data = h)"
    if "h \<in> allowed_hashes c (req\<lparr>br_allowed := Some xs\<rparr>) (br_files req)" for h
    using that by (auto simp: allowed_hashes_def) metis
  then show ?thesis
    using wp_run [OF BatchUpload_safe [OF assms(1-3)] assms(4)] unfolding upload_safe_def by blast
qed

lemma BatchUpload_balanced:
  assumes c: "enc_ok (sv_blobs c)" and w: "quiet w" "balanced (w_db w)" "w_saved w = None" "qs_enabled (sv_quota c)"
  shows "wp (BatchUpload c bc expiring pk xs req)
    (\<lambda>_ w'. in_i64 (usage pk (owned (w_db w'))) \<longrightarrow> balanced (w_db w')) w"
proof (rule BatchUpload_wp [OF c _ w(3)])
  show "db_inv (w_db w)" using w(2) by (simp add: balanced_def)
  show "in_i64 (usage pk (owned (w_db w1))) \<longrightarrow> balanced (w_db w1)" if "calm w w1" for r w1
    using that w(2) by (simp add: calm_def balanced_def)
  fix items n w1 w2
  assume w1: "calm w w1" "quiet w \<longrightarrow> quiet w1"
    and u: "uploaded_all pk (allowed_hashes c (req\<lparr>br_allowed := Some xs\<rparr>) (br_files req)) w1 (items, n) w2"
  let ?m1 = "owned (w_db w1)" and ?m2 = "owned (w_db w2)"
  have b1: "sizes_ok ?m1" "\<And>pk'. balance pk' (w_db w1) = usage pk' ?m1"
    using w1(1) w(2) by (simp_all add: calm_def balanced_def)
  have w2: "quiet w2" "db_inv (w_db w2)" "\<And>pk'. balance pk' (w_db w2) = usage pk' ?m1"
    using u w1(2) w(1) b1(2) by (simp_all add: uploaded_all_def kept_def)
  have b2: "sizes_ok ?m2" "usage pk ?m1 \<le> usage pk ?m2" "\<And>pk'. pk' \<noteq> pk \<Longrightarrow> usage pk' ?m2 = usage pk' ?m1"
    "in_i64 (usage pk ?m2) \<longrightarrow> n = usage pk ?m2 - usage pk ?m1"
    using u b1(1) by (simp_all add: uploaded_all_def)
  show "wp (if qs_enabled (sv_quota c) \<and> n > 0 then IncrementUsage (sv_quota c) pk n else ret (Inr ()))
      (\<lambda>_ w'. in_i64 (usage pk (owned (w_db w'))) \<longrightarrow> balanced (w_db w')) w2"
  proof (cases "in_i64 (usage pk ?m2)")
    case False
    have "wp (IncrementUsage (sv_quota c) pk n) (\<lambda>_ w'. owned (w_db w') = ?m2) w2"
      by (rule wp_mono [OF IncrementUsage_any [OF w2(2)]]) (simp add: only_users_def)
    then show ?thesis using False
      by (intro wp_ifI) (auto simp: wp_ret elim: wp_mono)
  next
    case True
    then have n: "n = usage pk ?m2 - usage pk ?m1" using b2(4) by blast
    show ?thesis
    proof (rule wp_ifI)
      assume "\<not> (qs_enabled (sv_quota c) \<and> n > 0)"
      then have "usage pk' ?m2 = usage pk' ?m1" for pk' using n w(4) b2(2,3) by (cases "pk' = pk") auto
      then show "wp (ret (Inr ())) (\<lambda>_ w'. in_i64 (usage pk (owned (w_db w'))) \<longrightarrow> balanced (w_db w')) w2"
        using w2 b2(1) by (simp add: wp_ret balanced_def)
    next
      have "wp (IncrementUsage (sv_quota c) pk n) (\<lambda>r w'. quiet w' \<and> only_users w2 w'
          \<and> quota.accounted (\<lambda>pk d. usage pk (owned d)) (w_db w')) w2"
        by (rule quota.charge_keeps [OF w2(1,2)]) (use n True b2(3) w2(3) in auto)
      then show "wp (IncrementUsage (sv_quota c) pk n)
          (\<lambda>_ w'. in_i64 (usage pk (owned (w_db w'))) \<longrightarrow> balanced (w_db w')) w2"
        by (rule wp_mono) (use b2(1) in \<open>auto simp: balanced_accounted only_users_def\<close>)
    qed
  qed
qed

text \<open>When no call fails and quotas are on, a batch upload keeps every account equal to what its key's blobs are charged,
  as long as that is a 64-bit number: repeated files and blobs the key owned before are charged once.\<close>
theorem batch_upload_keeps_balanced:
  assumes "enc_ok (sv_blobs c)" "quiet w" "balanced (w_db w)" "w_saved w = None" "qs_enabled (sv_quota c)"
    "run_state (BatchUpload c bc expiring pk xs req) w = (r, w')" "in_i64 (usage pk (owned (w_db w')))"
  shows "balanced (w_db w')"
  using wp_run [OF BatchUpload_balanced [OF assms(1-5)] assms(6)] assms(7) by blast

section \<open>Witnesses and counterexamples\<close>

definition one_file :: batch_file where
  "one_file = \<lparr>bf_name = ''a.txt'', bf_mime = ''text/plain'', bf_size = 2, bf_read = Inr [7, 8]\<rparr>"

definition two_copies :: batch_request where
  "two_copies = \<lparr>br_pubkey = ''a'', br_files = [one_file, one_file], br_mode = [], br_expires_in = 60, br_allowed = None\<rparr>"

lemma open_services_enc: "enc_ok (sv_blobs open_services)"
  by (simp add: open_services_def enc_ok_def plain_service_def)

lemma single_inv: "db_inv (w_db (start_world single_db))" "w_saved (start_world single_db) = None"
  using balanced_examples(2) by (simp_all add: balanced_def)

lemma batch_delete_safe_witness:
  "db_inv (w_db (snd (run_state (BatchDelete open_services DefaultBatchConfig ''a'' [''h''] [''h'', ''h'']) (start_world single_db))))"
  by (rule batch_delete_safe [OF single_inv run_pair, THEN conjunct1])

lemma batch_delete_keeps_balanced_witness:
  "balanced (w_db (snd (run_state (batch_Delete open_services DefaultBatchConfig ''a'' [''h'', ''h'']) (start_world single_db))))"
proof (rule batch_delete_keeps_balanced [OF _ _ _ _ _ _ run_pair])
  show "plain_blobs (set [''h'', ''h'']) (owned (w_db (start_world single_db)))"
    by (simp add: plain_blobs_def owned_def) (simp add: bare_def sample_blob_def)
  show "qs_enabled (sv_quota open_services)" by code_simp
  show "in_i64 (balance ''a'' (w_db (start_world single_db)))" by (simp add: in_i64_def)
qed (simp_all add: single_inv)

lemma batch_upload_safe_witness:
  "db_inv (w_db (snd (run_state (BatchUpload open_services DefaultBatchConfig True ''a'' [''hh''] two_copies) (start_world single_db))))"
  by (rule batch_upload_safe [OF open_services_enc single_inv run_pair, THEN conjunct1])

text \<open>The charges of a key as a sum over the rows, to evaluate them.\<close>

definition row_usage :: "string \<Rightarrow> dbstate \<Rightarrow> int" where
  "row_usage pk d = (\<Sum>b\<leftarrow>filter (\<lambda>b. pk \<in> owner_set (b_hash b) d) (t_blobs d). charge b)"

lemma usage_rows:
  assumes "db_keys d"
  shows "usage pk (owned d) = row_usage pk d"
proof -
  let ?bs = "filter (\<lambda>b. pk \<in> owner_set (b_hash b) d) (t_blobs d)"
  have dist: "distinct (map b_hash (t_blobs d))" using assms by (simp add: db_keys_def)
  have at: "blob_of (b_hash b) d = Some b" if "b \<in> set (t_blobs d)" for b
    using assms that by (rule blob_of_mem)
  have hs: "{h. owns pk h (owned d)} = b_hash ` set ?bs"
    using at by (auto simp: owns_def owned_def split: option.splits dest: blob_of_Some)
  have inj: "inj_on b_hash (set ?bs)" using dist by (auto simp: distinct_map intro: inj_on_subset)
  have "usage pk (owned d) = (\<Sum>b \<in> set ?bs. charge_at (b_hash b) (owned d))"
    unfolding usage_def hs sum.reindex [OF inj] comp_def ..
  also have "\<dots> = (\<Sum>b \<in> set ?bs. charge b)"
    using at by (intro sum.cong refl) (auto simp: charge_at_def owned_def)
  also have "\<dots> = row_usage pk d"
    using dist unfolding row_usage_def by (subst sum_list_distinct_conv_sum_set) (auto simp: distinct_map)
  finally show ?thesis .
qed

lemma batch_upload_keeps_balanced_witness:
  "balanced (w_db (snd (run_state (BatchUpload open_services DefaultBatchConfig True ''a'' [''hh''] two_copies) (start_world single_db))))"
proof (rule batch_upload_keeps_balanced [OF open_services_enc quiet_start _ _ _ run_pair])
  let ?m = "BatchUpload open_services DefaultBatchConfig True ''a'' [''hh''] two_copies"
  show "qs_enabled (sv_quota open_services)" by code_simp
  have "db_keys (w_db (snd (run_state ?m (start_world single_db))))"
    using wp_run [OF BatchUpload_safe [OF open_services_enc single_inv] run_pair] by (simp add: upload_safe_def db_inv_def)
  moreover have "in_i64 (row_usage ''a'' (w_db (snd (run_state ?m (start_world single_db)))))" by code_simp
  ultimately show "in_i64 (usage ''a'' (owned (w_db (snd (run_state ?m (start_world single_db))))))"
    by (simp add: usage_rows)
qed simp_all

text \<open>The batch upload does not look at the removed hashes: a blob that moderation removed is stored again, where an upload
  with \<^verbatim>\<open>PUT /upload\<close> is refused.\<close>
theorem batch_restores_removed_hash:
  "fst (q_IsHashRemoved ''hh'' removed_db) = Inr True
     \<and> (case run_state (BatchUpload open_services DefaultBatchConfig True ''a'' [''hh''] two_copies) (start_world removed_db) of
          (r, w) \<Rightarrow> (''a'', ''hh'') \<in> (\<lambda>x. (r_pubkey x, r_hash x)) ` set (t_refs (w_db w)))
     \<and> fst (run_state (UploadBlob open_services ''hh'' ''a'' [7, 8] ''none'' []) (start_world removed_db)) = Inl ErrHashRemoved"
  by code_simp

definition crypt_services :: services where
  "crypt_services = open_services\<lparr>sv_blobs := crypt_service\<rparr>"

text \<open>A batch download puts the stored object into the archive, not the blob: of a blob that the server encrypted the
  archive has the ciphertext, where \<^verbatim>\<open>GET /<hash>\<close> serves the plaintext.\<close>
theorem batch_archive_has_ciphertext:
  "let w = snd (run_state (SaveWithDedup crypt_service ''pk'' ''x'' ''u'' 3 ''image/png'' [1, 2, 3] 7 ''none'') (start_world sample_db));
       a = fst (run_state (batch_Download crypt_services DefaultBatchConfig [''x''] []) w);
       g = fst (run_state (GetFromHash crypt_service ''x'') w)
   in \<not> isl a \<and> \<not> isl g \<and> map bi_success (av_items (projr a)) = [True]
      \<and> map fst (av_entries (projr a)) = [''x.png''] \<and> map snd (av_entries (projr a)) \<noteq> [d_blob (projr g)] \<and> d_blob (projr g) = [1, 2, 3]"
  by code_simp

end
