(* ===== verification/Payments.thy ===== *)
theory Payments
  imports Auth
begin

text \<open>
  Paid uploads (BUD-07): the queries of \<^verbatim>\<open>db/payments.sql.go\<close>, \<^verbatim>\<open>src/service/payment_service.go\<close>, the clients of the
  Lightning node and of the Cashu mints (\<^verbatim>\<open>internal/lightning/client.go\<close>, \<^verbatim>\<open>internal/cashu/client.go\<close>) and the gate
  in front of the upload handlers (\<^verbatim>\<open>api/gin/payment_middleware.go\<close>).

  The node and the mints are other people's programs: what they would answer is part of the state, every call to them may
  fail. The JSON decoder, SHA-256, the generator of request ids, the node's invoices and the floating point product of the
  price are parameters. Log lines and metrics are left out.
\<close>

section \<open>Data\<close>

record pay_row =
  y_id :: string
  y_pubkey :: string
  y_amount :: int
  y_bytes :: int
  y_invoice :: "string option"
  y_cashu :: "string option"
  y_hash :: "string option"
  y_status :: string
  y_created :: int
  y_expires :: int
  y_paid :: "int option"
  y_proof :: "string option"

record cashu_proof =
  cp_amount :: int
  cp_keyset :: string
  cp_secret :: string
  cp_sig :: string

record token_entry =
  te_mint :: string
  te_proofs :: "cashu_proof list"

type_synonym cashu_token = "token_entry list"

record pay_state =
  py_world :: world
  py_rows :: "pay_row list"
  py_settled :: "string \<Rightarrow> bool"
  py_mints :: "string \<Rightarrow> cashu_proof list \<Rightarrow> bool list option"
  py_up :: "string \<Rightarrow> bool"
  py_mint :: string
  py_connected :: bool

type_synonym 'a pay = "(pay_state, 'a) state"

record pay_config =
  yc_enabled :: bool
  yc_product :: "int \<Rightarrow> int"
  yc_min :: int
  yc_free :: int
  yc_expiry :: int
  yc_lightning :: "bool \<times> bool \<times> string"
  yc_cashu :: "(bool \<times> string list) option"
  yc_uuid :: "nat \<Rightarrow> string"
  yc_invoice :: "nat \<Rightarrow> int \<Rightarrow> string \<Rightarrow> string \<times> string"
  yc_sha :: "bytes \<Rightarrow> bytes"
  yc_json :: "bytes \<Rightarrow> cashu_token option"

text \<open>\<open>yc_lightning\<close>: enabled, connected and the default memo; \<open>yc_cashu\<close>: the client, if there is one, enabled and the
  addresses of its mints; \<open>yc_product n\<close>: the ceiling of \<^verbatim>\<open>float64(n) * SatoshisPerByte\<close>.\<close>

abbreviation ln_enabled :: "pay_config \<Rightarrow> bool" where "ln_enabled c \<equiv> fst (yc_lightning c)"
abbreviation ln_connected :: "pay_config \<Rightarrow> bool" where "ln_connected c \<equiv> fst (snd (yc_lightning c))"
abbreviation ln_memo :: "pay_config \<Rightarrow> string" where "ln_memo c \<equiv> snd (snd (yc_lightning c))"

definition lift_prog :: "'a prog \<Rightarrow> 'a pay" where
  "lift_prog m = State (\<lambda>s. case run_state m (py_world s) of (x, w) \<Rightarrow> (x, s\<lparr>py_world := w\<rparr>))"

section \<open>Queries\<close>

type_synonym 'a pay_query = "pay_row list \<Rightarrow> 'a result \<times> pay_row list"

definition exec_pay :: "'a pay_query \<Rightarrow> 'a result pay" where
  "exec_pay q = do {
     failed \<leftarrow> lift_prog tick;
     if failed then ret (Inl ErrIO)
     else State (\<lambda>s. case q (py_rows s) of (r, rows) \<Rightarrow> (r, s\<lparr>py_rows := rows\<rparr>))
   }"

definition has_id :: "string \<Rightarrow> pay_row \<Rightarrow> bool" where
  "has_id i r \<longleftrightarrow> y_id r = i"

definition q_CreatePaymentRequest ::
  "string \<Rightarrow> string \<Rightarrow> int \<Rightarrow> int \<Rightarrow> string option \<Rightarrow> string option \<Rightarrow> string option \<Rightarrow> int \<Rightarrow> int \<Rightarrow> pay_row pay_query" where
  "q_CreatePaymentRequest i pk amount bytes invoice cashu hash created expires rows =
     (if \<exists>r \<in> set rows. has_id i r then (Inl ErrConstraint, rows)
      else (let r = \<lparr>y_id = i, y_pubkey = pk, y_amount = amount, y_bytes = bytes, y_invoice = invoice, y_cashu = cashu,
                     y_hash = hash, y_status = ''pending'', y_created = created, y_expires = expires, y_paid = None,
                     y_proof = None\<rparr>
            in (Inr r, rows @ [r])))"

definition q_ExpirePendingPayments :: "int \<Rightarrow> unit pay_query" where
  "q_ExpirePendingPayments t rows =
     (Inr (), update_where (\<lambda>r. y_status r = ''pending'' \<and> y_expires r < t) (\<lambda>r. r\<lparr>y_status := ''expired''\<rparr>) rows)"

definition q_GetPaymentRequest :: "string \<Rightarrow> pay_row pay_query" where
  "q_GetPaymentRequest i rows = (first_row (has_id i) rows, rows)"

text \<open>Comparing with \<^verbatim>\<open>NULL\<close> selects nothing.\<close>

definition q_GetPaymentRequestByHash :: "string option \<Rightarrow> pay_row pay_query" where
  "q_GetPaymentRequestByHash h rows = (first_row (\<lambda>r. h \<noteq> None \<and> y_hash r = h) rows, rows)"

record pay_stats =
  yt_paid :: int
  yt_pending :: int
  yt_expired :: int
  yt_sats :: int
  yt_bytes :: int

definition count_status :: "string \<Rightarrow> pay_row list \<Rightarrow> int" where
  "count_status st rows = int (length (filter (\<lambda>r. y_status r = st) rows))"

definition q_GetPaymentStats :: "pay_stats pay_query" where
  "q_GetPaymentStats rows =
     (let paid = filter (\<lambda>r. y_status r = ''paid'') rows in
      (Inr \<lparr>yt_paid = count_status ''paid'' rows, yt_pending = count_status ''pending'' rows,
            yt_expired = count_status ''expired'' rows, yt_sats = sum_list (map y_amount paid),
            yt_bytes = sum_list (map y_bytes paid)\<rparr>, rows))"

definition q_GetPendingPaymentRequests :: "string \<Rightarrow> int \<Rightarrow> pay_row list pay_query" where
  "q_GetPendingPaymentRequests pk t rows =
     (Inr (sort_key (\<lambda>r. - y_created r)
        (filter (\<lambda>r. y_pubkey r = pk \<and> y_status r = ''pending'' \<and> y_expires r > t) rows)), rows)"

definition q_GetRecentPayments :: "int \<Rightarrow> pay_row list pay_query" where
  "q_GetRecentPayments limit rows =
     (if limit < 0 then (Inl ErrConstraint, rows)
      else let paid = filter (\<lambda>r. y_status r = ''paid'') rows in
        (Inr (take (nat limit) (filter (\<lambda>r. y_paid r = None) paid
                @ sort_key (\<lambda>r. - the (y_paid r)) (filter (\<lambda>r. y_paid r \<noteq> None) paid))), rows))"

definition q_MarkPaymentExpired :: "string \<Rightarrow> unit pay_query" where
  "q_MarkPaymentExpired i rows = (Inr (), update_where (has_id i) (\<lambda>r. r\<lparr>y_status := ''expired''\<rparr>) rows)"

definition q_MarkPaymentPaid :: "int option \<Rightarrow> string option \<Rightarrow> string \<Rightarrow> unit pay_query" where
  "q_MarkPaymentPaid paid proof i rows =
     (Inr (), update_where (has_id i) (\<lambda>r. r\<lparr>y_status := ''paid'', y_paid := paid, y_proof := proof\<rparr>) rows)"

definition q_GetUserFreeBytesUsed :: "string \<Rightarrow> (int \<times> int) query" where
  "q_GetUserFreeBytesUsed pk d =
     (case user_of pk d of None \<Rightarrow> Inl ErrNoRows | Some u \<Rightarrow> Inr (u_free_used u, u_free_limit u), d)"

definition q_IncrementUserFreeBytesUsed :: "int \<Rightarrow> int \<Rightarrow> string \<Rightarrow> unit query" where
  "q_IncrementUserFreeBytesUsed n t pk d =
     (if \<exists>u \<in> set (t_users d). u_pubkey u = pk \<and> \<not> in_i64 (u_free_used u + n) then (Inl ErrOutOfRange, d)
      else (Inr (), update_user pk (\<lambda>u. u\<lparr>u_free_used := u_free_used u + n, u_updated := t\<rparr>) d))"

definition q_SetUserFreeBytesLimit :: "int \<Rightarrow> int \<Rightarrow> string \<Rightarrow> unit query" where
  "q_SetUserFreeBytesLimit n t pk d = (Inr (), update_user pk (\<lambda>u. u\<lparr>u_free_limit := n, u_updated := t\<rparr>) d)"

definition q_UpdateUserFreeBytesUsed :: "int \<Rightarrow> int \<Rightarrow> string \<Rightarrow> unit query" where
  "q_UpdateUserFreeBytesUsed n t pk d = (Inr (), update_user pk (\<lambda>u. u\<lparr>u_free_used := n, u_updated := t\<rparr>) d)"

section \<open>The Lightning node\<close>

definition hex_digit :: "nat \<Rightarrow> char" where
  "hex_digit n = ''0123456789abcdef'' ! n"

definition hex_encode :: "bytes \<Rightarrow> string" where
  "hex_encode bs = concat (map (\<lambda>b. [hex_digit (unat b div 16), hex_digit (unat b mod 16)]) bs)"

definition draw :: "nat pay" where
  "draw = State (\<lambda>s. (w_rng (py_world s), s\<lparr>py_world := (py_world s)\<lparr>w_rng := Suc (w_rng (py_world s))\<rparr>\<rparr>))"

text \<open>The node answers an invoice and its hash in base64.\<close>

definition CreateInvoice :: "pay_config \<Rightarrow> int \<Rightarrow> string \<Rightarrow> (string \<times> string) result pay" where
  "CreateInvoice c amount memo =
     (if \<not> ln_connected c then ret (Inl ErrLightningDisabled)
      else let memo = (if memo = [] then ln_memo c else memo) in do {
        failed \<leftarrow> lift_prog tick;
        if failed then ret (Inl (Wrap ''failed to create invoice'' ErrIO))
        else do {
          n \<leftarrow> draw;
          ret (case yc_invoice c n amount memo of
                 (invoice, rhash) \<Rightarrow> (case b64_decode rhash of
                                        None \<Rightarrow> Inl (Msg ''failed to decode r_hash'')
                                      | Some bs \<Rightarrow> Inr (invoice, hex_encode bs)))
        }
      })"

definition LookupInvoice :: "pay_config \<Rightarrow> string \<Rightarrow> bool result pay" where
  "LookupInvoice c paymentHash =
     (if \<not> ln_connected c then ret (Inl ErrLightningDisabled)
      else case hex_decode paymentHash of
             None \<Rightarrow> ret (Inl (Msg ''invalid payment hash''))
           | Some bs \<Rightarrow> do {
               failed \<leftarrow> lift_prog tick;
               if failed then ret (Inl (Wrap ''failed to lookup invoice'' ErrIO))
               else State (\<lambda>s. (Inr (py_settled s (hex_encode bs)), s))
             })"

definition ValidatePreimage :: "pay_config \<Rightarrow> string \<Rightarrow> string \<Rightarrow> bool" where
  "ValidatePreimage c paymentHash preimage =
     (case hex_decode preimage of None \<Rightarrow> False | Some bs \<Rightarrow> hex_encode (yc_sha c bs) = paymentHash)"

section \<open>The Cashu mints\<close>

text \<open>\<^verbatim>\<open>strings.TrimSpace\<close>: the UTF-8 codes of the white space characters.\<close>

definition space_codes :: "string list" where
  "space_codes = [[CHR 0x20], [CHR 0x09], [CHR 0x0A], [CHR 0x0B], [CHR 0x0C], [CHR 0x0D],
     [CHR 0xC2, CHR 0x85], [CHR 0xC2, CHR 0xA0], [CHR 0xE1, CHR 0x9A, CHR 0x80]]
   @ map (\<lambda>n. [CHR 0xE2, CHR 0x80, char_of (0x80 + n :: nat)]) [0..<11]
   @ [[CHR 0xE2, CHR 0x80, CHR 0xA8], [CHR 0xE2, CHR 0x80, CHR 0xA9], [CHR 0xE2, CHR 0x80, CHR 0xAF],
      [CHR 0xE2, CHR 0x81, CHR 0x9F], [CHR 0xE3, CHR 0x80, CHR 0x80]]"

function trim_left :: "string list \<Rightarrow> string \<Rightarrow> string" where
  "trim_left codes s =
     (case find (\<lambda>p. p \<noteq> [] \<and> has_prefix s p) codes of None \<Rightarrow> s | Some p \<Rightarrow> trim_left codes (drop (length p) s))"
  by auto
termination
proof (relation "measure (\<lambda>(codes, s). length s)")
  fix codes s p assume "find (\<lambda>p. p \<noteq> [] \<and> has_prefix s p) codes = Some p"
  then have "p \<noteq> [] \<and> has_prefix s p" by (auto simp: find_Some_iff)
  then have "s \<noteq> []" "p \<noteq> []" by (auto simp: has_prefix_def)
  then show "((codes, drop (length p) s), codes, s) \<in> measure (\<lambda>(codes, s). length s)" by simp
qed simp

declare trim_left.simps [simp del]

definition TrimSpace :: "string \<Rightarrow> string" where
  "TrimSpace s = rev (trim_left (map rev space_codes) (rev (trim_left space_codes s)))"

definition trim_suffix :: "string \<Rightarrow> string \<Rightarrow> string" where
  "trim_suffix s p = (if has_prefix (rev s) (rev p) then take (length s - length p) s else s)"

definition ParseToken :: "pay_config \<Rightarrow> string \<Rightarrow> cashu_token result" where
  "ParseToken c tokenStr =
     (let s = TrimSpace tokenStr in
      if has_prefix s ''cashuA'' then
        (let encoded = trim_prefix s ''cashuA'' in
         case (case raw_decode encoded of Some bs \<Rightarrow> Some bs | None \<Rightarrow> b64_decode encoded) of
           None \<Rightarrow> Inl (Msg ''failed to decode V3 token'')
         | Some bs \<Rightarrow> (case yc_json c bs of None \<Rightarrow> Inl (Msg ''failed to parse V3 token JSON'') | Some t \<Rightarrow> Inr t))
      else if has_prefix s ''cashuB'' then Inl (Msg ''V4 tokens (cashuB) not yet supported'')
      else (case yc_json c (str_bytes s) of None \<Rightarrow> Inl (Msg ''unrecognized token format'') | Some t \<Rightarrow> Inr t))"

definition all_proofs :: "cashu_token \<Rightarrow> cashu_proof list" where
  "all_proofs t = concat (map te_proofs t)"

definition token_amount :: "cashu_token \<Rightarrow> int" where
  "token_amount t = foldl (\<lambda>s p. i64 (s + cp_amount p)) 0 (all_proofs t)"

text \<open>The mint that is asked: the one the token names, or else the active one.\<close>

definition mint_of :: "cashu_token \<Rightarrow> pay_state \<Rightarrow> string" where
  "mint_of t s = (if te_mint (hd t) = [] then py_mint s else te_mint (hd t))"

definition checkProofs :: "string \<Rightarrow> cashu_proof list \<Rightarrow> bool list result pay" where
  "checkProofs url proofs = do {
     failed \<leftarrow> lift_prog tick;
     if failed then ret (Inl ErrIO)
     else State (\<lambda>s. (case py_mints s (trim_suffix url ''/'' @ ''/v1/checkstate'') proofs of
                        None \<Rightarrow> Inl (Msg ''mint returned no answer'') | Some bs \<Rightarrow> Inr bs, s))
   }"

text \<open>What verifying and redeeming share: the token, its mint and the mint's word that nothing is spent.\<close>

definition check_token_state :: "pay_config \<Rightarrow> string \<Rightarrow> string \<Rightarrow> cashu_token result pay" where
  "check_token_state c msg tokenStr =
     and_then (wrap ''invalid token format'' (ret (ParseToken c tokenStr))) (\<lambda>t.
       if t = [] then ret (Inl (Msg ''empty token''))
       else do {
         url \<leftarrow> State (\<lambda>s. (mint_of t s, s));
         if url = [] then ret (Inl ErrCashuDisabled)
         else and_then (wrap msg (checkProofs url (all_proofs t))) (\<lambda>spendable.
           ret (if \<forall>b \<in> set spendable. b then Inr t else Inl (Msg ''proof is not spendable'')))
       })"

definition VerifyToken :: "pay_config \<Rightarrow> string \<Rightarrow> int result pay" where
  "VerifyToken c tokenStr = and_then (check_token_state c ''failed to verify proofs'' tokenStr) (\<lambda>t. ret (Inr (token_amount t)))"

definition RedeemToken :: "pay_config \<Rightarrow> string \<Rightarrow> unit result pay" where
  "RedeemToken c tokenStr = and_then (check_token_state c ''failed to check proofs'' tokenStr) (\<lambda>t. ret (Inr ()))"

fun findActiveMint :: "string list \<Rightarrow> unit result pay" where
  "findActiveMint [] = ret (Inl (Msg ''no available Cashu mints''))"
| "findActiveMint (url # urls) = do {
     failed \<leftarrow> lift_prog tick;
     up \<leftarrow> State (\<lambda>s. (\<not> failed \<and> py_up s (trim_suffix url ''/'' @ ''/v1/info''), s));
     if \<not> up then findActiveMint urls
     else State (\<lambda>s. (Inr (), s\<lparr>py_mint := url, py_connected := True\<rparr>))
   }"

definition cashu_CreatePaymentRequest :: "pay_config \<Rightarrow> int \<Rightarrow> (string \<times> string) result pay" where
  "cashu_CreatePaymentRequest c amount = do {
     connected \<leftarrow> State (\<lambda>s. (py_connected s, s));
     r \<leftarrow> (if connected then ret (Inr ())
           else case yc_cashu c of None \<Rightarrow> ret (Inl ErrCashuDisabled) | Some (_, urls) \<Rightarrow> findActiveMint urls);
     case r of
       Inl _ \<Rightarrow> ret (Inl ErrCashuDisabled)
     | Inr _ \<Rightarrow> do {
         t \<leftarrow> lift_prog now;
         mint \<leftarrow> State (\<lambda>s. (py_mint s, s));
         let i = ''cashu_'' @ FormatInt t @ ''_'' @ FormatInt amount;
         ret (Inr (''cashu:'' @ mint @ ''?amount='' @ FormatInt amount @ ''&id='' @ i, i))
       }
   }"

section \<open>The payment service\<close>

definition CalculatePrice :: "pay_config \<Rightarrow> int \<Rightarrow> int" where
  "CalculatePrice c n = (if n \<le> 0 then 0 else if yc_product c n < yc_min c then yc_min c else yc_product c n)"

record free_tier =
  ft_used :: int
  ft_limit :: int
  ft_remaining :: int

definition GetFreeTierStatus :: "pay_config \<Rightarrow> string \<Rightarrow> free_tier result prog" where
  "GetFreeTierStatus c pk =
     (if yc_free c = 0 then ret (Inr \<lparr>ft_used = 0, ft_limit = 0, ft_remaining = 0\<rparr>)
      else do {
        r \<leftarrow> exec_sql (q_GetUserFreeBytesUsed pk);
        ret (case r of
               Inl e \<Rightarrow> if errors_is e ErrNoRows
                        then Inr \<lparr>ft_used = 0, ft_limit = yc_free c, ft_remaining = yc_free c\<rparr> else Inl e
             | Inr (used, own) \<Rightarrow>
                 let limit = (if own > 0 then own else yc_free c); remaining = i64 (limit - used)
                 in Inr \<lparr>ft_used = used, ft_limit = limit, ft_remaining = (if remaining < 0 then 0 else remaining)\<rparr>)
      })"

definition CanUploadFree :: "pay_config \<Rightarrow> string \<Rightarrow> int \<Rightarrow> bool result prog" where
  "CanUploadFree c pk n =
     (if \<not> yc_enabled c then ret (Inr True)
      else if yc_free c = 0 then ret (Inr False)
      else and_then (GetFreeTierStatus c pk) (\<lambda>st. ret (Inr (ft_remaining st \<ge> n))))"

definition toNull :: "string \<Rightarrow> string option" where
  "toNull s = (if s = [] then None else Some s)"

definition lightning_offer :: "pay_config \<Rightarrow> int \<Rightarrow> (string \<times> string) pay" where
  "lightning_offer c amount =
     (if ln_enabled c \<and> ln_connected c then do {
        r \<leftarrow> CreateInvoice c amount (if ln_memo c = [] then ''Blossom Upload'' else ln_memo c);
        ret (case r of Inl _ \<Rightarrow> ([], []) | Inr x \<Rightarrow> x)
      }
      else ret ([], []))"

definition cashu_offer :: "pay_config \<Rightarrow> int \<Rightarrow> string pay" where
  "cashu_offer c amount = do {
     connected \<leftarrow> State (\<lambda>s. (py_connected s, s));
     if (case yc_cashu c of None \<Rightarrow> False | Some (on, _) \<Rightarrow> on) \<and> connected then do {
       r \<leftarrow> cashu_CreatePaymentRequest c amount;
       ret (case r of Inl _ \<Rightarrow> [] | Inr (req, _) \<Rightarrow> req)
     }
     else ret []
   }"

definition CreatePaymentRequest :: "pay_config \<Rightarrow> string \<Rightarrow> int \<Rightarrow> pay_row option result pay" where
  "CreatePaymentRequest c pk n =
     (if \<not> yc_enabled c then ret (Inr None)
      else and_then (lift_prog (CanUploadFree c pk n)) (\<lambda>canFree.
        if canFree then ret (Inr None)
        else let amount = CalculatePrice c n in do {
          u \<leftarrow> draw;
          t \<leftarrow> lift_prog now;
          let expires = t + i64 (yc_expiry c * minute);
          (invoice, hash) \<leftarrow> lightning_offer c amount;
          cashu \<leftarrow> cashu_offer c amount;
          if invoice = [] \<and> cashu = [] then ret (Inl (Msg ''no payment methods available''))
          else and_then (exec_pay (q_CreatePaymentRequest (yc_uuid c u) pk amount n (toNull invoice) (toNull cashu) (toNull hash)
                                     (Unix t) (Unix expires))) (\<lambda>row. ret (Inr (Some row)))
        }))"

definition GetPaymentRequest :: "string \<Rightarrow> pay_row result pay" where
  "GetPaymentRequest i = do {
     r \<leftarrow> exec_pay (q_GetPaymentRequest i);
     ret (case r of Inl e \<Rightarrow> if errors_is e ErrNoRows then Inl ErrPaymentNotFound else Inl e | Inr row \<Rightarrow> Inr row)
   }"

datatype pay_method = Lightning | Cashu | OtherMethod

record pay_proof =
  yp_method :: pay_method
  yp_data :: string
  yp_hash :: string
  yp_request :: string

definition validateLightningProof :: "pay_config \<Rightarrow> pay_row \<Rightarrow> pay_proof \<Rightarrow> unit result pay" where
  "validateLightningProof c req proof =
     (let hash = (case y_hash req of None \<Rightarrow> [] | Some h \<Rightarrow> h) in
      if \<not> ln_enabled c then ret (Inl ErrLightningDisabled)
      else if yp_data proof \<noteq> [] \<and> hash \<noteq> [] \<and> ValidatePreimage c hash (yp_data proof) then ret (Inr ())
      else if hash \<noteq> [] then and_then (LookupInvoice c hash) (\<lambda>paid. ret (if paid then Inr () else Inl ErrPaymentInvalid))
      else ret (Inl ErrPaymentInvalid))"

definition validateCashuProof :: "pay_config \<Rightarrow> pay_row \<Rightarrow> pay_proof \<Rightarrow> unit result pay" where
  "validateCashuProof c req proof =
     (if \<not> (case yc_cashu c of None \<Rightarrow> False | Some (on, _) \<Rightarrow> on) then ret (Inl ErrCashuDisabled)
      else and_then (VerifyToken c (yp_data proof)) (\<lambda>amount.
        if amount < y_amount req then ret (Inl ErrInsufficientPayment)
        else do { _ \<leftarrow> RedeemToken c (yp_data proof); ret (Inr ()) }))"

definition find_request :: "pay_proof \<Rightarrow> pay_row result pay" where
  "find_request proof =
     (if yp_request proof \<noteq> [] then GetPaymentRequest (yp_request proof)
      else if yp_hash proof \<noteq> [] \<and> yp_method proof = Lightning then do {
        r \<leftarrow> exec_pay (q_GetPaymentRequestByHash (toNull (yp_hash proof)));
        ret (case r of Inl e \<Rightarrow> if errors_is e ErrNoRows then Inl ErrPaymentNotFound else Inl e | Inr row \<Rightarrow> Inr row)
      }
      else ret (Inl ErrPaymentNotFound))"

definition ValidatePaymentProof :: "pay_config \<Rightarrow> pay_proof \<Rightarrow> unit result pay" where
  "ValidatePaymentProof c proof =
     and_then (find_request proof) (\<lambda>req.
       if y_status req = ''paid'' then ret (Inl ErrPaymentAlreadyPaid)
       else do {
         t \<leftarrow> lift_prog now;
         if Unix t > y_expires req then do {
           _ \<leftarrow> exec_pay (q_MarkPaymentExpired (y_id req));
           ret (Inl ErrPaymentExpired)
         }
         else and_then (case yp_method proof of
                          Lightning \<Rightarrow> validateLightningProof c req proof
                        | Cashu \<Rightarrow> validateCashuProof c req proof
                        | OtherMethod \<Rightarrow> ret (Inl ErrPaymentInvalid)) (\<lambda>_. do {
           t \<leftarrow> lift_prog now;
           exec_pay (q_MarkPaymentPaid (Some (Unix t)) (toNull (yp_data proof)) (y_id req))
         })
       })"

definition ConsumeFreeTier :: "pay_config \<Rightarrow> string \<Rightarrow> int \<Rightarrow> unit result prog" where
  "ConsumeFreeTier c pk n =
     (if yc_free c = 0 then ret (Inr ())
      else do { t \<leftarrow> now; exec_sql (q_IncrementUserFreeBytesUsed n (Unix t) pk) })"

definition GetPaymentStats :: "pay_stats result pay" where
  "GetPaymentStats = exec_pay q_GetPaymentStats"

definition pay_CleanupExpired :: "unit result pay" where
  "pay_CleanupExpired = do { t \<leftarrow> lift_prog now; exec_pay (q_ExpirePendingPayments (Unix t)) }"

section \<open>The gate\<close>

record pay_request =
  yr_method :: string
  yr_pk :: string
  yr_length :: int
  yr_cashu :: string
  yr_lightning :: string
  yr_id :: string

text \<open>Let through (with the bytes to take from the free tier, if any), or refused.\<close>

datatype gate = GateOpen | GateFree int | GateBadProof goerr | GateFailed | GatePay pay_row

definition proof_of :: "pay_request \<Rightarrow> pay_proof" where
  "proof_of r =
     (if yr_cashu r \<noteq> [] then \<lparr>yp_method = Cashu, yp_data = yr_cashu r, yp_hash = [], yp_request = yr_id r\<rparr>
      else \<lparr>yp_method = Lightning, yp_data = yr_lightning r, yp_hash = [], yp_request = yr_id r\<rparr>)"

definition PaymentMiddleware :: "pay_config \<Rightarrow> pay_request \<Rightarrow> gate pay" where
  "PaymentMiddleware c r =
     (if \<not> yc_enabled c then ret GateOpen
      else if yr_method r \<noteq> ''PUT'' \<and> yr_method r \<noteq> ''POST'' then ret GateOpen
      else if yr_pk r = [] then ret GateOpen
      else if yr_length r \<le> 0 then ret GateOpen
      else if yr_cashu r \<noteq> [] \<or> yr_lightning r \<noteq> [] then do {
        v \<leftarrow> ValidatePaymentProof c (proof_of r);
        ret (case v of Inl e \<Rightarrow> GateBadProof e | Inr _ \<Rightarrow> GateOpen)
      }
      else do {
        f \<leftarrow> lift_prog (CanUploadFree c (yr_pk r) (yr_length r));
        case f of
          Inl _ \<Rightarrow> ret GateFailed
        | Inr True \<Rightarrow> ret (GateFree (yr_length r))
        | Inr False \<Rightarrow> do {
            p \<leftarrow> CreatePaymentRequest c (yr_pk r) (yr_length r);
            ret (case p of Inl _ \<Rightarrow> GateFailed | Inr None \<Rightarrow> GateOpen | Inr (Some row) \<Rightarrow> GatePay row)
          }
      })"

end
