(* ===== verification/PaymentRules.thy ===== *)
theory PaymentRules
  imports Payments
begin

text \<open>
  What the payment gate guarantees: the table of requests stays well formed, the gate opens only for a valid proof or
  within the free tier, a request pays once; and what it does not tie down: the token, the key and the size.
\<close>

section \<open>Calls\<close>

lemma wp_lift: "wp (lift_prog m) Q s = wp m (\<lambda>x w. Q x (s\<lparr>py_world := w\<rparr>)) (py_world s)"
  by (simp add: lift_prog_def wp_def split: prod.split)

lemma wp_lift_now [wp_simp]: "wp (lift_prog now) Q s = Q (w_now (py_world s)) s"
  by (simp add: wp_lift wp_simp)

lemma wp_draw [wp_simp]:
  "wp draw Q s = Q (w_rng (py_world s)) (s\<lparr>py_world := (py_world s)\<lparr>w_rng := Suc (w_rng (py_world s))\<rparr>\<rparr>)"
  by (simp add: draw_def wp_simp)

text \<open>Only failures to come, the generator and the rows may change.\<close>

definition shift :: "pay_state \<Rightarrow> pay_row list \<Rightarrow> pay_state \<Rightarrow> bool" where
  "shift s rows s' \<longleftrightarrow> py_rows s' = rows \<and> py_settled s' = py_settled s \<and> py_mints s' = py_mints s \<and> py_up s' = py_up s
     \<and> py_mint s' = py_mint s \<and> py_connected s' = py_connected s \<and> w_db (py_world s') = w_db (py_world s)
     \<and> w_now (py_world s') = w_now (py_world s) \<and> w_saved (py_world s') = w_saved (py_world s)
     \<and> w_objects (py_world s') = w_objects (py_world s) \<and> (quiet (py_world s) \<longrightarrow> quiet (py_world s'))"

abbreviation calm_pay :: "pay_state \<Rightarrow> pay_state \<Rightarrow> bool" where
  "calm_pay s \<equiv> shift s (py_rows s)"

lemma shift_refl [simp]: "calm_pay s s"
  by (simp add: shift_def)

lemma shift_trans: "shift s rows s1 \<Longrightarrow> shift s1 rows' s2 \<Longrightarrow> shift s rows' s2"
  by (simp add: shift_def)

lemma calm_trans_pay: "calm_pay s s1 \<Longrightarrow> calm_pay s1 s2 \<Longrightarrow> calm_pay s s2"
  by (simp add: shift_def)

lemma shiftD:
  assumes "shift s rows s'"
  shows "py_rows s' = rows" "py_settled s' = py_settled s" "py_mints s' = py_mints s" "py_up s' = py_up s"
    "py_mint s' = py_mint s" "py_connected s' = py_connected s" "w_db (py_world s') = w_db (py_world s)"
    "w_now (py_world s') = w_now (py_world s)" "quiet (py_world s) \<Longrightarrow> quiet (py_world s')"
    "w_saved (py_world s') = w_saved (py_world s)"
  using assms by (auto simp: shift_def)

lemma pay_tick:
  assumes "\<And>s1 f. calm_pay s s1 \<Longrightarrow> (quiet (py_world s) \<Longrightarrow> \<not> f) \<Longrightarrow> Q f s1"
  shows "wp (lift_prog tick) Q s"
proof (cases "quiet (py_world s)")
  case True
  then show ?thesis using assms [of s False] by (simp add: wp_lift quiet_def no_fault)
next
  case False
  then show ?thesis unfolding wp_lift
    by (intro wp_tick assms) (auto simp: shift_def)
qed

lemma wp_exec_pay:
  assumes "\<And>s1. calm_pay s s1 \<Longrightarrow> \<not> quiet (py_world s) \<Longrightarrow> Q (Inl ErrIO) s1"
    and "\<And>s1 r rows. calm_pay s s1 \<Longrightarrow> q (py_rows s) = (r, rows) \<Longrightarrow> Q r (s1\<lparr>py_rows := rows\<rparr>)"
  shows "wp (exec_pay q) Q s"
  unfolding exec_pay_def wp_bind
proof (rule pay_tick)
  fix s1 f assume c: "calm_pay s s1" and f: "quiet (py_world s) \<Longrightarrow> \<not> f"
  obtain r rows where q: "q (py_rows s) = (r, rows)" by (cases "q (py_rows s)")
  show "wp (if f then ret (Inl ErrIO) else State (\<lambda>s. case q (py_rows s) of (r, rows) \<Rightarrow> (r, s\<lparr>py_rows := rows\<rparr>))) Q s1"
    using assms(1) [OF c] assms(2) [OF c q] f by (auto simp: wp_simp shiftD(1) [OF c] q)
qed

lemma shift_rows: "calm_pay s s1 \<Longrightarrow> shift s rows (s1\<lparr>py_rows := rows\<rparr>)"
  by (auto simp: shift_def)

lemma wp_exec_pay_read:
  assumes "\<And>s1. calm_pay s s1 \<Longrightarrow> \<not> quiet (py_world s) \<Longrightarrow> Q (Inl ErrIO) s1"
    and "\<And>s1. calm_pay s s1 \<Longrightarrow> Q r s1" and "q (py_rows s) = (r, py_rows s)"
  shows "wp (exec_pay q) Q s"
proof (rule wp_exec_pay)
  fix s1 r' rows assume c: "calm_pay s s1" and q: "q (py_rows s) = (r', rows)"
  have "s1\<lparr>py_rows := rows\<rparr> = s1" using q assms(3) shiftD(1) [OF c] by simp
  then show "Q r' (s1\<lparr>py_rows := rows\<rparr>)" using assms(2) [OF c] assms(3) q by simp
qed (use assms(1) in blast)

section \<open>Proofs\<close>

definition settled_at :: "pay_state \<Rightarrow> string \<Rightarrow> bool" where
  "settled_at s h \<longleftrightarrow> (\<exists>bs. hex_decode h = Some bs \<and> py_settled s (hex_encode bs))"

definition unspent :: "pay_config \<Rightarrow> pay_state \<Rightarrow> string \<Rightarrow> cashu_token \<Rightarrow> bool" where
  "unspent c s tok t \<longleftrightarrow> ParseToken c tok = Inr t \<and> t \<noteq> [] \<and> mint_of t s \<noteq> []
     \<and> (\<exists>bs. py_mints s (trim_suffix (mint_of t s) ''/'' @ ''/v1/checkstate'') (all_proofs t) = Some bs \<and> (\<forall>b \<in> set bs. b))"

definition cashu_on :: "pay_config \<Rightarrow> bool" where
  "cashu_on c \<longleftrightarrow> (case yc_cashu c of None \<Rightarrow> False | Some (on, _) \<Rightarrow> on)"

definition invoice_hash :: "pay_row \<Rightarrow> string" where
  "invoice_hash req = (case y_hash req of None \<Rightarrow> [] | Some h \<Rightarrow> h)"

definition valid_proof :: "pay_config \<Rightarrow> pay_state \<Rightarrow> pay_row \<Rightarrow> pay_proof \<Rightarrow> bool" where
  "valid_proof c s req proof \<longleftrightarrow> (case yp_method proof of
       Lightning \<Rightarrow> ln_enabled c \<and> invoice_hash req \<noteq> []
         \<and> (yp_data proof \<noteq> [] \<and> ValidatePreimage c (invoice_hash req) (yp_data proof)
            \<or> ln_connected c \<and> settled_at s (invoice_hash req))
     | Cashu \<Rightarrow> cashu_on c \<and> (\<exists>t. unspent c s (yp_data proof) t \<and> y_amount req \<le> token_amount t)
     | OtherMethod \<Rightarrow> False)"

lemma LookupInvoice_spec:
  "wp (LookupInvoice c h) (\<lambda>r s'. calm_pay s s' \<and> (r = Inr True \<longrightarrow> ln_connected c \<and> settled_at s h)
     \<and> (quiet (py_world s) \<longrightarrow> ln_connected c \<longrightarrow> settled_at s h \<longrightarrow> r = Inr True)) s"
proof (cases "ln_connected c \<and> hex_decode h \<noteq> None")
  case True
  then obtain bs where bs: "hex_decode h = Some bs" by auto
  have "wp (lift_prog tick) (\<lambda>failed. wp (if failed then ret (Inl (Wrap ''failed to lookup invoice'' ErrIO))
        else State (\<lambda>s. (Inr (py_settled s (hex_encode bs)), s)))
      (\<lambda>r s'. calm_pay s s' \<and> (r = Inr True \<longrightarrow> ln_connected c \<and> settled_at s h)
         \<and> (quiet (py_world s) \<longrightarrow> ln_connected c \<longrightarrow> settled_at s h \<longrightarrow> r = Inr True))) s"
    by (rule pay_tick) (use True in \<open>auto simp: wp_if wp_ret wp_State settled_at_def bs shiftD\<close>)
  then show ?thesis using True by (simp add: LookupInvoice_def bs wp_bind)
qed (auto simp: LookupInvoice_def wp_simp settled_at_def)

lemma checkProofs_spec:
  "wp (checkProofs url ps) (\<lambda>r s'. calm_pay s s'
     \<and> (\<forall>bs. r = Inr bs \<longrightarrow> py_mints s (trim_suffix url ''/'' @ ''/v1/checkstate'') ps = Some bs)
     \<and> (quiet (py_world s) \<longrightarrow> (\<forall>bs. py_mints s (trim_suffix url ''/'' @ ''/v1/checkstate'') ps = Some bs \<longrightarrow> r = Inr bs))) s"
  unfolding checkProofs_def wp_bind
  by (rule pay_tick) (auto simp: wp_simp shiftD split: option.splits)

definition mint_answer :: "cashu_token \<Rightarrow> pay_state \<Rightarrow> bool list option" where
  "mint_answer t s = py_mints s (trim_suffix (mint_of t s) ''/'' @ ''/v1/checkstate'') (all_proofs t)"

lemma unspent_iff:
  "unspent c s tok t \<longleftrightarrow> ParseToken c tok = Inr t \<and> t \<noteq> [] \<and> mint_of t s \<noteq> []
     \<and> (case mint_answer t s of None \<Rightarrow> False | Some bs \<Rightarrow> \<forall>b \<in> set bs. b)"
  by (simp add: unspent_def mint_answer_def split: option.split)

lemma check_token_state_spec:
  "wp (check_token_state c msg tok) (\<lambda>r s'. calm_pay s s' \<and> (\<forall>t. r = Inr t \<longrightarrow> unspent c s tok t)
     \<and> (quiet (py_world s) \<longrightarrow> (\<forall>t. unspent c s tok t \<longrightarrow> r = Inr t))) s"
proof (cases "ParseToken c tok")
  case (Inl e)
  then show ?thesis by (simp add: check_token_state_def wp_simp unspent_def)
next
  case (Inr t)
  show ?thesis
  proof (cases "t = [] \<or> mint_of t s = []")
    case True
    then show ?thesis by (auto simp: check_token_state_def wp_simp Inr unspent_def)
  next
    case False
    let ?Q = "\<lambda>r s'. calm_pay s s' \<and> (\<forall>t. r = Inr t \<longrightarrow> unspent c s tok t)
     \<and> (quiet (py_world s) \<longrightarrow> (\<forall>t. unspent c s tok t \<longrightarrow> r = Inr t))"
    have u: "unspent c s tok t' \<longleftrightarrow> t' = t \<and> (case mint_answer t s of None \<Rightarrow> False | Some bs \<Rightarrow> \<forall>b \<in> set bs. b)" for t'
      using False Inr by (auto simp: unspent_iff)
    have "wp (and_then (wrap msg (checkProofs (mint_of t s) (all_proofs t))) (\<lambda>spendable.
        ret (if \<forall>b \<in> set spendable. b then Inr t else Inl (Msg ''proof is not spendable'')))) ?Q s"
    proof (rule wp_then_wrap [OF checkProofs_spec])
      fix e :: goerr and s1 :: pay_state
      assume "calm_pay s s1 \<and> (\<forall>bs. Inl e = Inr bs \<longrightarrow> py_mints s (trim_suffix (mint_of t s) ''/'' @ ''/v1/checkstate'') (all_proofs t) = Some bs)
        \<and> (quiet (py_world s) \<longrightarrow> (\<forall>bs. py_mints s (trim_suffix (mint_of t s) ''/'' @ ''/v1/checkstate'') (all_proofs t) = Some bs \<longrightarrow> Inl e = Inr bs))"
      then have "calm_pay s s1" "quiet (py_world s) \<Longrightarrow> mint_answer t s = None"
        unfolding mint_answer_def by (auto intro: option.exhaust)
      then show "?Q (Inl (Wrap msg e)) s1"
        by (simp add: u)
    next
      fix bs and s1 :: pay_state
      assume r: "calm_pay s s1 \<and> (\<forall>bs'. Inr bs = Inr bs' \<longrightarrow> py_mints s (trim_suffix (mint_of t s) ''/'' @ ''/v1/checkstate'') (all_proofs t) = Some bs')
        \<and> (quiet (py_world s) \<longrightarrow> (\<forall>bs'. py_mints s (trim_suffix (mint_of t s) ''/'' @ ''/v1/checkstate'') (all_proofs t) = Some bs' \<longrightarrow> Inr bs = Inr bs'))"
      then have m: "mint_answer t s = Some bs" by (simp add: mint_answer_def)
      have "calm_pay s s1" using r by blast
      then show "wp (ret (if \<forall>b \<in> set bs. b then Inr t else Inl (Msg ''proof is not spendable''))) ?Q s1"
        by (simp add: u m wp_ret)
    qed
    then show ?thesis using False by (simp add: check_token_state_def wp_bind wp_State wp_and_then wp_wrap wp_ret Inr)
  qed
qed

lemma VerifyToken_spec:
  "wp (VerifyToken c tok) (\<lambda>r s'. calm_pay s s' \<and> (\<forall>n. r = Inr n \<longrightarrow> (\<exists>t. unspent c s tok t \<and> n = token_amount t))
     \<and> (quiet (py_world s) \<longrightarrow> (\<forall>t. unspent c s tok t \<longrightarrow> r = Inr (token_amount t)))) s"
  unfolding VerifyToken_def by (rule wp_then [OF check_token_state_spec]) (auto simp: wp_ret)

lemma RedeemToken_calm: "wp (RedeemToken c tok) (\<lambda>r s'. calm_pay s s') s"
  unfolding RedeemToken_def by (rule wp_then [OF check_token_state_spec]) (simp_all add: wp_ret)

text \<open>The validation of a proof, which spends nothing.\<close>

definition validate :: "pay_config \<Rightarrow> pay_row \<Rightarrow> pay_proof \<Rightarrow> unit result pay" where
  "validate c req proof = (case yp_method proof of
       Lightning \<Rightarrow> validateLightningProof c req proof
     | Cashu \<Rightarrow> validateCashuProof c req proof
     | OtherMethod \<Rightarrow> ret (Inl ErrPaymentInvalid))"

lemma validate_spec:
  "wp (validate c req proof) (\<lambda>r s'. calm_pay s s' \<and> (r = Inr () \<longrightarrow> valid_proof c s req proof)
     \<and> (quiet (py_world s) \<longrightarrow> valid_proof c s req proof \<longrightarrow> r = Inr ())) s"
proof (cases "yp_method proof")
  case Lightning
  show ?thesis
    unfolding validate_def Lightning pay_method.case validateLightningProof_def Let_def invoice_hash_def [symmetric] wp_if wp_and_then
    by (auto simp: wp_simp valid_proof_def Lightning intro!: wp_mono [OF LookupInvoice_spec] split: sum.splits)
next
  case Cashu
  show ?thesis
  proof (cases "cashu_on c")
    case True
    then have on: "(case yc_cashu c of None \<Rightarrow> False | Some (on, _) \<Rightarrow> on)" by (simp add: cashu_on_def)
    have "wp (and_then (VerifyToken c (yp_data proof)) (\<lambda>amount. if amount < y_amount req then ret (Inl ErrInsufficientPayment)
          else do { _ \<leftarrow> RedeemToken c (yp_data proof); ret (Inr ()) }))
        (\<lambda>r s'. calm_pay s s' \<and> (r = Inr () \<longrightarrow> valid_proof c s req proof)
          \<and> (quiet (py_world s) \<longrightarrow> valid_proof c s req proof \<longrightarrow> r = Inr ())) s"
    proof (rule wp_then [OF VerifyToken_spec])
      fix amount and s1 :: pay_state
      assume v: "calm_pay s s1 \<and> (\<forall>n. Inr amount = Inr n \<longrightarrow> (\<exists>t. unspent c s (yp_data proof) t \<and> n = token_amount t))
        \<and> (quiet (py_world s) \<longrightarrow> (\<forall>t. unspent c s (yp_data proof) t \<longrightarrow> Inr amount = Inr (token_amount t)))"
      then obtain t where t: "unspent c s (yp_data proof) t" "amount = token_amount t" by blast
      have one: "valid_proof c s req proof \<longleftrightarrow> y_amount req \<le> amount"
        using t True by (auto simp: valid_proof_def Cashu unspent_iff)
      have calm: "wp (RedeemToken c (yp_data proof)) (\<lambda>_ s'. calm_pay s s') s1"
        by (rule wp_mono [OF RedeemToken_calm]) (use v calm_trans_pay in blast)
      show "wp (if amount < y_amount req then ret (Inl ErrInsufficientPayment)
          else do { _ \<leftarrow> RedeemToken c (yp_data proof); ret (Inr ()) })
        (\<lambda>r s'. calm_pay s s' \<and> (r = Inr () \<longrightarrow> valid_proof c s req proof)
          \<and> (quiet (py_world s) \<longrightarrow> valid_proof c s req proof \<longrightarrow> r = Inr ())) s1"
        using v calm by (simp add: one wp_if wp_bind wp_ret)
    qed (auto simp: valid_proof_def Cashu)
    then show ?thesis by (simp add: validate_def Cashu validateCashuProof_def on)
  qed (simp add: validate_def Cashu validateCashuProof_def cashu_on_def [symmetric] wp_simp valid_proof_def)
qed (simp add: validate_def wp_simp valid_proof_def)

section \<open>Requests\<close>

definition lookup :: "pay_proof \<Rightarrow> pay_row list \<Rightarrow> pay_row option" where
  "lookup proof rows =
     (if yp_request proof \<noteq> [] then find (has_id (yp_request proof)) rows
      else if yp_hash proof \<noteq> [] \<and> yp_method proof = Lightning then find (\<lambda>r. y_hash r = Some (yp_hash proof)) rows
      else None)"

lemma find_request_spec:
  "wp (find_request proof) (\<lambda>r s'. calm_pay s s' \<and> (\<forall>req. r = Inr req \<longrightarrow> lookup proof (py_rows s) = Some req)
     \<and> (quiet (py_world s) \<longrightarrow> (\<forall>req. lookup proof (py_rows s) = Some req \<longrightarrow> r = Inr req))) s"
proof (cases "yp_request proof \<noteq> []")
  case True
  show ?thesis
    using True unfolding find_request_def GetPaymentRequest_def lookup_def
    by (simp add: wp_bind, intro wp_exec_pay_read [where r = "first_row (has_id (yp_request proof)) (py_rows s)"])
      (auto simp: wp_ret q_GetPaymentRequest_def first_row_def split: option.splits)
next
  case False
  have byhash: "q_GetPaymentRequestByHash (toNull h) rows = (first_row (\<lambda>r. y_hash r = Some h) rows, rows)"
    if "h \<noteq> []" for h rows using that by (simp add: toNull_def q_GetPaymentRequestByHash_def)
  show ?thesis
  proof (cases "yp_hash proof \<noteq> [] \<and> yp_method proof = Lightning")
    case True
    with False show ?thesis
      unfolding find_request_def lookup_def
      by (simp add: wp_bind, intro wp_exec_pay_read [where r = "first_row (\<lambda>r. y_hash r = Some (yp_hash proof)) (py_rows s)"])
        (auto simp: wp_ret byhash first_row_def split: option.splits)
  qed (use False in \<open>auto simp: find_request_def lookup_def wp_ret\<close>)
qed

definition mark_paid :: "int \<Rightarrow> string \<Rightarrow> pay_row \<Rightarrow> pay_row list \<Rightarrow> pay_row list" where
  "mark_paid t data req = update_where (has_id (y_id req)) (\<lambda>r. r\<lparr>y_status := ''paid'', y_paid := Some t, y_proof := toNull data\<rparr>)"

definition mark_expired :: "pay_row \<Rightarrow> pay_row list \<Rightarrow> pay_row list" where
  "mark_expired req = update_where (has_id (y_id req)) (\<lambda>r. r\<lparr>y_status := ''expired''\<rparr>)"

definition payable :: "pay_config \<Rightarrow> pay_state \<Rightarrow> pay_proof \<Rightarrow> pay_row \<Rightarrow> bool" where
  "payable c s proof req \<longleftrightarrow> lookup proof (py_rows s) = Some req \<and> y_status req \<noteq> ''paid''
     \<and> Unix (w_now (py_world s)) \<le> y_expires req \<and> valid_proof c s req proof"

definition late :: "pay_state \<Rightarrow> pay_proof \<Rightarrow> pay_row \<Rightarrow> bool" where
  "late s proof req \<longleftrightarrow> lookup proof (py_rows s) = Some req \<and> y_status req \<noteq> ''paid'' \<and> y_expires req < Unix (w_now (py_world s))"

definition validated :: "pay_config \<Rightarrow> pay_proof \<Rightarrow> pay_state \<Rightarrow> unit result \<Rightarrow> pay_state \<Rightarrow> bool" where
  "validated c proof s r s' \<longleftrightarrow>
     (r = Inr () \<longrightarrow> (\<exists>req. payable c s proof req
        \<and> shift s (mark_paid (Unix (w_now (py_world s))) (yp_data proof) req (py_rows s)) s'))
   \<and> (r \<noteq> Inr () \<longrightarrow> calm_pay s s' \<or> (\<exists>req. late s proof req \<and> shift s (mark_expired req (py_rows s)) s'))
   \<and> (quiet (py_world s) \<longrightarrow> (\<exists>req. payable c s proof req) \<longrightarrow> r = Inr ())"

lemma valid_proof_calm: "calm_pay s s1 \<Longrightarrow> valid_proof c s1 req proof = valid_proof c s req proof"
proof -
  assume c: "calm_pay s s1"
  have "settled_at s1 h = settled_at s h" "unspent c s1 tok t = unspent c s tok t" for h tok t
    using c by (simp_all add: settled_at_def unspent_def mint_of_def shift_def)
  then show ?thesis by (simp add: valid_proof_def split: pay_method.split)
qed

lemma validated_failed: "calm_pay s s' \<Longrightarrow> \<not> quiet (py_world s) \<or> \<not> (\<exists>req. payable c s proof req) \<Longrightarrow> validated c proof s (Inl e) s'"
  by (auto simp: validated_def)

lemma ValidatePaymentProof_spec: "wp (ValidatePaymentProof c proof) (validated c proof s) s"
  unfolding ValidatePaymentProof_def validate_def [symmetric]
proof (rule wp_then [OF find_request_spec])
  fix e :: goerr and s1
  assume "calm_pay s s1 \<and> (\<forall>req. Inl e = Inr req \<longrightarrow> lookup proof (py_rows s) = Some req)
    \<and> (quiet (py_world s) \<longrightarrow> (\<forall>req. lookup proof (py_rows s) = Some req \<longrightarrow> Inl e = Inr req))"
  then show "validated c proof s (Inl e) s1" by (intro validated_failed) (auto simp: payable_def)
next
  fix req s1
  assume "calm_pay s s1 \<and> (\<forall>req'. Inr req = Inr req' \<longrightarrow> lookup proof (py_rows s) = Some req')
    \<and> (quiet (py_world s) \<longrightarrow> (\<forall>req'. lookup proof (py_rows s) = Some req' \<longrightarrow> Inr req = Inr req'))"
  then have c1: "calm_pay s s1" and l: "lookup proof (py_rows s) = Some req" by auto
  let ?t = "Unix (w_now (py_world s1))"
  have t: "w_now (py_world s1) = w_now (py_world s)" by (rule shiftD(8) [OF c1])
  have one: "payable c s proof req' \<longleftrightarrow> req' = req \<and> payable c s proof req" for req' using l by (auto simp: payable_def)
  have expire: "wp (exec_pay (q_MarkPaymentExpired (y_id req))) (\<lambda>_. validated c proof s (Inl ErrPaymentExpired)) s1"
    if "y_status req \<noteq> ''paid''" "y_expires req < ?t"
  proof (rule wp_exec_pay)
    fix s2 assume "calm_pay s1 s2"
    then show "validated c proof s (Inl ErrPaymentExpired) s2"
      using calm_trans_pay [OF c1] that by (intro validated_failed) (auto simp: payable_def l t)
  next
    fix s2 r rows assume c2: "calm_pay s1 s2" and q: "q_MarkPaymentExpired (y_id req) (py_rows s1) = (r, rows)"
    have "rows = mark_expired req (py_rows s)"
      using q shiftD(1) [OF c1] by (auto simp: q_MarkPaymentExpired_def mark_expired_def)
    then show "validated c proof s (Inl ErrPaymentExpired) (s2\<lparr>py_rows := rows\<rparr>)"
      using shift_rows [OF calm_trans_pay [OF c1 c2]] that by (auto simp: validated_def late_def payable_def l t)
  qed
  have pay: "wp (exec_pay (q_MarkPaymentPaid (Some (Unix (w_now (py_world s2)))) (toNull (yp_data proof)) (y_id req))) (validated c proof s) s2"
    if c2: "calm_pay s s2" and p: "payable c s proof req" for s2
  proof (rule wp_exec_pay)
    fix s3 assume "calm_pay s2 s3" "\<not> quiet (py_world s2)"
    then show "validated c proof s (Inl ErrIO) s3"
      using calm_trans_pay [OF c2] shiftD(9) [OF c2] by (intro validated_failed) auto
  next
    fix s3 r rows assume c3: "calm_pay s2 s3"
      and q: "q_MarkPaymentPaid (Some (Unix (w_now (py_world s2)))) (toNull (yp_data proof)) (y_id req) (py_rows s2) = (r, rows)"
    have "rows = mark_paid (Unix (w_now (py_world s))) (yp_data proof) req (py_rows s)" "r = Inr ()"
      using q shiftD(1,8) [OF c2] by (auto simp: q_MarkPaymentPaid_def mark_paid_def)
    then show "validated c proof s r (s3\<lparr>py_rows := rows\<rparr>)"
      using shift_rows [OF calm_trans_pay [OF c2 c3]] p by (auto simp: validated_def)
  qed
  have rest: "wp (and_then (validate c req proof) (\<lambda>_. do { t \<leftarrow> lift_prog now;
      exec_pay (q_MarkPaymentPaid (Some (Unix t)) (toNull (yp_data proof)) (y_id req)) })) (validated c proof s) s1"
    if st: "y_status req \<noteq> ''paid''" "\<not> y_expires req < ?t"
  proof (rule wp_then [OF validate_spec])
    fix e :: goerr and s2
    assume v: "calm_pay s1 s2 \<and> (Inl e = Inr () \<longrightarrow> valid_proof c s1 req proof)
      \<and> (quiet (py_world s1) \<longrightarrow> valid_proof c s1 req proof \<longrightarrow> Inl e = Inr ())"
    then show "validated c proof s (Inl e) s2"
      using calm_trans_pay [OF c1] valid_proof_calm [OF c1] shiftD(9) [OF c1]
      by (intro validated_failed) (auto simp: payable_def l)
  next
    fix x :: unit and s2
    assume v: "calm_pay s1 s2 \<and> (Inr x = Inr () \<longrightarrow> valid_proof c s1 req proof)
      \<and> (quiet (py_world s1) \<longrightarrow> valid_proof c s1 req proof \<longrightarrow> Inr x = Inr ())"
    then have "payable c s proof req" using st valid_proof_calm [OF c1] by (simp add: payable_def l t)
    then show "wp (do { t \<leftarrow> lift_prog now; exec_pay (q_MarkPaymentPaid (Some (Unix t)) (toNull (yp_data proof)) (y_id req)) })
        (validated c proof s) s2"
      unfolding wp_bind wp_lift_now by (intro pay) (use v calm_trans_pay [OF c1] in auto)
  qed
  have paid: "validated c proof s (Inl ErrPaymentAlreadyPaid) s1" if "y_status req = ''paid''"
    using c1 that by (intro validated_failed) (auto simp: payable_def l)
  show "wp (if y_status req = ''paid'' then ret (Inl ErrPaymentAlreadyPaid)
      else do { t \<leftarrow> lift_prog now;
        if y_expires req < Unix t then do { _ \<leftarrow> exec_pay (q_MarkPaymentExpired (y_id req)); ret (Inl ErrPaymentExpired) }
        else and_then (validate c req proof) (\<lambda>_. do { t \<leftarrow> lift_prog now;
          exec_pay (q_MarkPaymentPaid (Some (Unix t)) (toNull (yp_data proof)) (y_id req)) }) }) (validated c proof s) s1"
    using paid expire rest by (simp add: wp_if wp_bind wp_lift_now wp_ret)
qed

section \<open>The table of requests\<close>

definition pay_row_ok :: "pay_row \<Rightarrow> bool" where
  "pay_row_ok r \<longleftrightarrow> y_status r \<in> {''pending'', ''paid'', ''expired''} \<and> (y_status r = ''paid'' \<longleftrightarrow> y_paid r \<noteq> None)
     \<and> (y_proof r \<noteq> None \<longrightarrow> y_status r = ''paid'')"

definition pay_ok :: "pay_row list \<Rightarrow> bool" where
  "pay_ok rows \<longleftrightarrow> distinct (map y_id rows) \<and> (\<forall>r \<in> set rows. pay_row_ok r)"

definition stays_paid :: "pay_row list \<Rightarrow> pay_row list \<Rightarrow> bool" where
  "stays_paid rows rows' \<longleftrightarrow> (\<forall>r \<in> set rows. y_status r = ''paid'' \<longrightarrow> r \<in> set rows')"

abbreviation sound_change :: "pay_row list \<Rightarrow> pay_row list \<Rightarrow> bool" where
  "sound_change rows rows' \<equiv> pay_ok rows \<longrightarrow> pay_ok rows' \<and> stays_paid rows rows'"

lemma stays_paid_refl [simp]: "stays_paid rows rows"
  by (simp add: stays_paid_def)

lemma sound_trans: "sound_change a b \<Longrightarrow> sound_change b c \<Longrightarrow> sound_change a c"
  by (auto simp: stays_paid_def)

lemma pay_ok_update:
  assumes "pay_ok rows" "\<And>r. y_id (f r) = y_id r"
    and "\<And>r. r \<in> set rows \<Longrightarrow> P r \<Longrightarrow> y_status r \<noteq> ''paid'' \<and> pay_row_ok (f r)"
  shows "pay_ok (update_where P f rows) \<and> stays_paid rows (update_where P f rows)"
proof
  have "map y_id (update_where P f rows) = map y_id rows" by (rule map_update_where) (rule assms(2))
  then show "pay_ok (update_where P f rows)"
    using assms(1,3) unfolding pay_ok_def by (simp del: map_map) (auto simp: update_where_def)
  show "stays_paid rows (update_where P f rows)"
    using assms(3) unfolding stays_paid_def update_where_def by force
qed

lemma lookup_Some: "lookup proof rows = Some req \<Longrightarrow> req \<in> set rows"
  by (auto simp: lookup_def find_Some_iff split: if_splits)

lemma same_id: "pay_ok rows \<Longrightarrow> req \<in> set rows \<Longrightarrow> r \<in> set rows \<Longrightarrow> has_id (y_id req) r \<Longrightarrow> r = req"
  by (auto simp: pay_ok_def has_id_def dest: inj_on_eq_iff [THEN iffD1] simp: distinct_map inj_on_def)

lemma marks_sound:
  assumes "req \<in> set rows" "y_status req \<noteq> ''paid''"
  shows "sound_change rows (mark_paid t data req rows)" "sound_change rows (mark_expired req rows)"
proof -
  { assume ok: "pay_ok rows"
    have only: "r \<in> set rows \<Longrightarrow> has_id (y_id req) r \<Longrightarrow> r = req" for r using same_id [OF ok assms(1)] by blast
    have req: "y_paid req = None" "y_proof req = None" using ok assms by (auto simp: pay_ok_def pay_row_ok_def)
    have "pay_ok (mark_paid t data req rows) \<and> stays_paid rows (mark_paid t data req rows)"
      unfolding mark_paid_def by (rule pay_ok_update [OF ok]) (use only assms in \<open>auto simp: pay_row_ok_def\<close>)
    moreover have "pay_ok (mark_expired req rows) \<and> stays_paid rows (mark_expired req rows)"
      unfolding mark_expired_def by (rule pay_ok_update [OF ok]) (use only assms req in \<open>auto simp: pay_row_ok_def\<close>)
    ultimately have "pay_ok (mark_paid t data req rows) \<and> stays_paid rows (mark_paid t data req rows)"
      "pay_ok (mark_expired req rows) \<and> stays_paid rows (mark_expired req rows)" by blast+ }
  then show "sound_change rows (mark_paid t data req rows)" "sound_change rows (mark_expired req rows)" by blast+
qed

lemma validated_sound: "validated c proof s r s' \<Longrightarrow> sound_change (py_rows s) (py_rows s')"
proof (cases "r = Inr ()")
  case True
  assume "validated c proof s r s'"
  with True obtain req where "payable c s proof req"
    "shift s (mark_paid (Unix (w_now (py_world s))) (yp_data proof) req (py_rows s)) s'" by (auto simp: validated_def)
  then show ?thesis using marks_sound(1) [OF lookup_Some] by (auto simp: payable_def dest!: shiftD(1))
next
  case False
  assume "validated c proof s r s'"
  with False consider "calm_pay s s'" | req where "late s proof req" "shift s (mark_expired req (py_rows s)) s'"
    by (auto simp: validated_def)
  then show ?thesis
    by cases (use marks_sound(2) [OF lookup_Some] in \<open>auto simp: late_def dest!: shiftD(1)\<close>)
qed

section \<open>New requests\<close>

definition free_left :: "pay_config \<Rightarrow> dbstate \<Rightarrow> string \<Rightarrow> int" where
  "free_left c d pk =
     (case user_of pk d of
        None \<Rightarrow> yc_free c
      | Some u \<Rightarrow> max 0 (i64 ((if u_free_limit u > 0 then u_free_limit u else yc_free c) - u_free_used u)))"

definition covered :: "pay_config \<Rightarrow> dbstate \<Rightarrow> string \<Rightarrow> int \<Rightarrow> bool" where
  "covered c d pk n \<longleftrightarrow> \<not> yc_enabled c \<or> yc_free c \<noteq> 0 \<and> n \<le> free_left c d pk"

definition pay_frame :: "world \<Rightarrow> world \<Rightarrow> bool" where
  "pay_frame w w' \<longleftrightarrow> w_db w' = w_db w \<and> w_now w' = w_now w \<and> w_saved w' = w_saved w \<and> w_objects w' = w_objects w \<and> (quiet w \<longrightarrow> quiet w')"

lemma CanUploadFree_spec:
  "wp (CanUploadFree c pk n) (\<lambda>r w'. pay_frame w w' \<and> (\<forall>b. r = Inr b \<longrightarrow> b = covered c (w_db w) pk n)
     \<and> (quiet w \<longrightarrow> r = Inr (covered c (w_db w) pk n))) w"
proof (cases "\<not> yc_enabled c \<or> yc_free c = 0")
  case True
  then show ?thesis by (auto simp: CanUploadFree_def wp_simp covered_def pay_frame_def)
next
  case False
  have q: "q_GetUserFreeBytesUsed pk (w_db w) = (r, d) \<Longrightarrow> d = w_db w
      \<and> (case r of Inl e \<Rightarrow> e = ErrNoRows \<and> free_left c (w_db w) pk = yc_free c
         | Inr (used, own) \<Rightarrow> free_left c (w_db w) pk = max 0 (i64 ((if own > 0 then own else yc_free c) - used)))" for r d
    by (auto simp: q_GetUserFreeBytesUsed_def free_left_def split: option.splits)
  have status: "wp (GetFreeTierStatus c pk) (\<lambda>r w'. pay_frame w w' \<and> (\<forall>st. r = Inr st \<longrightarrow> ft_remaining st = free_left c (w_db w) pk)
      \<and> (quiet w \<longrightarrow> (\<exists>st. r = Inr st))) w"
  proof -
    obtain r d where r: "q_GetUserFreeBytesUsed pk (w_db w) = (r, d)" by (cases "q_GetUserFreeBytesUsed pk (w_db w)")
    let ?f = "\<lambda>r. case r of Inl e \<Rightarrow> if errors_is e ErrNoRows
                 then Inr \<lparr>ft_used = 0, ft_limit = yc_free c, ft_remaining = yc_free c\<rparr> else Inl e
             | Inr (used, own) \<Rightarrow>
                 let limit = (if own > 0 then own else yc_free c); remaining = i64 (limit - used)
                 in Inr \<lparr>ft_used = used, ft_limit = limit, ft_remaining = (if remaining < 0 then 0 else remaining)\<rparr>"
    have f: "\<exists>st. ?f r = Inr st \<and> ft_remaining st = free_left c (w_db w) pk"
      using q [OF r] by (auto simp: Let_def max_def split: sum.splits prod.splits)
    have "wp (exec_sql (q_GetUserFreeBytesUsed pk)) (\<lambda>r. wp (ret (?f r)) (\<lambda>r w'. pay_frame w w'
        \<and> (\<forall>st. r = Inr st \<longrightarrow> ft_remaining st = free_left c (w_db w) pk) \<and> (quiet w \<longrightarrow> (\<exists>st. r = Inr st)))) w"
    proof (rule wp_exec_either [where f = "q_GetUserFreeBytesUsed pk" and w = w, OF r])
      fix fs :: "bool list" assume "\<not> quiet w"
      then show "wp (ret (?f (Inl ErrIO))) (\<lambda>r w'. pay_frame w w'
        \<and> (\<forall>st. r = Inr st \<longrightarrow> ft_remaining st = free_left c (w_db w) pk) \<and> (quiet w \<longrightarrow> (\<exists>st. r = Inr st))) (w\<lparr>w_faults := fs\<rparr>)"
        by (simp add: wp_ret pay_frame_def)
    next
      fix fs :: "bool list" assume fs: "quiet w \<Longrightarrow> fs = []"
      show "wp (ret (?f r)) (\<lambda>r w'. pay_frame w w'
        \<and> (\<forall>st. r = Inr st \<longrightarrow> ft_remaining st = free_left c (w_db w) pk) \<and> (quiet w \<longrightarrow> (\<exists>st. r = Inr st)))
        (w\<lparr>w_faults := fs, w_db := d\<rparr>)"
        using f fs q [OF r] by (auto simp: wp_ret pay_frame_def quiet_def)
    qed
    then show ?thesis using False by (simp add: GetFreeTierStatus_def wp_bind)
  qed
  show ?thesis
    using False unfolding CanUploadFree_def
    by simp (rule wp_then [OF status], auto simp: wp_ret covered_def)
qed

lemma frame_shift: "pay_frame (py_world s) w' \<Longrightarrow> calm_pay s (s\<lparr>py_world := w'\<rparr>)"
  by (simp add: pay_frame_def shift_def)

lemma CanUploadFree_calm:
  "wp (lift_prog (CanUploadFree c pk n)) (\<lambda>r s'. calm_pay s s' \<and> (\<forall>b. r = Inr b \<longrightarrow> b = covered c (w_db (py_world s)) pk n)
     \<and> (quiet (py_world s) \<longrightarrow> r = Inr (covered c (w_db (py_world s)) pk n))) s"
  unfolding wp_lift by (rule wp_mono [OF CanUploadFree_spec]) (blast intro: frame_shift)

lemma lightning_offer_calm: "wp (lightning_offer c amount) (\<lambda>_. calm_pay s) s"
proof -
  have create: "wp (CreateInvoice c amount memo) (\<lambda>_. calm_pay s) s" for memo
  proof (cases "ln_connected c")
    case True
    let ?memo = "if memo = [] then ln_memo c else memo"
    have "wp (lift_prog tick) (\<lambda>failed. wp (if failed then ret (Inl (Wrap ''failed to create invoice'' ErrIO))
        else do { n \<leftarrow> draw; ret (case yc_invoice c n amount ?memo of
          (invoice, rhash) \<Rightarrow> (case b64_decode rhash of None \<Rightarrow> Inl (Msg ''failed to decode r_hash'')
            | Some bs \<Rightarrow> Inr (invoice, hex_encode bs))) }) (\<lambda>_. calm_pay s)) s"
      by (rule pay_tick) (auto simp: wp_simp shift_def quiet_def)
    then show ?thesis using True by (simp add: CreateInvoice_def Let_def wp_bind)
  qed (simp add: CreateInvoice_def wp_ret)
  show ?thesis
    unfolding lightning_offer_def wp_if wp_bind wp_ret using create by simp
qed

lemma cashu_offer_calm: "wp (cashu_offer c amount) (\<lambda>_. calm_pay s) s"
  by (simp add: cashu_offer_def cashu_CreatePaymentRequest_def wp_simp Let_def)

definition request_row :: "pay_config \<Rightarrow> pay_state \<Rightarrow> string \<Rightarrow> int \<Rightarrow> pay_row \<Rightarrow> bool" where
  "request_row c s pk n row \<longleftrightarrow> y_id row \<notin> y_id ` set (py_rows s) \<and> y_pubkey row = pk \<and> y_amount row = CalculatePrice c n
     \<and> y_bytes row = n \<and> y_status row = ''pending'' \<and> y_paid row = None \<and> y_proof row = None
     \<and> (y_invoice row \<noteq> None \<or> y_cashu row \<noteq> None)"

definition created :: "pay_config \<Rightarrow> pay_state \<Rightarrow> string \<Rightarrow> int \<Rightarrow> pay_row option result \<Rightarrow> pay_state \<Rightarrow> bool" where
  "created c s pk n r s' \<longleftrightarrow>
     (case r of
        Inr (Some row) \<Rightarrow> request_row c s pk n row \<and> \<not> covered c (w_db (py_world s)) pk n \<and> shift s (py_rows s @ [row]) s'
      | Inr None \<Rightarrow> covered c (w_db (py_world s)) pk n \<and> calm_pay s s'
      | Inl e \<Rightarrow> calm_pay s s')"

lemma CreatePaymentRequest_spec: "wp (CreatePaymentRequest c pk n) (created c s pk n) s"
proof (cases "yc_enabled c")
  case True
  have insert: "wp (and_then (exec_pay (q_CreatePaymentRequest i pk (CalculatePrice c n) n (toNull invoice) (toNull cashu) h t e))
      (\<lambda>row. ret (Inr (Some row)))) (created c s pk n) s1"
    if c1: "calm_pay s s1" and nf: "\<not> covered c (w_db (py_world s)) pk n" and m: "\<not> (invoice = [] \<and> cashu = [])"
    for i invoice cashu h t e s1
  proof (rule wp_then [where P = "created c s pk n \<circ> map_sum id Some"], unfold comp_def, rule wp_exec_pay)
    fix s2 assume "calm_pay s1 s2"
    then show "created c s pk n (map_sum id Some (Inl ErrIO)) s2"
      using calm_trans_pay [OF c1] by (simp add: created_def)
  next
    fix s2 r rows
    assume c2: "calm_pay s1 s2"
      and q: "q_CreatePaymentRequest i pk (CalculatePrice c n) n (toNull invoice) (toNull cashu) h t e (py_rows s1) = (r, rows)"
    have c: "calm_pay s s2" using calm_trans_pay [OF c1 c2] .
    show "created c s pk n (map_sum id Some r) (s2\<lparr>py_rows := rows\<rparr>)"
    proof (cases "\<exists>r \<in> set (py_rows s). has_id i r")
      case True
      then have "r = Inl ErrConstraint" "rows = py_rows s"
        using q shiftD(1) [OF c1] by (auto simp: q_CreatePaymentRequest_def)
      then show ?thesis using shift_rows [OF c, of "py_rows s"] by (simp add: created_def)
    next
      case False
      then show ?thesis
        using q shiftD(1) [OF c1] shift_rows [OF c] nf m
        by (auto simp: q_CreatePaymentRequest_def created_def request_row_def has_id_def toNull_def Let_def image_iff)
    qed
  qed (simp_all add: wp_ret)
  have offers: "wp (do { (invoice, hash) \<leftarrow> lightning_offer c (CalculatePrice c n); cashu \<leftarrow> cashu_offer c (CalculatePrice c n);
        if invoice = [] \<and> cashu = [] then ret (Inl (Msg ''no payment methods available''))
        else and_then (exec_pay (q_CreatePaymentRequest i pk (CalculatePrice c n) n (toNull invoice) (toNull cashu) (toNull hash) t e))
          (\<lambda>row. ret (Inr (Some row))) }) (created c s pk n) s1"
    if c1: "calm_pay s s1" and nf: "\<not> covered c (w_db (py_world s)) pk n" for i t e s1
    unfolding wp_bind
  proof (rule wp_mono [OF lightning_offer_calm])
    fix x :: "string \<times> string" and s2 assume "calm_pay s1 s2"
    then have c2: "calm_pay s s2" by (rule calm_trans_pay [OF c1])
    obtain invoice hash where x: "x = (invoice, hash)" by (cases x)
    show "wp (case x of (invoice, hash) \<Rightarrow> do { cashu \<leftarrow> cashu_offer c (CalculatePrice c n);
        if invoice = [] \<and> cashu = [] then ret (Inl (Msg ''no payment methods available''))
        else and_then (exec_pay (q_CreatePaymentRequest i pk (CalculatePrice c n) n (toNull invoice) (toNull cashu) (toNull hash) t e))
          (\<lambda>row. ret (Inr (Some row))) }) (created c s pk n) s2"
      unfolding x prod.case wp_bind
    proof (rule wp_mono [OF cashu_offer_calm])
      fix cashu s3 assume "calm_pay s2 s3"
      then have c3: "calm_pay s s3" by (rule calm_trans_pay [OF c2])
      show "wp (if invoice = [] \<and> cashu = [] then ret (Inl (Msg ''no payment methods available''))
        else and_then (exec_pay (q_CreatePaymentRequest i pk (CalculatePrice c n) n (toNull invoice) (toNull cashu) (toNull hash) t e))
          (\<lambda>row. ret (Inr (Some row)))) (created c s pk n) s3"
        using insert [OF c3 nf, of invoice cashu] c3 by (simp add: wp_if wp_ret created_def)
    qed
  qed
  show ?thesis
    unfolding CreatePaymentRequest_def Let_def
  proof (simp add: True, rule wp_then [OF CanUploadFree_calm])
    fix b s1
    assume "calm_pay s s1 \<and> (\<forall>b'. Inr b = Inr b' \<longrightarrow> b' = covered c (w_db (py_world s)) pk n)
      \<and> (quiet (py_world s) \<longrightarrow> Inr b = Inr (covered c (w_db (py_world s)) pk n))"
    then have c1: "calm_pay s s1" and b: "b = covered c (w_db (py_world s)) pk n" by auto
    have drawn: "calm_pay s (s1\<lparr>py_world := (py_world s1)\<lparr>w_rng := k\<rparr>\<rparr>)" for k
      using c1 by (simp add: shift_def quiet_def)
    show "wp (if b then ret (Inr None) else do { u \<leftarrow> draw; t \<leftarrow> lift_prog now;
        (invoice, hash) \<leftarrow> lightning_offer c (CalculatePrice c n); cashu \<leftarrow> cashu_offer c (CalculatePrice c n);
        if invoice = [] \<and> cashu = [] then ret (Inl (Msg ''no payment methods available''))
        else and_then (exec_pay (q_CreatePaymentRequest (yc_uuid c u) pk (CalculatePrice c n) n (toNull invoice) (toNull cashu)
            (toNull hash) (Unix t) (Unix (t + i64 (yc_expiry c * minute))))) (\<lambda>row. ret (Inr (Some row))) })
        (created c s pk n) s1"
    proof (cases b)
      case True
      then show ?thesis using c1 b by (simp add: wp_ret created_def)
    next
      case False
      then have nf: "\<not> covered c (w_db (py_world s)) pk n" using b by simp
      show ?thesis
        unfolding if_not_P [OF False] by (simp only: wp_bind [of draw] wp_bind [of "lift_prog now"] wp_draw wp_lift_now) (rule offers [OF drawn nf])
    qed
  qed (simp add: created_def)
qed (simp add: CreatePaymentRequest_def wp_ret created_def covered_def)

section \<open>The gate\<close>

definition charged :: "pay_config \<Rightarrow> pay_request \<Rightarrow> bool" where
  "charged c r \<longleftrightarrow> yc_enabled c \<and> yr_method r \<in> {''PUT'', ''POST''} \<and> yr_pk r \<noteq> [] \<and> yr_length r > 0"

definition has_proof :: "pay_request \<Rightarrow> bool" where
  "has_proof r \<longleftrightarrow> yr_cashu r \<noteq> [] \<or> yr_lightning r \<noteq> []"

definition gate_outcome :: "pay_config \<Rightarrow> pay_request \<Rightarrow> pay_state \<Rightarrow> gate \<Rightarrow> pay_state \<Rightarrow> bool" where
  "gate_outcome c r s g s' \<longleftrightarrow>
     (case g of
        GateOpen \<Rightarrow> has_proof r \<and> (\<exists>req. payable c s (proof_of r) req
          \<and> shift s (mark_paid (Unix (w_now (py_world s))) (yp_data (proof_of r)) req (py_rows s)) s')
      | GateFree n \<Rightarrow> \<not> has_proof r \<and> n = yr_length r \<and> covered c (w_db (py_world s)) (yr_pk r) (yr_length r) \<and> calm_pay s s'
      | GateBadProof e \<Rightarrow> has_proof r \<and> (calm_pay s s' \<or> (\<exists>req. late s (proof_of r) req \<and> shift s (mark_expired req (py_rows s)) s'))
      | GateFailed \<Rightarrow> \<not> has_proof r \<and> calm_pay s s'
      | GatePay row \<Rightarrow> \<not> has_proof r \<and> \<not> covered c (w_db (py_world s)) (yr_pk r) (yr_length r)
          \<and> request_row c s (yr_pk r) (yr_length r) row \<and> shift s (py_rows s @ [row]) s')
   \<and> (quiet (py_world s) \<longrightarrow> has_proof r \<longrightarrow> (\<exists>req. payable c s (proof_of r) req) \<longrightarrow> g = GateOpen)"

lemma gate_spec:
  assumes "charged c r"
  shows "wp (PaymentMiddleware c r) (gate_outcome c r s) s"
proof (cases "has_proof r")
  case True
  have "wp (ValidatePaymentProof c (proof_of r)) (\<lambda>v. gate_outcome c r s (case v of Inl e \<Rightarrow> GateBadProof e | Inr _ \<Rightarrow> GateOpen)) s"
    by (rule wp_mono [OF ValidatePaymentProof_spec])
      (auto simp: validated_def gate_outcome_def True split: sum.splits)
  moreover have "PaymentMiddleware c r = do { v \<leftarrow> ValidatePaymentProof c (proof_of r);
      ret (case v of Inl e \<Rightarrow> GateBadProof e | Inr _ \<Rightarrow> GateOpen) }"
    using assms True by (auto simp: PaymentMiddleware_def charged_def has_proof_def)
  ultimately show ?thesis by (simp add: wp_bind wp_ret)
next
  case False
  let ?pk = "yr_pk r" and ?n = "yr_length r"
  have eq: "PaymentMiddleware c r = do {
      f \<leftarrow> lift_prog (CanUploadFree c ?pk ?n);
      case f of
        Inl _ \<Rightarrow> ret GateFailed
      | Inr True \<Rightarrow> ret (GateFree ?n)
      | Inr False \<Rightarrow> do {
          p \<leftarrow> CreatePaymentRequest c ?pk ?n;
          ret (case p of Inl _ \<Rightarrow> GateFailed | Inr None \<Rightarrow> GateOpen | Inr (Some row) \<Rightarrow> GatePay row)
        }
    }"
    using assms False by (auto simp: PaymentMiddleware_def charged_def has_proof_def)
  show ?thesis
    unfolding eq wp_bind
  proof (rule wp_mono [OF CanUploadFree_calm])
    fix f and s1
    assume "calm_pay s s1 \<and> (\<forall>b. f = Inr b \<longrightarrow> b = covered c (w_db (py_world s)) ?pk ?n)
      \<and> (quiet (py_world s) \<longrightarrow> f = Inr (covered c (w_db (py_world s)) ?pk ?n))"
    then have c1: "calm_pay s s1" and f: "\<And>b. f = Inr b \<Longrightarrow> b = covered c (w_db (py_world s)) ?pk ?n" by auto
    have offer: "wp (do { p \<leftarrow> CreatePaymentRequest c ?pk ?n;
        ret (case p of Inl _ \<Rightarrow> GateFailed | Inr None \<Rightarrow> GateOpen | Inr (Some row) \<Rightarrow> GatePay row) }) (gate_outcome c r s) s1"
      if nf: "\<not> covered c (w_db (py_world s)) ?pk ?n"
      unfolding wp_bind
    proof (rule wp_mono [OF CreatePaymentRequest_spec])
      fix p s2 assume p: "created c s1 ?pk ?n p s2"
      have d: "w_db (py_world s1) = w_db (py_world s)" "py_rows s1 = py_rows s" by (simp_all add: shiftD [OF c1])
      show "wp (ret (case p of Inl _ \<Rightarrow> GateFailed | Inr None \<Rightarrow> GateOpen | Inr (Some row) \<Rightarrow> GatePay row)) (gate_outcome c r s) s2"
        using p nf shift_trans [OF c1]
        by (auto simp: created_def request_row_def wp_ret gate_outcome_def False d split: sum.splits option.splits)
    qed
    show "wp (case f of Inl _ \<Rightarrow> ret GateFailed | Inr True \<Rightarrow> ret (GateFree ?n)
        | Inr False \<Rightarrow> do { p \<leftarrow> CreatePaymentRequest c ?pk ?n;
            ret (case p of Inl _ \<Rightarrow> GateFailed | Inr None \<Rightarrow> GateOpen | Inr (Some row) \<Rightarrow> GatePay row) }) (gate_outcome c r s) s1"
      using f c1 offer by (auto simp: wp_ret gate_outcome_def False split: sum.split bool.split)
  qed
qed

lemma gate_skipped: "\<not> charged c r \<Longrightarrow> PaymentMiddleware c r = ret GateOpen"
  by (auto simp: PaymentMiddleware_def charged_def)

lemma appended_sound: "request_row c s pk n row \<Longrightarrow> sound_change (py_rows s) (py_rows s @ [row])"
  by (auto simp: request_row_def pay_ok_def pay_row_ok_def stays_paid_def)

lemma gate_sound: "wp (PaymentMiddleware c r) (\<lambda>_ s'. sound_change (py_rows s) (py_rows s')) s"
proof (cases "charged c r")
  case True
  show ?thesis
  proof (rule wp_mono [OF gate_spec [OF True]])
    fix g s' assume g: "gate_outcome c r s g s'"
    show "sound_change (py_rows s) (py_rows s')"
    proof (cases g)
      case GateOpen
      then obtain req where req: "lookup (proof_of r) (py_rows s) = Some req" "y_status req \<noteq> ''paid''"
        and rows: "py_rows s' = mark_paid (Unix (w_now (py_world s))) (yp_data (proof_of r)) req (py_rows s)"
        using g by (auto simp: gate_outcome_def payable_def dest: shiftD(1))
      show ?thesis unfolding rows by (rule marks_sound(1) [OF lookup_Some [OF req(1)] req(2)])
    next
      case (GateBadProof e)
      then consider "py_rows s' = py_rows s" | req where "late s (proof_of r) req" "py_rows s' = mark_expired req (py_rows s)"
        using g by (auto simp: gate_outcome_def dest: shiftD(1))
      then show ?thesis by cases (use marks_sound(2) [OF lookup_Some] in \<open>auto simp: late_def\<close>)
    next
      case (GatePay row)
      then have "request_row c s (yr_pk r) (yr_length r) row" "py_rows s' = py_rows s @ [row]"
        using g by (auto simp: gate_outcome_def dest: shiftD(1))
      then show ?thesis using appended_sound by simp
    qed (use g in \<open>auto simp: gate_outcome_def dest: shiftD(1)\<close>)
  qed
qed (simp add: gate_skipped wp_ret)

lemma cleanup_sound: "wp pay_CleanupExpired (\<lambda>_ s'. sound_change (py_rows s) (py_rows s')) s"
  unfolding pay_CleanupExpired_def wp_bind wp_lift_now
proof (rule wp_exec_pay)
  fix s1 r rows assume "q_ExpirePendingPayments (Unix (w_now (py_world s))) (py_rows s) = (r, rows)"
  then have rows: "rows = update_where (\<lambda>r. y_status r = ''pending'' \<and> y_expires r < Unix (w_now (py_world s)))
      (\<lambda>r. r\<lparr>y_status := ''expired''\<rparr>) (py_rows s)" by (simp add: q_ExpirePendingPayments_def)
  show "sound_change (py_rows s) (py_rows (s1\<lparr>py_rows := rows\<rparr>))"
    unfolding rows by (simp, intro impI pay_ok_update) (auto simp: pay_ok_def pay_row_ok_def)
qed (simp add: shift_def)

text \<open>The steps of a server: requests at the gate, the clean-up, and whatever happens elsewhere, at the node, the mints, in
  the other tables, or to the clock.\<close>

inductive pay_step :: "pay_config \<Rightarrow> pay_state \<Rightarrow> pay_state \<Rightarrow> bool" for c where
  request: "pay_step c s (snd (run_state (PaymentMiddleware c r) s))"
| cleanup: "pay_step c s (snd (run_state pay_CleanupExpired s))"
| outside: "py_rows s' = py_rows s \<Longrightarrow> pay_step c s s'"

lemma step_sound: "pay_step c s s' \<Longrightarrow> sound_change (py_rows s) (py_rows s')"
  by (induction rule: pay_step.induct) (use wp_run [OF gate_sound run_pair] wp_run [OF cleanup_sound run_pair] in auto)

lemma steps_sound: "(pay_step c)\<^sup>*\<^sup>* s s' \<Longrightarrow> sound_change (py_rows s) (py_rows s')"
proof (induction rule: rtranclp_induct)
  case (step s1 s2)
  show ?case by (rule sound_trans [OF step.IH step_sound [OF step.hyps(2)]])
qed simp

section \<open>Properties\<close>


text \<open>C4. What the gate of a charged upload answers, whichever calls fail: it opens only on a valid proof for a request that
  is known, unpaid and not late, which is then paid; it lets an upload through for free only within the free tier; a new
  request is offered only beyond it, for the price of the size; any other answer marks nothing as paid. Without failures a
  valid proof does open it.\<close>
theorem payment_gate:
  assumes "charged c r" "run_state (PaymentMiddleware c r) s = (g, s')"
  shows "gate_outcome c r s g s'"
  by (rule wp_run [OF gate_spec [OF assms(1)] assms(2)])

lemma gate_open_paid:
  assumes "charged c r" "has_proof r" "yr_id r \<noteq> []" "pay_ok (py_rows s)" "run_state (PaymentMiddleware c r) s = (GateOpen, s')"
  obtains row where "row \<in> set (py_rows s')" "y_id row = yr_id r" "y_status row = ''paid''"
proof -
  have pid: "yp_request (proof_of r) = yr_id r" by (simp add: proof_of_def)
  obtain req where l: "lookup (proof_of r) (py_rows s) = Some req"
    and rows: "py_rows s' = mark_paid (Unix (w_now (py_world s))) (yp_data (proof_of r)) req (py_rows s)"
    using wp_run [OF gate_spec [OF assms(1)] assms(5)] by (auto simp: gate_outcome_def payable_def dest: shiftD(1))
  have "req \<in> set (py_rows s)" "y_id req = yr_id r"
    using l assms(3) by (auto simp: lookup_def pid has_id_def find_Some_iff split: if_splits)
  then show thesis
    by (intro that [of "req\<lparr>y_status := ''paid'', y_paid := Some (Unix (w_now (py_world s))), y_proof := toNull (yp_data (proof_of r))\<rparr>"])
      (auto simp: rows mark_paid_def update_where_def has_id_def)
qed

lemma gate_paid_closed:
  assumes "charged c r" "has_proof r" "yr_id r \<noteq> []" "pay_ok (py_rows s)" "row \<in> set (py_rows s)" "y_id row = yr_id r"
    "y_status row = ''paid''"
  shows "\<exists>e. fst (run_state (PaymentMiddleware c r) s) = GateBadProof e"
proof -
  obtain g s' where run: "run_state (PaymentMiddleware c r) s = (g, s')" by (cases "run_state (PaymentMiddleware c r) s")
  have pid: "yp_request (proof_of r) = yr_id r" by (simp add: proof_of_def)
  have "y_status req = ''paid''" if "lookup (proof_of r) (py_rows s) = Some req" for req
  proof -
    have "req \<in> set (py_rows s)" "y_id req = yr_id r"
      using that assms(3) by (auto simp: lookup_def pid has_id_def find_Some_iff split: if_splits)
    then show ?thesis using same_id [OF assms(4,5), of req] assms(6,7) by (simp add: has_id_def)
  qed
  then have "\<not> payable c s (proof_of r) req" for req by (auto simp: payable_def)
  then show ?thesis
    using wp_run [OF gate_spec [OF assms(1)] run] assms(2) by (cases g) (auto simp: run gate_outcome_def)
qed


text \<open>C6. A Cashu token is not used up: after it has opened the gate for one request, and no call failing, the same token opens
  it again for every other request that is no dearer, not paid and not late.\<close>
theorem cashu_token_pays_again:
  assumes "pay_ok (py_rows s)" "charged c r" "yr_cashu r \<noteq> []" "yr_id r \<noteq> []" "quiet (py_world s)"
    and "run_state (PaymentMiddleware c r) s = (GateOpen, s1)"
    and "find (has_id (yr_id r)) (py_rows s) = Some req" "find (has_id i) (py_rows s1) = Some other"
    and "i \<noteq> []" "y_status other \<noteq> ''paid''" "Unix (w_now (py_world s)) \<le> y_expires other" "y_amount other \<le> y_amount req"
  shows "fst (run_state (PaymentMiddleware c (r\<lparr>yr_id := i\<rparr>)) s1) = GateOpen"
proof -
  have p: "has_proof r" "yp_method (proof_of r) = Cashu" "yp_request (proof_of r) = yr_id r" "yp_data (proof_of r) = yr_cashu r"
    using assms(3) by (simp_all add: has_proof_def proof_of_def)
  obtain req' where pay: "payable c s (proof_of r) req'"
    and sh: "shift s (mark_paid (Unix (w_now (py_world s))) (yp_data (proof_of r)) req' (py_rows s)) s1"
    using wp_run [OF gate_spec [OF assms(2)] assms(6)] by (auto simp: gate_outcome_def)
  have "req' = req" using pay assms(4,7) by (simp add: payable_def lookup_def p)
  then obtain t where t: "cashu_on c" "unspent c s (yr_cashu r) t" "y_amount req \<le> token_amount t"
    using pay by (auto simp: payable_def valid_proof_def p)
  let ?r = "r\<lparr>yr_id := i\<rparr>"
  have proof': "proof_of ?r = (proof_of r)\<lparr>yp_request := i\<rparr>" by (simp add: proof_of_def)
  have "mint_of t s1 = mint_of t s" by (simp add: mint_of_def shiftD [OF sh])
  then have "unspent c s1 (yr_cashu r) t" using t(2) by (simp add: unspent_def shiftD [OF sh])
  then have "payable c s1 (proof_of ?r) other"
    using t assms(8-12) by (auto simp: payable_def lookup_def proof' p valid_proof_def shiftD [OF sh])
  moreover have "charged c ?r" "has_proof ?r" using assms(2) p(1) by (simp_all add: charged_def has_proof_def)
  moreover have "quiet (py_world s1)" using shiftD(9) [OF sh] assms(5) by blast
  ultimately show ?thesis
    using wp_run [OF gate_spec run_pair, of c ?r s1] by (auto simp: gate_outcome_def)
qed

text \<open>A proof is not tied to the key or the size that were paid for: whoever presents it, for a body of whatever length, the
  gate does the same.\<close>
theorem proof_not_bound:
  assumes "charged c r" "has_proof r" "pk \<noteq> []" "n > 0"
  shows "PaymentMiddleware c (r\<lparr>yr_pk := pk, yr_length := n\<rparr>) = PaymentMiddleware c r"
  using assms by (auto simp: PaymentMiddleware_def charged_def has_proof_def proof_of_def)

section \<open>Witnesses\<close>

definition shop :: pay_config where
  "shop = \<lparr>yc_enabled = True, yc_product = (\<lambda>n. n), yc_min = 1, yc_free = 0, yc_expiry = 30, yc_lightning = (False, False, []),
     yc_cashu = Some (True, [''m'']), yc_uuid = (\<lambda>n. ''id'' @ fmt_nat n), yc_invoice = (\<lambda>_ _ _. ([], [])), yc_sha = (\<lambda>b. b),
     yc_json = (\<lambda>_. Some [\<lparr>te_mint = ''m'', te_proofs = [\<lparr>cp_amount = 5, cp_keyset = [], cp_secret = [], cp_sig = []\<rparr>]\<rparr>])\<rparr>"

definition open_request :: "string \<Rightarrow> pay_row" where
  "open_request i = \<lparr>y_id = i, y_pubkey = ''alice'', y_amount = 3, y_bytes = 3, y_invoice = None, y_cashu = Some ''c'',
     y_hash = None, y_status = ''pending'', y_created = 0, y_expires = 100, y_paid = None, y_proof = None\<rparr>"

definition pay_start :: "pay_row list \<Rightarrow> pay_state" where
  "pay_start rows = \<lparr>py_world = start_world empty_db, py_rows = rows, py_settled = (\<lambda>_. False), py_mints = (\<lambda>_ _. Some [True]),
     py_up = (\<lambda>_. True), py_mint = ''m'', py_connected = True\<rparr>"

definition token_request :: "string \<Rightarrow> pay_request" where
  "token_request i = \<lparr>yr_method = ''PUT'', yr_pk = ''alice'', yr_length = 3, yr_cashu = ''cashuA'', yr_lightning = [], yr_id = i\<rparr>"

abbreviation "two_open \<equiv> pay_start [open_request ''a'', open_request ''b'']"

lemma token_charged: "charged shop (token_request i)" "has_proof (token_request i)" "yr_id (token_request i) = i"
  by (simp_all add: charged_def has_proof_def token_request_def shop_def)

lemma two_open_ok: "pay_ok (py_rows two_open)" "quiet (py_world two_open)"
  by (simp_all add: pay_ok_def pay_row_ok_def open_request_def pay_start_def quiet_def)

definition after_first :: pay_state where
  "after_first = snd (run_state (PaymentMiddleware shop (token_request ''a'')) two_open)"

lemma first_pays: "fst (run_state (PaymentMiddleware shop (token_request ''a'')) two_open) = GateOpen"
  by code_simp

lemma first_run: "run_state (PaymentMiddleware shop (token_request ''a'')) two_open = (GateOpen, after_first)"
  using first_pays by (simp add: after_first_def prod_eq_iff)


lemma payment_gate_witness: "gate_outcome shop (token_request ''a'') two_open GateOpen after_first"
  by (rule payment_gate [OF token_charged(1) first_run])


lemma cashu_token_pays_again_witness:
  "fst (run_state (PaymentMiddleware shop ((token_request ''a'')\<lparr>yr_id := ''b''\<rparr>)) after_first) = GateOpen"
proof (rule cashu_token_pays_again [OF two_open_ok(1) token_charged(1) _ _ two_open_ok(2) first_run])
  show "find (has_id (yr_id (token_request ''a''))) (py_rows two_open) = Some (open_request ''a'')" by code_simp
  show "find (has_id ''b'') (py_rows after_first) = Some (open_request ''b'')" by code_simp
qed (simp_all add: token_request_def open_request_def pay_start_def Unix_def)

lemma proof_not_bound_witness:
  "PaymentMiddleware shop ((token_request ''a'')\<lparr>yr_pk := ''mallory'', yr_length := 1000000\<rparr>) = PaymentMiddleware shop (token_request ''a'')"
  by (rule proof_not_bound) (simp_all add: token_charged)

end
