(* ===== verification/Endpoints.thy ===== *)
theory Endpoints
  imports PaymentRules BatchRules
begin

text \<open>
  The Blossom endpoints from the request to the tables: \<^verbatim>\<open>PUT /upload\<close>, \<^verbatim>\<open>DELETE /:hash\<close>, \<^verbatim>\<open>GET /list/:pubkey\<close>
  (\<^verbatim>\<open>api/gin/bud02_controller.go\<close>), \<^verbatim>\<open>HEAD /upload\<close> (\<^verbatim>\<open>bud06_controller.go\<close>) and the operator's search
  (\<^verbatim>\<open>search_controller.go\<close>), with the chain of authentication, payment gate and handler that \<^verbatim>\<open>SetupRoutes\<close> builds.
  A request is answered at one instant. The scan of an upload by the AI service is left out: the server builds that
  service disabled and without a provider, so its branch is not taken; publishing to other servers happens in the
  background and is left out too.
\<close>

section \<open>Requests and answers\<close>

record http_request =
  hr_authorization :: string
  hr_length :: int
  hr_body :: "bytes result"
  hr_encryption :: string
  hr_expiration :: string
  hr_type :: string
  hr_cashu :: string
  hr_lightning :: string
  hr_payment :: string

datatype answer =
    Unauthorized string | Panicked | PaymentAnswer gate | Refusal batch_refusal | BadRequest goerr | Forbidden
  | Uploaded blob_desc "string option" | Deleted | Listed "blob_desc list" | Found "blob_desc list" int | Fine

section \<open>Uploading\<close>

definition refuseBlockedUploader :: "services \<Rightarrow> string \<Rightarrow> batch_refusal option prog" where
  "refuseBlockedUploader c pk =
     (if \<not> sv_moderation c then ret None
      else do {
        b \<leftarrow> IsBlocked pk;
        ret (case b of Inl _ \<Rightarrow> Some Unavailable | Inr True \<Rightarrow> Some Blocked | Inr False \<Rightarrow> None)
      })"

definition encryption_mode :: "string \<Rightarrow> string option" where
  "encryption_mode h = (if h = [] then Some ''none'' else if h \<in> {''server'', ''e2e'', ''none''} then Some h else None)"

text \<open>No header, a refusal, or the instant of expiry.\<close>

definition parseUploadExpiration :: "int \<Rightarrow> string \<Rightarrow> int option option" where
  "parseUploadExpiration t h =
     (if h = [] then Some None
      else case ParseInt h of (ts, err) \<Rightarrow>
        if err \<or> ts \<le> 0 then None
        else if \<not> time_Unix ts > t then None
        else Some (Some (time_Unix ts)))"

definition applyUploadExpiration :: "string \<Rightarrow> int option \<Rightarrow> string option prog" where
  "applyUploadExpiration h expires =
     (case expires of
        None \<Rightarrow> ret None
      | Some at \<Rightarrow> do {
          r \<leftarrow> SetExpiration h at;
          ret (case r of Inl _ \<Rightarrow> None | Inr _ \<Rightarrow> Some (FormatInt (Unix at)))
        })"

definition uploadBlob :: "services \<Rightarrow> string \<Rightarrow> string \<Rightarrow> http_request \<Rightarrow> answer prog" where
  "uploadBlob c pk x req = do {
     b \<leftarrow> (if pk \<noteq> [] then refuseBlockedUploader c pk else ret None);
     case b of
       Some e \<Rightarrow> ret (Refusal e)
     | None \<Rightarrow>
         if sv_max c > 0 \<and> hr_length req > 0 \<and> hr_length req > sv_max c then ret (BadRequest (Msg ''content-length exceeds the maximum upload size''))
         else (case hr_body req of
             Inl e \<Rightarrow> ret (BadRequest (Wrap ''failed to read request body'' e))
           | Inr body \<Rightarrow>
               (case encryption_mode (hr_encryption req) of
                  None \<Rightarrow> ret (BadRequest (Msg ''invalid encryption mode''))
                | Some mode \<Rightarrow> do {
                    t \<leftarrow> now;
                    (case parseUploadExpiration t (hr_expiration req) of
                       None \<Rightarrow> ret (BadRequest (Msg ''invalid X-Expiration header''))
                     | Some expires \<Rightarrow> do {
                         r \<leftarrow> UploadBlob c x pk body mode (hr_type req);
                         (case r of
                            Inl e \<Rightarrow> ret (BadRequest e)
                          | Inr desc \<Rightarrow> do {
                              echoed \<leftarrow> applyUploadExpiration (d_sha desc) expires;
                              ret (Uploaded desc echoed)
                            })
                       })
                  }))
   }"

definition pay_request_of :: "string \<Rightarrow> http_request \<Rightarrow> pay_request" where
  "pay_request_of pk req = \<lparr>yr_method = ''PUT'', yr_pk = pk, yr_length = hr_length req, yr_cashu = hr_cashu req,
     yr_lightning = hr_lightning req, yr_id = hr_payment req\<rparr>"

definition lets_through :: "gate \<Rightarrow> bool" where
  "lets_through g = (case g of GateOpen \<Rightarrow> True | GateFree _ \<Rightarrow> True | _ \<Rightarrow> False)"

text \<open>\<^verbatim>\<open>r.PUT("/upload", nostrAuthMiddleware, paymentMW, uploadBlob)\<close>.\<close>

definition put_upload :: "nostr_lib \<Rightarrow> services \<Rightarrow> pay_config \<Rightarrow> http_request \<Rightarrow> answer pay" where
  "put_upload lib c pc req = do {
     t \<leftarrow> lift_prog now;
     case nostrAuthMiddleware lib ''upload'' (\<lambda>_. t) (hr_authorization req) of
       Panic \<Rightarrow> ret Panicked
     | Rejected r \<Rightarrow> ret (Unauthorized r)
     | Accepted ctx \<Rightarrow> do {
         g \<leftarrow> PaymentMiddleware pc (pay_request_of (ac_pk ctx) req);
         if lets_through g then lift_prog (uploadBlob c (ac_pk ctx) (ac_x ctx) req)
         else ret (PaymentAnswer g)
       }
   }"

section \<open>Deleting, listing and asking\<close>

definition delete_blob :: "nostr_lib \<Rightarrow> services \<Rightarrow> string \<Rightarrow> string \<Rightarrow> answer prog" where
  "delete_blob lib c authorization h = do {
     t \<leftarrow> now;
     case nostrAuthMiddleware lib ''delete'' (\<lambda>_. t) authorization of
       Panic \<Rightarrow> ret Panicked
     | Rejected r \<Rightarrow> ret (Unauthorized r)
     | Accepted ctx \<Rightarrow> do {
         r \<leftarrow> DeleteBlob c (ac_pk ctx) h (ac_x ctx);
         ret (case r of Inl e \<Rightarrow> BadRequest e | Inr _ \<Rightarrow> Deleted)
       }
   }"

type_synonym http_query = "string \<Rightarrow> string"

definition no_filter :: blob_filter where
  "no_filter = \<lparr>f_pubkey = [], f_prefix = [], f_since = 0, f_until = 0, f_min = 0, f_max = 0, f_limit = 0, f_offset = 0, f_desc = False\<rparr>"

text \<open>A parameter that parses and satisfies the condition.\<close>

definition int_param :: "http_query \<Rightarrow> string \<Rightarrow> (int \<Rightarrow> bool) \<Rightarrow> int option" where
  "int_param q k P = (case ParseInt (q k) of (n, err) \<Rightarrow> if \<not> err \<and> P n then Some n else None)"

definition parseBlobFilter :: "http_query \<Rightarrow> blob_filter option" where
  "parseBlobFilter q =
     (let since = int_param q ''since'' (\<lambda>n. n > 0); until = int_param q ''until'' (\<lambda>n. n > 0);
          limit = int_param q ''limit'' (\<lambda>n. n > 0 \<and> n \<le> 1000); offset = int_param q ''offset'' (\<lambda>n. n \<ge> 0);
          desc = (q ''sort'' = ''desc'') in
      if q ''type'' = [] \<and> since = None \<and> until = None \<and> limit = None \<and> offset = None \<and> \<not> desc then None
      else Some (no_filter\<lparr>f_prefix := q ''type'', f_since := (case since of Some n \<Rightarrow> n | None \<Rightarrow> 0),
             f_until := (case until of Some n \<Rightarrow> n | None \<Rightarrow> 0), f_limit := (case limit of Some n \<Rightarrow> n | None \<Rightarrow> 0),
             f_offset := (case offset of Some n \<Rightarrow> n | None \<Rightarrow> 0), f_desc := desc\<rparr>))"

definition list_blobs :: "nostr_lib \<Rightarrow> services \<Rightarrow> string \<Rightarrow> string \<Rightarrow> http_query \<Rightarrow> answer prog" where
  "list_blobs lib c authorization pk q = do {
     t \<leftarrow> now;
     case nostrAuthMiddleware lib ''list'' (\<lambda>_. t) authorization of
       Panic \<Rightarrow> ret Panicked
     | Rejected r \<Rightarrow> ret (Unauthorized r)
     | Accepted ctx \<Rightarrow>
         if ac_pk ctx \<noteq> pk then ret Forbidden
         else (case parseBlobFilter q of
             Some f \<Rightarrow> do {
               r \<leftarrow> GetFromPubkeyWithFilter (sv_blobs c) pk (Some f);
               ret (case r of Inl e \<Rightarrow> BadRequest e | Inr (bs, n) \<Rightarrow> Found bs n)
             }
           | None \<Rightarrow> do {
               r \<leftarrow> ListBlobs c pk;
               ret (case r of Inl e \<Rightarrow> BadRequest e | Inr bs \<Rightarrow> Listed bs)
             })
   }"

definition IsSHA256 :: "string \<Rightarrow> bool" where
  "IsSHA256 h = (case hex_decode h of None \<Rightarrow> False | Some bs \<Rightarrow> length bs = 32)"

definition upload_requirements :: "nostr_lib \<Rightarrow> services \<Rightarrow> int \<Rightarrow> string \<Rightarrow> string \<Rightarrow> string \<Rightarrow> string \<Rightarrow> answer" where
  "upload_requirements lib c t authorization hash contentType contentLength =
     (case nostrAuthMiddleware lib ''upload'' (\<lambda>_. t) authorization of
        Panic \<Rightarrow> Panicked
      | Rejected r \<Rightarrow> Unauthorized r
      | Accepted ctx \<Rightarrow>
          if \<not> IsSHA256 hash then BadRequest (Msg ''invalid SHA-256'')
          else (case ParseInt contentLength of (n, err) \<Rightarrow>
            if err then BadRequest (Msg ''couldn't parse Content-Length as an integer'')
            else (case UploadRequirements c (ac_pk ctx) contentType n of Inl e \<Rightarrow> BadRequest e | Inr _ \<Rightarrow> Fine)))"

definition searchMaxLimit :: int where "searchMaxLimit = 200"

definition parseSearchFilter :: "http_query \<Rightarrow> blob_filter" where
  "parseSearchFilter q =
     (let num = (\<lambda>k. case int_param q k (\<lambda>n. n > 0) of Some n \<Rightarrow> n | None \<Rightarrow> 0);
          limit = (case int_param q ''limit'' (\<lambda>n. n > 0) of Some n \<Rightarrow> n | None \<Rightarrow> 50) in
      \<lparr>f_pubkey = q ''pubkey'', f_prefix = q ''type'', f_since = num ''since'', f_until = num ''until'', f_min = num ''min_size'',
       f_max = num ''max_size'', f_limit = (if limit > searchMaxLimit then searchMaxLimit else limit),
       f_offset = num ''offset'', f_desc = (q ''sort'' = ''desc'')\<rparr>)"

definition searchBlobs :: "services \<Rightarrow> http_query \<Rightarrow> answer prog" where
  "searchBlobs c q = do {
     r \<leftarrow> SearchBlobs (sv_blobs c) (Some (parseSearchFilter q));
     ret (case r of Inl _ \<Rightarrow> BadRequest (Msg ''failed to search blobs'') | Inr (bs, n) \<Rightarrow> Found bs n)
   }"

section \<open>Who gains and who loses\<close>

lemma apply_owns:
  assumes "db_inv (w_db w)"
  shows "wp (applyUploadExpiration h e) (\<lambda>_ w'. db_inv (w_db w') \<and> (\<forall>pk h. owns pk h (owned (w_db w')) = owns pk h (owned (w_db w)))) w"
proof (cases e)
  case (Some at)
  show ?thesis
    unfolding applyUploadExpiration_def Some option.case SetExpiration_def wp_bind wp_ret
  proof (rule wp_exec)
    fix fs r d assume q: "q_SetBlobExpiration h (Some (Unix at)) (w_db w) = (r, d)"
    show "db_inv (w_db (w\<lparr>w_faults := fs, w_db := d\<rparr>)) \<and> (\<forall>pk h. owns pk h (owned (w_db (w\<lparr>w_faults := fs, w_db := d\<rparr>))) = owns pk h (owned (w_db w)))"
      using expiry_effect(2) [OF q assms] undated_eq(1) [OF expiry_effect(1) [OF q assms]] by simp
  qed (use assms in simp)
qed (use assms in \<open>simp add: applyUploadExpiration_def wp_ret\<close>)

text \<open>At most one key gains one blob: the given one.\<close>

definition only_gains :: "string \<Rightarrow> string \<Rightarrow> owner_map \<Rightarrow> owner_map \<Rightarrow> bool" where
  "only_gains pk h m m' \<longleftrightarrow> (\<forall>pk' h'. owns pk' h' m' = owns pk' h' m) \<or> (\<forall>pk' h'. owns pk' h' m' \<longleftrightarrow> owns pk' h' m \<or> pk' = pk \<and> h' = h)"

definition upload_effect :: "services \<Rightarrow> string \<Rightarrow> string \<Rightarrow> http_request \<Rightarrow> owner_map \<Rightarrow> answer \<Rightarrow> owner_map \<Rightarrow> bool" where
  "upload_effect c pk x req m a m' \<longleftrightarrow>
     (case a of
        Uploaded _ _ \<Rightarrow> map_sum id (sv_hash c) (hr_body req) = Inr x \<and> (\<forall>pk' h'. owns pk' h' m' \<longleftrightarrow> owns pk' h' m \<or> pk' = pk \<and> h' = x)
      | _ \<Rightarrow> \<forall>pk' h'. owns pk' h' m' = owns pk' h' m)"

lemma refuse_step:
  assumes "db_inv (w_db w)" "w_saved w = None"
  shows "wp (if pk \<noteq> [] then refuseBlockedUploader c pk else ret None) (\<lambda>_ w'. w_db w' = w_db w \<and> w_saved w' = None \<and> w_now w' = w_now w) w"
  using assms unfolding refuseBlockedUploader_def IsBlocked_def
  by (auto simp: wp_simp q_IsBlocked_def intro!: wp_exec)

lemma uploadBlob_spec:
  assumes "enc_ok (sv_blobs c)" "db_inv (w_db w)" "w_saved w = None"
  shows "wp (uploadBlob c pk x req) (\<lambda>a w'. db_inv (w_db w') \<and> upload_effect c pk x req (owned (w_db w)) a (owned (w_db w'))) w"
    (is "wp _ ?Q w")
  unfolding uploadBlob_def wp_bind
proof (rule wp_mono [OF refuse_step [OF assms(2,3)]])
  fix b :: "batch_refusal option" and w1 :: world assume "w_db w1 = w_db w \<and> w_saved w1 = None \<and> w_now w1 = w_now w"
  then have w1: "w_db w1 = w_db w" "w_saved w1 = None" by simp_all
  then have inv: "db_inv (w_db w1)" using assms(2) by simp
  have same: "upload_effect c pk x req (owned (w_db w)) (Refusal y) (owned (w_db w1))"
    "upload_effect c pk x req (owned (w_db w)) (BadRequest e) (owned (w_db w1))" for y e
    by (simp_all add: upload_effect_def w1)
  have store: "wp (UploadBlob c x pk body mode (hr_type req)) (\<lambda>r. wp (case r of Inl e \<Rightarrow> ret (BadRequest e)
        | Inr desc \<Rightarrow> do { echoed \<leftarrow> applyUploadExpiration (d_sha desc) expires; ret (Uploaded desc echoed) }) ?Q) w1"
    if body: "hr_body req = Inr body" for body mode expires
  proof (rule wpI)
    fix r w2 assume run: "run_state (UploadBlob c x pk body mode (hr_type req)) w1 = (r, w2)"
    note out = upload_out [OF assms(1) inv w1(2) run]
    then have inv2: "db_inv (w_db w2)" by blast
    show "wp (case r of Inl e \<Rightarrow> ret (BadRequest e)
        | Inr desc \<Rightarrow> do { echoed \<leftarrow> applyUploadExpiration (d_sha desc) expires; ret (Uploaded desc echoed) }) ?Q w2"
    proof (cases r)
      case (Inl e)
      then show ?thesis using out failed_owns by (auto simp: wp_ret upload_effect_def w1)
    next
      case (Inr desc)
      then obtain ob where s: "sv_hash c body = x"
        "saved_map (sv_blobs c) pk x body (int (length body)) ob (owned (w_db w)) (owned (w_db w2))"
        using out by (auto simp: w1)
      show ?thesis
        unfolding Inr sum.case wp_bind wp_ret
        by (rule wp_mono [OF apply_owns [OF inv2]]) (use s saved_owners_iff [OF s(2)] body in \<open>auto simp: upload_effect_def\<close>)
    qed
  qed
  show "wp (case b of Some e \<Rightarrow> ret (Refusal e)
     | None \<Rightarrow>
         if sv_max c > 0 \<and> hr_length req > 0 \<and> hr_length req > sv_max c then ret (BadRequest (Msg ''content-length exceeds the maximum upload size''))
         else (case hr_body req of
             Inl e \<Rightarrow> ret (BadRequest (Wrap ''failed to read request body'' e))
           | Inr body \<Rightarrow>
               (case encryption_mode (hr_encryption req) of
                  None \<Rightarrow> ret (BadRequest (Msg ''invalid encryption mode''))
                | Some mode \<Rightarrow> do {
                    t \<leftarrow> now;
                    (case parseUploadExpiration t (hr_expiration req) of
                       None \<Rightarrow> ret (BadRequest (Msg ''invalid X-Expiration header''))
                     | Some expires \<Rightarrow> do {
                         r \<leftarrow> UploadBlob c x pk body mode (hr_type req);
                         (case r of
                            Inl e \<Rightarrow> ret (BadRequest e)
                          | Inr desc \<Rightarrow> do {
                              echoed \<leftarrow> applyUploadExpiration (d_sha desc) expires;
                              ret (Uploaded desc echoed)
                            })
                       })
                  }))) ?Q w1"
    by (cases b; cases "hr_body req"; cases "encryption_mode (hr_encryption req)";
        cases "parseUploadExpiration (w_now w1) (hr_expiration req)")
      (use same inv store in \<open>simp_all add: wp_if wp_bind [of now] wp_bind [of "UploadBlob _ _ _ _ _ _"] wp_now wp_ret\<close>)
qed

text \<open>A gate that lets a request through leaves the tables of the blobs alone.\<close>

definition upload_paid :: "pay_config \<Rightarrow> pay_state \<Rightarrow> pay_request \<Rightarrow> bool" where
  "upload_paid pc s r \<longleftrightarrow> (charged pc r \<longrightarrow> (\<exists>req. payable pc s (proof_of r) req) \<or> covered pc (w_db (py_world s)) (yr_pk r) (yr_length r))"

lemma gate_keeps_tables:
  "wp (PaymentMiddleware pc r) (\<lambda>g s'. w_db (py_world s') = w_db (py_world s) \<and> w_saved (py_world s') = w_saved (py_world s)
     \<and> (lets_through g \<longrightarrow> upload_paid pc s r)) s"
proof (cases "charged pc r")
  case True
  show ?thesis
    by (rule wp_mono [OF gate_spec [OF True]])
      (auto simp: gate_outcome_def upload_paid_def lets_through_def True split: gate.splits dest: shiftD(7) shiftD(10))
qed (simp add: gate_skipped wp_ret upload_paid_def)

definition stored_by :: "nostr_lib \<Rightarrow> services \<Rightarrow> pay_config \<Rightarrow> http_request \<Rightarrow> pay_state \<Rightarrow> answer \<Rightarrow> pay_state \<Rightarrow> bool" where
  "stored_by lib c pc req s a s' \<longleftrightarrow>
     (let m = owned (w_db (py_world s)); m' = owned (w_db (py_world s')) in
      case a of
        Uploaded _ _ \<Rightarrow> \<exists>ev x body. verified_event lib (\<lambda>_. w_now (py_world s)) (hr_authorization req) ''upload'' ev
          \<and> x = last_or_empty (tag_values ''x'' (ev_tags ev)) \<and> hr_body req = Inr body \<and> sv_hash c body = x
          \<and> upload_paid pc s (pay_request_of (ev_pubkey ev) req)
          \<and> (\<forall>pk h. owns pk h m' \<longleftrightarrow> owns pk h m \<or> pk = ev_pubkey ev \<and> h = x)
      | _ \<Rightarrow> \<forall>pk h. owns pk h m' = owns pk h m)"

lemma put_upload_spec:
  assumes "enc_ok (sv_blobs c)" "db_inv (w_db (py_world s))" "w_saved (py_world s) = None"
  shows "wp (put_upload lib c pc req) (\<lambda>a s'. db_inv (w_db (py_world s')) \<and> stored_by lib c pc req s a s') s"
    (is "wp _ ?Q s")
proof (cases "nostrAuthMiddleware lib ''upload'' (\<lambda>_. w_now (py_world s)) (hr_authorization req)")
  case (Accepted ctx)
  then obtain ev where ev: "verified_event lib (\<lambda>_. w_now (py_world s)) (hr_authorization req) ''upload'' ev"
    and ctx: "ac_pk ctx = ev_pubkey ev" "ac_x ctx = last_or_empty (tag_values ''x'' (ev_tags ev))"
    unfolding middleware_accepted by auto
  have store: "wp (uploadBlob c (ac_pk ctx) (ac_x ctx) req) (\<lambda>a w. ?Q a (s1\<lparr>py_world := w\<rparr>)) (py_world s1)"
    if s1: "w_db (py_world s1) = w_db (py_world s)" "w_saved (py_world s1) = None"
      and paid: "upload_paid pc s (pay_request_of (ac_pk ctx) req)" for s1
  proof -
    have "db_inv (w_db (py_world s1))" using assms(2) s1 by simp
    from uploadBlob_spec [OF assms(1) this s1(2)] show ?thesis
      by (rule wp_mono)
        (use ev paid in \<open>cases "hr_body req"; auto simp: upload_effect_def stored_by_def ctx s1 Let_def split: answer.splits\<close>)
  qed
  show ?thesis
    unfolding put_upload_def wp_bind wp_lift_now Accepted auth_outcome.case
  proof (rule wp_mono [OF gate_keeps_tables])
    fix g :: gate and s1 :: pay_state
    assume g: "w_db (py_world s1) = w_db (py_world s) \<and> w_saved (py_world s1) = w_saved (py_world s)
      \<and> (lets_through g \<longrightarrow> upload_paid pc s (pay_request_of (ac_pk ctx) req))"
    show "wp (if lets_through g then lift_prog (uploadBlob c (ac_pk ctx) (ac_x ctx) req)
        else ret (PaymentAnswer g)) ?Q s1"
    proof (cases "lets_through g")
      case True
      then have "upload_paid pc s (pay_request_of (ac_pk ctx) req)" using g by blast
      from store [OF _ _ this, of s1] show ?thesis using g assms(3) True by (simp only: if_True wp_lift)
    qed (use g assms in \<open>simp add: wp_ret stored_by_def Let_def\<close>)
  qed
qed (use assms in \<open>simp_all add: put_upload_def wp_bind wp_lift_now wp_ret stored_by_def Let_def\<close>)

lemma delete_blob_spec:
  assumes "db_inv (w_db w)" "w_saved w = None"
  shows "wp (delete_blob lib c auth h) (\<lambda>a w'. db_inv (w_db w') \<and> (if a = Deleted
     then \<exists>ev. verified_event lib (\<lambda>_. w_now w) auth ''delete'' ev \<and> h = last_or_empty (tag_values ''x'' (ev_tags ev))
       \<and> owns (ev_pubkey ev) h (owned (w_db w)) \<and> owned (w_db w') = drop_owner (ev_pubkey ev) h (owned (w_db w))
     else w_db w' = w_db w \<and> w_objects w' = w_objects w)) w"
    (is "wp _ ?Q w")
proof (cases "nostrAuthMiddleware lib ''delete'' (\<lambda>_. w_now w) auth")
  case (Accepted ctx)
  then obtain ev where ev: "verified_event lib (\<lambda>_. w_now w) auth ''delete'' ev"
    and ctx: "ac_pk ctx = ev_pubkey ev" "ac_x ctx = last_or_empty (tag_values ''x'' (ev_tags ev))"
    unfolding middleware_accepted by auto
  show ?thesis
    unfolding delete_blob_def wp_bind wp_now Accepted auth_outcome.case
  proof (rule wpI)
    fix r w' assume run: "run_state (DeleteBlob c (ac_pk ctx) h (ac_x ctx)) w = (r, w')"
    show "wp (ret (case r of Inl e \<Rightarrow> BadRequest e | Inr _ \<Rightarrow> Deleted)) ?Q w'"
      using delete_out [OF assms run] ev unfolding ctx by (cases r) (auto simp: wp_ret)
  qed
qed (use assms in \<open>simp_all add: delete_blob_def wp_bind wp_now wp_ret\<close>)

section \<open>Nobody uses up the free tier\<close>

definition free_account :: "dbstate \<Rightarrow> string \<Rightarrow> int \<times> int" where
  "free_account d pk = (case user_of pk d of None \<Rightarrow> (0, 0) | Some u \<Rightarrow> (u_free_used u, u_free_limit u))"

lemma keeps_free: "(\<And>d. free_account (snd (f d)) = free_account d) \<Longrightarrow> keeps (on_db (\<lambda>d. free_account d = F)) (exec_sql f)"
  by (rule keeps_exec) (simp add: db_keeps_def)

lemma free_frame: "t_users d' = t_users d \<Longrightarrow> free_account d' = free_account d"
  by (simp add: free_account_def user_of_def fun_eq_iff)

lemma free_update:
  assumes "\<And>u. u_pubkey (f u) = u_pubkey u" "\<And>u. u_free_used (f u) = u_free_used u" "\<And>u. u_free_limit (f u) = u_free_limit u"
  shows "free_account (update_user pk f d) = free_account d"
proof
  fix k
  have "find (\<lambda>u. u_pubkey u = k) (map (\<lambda>u. if u_pubkey u = pk then f u else u) us)
      = map_option (\<lambda>u. if u_pubkey u = pk then f u else u) (find (\<lambda>u. u_pubkey u = k) us)" for us
    using assms(1) by (induction us) auto
  then show "free_account (update_user pk f d) k = free_account d k"
    using assms by (auto simp: free_account_def user_of_def update_user_def update_where_def split: option.split)
qed

lemma free_new: "free_account (d\<lparr>t_users := t_users d @ [new_user pk q t t']\<rparr>) = free_account d" if "user_of pk d = None"
proof
  fix k
  have "find P (us @ [u]) = (case find P us of None \<Rightarrow> if P u then Some u else None | Some x \<Rightarrow> Some x)" for P and us :: "user_row list" and u
    by (induction us) auto
  then show "free_account (d\<lparr>t_users := t_users d @ [new_user pk q t t']\<rparr>) k = free_account d k"
    using that by (auto simp: free_account_def user_of_def new_user_def split: option.split)
qed

lemma free_untouched [simp]:
  "free_account (snd (q_GetBlobFromHash h d)) = free_account d" "free_account (snd (q_HasBlobReference pk h d)) = free_account d"
  "free_account (snd (q_LockBlobRow h d)) = free_account d" "free_account (snd (q_CreateBlobReference pk h t d)) = free_account d"
  "free_account (snd (q_IncrementBlobRefCount h d)) = free_account d" "free_account (snd (q_InsertBlob b d)) = free_account d"
  "free_account (snd (q_GetOrCreateUser pk n t t' d)) = free_account d" "free_account (snd (q_IncrementUserUsage k t pk d)) = free_account d"
  "free_account (snd (q_IsBlocked pk d)) = free_account d" "free_account (snd (q_IsHashRemoved h d)) = free_account d"
  "free_account (snd (q_SetBlobExpiration h e d)) = free_account d"
proof -
  show "free_account (snd (q_GetOrCreateUser pk n t t' d)) = free_account d"
    by (simp add: q_GetOrCreateUser_def Let_def free_new free_update split: option.split)
  show "free_account (snd (q_IncrementUserUsage k t pk d)) = free_account d"
    by (simp add: q_IncrementUserUsage_def free_update)
qed (rule free_frame; simp add: q_GetBlobFromHash_def q_HasBlobReference_def q_LockBlobRow_def q_CreateBlobReference_def
    q_IncrementBlobRefCount_def q_InsertBlob_def q_IsBlocked_def q_IsHashRemoved_def q_SetBlobExpiration_def add_ref_count_def Let_def
    split: option.split)+

lemma keeps_free_upload:
  "keeps (on_db (\<lambda>d. free_account d = F)) (uploadBlob c pk x req)"
  unfolding uploadBlob_def refuseBlockedUploader_def applyUploadExpiration_def UploadBlob_def store_upload_def policy_check_def removed_check_def
    SaveWithDedup_def save_new_def Save_def seal_blob_def seal_server_def Encrypt_def read_random_def HasReference_def addReference_def
    IncrementUsage_def CheckQuota_def GetOrCreateUser_def IsBlocked_def IsHashRemoved_def RecordUpload_def SetExpiration_def CheckUpload_def checkDailyRoom_def Let_def
  by (intro keeps_rule keeps_free; simp)

lemma free_left_account:
  assumes "0 \<le> yc_free pc" "in_i64 (yc_free pc)"
  shows "free_left pc d pk = (case free_account d pk of (used, own) \<Rightarrow> max 0 (i64 ((if own > 0 then own else yc_free pc) - used)))"
  using assms by (simp add: free_left_def free_account_def split: option.split)

lemma put_upload_free:
  assumes "on_db (\<lambda>d. free_account d = F) (py_world s)"
  shows "wp (put_upload lib c pc req) (\<lambda>_ s'. on_db (\<lambda>d. free_account d = F) (py_world s')) s"
    (is "wp _ (\<lambda>_. ?J) s")
proof (cases "nostrAuthMiddleware lib ''upload'' (\<lambda>_. w_now (py_world s)) (hr_authorization req)")
  case (Accepted ctx)
  show ?thesis
    unfolding put_upload_def wp_bind wp_lift_now Accepted auth_outcome.case
  proof (rule wp_mono [OF gate_keeps_tables])
    fix g :: gate and s1 :: pay_state
    assume "w_db (py_world s1) = w_db (py_world s) \<and> w_saved (py_world s1) = w_saved (py_world s)
      \<and> (lets_through g \<longrightarrow> upload_paid pc s (pay_request_of (ac_pk ctx) req))"
    then have "?J s1" using assms by (simp add: on_db_def)
    then show "wp (if lets_through g then lift_prog (uploadBlob c (ac_pk ctx) (ac_x ctx) req)
        else ret (PaymentAnswer g)) (\<lambda>_. ?J) s1"
      using keepsD [OF keeps_free_upload, of F "py_world s1"] by (simp add: wp_if wp_lift wp_ret)
  qed
qed (use assms in \<open>simp_all add: put_upload_def wp_bind wp_lift_now wp_ret\<close>)

fun put_uploads :: "nostr_lib \<Rightarrow> services \<Rightarrow> pay_config \<Rightarrow> http_request list \<Rightarrow> pay_state \<Rightarrow> pay_state" where
  "put_uploads lib c pc [] s = s"
| "put_uploads lib c pc (r # rs) s = put_uploads lib c pc rs (snd (run_state (put_upload lib c pc r) s))"

lemma put_uploads_free:
  "on_db (\<lambda>d. free_account d = F) (py_world s) \<Longrightarrow> on_db (\<lambda>d. free_account d = F) (py_world (put_uploads lib c pc rs s))"
  by (induction rs arbitrary: s) (simp_all add: wp_run [OF put_upload_free run_pair])

section \<open>Properties\<close>



text \<open>C7. Uploading never uses up the free tier: after any number of requests to \<^verbatim>\<open>PUT /upload\<close>, stored or refused, every key
  has exactly as many free bytes left as before, so an upload that was free stays free however often it is repeated.\<close>
theorem free_tier_never_consumed:
  assumes "0 \<le> yc_free pc" "in_i64 (yc_free pc)" "w_saved (py_world s) = None"
  shows "free_left pc (w_db (py_world (put_uploads lib c pc reqs s))) pk = free_left pc (w_db (py_world s)) pk"
proof -
  have "on_db (\<lambda>d. free_account d = free_account (w_db (py_world s))) (py_world s)" using assms(3) by (simp add: on_db_def)
  from put_uploads_free [OF this] show ?thesis by (simp add: free_left_account [OF assms(1,2)] on_db_def)
qed

section \<open>Examples\<close>

definition signed_event :: nostr_event where
  "signed_event = example_event\<lparr>ev_tags := [[''t'', ''upload''], [''expiration'', ''2000''], [''x'', ''h'']]\<rparr>"

definition upload_lib :: nostr_lib where
  "upload_lib = \<lparr>nl_parse = (\<lambda>_. Some signed_event), nl_signed = (\<lambda>_. True)\<rparr>"

definition example_upload :: http_request where
  "example_upload = \<lparr>hr_authorization = auth_prefix @ b64_encode (str_bytes ''{}''), hr_length = 1, hr_body = Inr [7], hr_encryption = [],
     hr_expiration = [], hr_type = [], hr_cashu = [], hr_lightning = [], hr_payment = []\<rparr>"

definition free_shop :: pay_config where
  "free_shop = shop\<lparr>yc_free := 100\<rparr>"

definition before_upload :: pay_state where
  "before_upload = (pay_start [])\<lparr>py_world := (start_world single_db)\<lparr>w_now := 1000 * second\<rparr>\<rparr>"

lemma before_upload_ok:
  "enc_ok (sv_blobs open_services)" "db_inv (w_db (py_world before_upload))" "w_saved (py_world before_upload) = None"
  using balanced_examples(2) by (simp_all add: before_upload_def balanced_def open_services_def enc_ok_def plain_service_def)

lemma example_uploaded: "case fst (run_state (put_upload upload_lib open_services free_shop example_upload) before_upload) of
    Uploaded _ _ \<Rightarrow> True | _ \<Rightarrow> False"
  by code_simp

lemma signed_facts:
  "event_of upload_lib (hr_authorization example_upload) = Some signed_event" "ev_pubkey signed_event = ''alice''"
  "last_or_empty (tag_values ''x'' (ev_tags signed_event)) = ''h''"
  by code_simp+


definition owner_lib :: nostr_lib where
  "owner_lib = \<lparr>nl_parse = (\<lambda>_. Some (example_event\<lparr>ev_pubkey := ''a''\<rparr>)), nl_signed = (\<lambda>_. True)\<rparr>"

abbreviation "delete_run \<equiv> run_state (delete_blob owner_lib open_services (auth_prefix @ b64_encode (str_bytes ''{}'')) ''h'')
  ((start_world single_db)\<lparr>w_now := 1000 * second\<rparr>)"

lemma deleted_event: "event_of owner_lib (auth_prefix @ b64_encode (str_bytes ''{}'')) = Some (example_event\<lparr>ev_pubkey := ''a''\<rparr>)"
  by code_simp


lemma free_tier_never_consumed_witness:
  "free_left free_shop (w_db (py_world (put_uploads upload_lib open_services free_shop [example_upload, example_upload] before_upload))) ''alice'' = 100"
proof -
  have "free_left free_shop (w_db (py_world before_upload)) ''alice'' = 100" by code_simp
  moreover have "free_left free_shop (w_db (py_world (put_uploads upload_lib open_services free_shop [example_upload, example_upload] before_upload))) ''alice''
      = free_left free_shop (w_db (py_world before_upload)) ''alice''"
    by (rule free_tier_never_consumed) (simp_all add: free_shop_def shop_def in_i64_def before_upload_def)
  ultimately show ?thesis by simp
qed

end
