(* ===== verification/Side.thy ===== *)
theory Side
  imports World
begin

text \<open>
  Components with tables of their own beside the main ones (the media mirror): the state is the world of
  the other components together with a side state. \<open>on_world\<close> runs a program of the other components, \<open>exec_side\<close> a
  query on the side tables, which like every database call may fail.
\<close>

record 's sided =
  sd_world :: world
  sd :: 's

type_synonym ('s, 'a) sprog = "('s sided, 'a) state"

type_synonym ('s, 'a) side_query = "'s \<Rightarrow> 'a result \<times> 's"

definition on_world :: "'a prog \<Rightarrow> ('s, 'a) sprog" where
  "on_world m = State (\<lambda>s. case run_state m (sd_world s) of (x, w) \<Rightarrow> (x, s\<lparr>sd_world := w\<rparr>))"

definition on_side :: "('s \<Rightarrow> 'a \<times> 's) \<Rightarrow> ('s, 'a) sprog" where
  "on_side f = State (\<lambda>s. case f (sd s) of (x, y) \<Rightarrow> (x, s\<lparr>sd := y\<rparr>))"

definition exec_side :: "('s, 'a) side_query \<Rightarrow> ('s, 'a result) sprog" where
  "exec_side q = do {
     failed \<leftarrow> on_world tick;
     if failed then ret (Inl ErrIO) else on_side q
   }"

lemma wp_on_world [wp_simp]: "wp (on_world m) Q s = wp m (\<lambda>x w. Q x (s\<lparr>sd_world := w\<rparr>)) (sd_world s)"
  by (simp add: on_world_def wp_def split: prod.split)

lemma wp_on_side [wp_simp]: "wp (on_side f) Q s = (case f (sd s) of (x, y) \<Rightarrow> Q x (s\<lparr>sd := y\<rparr>))"
  by (simp add: on_side_def wp_def split: prod.split)

text \<open>A call that failed or read only: the environment is the same but for the failures used up.\<close>

definition still :: "world \<Rightarrow> world \<Rightarrow> bool" where
  "still w w' \<longleftrightarrow> w_db w' = w_db w \<and> w_objects w' = w_objects w \<and> w_saved w' = w_saved w \<and> w_now w' = w_now w \<and> (quiet w \<longrightarrow> quiet w')"

lemma still_refl [simp]: "still w w"
  by (simp add: still_def)

lemma still_trans: "still w w1 \<Longrightarrow> still w1 w2 \<Longrightarrow> still w w2"
  by (simp add: still_def)

lemma wp_tick_side:
  assumes "\<And>w f. still (sd_world s) w \<Longrightarrow> (f \<Longrightarrow> \<not> quiet (sd_world s)) \<Longrightarrow> Q f (s\<lparr>sd_world := w\<rparr>)"
  shows "wp (on_world tick) Q s"
proof (cases "quiet (sd_world s)")
  case True
  then show ?thesis using assms [of "sd_world s" False] by (simp add: wp_simp quiet_def no_fault)
next
  case False
  then show ?thesis unfolding wp_on_world by (intro wp_tick assms) (auto simp: still_def)
qed

lemma wp_exec_side:
  assumes "\<And>w. still (sd_world s) w \<Longrightarrow> \<not> quiet (sd_world s) \<Longrightarrow> Q (Inl ErrIO) (s\<lparr>sd_world := w\<rparr>)"
    and "\<And>w r x. still (sd_world s) w \<Longrightarrow> q (sd s) = (r, x) \<Longrightarrow> Q r (s\<lparr>sd_world := w, sd := x\<rparr>)"
  shows "wp (exec_side q) Q s"
  unfolding exec_side_def wp_bind
proof (rule wp_tick_side)
  fix w f assume w: "still (sd_world s) w" and f: "f \<Longrightarrow> \<not> quiet (sd_world s)"
  obtain r x where q: "q (sd s) = (r, x)" by (cases "q (sd s)")
  show "wp (if f then ret (Inl ErrIO) else on_side q) Q (s\<lparr>sd_world := w\<rparr>)"
    using assms(1) [OF w] assms(2) [OF w q] f by (simp add: wp_simp q)
qed

end
