(* ===== verification/MediaMirror.thy ===== *)
theory MediaMirror
  imports Side UrlSign UploadRules
begin

text \<open>
  The media mirror: the queries of \<^verbatim>\<open>db/media_mirror.sql.go\<close>, the service \<^verbatim>\<open>src/service/media_mirror_service.go\<close>, the
  canonical form of its URLs (\<^verbatim>\<open>internal/safefetch/url.go\<close>) and its endpoints (\<^verbatim>\<open>api/gin/media_mirror_controller.go\<close>).

  What a remote host would answer is part of the state. SHA-256, the HMAC, the type sniffer, the image decoder and
  \<^verbatim>\<open>net/url\<close> are parameters. A request is answered at one instant and alone: that requests for one URL at the same time share
  one fetch is left out, and so are the worker's ticker, log lines and metrics.
\<close>

section \<open>Data\<close>

record mirror_row =
  mr_key :: string
  mr_url :: string
  mr_status :: string
  mr_reason :: "string option"
  mr_sha :: "string option"
  mr_size :: int
  mr_mime :: "string option"
  mr_fetched :: int
  mr_accessed :: int

text \<open>What fetching a URL gives: refused by the guard, too many redirects, no answer, or a status, a declared length and a
  body, unless reading it fails.\<close>

datatype web_answer = FetchBlocked | FetchRedirects | FetchFailed | Fetched int int "bytes option"

text \<open>The rows of the table, what the web answers, and every URL that was asked for, in order.\<close>

record mirror_side =
  mm_rows :: "mirror_row list"
  mm_web :: "string \<Rightarrow> web_answer"
  mm_asked :: "string list"

type_synonym 'a mprog = "(mirror_side, 'a) sprog"

record mirror_config =
  mc_enabled :: bool
  mc_key :: string
  mc_ttl :: int
  mc_max_object :: int
  mc_max_pixels :: int
  mc_max_dim :: int
  mc_types :: "string list"
  mc_max_batch :: int
  mc_cache_max :: int
  mc_low_pct :: int
  mc_negative :: int
  mc_refused :: int
  mc_owner :: string

definition DefaultMediaMirrorConfig :: mirror_config where
  "DefaultMediaMirrorConfig = \<lparr>mc_enabled = False, mc_key = [], mc_ttl = 0, mc_max_object = 2 ^ 20, mc_max_pixels = 4 * 2 ^ 20,
     mc_max_dim = 1024, mc_types = [''image/png'', ''image/jpeg'', ''image/gif'', ''image/webp''], mc_max_batch = 256,
     mc_cache_max = 2 ^ 30, mc_low_pct = 90, mc_negative = 15 * 60 * second, mc_refused = 24 * 3600 * second,
     mc_owner = ''0000000000000000000000000000000000000000000000000000006d6972726f72''\<rparr>"

text \<open>The parts of a URL that \<^verbatim>\<open>url.Parse\<close> gives.\<close>

record url_parts =
  up_scheme :: string
  up_host :: string
  up_user :: bool
  up_path :: string
  up_tail :: string
  up_fragment :: string

record mirror_lib =
  ml_hmac :: hmac
  ml_sha :: "bytes \<Rightarrow> string"
  ml_detect :: "bytes \<Rightarrow> string"
  ml_dims :: "bytes \<Rightarrow> (int \<times> int) option"
  ml_parse :: "string \<Rightarrow> url_parts option"
  ml_string :: "url_parts \<Rightarrow> string"
  ml_hostname :: "string \<Rightarrow> string"
  ml_port :: "string \<Rightarrow> string"

record mirror_service =
  ms_config :: mirror_config
  ms_signer :: "signer option"
  ms_blobs :: blob_service
  ms_lib :: mirror_lib

datatype mirror_fail = MirrorDisabled | LinkError sign_error | MirrorError string string

record mirrored_media =
  md_sha :: string
  md_size :: int
  md_mime :: string
  md_data :: bytes
  md_cached :: bool

record signed_mirror_url =
  sm_source :: string
  sm_url :: string
  sm_expires :: int

record evict_result =
  er_before :: int
  er_after :: int
  er_evicted :: int

section \<open>Queries\<close>

definition on_rows :: "(mirror_row list \<Rightarrow> 'a result \<times> mirror_row list) \<Rightarrow> 'a result mprog" where
  "on_rows q = exec_side (\<lambda>x. case q (mm_rows x) of (r, rows) \<Rightarrow> (r, x\<lparr>mm_rows := rows\<rparr>))"

type_synonym 'a mirror_query = "mirror_row list \<Rightarrow> 'a result \<times> mirror_row list"

definition q_CountMirroredMedia :: "int mirror_query" where
  "q_CountMirroredMedia rows = (Inr (int (length (filter (\<lambda>r. mr_status r = ''ok'') rows))), rows)"

text \<open>\<^verbatim>\<open>sha256 = NULL\<close> holds of no row.\<close>

definition q_CountMirroredMediaForBlob :: "string option \<Rightarrow> int mirror_query" where
  "q_CountMirroredMediaForBlob sha rows =
     (Inr (case sha of None \<Rightarrow> 0 | Some h \<Rightarrow> int (length (filter (\<lambda>r. mr_sha r = Some h) rows))), rows)"

definition q_DeleteMirroredMedia :: "string \<Rightarrow> unit mirror_query" where
  "q_DeleteMirroredMedia k rows = (Inr (), filter (\<lambda>r. mr_key r \<noteq> k) rows)"

definition q_DeleteStaleMirrorFailures :: "string \<Rightarrow> int \<Rightarrow> unit mirror_query" where
  "q_DeleteStaleMirrorFailures st t rows = (Inr (), filter (\<lambda>r. \<not> (mr_status r = st \<and> mr_fetched r < t)) rows)"

definition q_GetMirroredMedia :: "string \<Rightarrow> mirror_row mirror_query" where
  "q_GetMirroredMedia k rows = (first_row (\<lambda>r. mr_key r = k) rows, rows)"

definition q_ListMirroredMediaLRU :: "int \<Rightarrow> mirror_row list mirror_query" where
  "q_ListMirroredMediaLRU limit rows =
     (if limit < 0 then Inl ErrConstraint
      else Inr (take (nat limit) (sort_key mr_accessed (sort_key mr_fetched (filter (\<lambda>r. mr_status r = ''ok'') rows)))), rows)"

definition total_size :: "mirror_row list \<Rightarrow> int" where
  "total_size rows = sum_list (map mr_size (filter (\<lambda>r. mr_status r = ''ok'') rows))"

definition q_SumMirroredMediaSize :: "int mirror_query" where
  "q_SumMirroredMediaSize rows = (if in_i64 (total_size rows) then Inr (total_size rows) else Inl ErrOutOfRange, rows)"

definition q_TouchMirroredMedia :: "string \<Rightarrow> int \<Rightarrow> unit mirror_query" where
  "q_TouchMirroredMedia k t rows = (Inr (), update_where (\<lambda>r. mr_key r = k \<and> mr_accessed r < t) (\<lambda>r. r\<lparr>mr_accessed := t\<rparr>) rows)"

definition q_UpsertMirroredMedia :: "mirror_row \<Rightarrow> unit mirror_query" where
  "q_UpsertMirroredMedia r rows =
     (Inr (), if \<exists>x \<in> set rows. mr_key x = mr_key r then update_where (\<lambda>x. mr_key x = mr_key r) (\<lambda>_. r) rows else rows @ [r])"

section \<open>URLs\<close>

definition ascii_lower :: "string \<Rightarrow> string" where
  "ascii_lower s = map (\<lambda>c. let n = of_char c :: nat in if 65 \<le> n \<and> n \<le> 90 then char_of (n + 32) else c) s"

definition MaxURLLength :: nat where "MaxURLLength = 2048"

definition parseAbsoluteHTTPURL :: "mirror_lib \<Rightarrow> string \<Rightarrow> url_parts option" where
  "parseAbsoluteHTTPURL l raw =
     (if raw = [] \<or> length raw > MaxURLLength then None
      else case ml_parse l raw of
             None \<Rightarrow> None
           | Some u \<Rightarrow>
               if up_scheme u \<noteq> ''http'' \<and> up_scheme u \<noteq> ''https'' then None
               else if up_host u = [] then None
               else if up_user u then None
               else Some u)"

definition CanonicalURL :: "mirror_lib \<Rightarrow> string \<Rightarrow> string option" where
  "CanonicalURL l raw =
     (case parseAbsoluteHTTPURL l raw of
        None \<Rightarrow> None
      | Some u \<Rightarrow>
          let scheme = ascii_lower (up_scheme u);
              host = ascii_lower (ml_hostname l (up_host u));
              port = ml_port l (up_host u);
              port = (if scheme = ''http'' \<and> port = ''80'' \<or> scheme = ''https'' \<and> port = ''443'' then [] else port)
          in Some (ml_string l (u\<lparr>up_scheme := scheme, up_fragment := [],
                up_host := (if port = [] then host else host @ '':'' @ port),
                up_path := (if up_path u = [] then ''/'' else up_path u)\<rparr>)))"

definition PreCheckURL :: "mirror_lib \<Rightarrow> string \<Rightarrow> bool" where
  "PreCheckURL l raw = (parseAbsoluteHTTPURL l raw \<noteq> None)"

section \<open>The service\<close>

definition NewMediaMirrorService :: "blob_service \<Rightarrow> mirror_config \<Rightarrow> mirror_lib \<Rightarrow> bool \<Rightarrow> sign_error option + mirror_service" where
  "NewMediaMirrorService blobs config l cidrs_parse =
     (let s = \<lparr>ms_config = config, ms_signer = None, ms_blobs = blobs, ms_lib = l\<rparr> in
      if \<not> mc_enabled config then Inr s
      else case NewSigner (mc_key config) (mc_ttl config) of
             Inl e \<Rightarrow> Inl (Some e)
           | Inr sg \<Rightarrow> if \<not> cidrs_parse then Inl None else Inr (s\<lparr>ms_signer := Some sg\<rparr>))"

definition mirror_enabled :: "mirror_service \<Rightarrow> bool" where
  "mirror_enabled s = (mc_enabled (ms_config s) \<and> ms_signer s \<noteq> None)"

definition urlHash :: "mirror_service \<Rightarrow> string \<Rightarrow> string" where
  "urlHash s url = ml_sha (ms_lib s) (str_bytes url)"

definition MirrorRoutePath :: string where "MirrorRoutePath = ''/media/mirror''"

definition MirrorPath :: "string \<Rightarrow> int \<Rightarrow> string \<Rightarrow> string" where
  "MirrorPath url expiresAt signature =
     MirrorRoutePath @ ''?u='' @ EncodeURL url @ (if expiresAt \<noteq> 0 then ''&e='' @ FormatInt expiresAt else []) @ ''&s='' @ signature"

text \<open>The links, the refused inputs, and the canonical URLs seen so far.\<close>

fun sign_urls :: "mirror_service \<Rightarrow> signer \<Rightarrow> int \<Rightarrow> string list \<Rightarrow> string list \<Rightarrow> signed_mirror_url list \<times> string list" where
  "sign_urls s sg t seen [] = ([], [])"
| "sign_urls s sg t seen (raw # raws) =
     (case CanonicalURL (ms_lib s) raw of
        None \<Rightarrow> (case sign_urls s sg t seen raws of (links, rejected) \<Rightarrow> (links, raw # rejected))
      | Some url \<Rightarrow>
          if url \<in> set seen then sign_urls s sg t seen raws
          else (case Sign (ml_hmac (ms_lib s)) sg t url of
            (expiresAt, sig) \<Rightarrow> (case sign_urls s sg t (url # seen) raws of
              (links, rejected) \<Rightarrow> (\<lparr>sm_source = url, sm_url = MirrorPath url expiresAt sig, sm_expires = expiresAt\<rparr> # links, rejected))))"

definition SignURLs :: "mirror_service \<Rightarrow> int \<Rightarrow> string list \<Rightarrow> mirror_fail + signed_mirror_url list \<times> string list" where
  "SignURLs s t raws =
     (case ms_signer s of
        None \<Rightarrow> Inl MirrorDisabled
      | Some sg \<Rightarrow>
          if \<not> mc_enabled (ms_config s) then Inl MirrorDisabled
          else if int (length raws) > mc_max_batch (ms_config s) then Inl (MirrorError ''refused'' ''too_large'')
          else Inr (sign_urls s sg t [] raws))"

definition negativeExpired :: "int \<Rightarrow> int \<Rightarrow> int \<Rightarrow> bool" where
  "negativeExpired t fetchedAt ttl = (if ttl \<le> 0 then False else t > unix_time fetchedAt + ttl)"

definition lruGranularity :: int where "lruGranularity = 3600 * second"

definition touch :: "string \<Rightarrow> int \<Rightarrow> unit mprog" where
  "touch k currentAccessedAt = do {
     t \<leftarrow> on_world now;
     let t = Unix (Truncate t lruGranularity)
     in if t \<le> currentAccessedAt then ret () else do { _ \<leftarrow> on_rows (q_TouchMirroredMedia k t); ret () }
   }"

definition or_empty :: "string option \<Rightarrow> string" where
  "or_empty x = (case x of None \<Rightarrow> [] | Some s \<Rightarrow> s)"

text \<open>A verdict of the cache, if it has one.\<close>

definition fromCache :: "mirror_service \<Rightarrow> string \<Rightarrow> (mirror_fail + mirrored_media) option mprog" where
  "fromCache s k = do {
     g \<leftarrow> on_rows (q_GetMirroredMedia k);
     case g of
       Inl _ \<Rightarrow> ret None
     | Inr row \<Rightarrow>
         if mr_status row = ''ok'' then (case mr_sha row of
             None \<Rightarrow> ret None
           | Some h \<Rightarrow> do {
               b \<leftarrow> on_world (GetFromHash (ms_blobs s) h);
               (case b of
                  Inl _ \<Rightarrow> ret None
                | Inr blob \<Rightarrow> do {
                    _ \<leftarrow> touch k (mr_accessed row);
                    ret (Some (Inr \<lparr>md_sha = h, md_size = mr_size row, md_mime = or_empty (mr_mime row), md_data = d_blob blob, md_cached = True\<rparr>))
                  })
             })
         else if mr_status row = ''refused'' \<or> mr_status row = ''unreachable'' then do {
           t \<leftarrow> on_world now;
           ret (if negativeExpired t (mr_fetched row) (if mr_status row = ''refused'' then mc_refused (ms_config s) else mc_negative (ms_config s))
                then None else Some (Inl (MirrorError (mr_status row) (or_empty (mr_reason row)))))
         }
         else ret None
   }"

text \<open>\<^verbatim>\<open>strings.EqualFold\<close> of media types, which are ASCII.\<close>

definition mimeAllowed :: "mirror_service \<Rightarrow> string \<Rightarrow> bool" where
  "mimeAllowed s mime = (\<exists>a \<in> set (mc_types (ms_config s)). ascii_lower a = ascii_lower mime)"

definition checkDimensions :: "mirror_service \<Rightarrow> bytes \<Rightarrow> mirror_fail option" where
  "checkDimensions s data =
     (case ml_dims (ms_lib s) data of
        None \<Rightarrow> Some (MirrorError ''refused'' ''not_an_image'')
      | Some (w, h) \<Rightarrow>
          if w \<le> 0 \<or> h \<le> 0 then Some (MirrorError ''refused'' ''not_an_image'')
          else if mc_max_dim (ms_config s) > 0 \<and> (w > mc_max_dim (ms_config s) \<or> h > mc_max_dim (ms_config s))
          then Some (MirrorError ''refused'' ''too_many_pixels'')
          else if mc_max_pixels (ms_config s) > 0 \<and> i64 (w * h) > mc_max_pixels (ms_config s)
          then Some (MirrorError ''refused'' ''too_many_pixels'')
          else None)"

text \<open>\<^verbatim>\<open>strings.TrimSpace\<close> of the part before the first semicolon; media types are ASCII.\<close>

definition base_type :: "string \<Rightarrow> string" where
  "base_type mime = (if CHR '';'' \<in> set mime
     then let blank = (\<lambda>c. is_blank c \<or> c = CHR 0x0A)
          in rev (dropWhile blank (rev (dropWhile blank (takeWhile (\<lambda>c. c \<noteq> CHR '';'') mime))))
     else mime)"

text \<open>The body that a fetch returns, or why there is none.\<close>

definition fetched_body :: "mirror_service \<Rightarrow> web_answer \<Rightarrow> mirror_fail + bytes" where
  "fetched_body s a =
     (case a of
        FetchBlocked \<Rightarrow> Inl (MirrorError ''refused'' ''blocked_address'')
      | FetchRedirects \<Rightarrow> Inl (MirrorError ''refused'' ''too_many_redirects'')
      | FetchFailed \<Rightarrow> Inl (MirrorError ''unreachable'' ''transport'')
      | Fetched status declared body \<Rightarrow>
          if status \<noteq> 200 then Inl (MirrorError ''unreachable'' ''http_status'')
          else if declared > mc_max_object (ms_config s) then Inl (MirrorError ''refused'' ''too_large'')
          else (case body of
                  None \<Rightarrow> Inl (MirrorError ''unreachable'' ''transport'')
                | Some all \<Rightarrow>
                    let data = take (nat (max 0 (i64 (mc_max_object (ms_config s) + 1)))) all
                    in if int (length data) > mc_max_object (ms_config s) then Inl (MirrorError ''refused'' ''too_large'')
                       else if data = [] then Inl (MirrorError ''unreachable'' ''transport'')
                       else Inr data))"

definition doFetch :: "mirror_service \<Rightarrow> string \<Rightarrow> (mirror_fail + mirrored_media) mprog" where
  "doFetch s url = do {
     a \<leftarrow> on_side (\<lambda>x. (mm_web x url, x\<lparr>mm_asked := mm_asked x @ [url]\<rparr>));
     case fetched_body s a of
       Inl e \<Rightarrow> ret (Inl e)
     | Inr data \<Rightarrow>
         let mime = base_type (ml_detect (ms_lib s) data) in
         if \<not> mimeAllowed s mime then ret (Inl (MirrorError ''refused'' ''type_not_allowed''))
         else (case checkDimensions s data of
             Some e \<Rightarrow> ret (Inl e)
           | None \<Rightarrow> do {
               t \<leftarrow> on_world now;
               let h = ml_sha (ms_lib s) data in do {
                 r \<leftarrow> on_world (SaveWithDedup (ms_blobs s) (mc_owner (ms_config s)) h [] (int (length data)) mime data (Unix t) ''none'');
                 ret (case r of
                        Inl _ \<Rightarrow> Inl (MirrorError ''refused'' ''storage'')
                      | Inr _ \<Rightarrow> Inr \<lparr>md_sha = h, md_size = int (length data), md_mime = mime, md_data = data, md_cached = False\<rparr>)
               }
             })
   }"

definition fetch_record :: "string \<Rightarrow> string \<Rightarrow> int \<Rightarrow> mirror_fail + mirrored_media \<Rightarrow> mirror_row" where
  "fetch_record k url t r =
     (let base = \<lparr>mr_key = k, mr_url = url, mr_status = [], mr_reason = None, mr_sha = None, mr_size = 0, mr_mime = None,
                  mr_fetched = Unix t, mr_accessed = Unix (Truncate t lruGranularity)\<rparr> in
      case r of
        Inl (MirrorError st reason) \<Rightarrow> base\<lparr>mr_status := st, mr_reason := (if reason = [] then None else Some reason)\<rparr>
      | Inl _ \<Rightarrow> base\<lparr>mr_status := ''unreachable'', mr_reason := Some ''transport''\<rparr>
      | Inr m \<Rightarrow> base\<lparr>mr_status := ''ok'', mr_sha := Some (md_sha m), mr_size := md_size m, mr_mime := Some (md_mime m)\<rparr>)"

definition fetchAndStore :: "mirror_service \<Rightarrow> string \<Rightarrow> string \<Rightarrow> (mirror_fail + mirrored_media) mprog" where
  "fetchAndStore s k url = do {
     r \<leftarrow> doFetch s url;
     t \<leftarrow> on_world now;
     _ \<leftarrow> on_rows (q_UpsertMirroredMedia (fetch_record k url t r));
     ret r
   }"

definition VerifyAndGet :: "mirror_service \<Rightarrow> string \<Rightarrow> int \<Rightarrow> string \<Rightarrow> (mirror_fail + mirrored_media) mprog" where
  "VerifyAndGet s encodedURL expiresAt signature = do {
     t \<leftarrow> on_world now;
     case ms_signer s of
       None \<Rightarrow> ret (Inl MirrorDisabled)
     | Some sg \<Rightarrow>
         if \<not> mc_enabled (ms_config s) then ret (Inl MirrorDisabled)
         else (case DecodeURL encodedURL of
             Inl _ \<Rightarrow> ret (Inl (MirrorError ''refused'' ''invalid_url''))
           | Inr url \<Rightarrow> (case Verify (ml_hmac (ms_lib s)) sg t url expiresAt signature of
               Some e \<Rightarrow> ret (Inl (LinkError e))
             | None \<Rightarrow>
                 if \<not> PreCheckURL (ms_lib s) url then ret (Inl (MirrorError ''refused'' ''invalid_url''))
                 else do {
                   c \<leftarrow> fromCache s (urlHash s url);
                   case c of Some r \<Rightarrow> ret r | None \<Rightarrow> fetchAndStore s (urlHash s url) url
                 }))
   }"

section \<open>Eviction\<close>

definition lowWaterMark :: "mirror_service \<Rightarrow> int" where
  "lowWaterMark s =
     (let pct = mc_low_pct (ms_config s); pct = (if pct \<le> 0 \<or> pct > 100 then 90 else pct)
      in go_div (i64 (mc_cache_max (ms_config s) * pct)) 100)"

definition evictOne :: "mirror_service \<Rightarrow> string \<Rightarrow> string option \<Rightarrow> unit result mprog" where
  "evictOne s k sha =
     and_then (wrap ''delete mirror row'' (on_rows (q_DeleteMirroredMedia k))) (\<lambda>_.
       case sha of
         None \<Rightarrow> ret (Inr ())
       | Some h \<Rightarrow> and_then (wrap ''count mirror refs'' (on_rows (q_CountMirroredMediaForBlob sha))) (\<lambda>remaining.
           if remaining > 0 then ret (Inr ())
           else and_then (wrap ''release blob reference'' (on_world (DeleteReference (ms_blobs s) (mc_owner (ms_config s)) h)))
                  (\<lambda>_. ret (Inr ()))))"

definition expireFailures :: "mirror_service \<Rightarrow> unit mprog" where
  "expireFailures s = do {
     t \<leftarrow> on_world now;
     _ \<leftarrow> (if mc_negative (ms_config s) > 0
           then on_rows (q_DeleteStaleMirrorFailures ''unreachable'' (Unix (t - mc_negative (ms_config s)))) else ret (Inr ()));
     _ \<leftarrow> (if mc_refused (ms_config s) > 0
           then on_rows (q_DeleteStaleMirrorFailures ''refused'' (Unix (t - mc_refused (ms_config s)))) else ret (Inr ()));
     ret ()
   }"

definition evictScanBatch :: int where "evictScanBatch = 512"

text \<open>The loop over the candidates, with the bytes left and the number of entries dropped.\<close>

fun evict_loop :: "mirror_service \<Rightarrow> int \<Rightarrow> mirror_row list \<Rightarrow> int \<Rightarrow> int \<Rightarrow> (int \<times> int) mprog" where
  "evict_loop s target [] current n = ret (current, n)"
| "evict_loop s target (c # cs) current n =
     (if current \<le> target then ret (current, n)
      else do {
        r \<leftarrow> evictOne s (mr_key c) (mr_sha c);
        (case r of
           Inl _ \<Rightarrow> evict_loop s target cs current n
         | Inr _ \<Rightarrow> evict_loop s target cs (i64 (current - mr_size c)) (n + 1))
      })"

definition Evict :: "mirror_service \<Rightarrow> evict_result result mprog" where
  "Evict s =
     (if \<not> mirror_enabled s then ret (Inl (Msg ''media mirror is not enabled''))
      else do {
        _ \<leftarrow> expireFailures s;
        and_then (wrap ''sum mirror cache'' (on_rows q_SumMirroredMediaSize)) (\<lambda>before.
          if mc_cache_max (ms_config s) \<le> 0 \<or> before \<le> mc_cache_max (ms_config s)
          then ret (Inr \<lparr>er_before = before, er_after = before, er_evicted = 0\<rparr>)
          else and_then (wrap ''list mirror LRU'' (on_rows (q_ListMirroredMediaLRU evictScanBatch))) (\<lambda>candidates. do {
            (current, n) \<leftarrow> evict_loop s (lowWaterMark s) candidates before 0;
            ret (Inr \<lparr>er_before = before, er_after = current, er_evicted = n\<rparr>)
          }))
      })"

section \<open>Endpoints\<close>

datatype mirror_answer = MirrorHTTP int string | MirrorSigned "signed_mirror_url list" "string list" | MirrorServed mirrored_media

definition writeMirrorError :: "mirror_fail \<Rightarrow> mirror_answer" where
  "writeMirrorError e =
     (case e of
        LinkError _ \<Rightarrow> MirrorHTTP 403 ''MIRROR_UNSIGNED''
      | MirrorDisabled \<Rightarrow> MirrorHTTP 501 ''MIRROR_DISABLED''
      | MirrorError st reason \<Rightarrow>
          if st = ''refused'' then MirrorHTTP 415 ''MIRROR_REFUSED''
          else if st = ''unreachable'' then MirrorHTTP 502 ''MIRROR_UNREACHABLE''
          else MirrorHTTP 500 [])"

definition requireMediaMirror :: "mirror_service \<Rightarrow> mirror_answer option" where
  "requireMediaMirror s = (if mirror_enabled s then None else Some (MirrorHTTP 501 ''MIRROR_DISABLED''))"

definition signMirrorURLs :: "mirror_service \<Rightarrow> int \<Rightarrow> string list option \<Rightarrow> mirror_answer" where
  "signMirrorURLs s t input =
     (case requireMediaMirror s of
        Some a \<Rightarrow> a
      | None \<Rightarrow> (case input of
          None \<Rightarrow> MirrorHTTP 400 []
        | Some urls \<Rightarrow>
            if urls = [] then MirrorHTTP 400 []
            else (case SignURLs s t urls of
                    Inl (MirrorError _ reason) \<Rightarrow> MirrorHTTP 400 reason
                  | Inl _ \<Rightarrow> MirrorHTTP 500 []
                  | Inr (links, rejected) \<Rightarrow> MirrorSigned links rejected)))"

definition getMirroredMedia :: "mirror_service \<Rightarrow> string \<Rightarrow> string \<Rightarrow> string \<Rightarrow> mirror_answer mprog" where
  "getMirroredMedia s u e sig =
     (case requireMediaMirror s of
        Some a \<Rightarrow> ret a
      | None \<Rightarrow>
          if u = [] \<or> sig = [] then ret (MirrorHTTP 403 ''MIRROR_UNSIGNED'')
          else (case (if e = [] then (0, False) else ParseInt e) of (expiresAt, bad) \<Rightarrow>
            if bad then ret (MirrorHTTP 403 ''MIRROR_UNSIGNED'')
            else do {
              r \<leftarrow> VerifyAndGet s u expiresAt sig;
              ret (case r of Inl err \<Rightarrow> writeMirrorError err | Inr m \<Rightarrow> MirrorServed m)
            }))"

end
