(* ===== verification/MirrorRules.thy ===== *)
theory MirrorRules
  imports MediaMirror BatchRules "HOL-Library.Multiset"
begin

text \<open>
  What the media mirror guarantees: only a valid link makes it fetch or read anything, what it stores and serves is what
  the checks accept, every entry it keeps is backed by a blob it owns, and an eviction drops the least recently viewed
  entries until the cache fits; and what it does not: removed hashes come back.
\<close>

section \<open>Calls\<close>

abbreviation rows_of :: "mirror_side sided \<Rightarrow> mirror_row list" where "rows_of st \<equiv> mm_rows (sd st)"
abbreviation owned_in :: "mirror_side sided \<Rightarrow> owner_map" where "owned_in st \<equiv> owned (w_db (sd_world st))"

definition sound :: "mirror_side sided \<Rightarrow> bool" where
  "sound st \<longleftrightarrow> db_inv (w_db (sd_world st)) \<and> w_saved (sd_world st) = None"

lemma wp_on_rows:
  assumes "\<And>w. still (sd_world st) w \<Longrightarrow> \<not> quiet (sd_world st) \<Longrightarrow> Q (Inl ErrIO) (st\<lparr>sd_world := w\<rparr>)"
    and "\<And>w r rows. still (sd_world st) w \<Longrightarrow> q (rows_of st) = (r, rows) \<Longrightarrow> Q r (st\<lparr>sd_world := w, sd := (sd st)\<lparr>mm_rows := rows\<rparr>\<rparr>)"
  shows "wp (on_rows q) Q st"
  unfolding on_rows_def by (rule wp_exec_side) (auto simp: assms split: prod.splits)

lemma sound_still: "still (sd_world st) w \<Longrightarrow> sound (st\<lparr>sd_world := w, sd := x\<rparr>) = sound st" "still (sd_world st) w \<Longrightarrow> sound (st\<lparr>sd_world := w\<rparr>) = sound st"
  by (simp_all add: sound_def still_def)

lemma same_world [simp]: "st\<lparr>sd_world := sd_world st\<rparr> = st"
  by simp

text \<open>The state is as before but for the times of access.\<close>

definition same_rows :: "mirror_row list \<Rightarrow> mirror_row list \<Rightarrow> bool" where
  "same_rows rows rows' \<longleftrightarrow> map (\<lambda>r. r\<lparr>mr_accessed := 0\<rparr>) rows' = map (\<lambda>r. r\<lparr>mr_accessed := 0\<rparr>) rows"

definition looked :: "mirror_side sided \<Rightarrow> mirror_side sided \<Rightarrow> bool" where
  "looked st st' \<longleftrightarrow> still (sd_world st) (sd_world st') \<and> mm_web (sd st') = mm_web (sd st)
     \<and> mm_asked (sd st') = mm_asked (sd st) \<and> same_rows (rows_of st) (rows_of st')"

lemma same_rows_trans: "same_rows a b \<Longrightarrow> same_rows b c \<Longrightarrow> same_rows a c"
  by (simp add: same_rows_def)

lemma looked_trans: "looked st st1 \<Longrightarrow> looked st1 st2 \<Longrightarrow> looked st st2"
  by (auto simp: looked_def intro: still_trans same_rows_trans)

lemma looked_refl [simp]: "looked st st"
  by (simp add: looked_def same_rows_def)

lemma looked_still: "still (sd_world st) w \<Longrightarrow> looked st (st\<lparr>sd_world := w\<rparr>)"
  by (simp add: looked_def same_rows_def)

lemma touch_spec: "wp (touch k a) (\<lambda>_. looked st) st"
proof -
  have "same_rows rows (update_where (\<lambda>r. mr_key r = k \<and> mr_accessed r < t) (\<lambda>r. r\<lparr>mr_accessed := t\<rparr>) rows)" for rows t
    by (simp add: same_rows_def update_where_def)
  then have "wp (on_rows (q_TouchMirroredMedia k t)) (\<lambda>_. looked st) st" for t
    by (intro wp_on_rows looked_still) (auto simp: q_TouchMirroredMedia_def looked_def)
  then show ?thesis by (simp add: touch_def Let_def wp_simp)
qed

lemma looked_sound: "looked st st' \<Longrightarrow> sound st' = sound st \<and> owned_in st' = owned_in st"
  by (simp add: looked_def sound_def still_def)

section \<open>Entries\<close>

text \<open>One entry for each URL; those with a blob are backed by a blob of the mirror's key.\<close>

definition mirror_ok :: "string \<Rightarrow> mirror_row list \<Rightarrow> owner_map \<Rightarrow> bool" where
  "mirror_ok pk rows m \<longleftrightarrow> distinct (map mr_key rows)
     \<and> (\<forall>r \<in> set rows. if mr_status r = ''ok'' then \<exists>h. mr_sha r = Some h \<and> owns pk h m else mr_sha r = None)"

lemma mirror_ok_mono: "mirror_ok pk rows m \<Longrightarrow> (\<And>h. owns pk h m \<Longrightarrow> owns pk h m') \<Longrightarrow> mirror_ok pk rows m'"
  unfolding mirror_ok_def by (metis (no_types, lifting))

lemma mirror_ok_filter: "mirror_ok pk rows m \<Longrightarrow> mirror_ok pk (filter P rows) m"
  by (auto simp: mirror_ok_def distinct_map intro: inj_on_subset)

lemma mirror_ok_same:
  assumes "same_rows rows rows'" "mirror_ok pk rows m"
  shows "mirror_ok pk rows' m"
proof -
  let ?f = "\<lambda>r. r\<lparr>mr_accessed := 0\<rparr>"
  have m: "map ?f rows' = map ?f rows" using assms(1) by (simp add: same_rows_def)
  have "map mr_key rows' = map mr_key (map ?f rows')" by simp
  then have keys: "map mr_key rows' = map mr_key rows" unfolding m by simp
  have "\<exists>x \<in> set rows. mr_status x = mr_status r \<and> mr_sha x = mr_sha r" if "r \<in> set rows'" for r
  proof -
    have "?f r \<in> ?f ` set rows" using that arg_cong [OF m, of set] by auto
    then obtain x where x: "x \<in> set rows" "?f r = ?f x" by auto
    have "mr_status x = mr_status r" "mr_sha x = mr_sha r"
      using arg_cong [OF x(2), of mr_status] arg_cong [OF x(2), of mr_sha] by simp_all
    then show ?thesis using x(1) by blast
  qed
  then show ?thesis using assms(2) unfolding mirror_ok_def keys by fastforce
qed

lemma mirror_ok_upsert:
  assumes "mirror_ok pk rows m" "if mr_status r = ''ok'' then \<exists>h. mr_sha r = Some h \<and> owns pk h m else mr_sha r = None"
    and "q_UpsertMirroredMedia r rows = (e, rows')"
  shows "mirror_ok pk rows' m"
proof (cases "\<exists>x \<in> set rows. mr_key x = mr_key r")
  case True
  let ?f = "\<lambda>x. if mr_key x = mr_key r then r else x"
  have rows': "rows' = map ?f rows" using True assms(3) by (simp add: q_UpsertMirroredMedia_def update_where_def)
  have k: "map mr_key (map ?f rows) = map mr_key rows" by simp
  show ?thesis using assms(1,2) unfolding mirror_ok_def rows' k by auto
next
  case False
  then have "mr_key r \<notin> mr_key ` set rows" by (metis imageE)
  then show ?thesis using assms False by (auto simp: mirror_ok_def q_UpsertMirroredMedia_def)
qed

section \<open>Viewing\<close>

definition valid_link :: "mirror_service \<Rightarrow> int \<Rightarrow> string \<Rightarrow> int \<Rightarrow> string \<Rightarrow> string \<Rightarrow> bool" where
  "valid_link s t enc e sig url \<longleftrightarrow> mc_enabled (ms_config s) \<and> DecodeURL enc = Inr url \<and> PreCheckURL (ms_lib s) url
     \<and> (\<exists>sg. ms_signer s = Some sg \<and> Verify (ml_hmac (ms_lib s)) sg t url e sig = None)"

definition acceptable :: "mirror_service \<Rightarrow> bytes \<Rightarrow> bool" where
  "acceptable s data \<longleftrightarrow> data \<noteq> [] \<and> int (length data) \<le> mc_max_object (ms_config s)
     \<and> mimeAllowed s (base_type (ml_detect (ms_lib s) data)) \<and> checkDimensions s data = None"

definition same_owners :: "owner_map \<Rightarrow> owner_map \<Rightarrow> bool" where
  "same_owners m m' \<longleftrightarrow> (\<forall>pk h. owns pk h m' = owns pk h m)"

definition one_more :: "string \<Rightarrow> string \<Rightarrow> owner_map \<Rightarrow> owner_map \<Rightarrow> bool" where
  "one_more pk h m m' \<longleftrightarrow> (\<forall>pk' h'. owns pk' h' m' \<longleftrightarrow> owns pk' h' m \<or> pk' = pk \<and> h' = h)"

lemma same_owners_refl [simp]: "same_owners m m"
  by (simp add: same_owners_def)

text \<open>A fetch: the bytes that were accepted and stored, or a reason.\<close>

definition fetched :: "mirror_service \<Rightarrow> string \<Rightarrow> mirror_side sided \<Rightarrow> mirror_fail + mirrored_media \<Rightarrow> mirror_side sided \<Rightarrow> bool" where
  "fetched s url st r st' \<longleftrightarrow> sound st' \<and> mm_web (sd st') = mm_web (sd st) \<and> mm_asked (sd st') = mm_asked (sd st) @ [url]
     \<and> (case r of
          Inl e \<Rightarrow> same_owners (owned_in st) (owned_in st') \<and> (\<exists>x y. e = MirrorError x y \<and> x \<noteq> ''ok'')
        | Inr x \<Rightarrow> \<not> md_cached x \<and> fetched_body s (mm_web (sd st) url) = Inr (md_data x) \<and> acceptable s (md_data x)
            \<and> md_sha x = ml_sha (ms_lib s) (md_data x)
            \<and> one_more (mc_owner (ms_config s)) (md_sha x) (owned_in st) (owned_in st'))"

lemma fetched_body_length: "fetched_body s a = Inr data \<Longrightarrow> data \<noteq> [] \<and> int (length data) \<le> mc_max_object (ms_config s)"
  by (auto simp: fetched_body_def Let_def split: web_answer.splits if_splits option.splits)

lemma fetched_body_fail: "fetched_body s a = Inl e \<Longrightarrow> \<exists>x y. e = MirrorError x y \<and> x \<noteq> ''ok''"
  by (auto simp: fetched_body_def Let_def split: web_answer.splits if_splits option.splits)

lemma checkDimensions_fail: "checkDimensions s data = Some e \<Longrightarrow> \<exists>x y. e = MirrorError x y \<and> x \<noteq> ''ok''"
  by (auto simp: checkDimensions_def split: option.splits prod.splits if_splits)

lemma doFetch_spec:
  assumes "enc_ok (ms_blobs s)" "sound st"
  shows "wp (doFetch s url) (\<lambda>r st'. fetched s url st r st' \<and> rows_of st' = rows_of st) st"
    (is "wp _ ?Q st")
proof -
  let ?st = "st\<lparr>sd := (sd st)\<lparr>mm_asked := mm_asked (sd st) @ [url]\<rparr>\<rparr>"
  have fail: "?Q (Inl e) ?st" if "\<exists>x y. e = MirrorError x y \<and> x \<noteq> ''ok''" for e
    using that assms(2) by (simp add: fetched_def sound_def)
  show ?thesis
  proof (cases "fetched_body s (mm_web (sd st) url)")
    case (Inl e)
    then show ?thesis using fail [OF fetched_body_fail [OF Inl]] by (simp add: doFetch_def wp_simp)
  next
    case (Inr data)
    let ?mime = "base_type (ml_detect (ms_lib s) data)" and ?h = "ml_sha (ms_lib s) data" and ?pk = "mc_owner (ms_config s)"
    have store: "wp (SaveWithDedup (ms_blobs s) ?pk ?h [] (int (length data)) ?mime data t ''none'')
        (\<lambda>r w. ?Q (case r of Inl _ \<Rightarrow> Inl (MirrorError ''refused'' ''storage'')
           | Inr _ \<Rightarrow> Inr \<lparr>md_sha = ?h, md_size = int (length data), md_mime = ?mime, md_data = data, md_cached = False\<rparr>) (?st\<lparr>sd_world := w\<rparr>)) (sd_world st)"
      if "mimeAllowed s ?mime" "checkDimensions s data = None" for t
    proof -
      have w: "db_inv (w_db (sd_world st))" "w_saved (sd_world st) = None" using assms(2) by (simp_all add: sound_def)
      show ?thesis
        by (rule wp_mono [OF SaveWithDedup_spec [OF assms(1) w]])
          (use that Inr fetched_body_length [OF Inr] in \<open>auto simp: fetched_def sound_def acceptable_def same_owners_def one_more_def
              failed_owns saved_owners_iff split: sum.splits\<close>)
    qed
    show ?thesis
      using fail store fail [OF checkDimensions_fail]
      by (auto simp: doFetch_def wp_simp Inr Let_def split: option.split)
  qed
qed

lemma fetchAndStore_spec:
  assumes "enc_ok (ms_blobs s)" "sound st"
  shows "wp (fetchAndStore s k url) (\<lambda>r st'. fetched s url st r st'
     \<and> (mirror_ok (mc_owner (ms_config s)) (rows_of st) (owned_in st) \<longrightarrow> mirror_ok (mc_owner (ms_config s)) (rows_of st') (owned_in st'))) st"
  unfolding fetchAndStore_def wp_bind
proof (rule wp_mono [OF doFetch_spec [OF assms]])
  fix r st1
  let ?pk = "mc_owner (ms_config s)" and ?row = "\<lambda>t. fetch_record k url t r"
  assume f: "fetched s url st r st1 \<and> rows_of st1 = rows_of st"
  then have ok: "mirror_ok ?pk (rows_of st) (owned_in st) \<Longrightarrow> mirror_ok ?pk (rows_of st1) (owned_in st1)"
    using mirror_ok_mono [of ?pk "rows_of st" "owned_in st" "owned_in st1"]
    by (auto simp: fetched_def same_owners_def one_more_def split: sum.splits)
  have row: "if mr_status (?row t) = ''ok'' then \<exists>h. mr_sha (?row t) = Some h \<and> owns ?pk h (owned_in st1) else mr_sha (?row t) = None" for t
    using f by (auto simp: fetched_def fetch_record_def one_more_def Let_def split: sum.splits)
  have keep: "fetched s url st r (st1\<lparr>sd_world := w, sd := (sd st1)\<lparr>mm_rows := x\<rparr>\<rparr>)" "fetched s url st r (st1\<lparr>sd_world := w\<rparr>)"
    if "still (sd_world st1) w" for w x
    using f that by (auto simp: fetched_def sound_still still_def split: sum.splits)
  show "wp (on_world now) (\<lambda>t. wp (on_rows (q_UpsertMirroredMedia (?row t))) (\<lambda>_. wp (ret r)
      (\<lambda>r st'. fetched s url st r st' \<and> (mirror_ok ?pk (rows_of st) (owned_in st) \<longrightarrow> mirror_ok ?pk (rows_of st') (owned_in st'))))) st1"
    unfolding wp_on_world wp_now wp_ret
  proof (rule wp_on_rows)
    fix w assume w: "still (sd_world (st1\<lparr>sd_world := sd_world st1\<rparr>)) w"
    then show "fetched s url st r (st1\<lparr>sd_world := sd_world st1, sd_world := w\<rparr>)
        \<and> (mirror_ok ?pk (rows_of st) (owned_in st) \<longrightarrow> mirror_ok ?pk (rows_of (st1\<lparr>sd_world := sd_world st1, sd_world := w\<rparr>))
          (owned_in (st1\<lparr>sd_world := sd_world st1, sd_world := w\<rparr>)))"
      using keep(2) ok by (simp add: still_def)
  next
    fix w e x assume w: "still (sd_world (st1\<lparr>sd_world := sd_world st1\<rparr>)) w"
      and q: "q_UpsertMirroredMedia (?row (w_now (sd_world st1))) (rows_of (st1\<lparr>sd_world := sd_world st1\<rparr>)) = (e, x)"
    then have q': "q_UpsertMirroredMedia (?row (w_now (sd_world st1))) (rows_of st1) = (e, x)" by simp
    show "fetched s url st r (st1\<lparr>sd_world := sd_world st1, sd_world := w, sd := (sd (st1\<lparr>sd_world := sd_world st1\<rparr>))\<lparr>mm_rows := x\<rparr>\<rparr>)
        \<and> (mirror_ok ?pk (rows_of st) (owned_in st) \<longrightarrow> mirror_ok ?pk
          (rows_of (st1\<lparr>sd_world := sd_world st1, sd_world := w, sd := (sd (st1\<lparr>sd_world := sd_world st1\<rparr>))\<lparr>mm_rows := x\<rparr>\<rparr>))
          (owned_in (st1\<lparr>sd_world := sd_world st1, sd_world := w, sd := (sd (st1\<lparr>sd_world := sd_world st1\<rparr>))\<lparr>mm_rows := x\<rparr>\<rparr>)))"
      using keep(1) [of w x] mirror_ok_upsert [OF ok row q'] w by (simp add: still_def)
  qed
qed

text \<open>What the cache answers comes from the entry of the URL; looking changes nothing but the time of access.\<close>

definition cached_answer :: "string \<Rightarrow> mirror_row list \<Rightarrow> mirror_fail + mirrored_media \<Rightarrow> bool" where
  "cached_answer k rows r \<longleftrightarrow> (\<exists>row \<in> set rows. mr_key row = k
     \<and> (case r of Inl e \<Rightarrow> e = MirrorError (mr_status row) (or_empty (mr_reason row)) \<and> mr_status row \<noteq> ''ok''
        | Inr x \<Rightarrow> md_cached x \<and> mr_status row = ''ok'' \<and> mr_sha row = Some (md_sha x)))"

lemma GetFromHash_still: "wp (GetFromHash c h) (\<lambda>_. still w) w"
proof (cases "quiet w")
  case True
  show ?thesis
    by (rule wp_mono [OF wp_conj [OF GetFromHash_reads keepsD [OF keeps_quiet_blobs(4) True]]])
      (auto simp: still_def reads_only_def same_env_def)
next
  case False
  then show ?thesis
    by (intro wp_mono [OF GetFromHash_reads]) (auto simp: still_def reads_only_def same_env_def)
qed

lemma on_world_looked: "wp m (\<lambda>_. still (sd_world st)) (sd_world st) \<Longrightarrow> wp (on_world m) (\<lambda>_. looked st) st"
  unfolding wp_on_world by (erule wp_mono) (rule looked_still)

lemma serve_spec:
  assumes "row \<in> set rows" "mr_key row = k" "mr_status row = ''ok''" "mr_sha row = Some h"
  shows "wp (do { b \<leftarrow> on_world (GetFromHash c h);
      case b of Inl _ \<Rightarrow> ret None
      | Inr blob \<Rightarrow> do { _ \<leftarrow> touch k (mr_accessed row);
          ret (Some (Inr \<lparr>md_sha = h, md_size = mr_size row, md_mime = or_empty (mr_mime row), md_data = d_blob blob, md_cached = True\<rparr>)) } })
    (\<lambda>v st'. looked st st' \<and> (\<forall>r. v = Some r \<longrightarrow> cached_answer k rows r)) st"
  unfolding wp_bind
proof (rule wp_mono [OF on_world_looked [OF GetFromHash_still]])
  fix b st1 assume l: "looked st st1"
  show "wp (case b of Inl _ \<Rightarrow> ret None
      | Inr blob \<Rightarrow> do { _ \<leftarrow> touch k (mr_accessed row);
          ret (Some (Inr \<lparr>md_sha = h, md_size = mr_size row, md_mime = or_empty (mr_mime row), md_data = d_blob blob, md_cached = True\<rparr>)) })
    (\<lambda>v st'. looked st st' \<and> (\<forall>r. v = Some r \<longrightarrow> cached_answer k rows r)) st1"
  proof (cases b)
    case (Inr blob)
    show ?thesis
      unfolding Inr sum.case wp_bind wp_ret
      by (rule wp_mono [OF touch_spec]) (use l assms in \<open>auto simp: cached_answer_def intro: looked_trans\<close>)
  qed (use l in \<open>simp add: wp_ret\<close>)
qed

lemma fromCache_spec:
  "wp (fromCache s k) (\<lambda>c st'. looked st st' \<and> (\<forall>r. c = Some r \<longrightarrow> cached_answer k (rows_of st) r)) st"
    (is "wp _ ?Q st")
  unfolding fromCache_def wp_bind [of "on_rows _"]
proof (rule wp_on_rows)
  fix w g rows assume w: "still (sd_world st) w" and "q_GetMirroredMedia k (rows_of st) = (g, rows)"
  then have rows: "rows = rows_of st" and g: "g = first_row (\<lambda>r. mr_key r = k) (rows_of st)"
    by (auto simp: q_GetMirroredMedia_def)
  let ?st = "st\<lparr>sd_world := w, sd := (sd st)\<lparr>mm_rows := rows\<rparr>\<rparr>"
  have l: "looked st ?st" "looked st (st\<lparr>sd := (sd st)\<lparr>mm_rows := rows\<rparr>, sd_world := w\<rparr>)"
    using w by (simp_all add: looked_def rows same_rows_def)
  have serve: "wp (do { b \<leftarrow> on_world (GetFromHash (ms_blobs s) h);
      case b of Inl _ \<Rightarrow> ret None
      | Inr blob \<Rightarrow> do { _ \<leftarrow> touch k (mr_accessed row);
          ret (Some (Inr \<lparr>md_sha = h, md_size = mr_size row, md_mime = or_empty (mr_mime row), md_data = d_blob blob, md_cached = True\<rparr>)) } }) ?Q ?st"
    if "row \<in> set (rows_of st)" "mr_key row = k" "mr_status row = ''ok''" "mr_sha row = Some h" for row h
    by (rule wp_mono [OF serve_spec [OF that]]) (use l in \<open>auto intro: looked_trans\<close>)
  show "wp (case g of Inl _ \<Rightarrow> ret None | Inr row \<Rightarrow> (if mr_status row = ''ok'' then (case mr_sha row of
             None \<Rightarrow> ret None
           | Some h \<Rightarrow> do {
               b \<leftarrow> on_world (GetFromHash (ms_blobs s) h);
               (case b of
                  Inl _ \<Rightarrow> ret None
                | Inr blob \<Rightarrow> do {
                    _ \<leftarrow> touch k (mr_accessed row);
                    ret (Some (Inr \<lparr>md_sha = h, md_size = mr_size row, md_mime = or_empty (mr_mime row), md_data = d_blob blob, md_cached = True\<rparr>))
                  })
             })
         else if mr_status row = ''refused'' \<or> mr_status row = ''unreachable'' then do {
           t \<leftarrow> on_world now;
           ret (if negativeExpired t (mr_fetched row) (if mr_status row = ''refused'' then mc_refused (ms_config s) else mc_negative (ms_config s))
                then None else Some (Inl (MirrorError (mr_status row) (or_empty (mr_reason row)))))
         }
         else ret None)) ?Q ?st"
  proof (cases g)
    case (Inr row)
    then have row: "row \<in> set (rows_of st)" "mr_key row = k" using g by (auto simp: first_row_def find_Some_iff split: option.splits)
    show ?thesis
      using serve [OF row] l row
      by (auto simp: Inr wp_if wp_bind [of "on_world now"] wp_on_world wp_now wp_ret cached_answer_def split: option.split)
  qed (use l in \<open>simp add: wp_ret\<close>)
qed (simp add: wp_ret looked_still)

text \<open>A request: without a valid link nothing happens at all.\<close>

definition viewed :: "mirror_service \<Rightarrow> string \<Rightarrow> int \<Rightarrow> string \<Rightarrow> mirror_side sided \<Rightarrow> mirror_fail + mirrored_media \<Rightarrow> mirror_side sided \<Rightarrow> bool" where
  "viewed s enc e sig st r st' \<longleftrightarrow>
     (\<exists>url. valid_link s (w_now (sd_world st)) enc e sig url
        \<and> (looked st st' \<and> cached_answer (urlHash s url) (rows_of st) r \<or> fetched s url st r st'))
     \<or> (\<forall>url. \<not> valid_link s (w_now (sd_world st)) enc e sig url) \<and> isl r \<and> st' = st"

lemma VerifyAndGet_spec:
  assumes "enc_ok (ms_blobs s)" "sound st"
  shows "wp (VerifyAndGet s enc e sig) (\<lambda>r st'. viewed s enc e sig st r st' \<and> sound st'
     \<and> (mirror_ok (mc_owner (ms_config s)) (rows_of st) (owned_in st) \<longrightarrow> mirror_ok (mc_owner (ms_config s)) (rows_of st') (owned_in st'))) st"
    (is "wp _ ?Q st")
proof (cases "\<exists>url. valid_link s (w_now (sd_world st)) enc e sig url")
  case True
  then obtain url sg where v: "valid_link s (w_now (sd_world st)) enc e sig url"
    and u: "mc_enabled (ms_config s)" "DecodeURL enc = Inr url" "PreCheckURL (ms_lib s) url" "ms_signer s = Some sg"
      "Verify (ml_hmac (ms_lib s)) sg (w_now (sd_world st)) url e sig = None" unfolding valid_link_def by blast
  let ?pk = "mc_owner (ms_config s)"
  have "wp (do { c \<leftarrow> fromCache s (urlHash s url); case c of Some r \<Rightarrow> ret r | None \<Rightarrow> fetchAndStore s (urlHash s url) url }) ?Q st"
    unfolding wp_bind
  proof (rule wp_mono [OF fromCache_spec])
    fix c st1 assume c: "looked st st1 \<and> (\<forall>r. c = Some r \<longrightarrow> cached_answer (urlHash s url) (rows_of st) r)"
    then have s1: "sound st1" "owned_in st1 = owned_in st" "mm_web (sd st1) = mm_web (sd st)" "mm_asked (sd st1) = mm_asked (sd st)" "same_rows (rows_of st) (rows_of st1)"
      using looked_sound assms(2) by (auto simp: looked_def)
    show "wp (case c of Some r \<Rightarrow> ret r | None \<Rightarrow> fetchAndStore s (urlHash s url) url) ?Q st1"
    proof (cases c)
      case None
      have "fetched s url st r st'" if "fetched s url st1 r st'" for r st'
        using that by (auto simp: fetched_def s1 split: sum.splits)
      then show ?thesis
        unfolding None option.case
        by (intro wp_mono [OF fetchAndStore_spec [OF assms(1) s1(1)]])
          (use v s1 mirror_ok_same [OF s1(5)] in \<open>auto simp: viewed_def fetched_def\<close>)
    next
      case (Some r)
      then show ?thesis using c v s1 mirror_ok_same [OF s1(5)] by (auto simp: wp_ret viewed_def)
    qed
  qed
  then show ?thesis by (simp add: VerifyAndGet_def u wp_bind [of "on_world now"] wp_on_world wp_now)
next
  case False
  then have "?Q (Inl x) st" for x using assms(2) by (simp add: viewed_def)
  then show ?thesis using False
    by (auto simp: VerifyAndGet_def wp_bind [of "on_world now"] wp_on_world wp_now wp_ret valid_link_def split: option.split sum.split)
qed

text \<open>With no failing call and no entry for the URL yet, bytes that pass the checks are stored and served.\<close>

lemma fromCache_miss:
  assumes "\<forall>r \<in> set (rows_of st). mr_key r \<noteq> k"
  shows "wp (fromCache s k) (\<lambda>c st'. c = None \<and> looked st st') st"
  unfolding fromCache_def wp_bind [of "on_rows _"]
proof (rule wp_on_rows)
  fix w g rows assume w: "still (sd_world st) w" and q: "q_GetMirroredMedia k (rows_of st) = (g, rows)"
  then have g: "g = Inl ErrNoRows" "rows = rows_of st"
    using assms by (auto simp: q_GetMirroredMedia_def first_row_def find_None_iff [THEN iffD2])
  then show "wp (case g of Inl _ \<Rightarrow> ret None | Inr row \<Rightarrow> (if mr_status row = ''ok'' then (case mr_sha row of
             None \<Rightarrow> ret None
           | Some h \<Rightarrow> do {
               b \<leftarrow> on_world (GetFromHash (ms_blobs s) h);
               (case b of
                  Inl _ \<Rightarrow> ret None
                | Inr blob \<Rightarrow> do {
                    _ \<leftarrow> touch k (mr_accessed row);
                    ret (Some (Inr \<lparr>md_sha = h, md_size = mr_size row, md_mime = or_empty (mr_mime row), md_data = d_blob blob, md_cached = True\<rparr>))
                  })
             })
         else if mr_status row = ''refused'' \<or> mr_status row = ''unreachable'' then do {
           t \<leftarrow> on_world now;
           ret (if negativeExpired t (mr_fetched row) (if mr_status row = ''refused'' then mc_refused (ms_config s) else mc_negative (ms_config s))
                then None else Some (Inl (MirrorError (mr_status row) (or_empty (mr_reason row)))))
         }
         else ret None)) (\<lambda>c st'. c = None \<and> looked st st') (st\<lparr>sd_world := w, sd := (sd st)\<lparr>mm_rows := rows\<rparr>\<rparr>)"
    using w by (simp add: wp_ret looked_def same_rows_def)
qed (simp add: wp_ret looked_still)

definition stored :: "mirror_service \<Rightarrow> bytes \<Rightarrow> mirror_side sided \<Rightarrow> mirror_fail + mirrored_media \<Rightarrow> mirror_side sided \<Rightarrow> bool" where
  "stored s data st r st' \<longleftrightarrow> (\<exists>x. r = Inr x \<and> md_data x = data) \<and> owns (mc_owner (ms_config s)) (ml_sha (ms_lib s) data) (owned_in st')
     \<and> others (w_db (sd_world st')) = others (w_db (sd_world st))"

definition storable :: "mirror_service \<Rightarrow> string \<Rightarrow> bytes \<Rightarrow> mirror_side sided \<Rightarrow> bool" where
  "storable s url data st \<longleftrightarrow> fetched_body s (mm_web (sd st) url) = Inr data \<and> acceptable s data \<and> int (length data) < 2 ^ 63
     \<and> bs_encryptor (ms_blobs s) = None \<and> blob_of (ml_sha (ms_lib s) data) (w_db (sd_world st)) = None \<and> in_i64 (Unix (w_now (sd_world st)))"

lemma fetchAndStore_new:
  assumes "sound st" "quiet (sd_world st)" "storable s url data st"
  shows "wp (fetchAndStore s k url) (stored s data st) st"
proof -
  let ?h = "ml_sha (ms_lib s) data" and ?pk = "mc_owner (ms_config s)" and ?mime = "base_type (ml_detect (ms_lib s) data)"
  let ?st = "st\<lparr>sd := (sd st)\<lparr>mm_asked := mm_asked (sd st) @ [url]\<rparr>\<rparr>"
  have c: "fetched_body s (mm_web (sd st) url) = Inr data" "mimeAllowed s ?mime" "checkDimensions s data = None"
    and w: "db_inv (w_db (sd_world st))" "w_saved (sd_world st) = None"
    and new: "bs_encryptor (ms_blobs s) = None" "blob_of ?h (w_db (sd_world st)) = None" "int (length data) < 2 ^ 63"
      "in_i64 (Unix (w_now (sd_world st)))"
    using assms(1,3) by (simp_all add: storable_def acceptable_def sound_def)
  have enc: "enc_ok (ms_blobs s)" using new(1) by (simp add: enc_ok_def)
  have upsert: "wp (on_rows q) (\<lambda>_. stored s data st r) st1" if "stored s data st r st1"
    for q :: "unit mirror_query" and r st1
    by (rule wp_on_rows) (use that in \<open>simp_all add: stored_def still_def\<close>)
  have "wp (doFetch s url) (stored s data st) st"
    unfolding doFetch_def wp_bind wp_on_side Let_def wp_on_world prod.case c(1) sum.case
    using c(2,3)
    by (simp add: wp_simp, intro wp_mono [OF wp_conj [OF SaveWithDedup_new [OF assms(2) w(2,1) new(2,1) refl new(3,4)]
          SaveWithDedup_spec [OF enc w]]])
      (auto simp: stored_def saved_owners_iff split: sum.splits)
  then show ?thesis
    unfolding fetchAndStore_def wp_bind by (rule wp_mono) (auto simp: wp_simp intro: upsert)
qed

lemma view_stores:
  assumes "sound st" "quiet (sd_world st)" "valid_link s (w_now (sd_world st)) enc e sig url" "storable s url data st"
    and "\<forall>r \<in> set (rows_of st). mr_key r \<noteq> urlHash s url"
  shows "wp (VerifyAndGet s enc e sig) (stored s data st) st"
proof -
  obtain sg where u: "mc_enabled (ms_config s)" "DecodeURL enc = Inr url" "PreCheckURL (ms_lib s) url" "ms_signer s = Some sg"
      "Verify (ml_hmac (ms_lib s)) sg (w_now (sd_world st)) url e sig = None" using assms(3) unfolding valid_link_def by blast
  have "wp (do { c \<leftarrow> fromCache s (urlHash s url); case c of Some r \<Rightarrow> ret r | None \<Rightarrow> fetchAndStore s (urlHash s url) url })
      (stored s data st) st"
    unfolding wp_bind
  proof (rule wp_mono [OF fromCache_miss [OF assms(5)]], elim conjE)
    fix c :: "(mirror_fail + mirrored_media) option" and st1 assume c: "c = None" "looked st st1"
    then have "sound st1" "quiet (sd_world st1)" "storable s url data st1" and st: "stored s data st1 = stored s data st"
      using assms(1,2,4) by (auto simp: looked_def still_def sound_def storable_def stored_def fun_eq_iff)
    then show "wp (case c of Some r \<Rightarrow> ret r | None \<Rightarrow> fetchAndStore s (urlHash s url) url) (stored s data st) st1"
      using fetchAndStore_new [of st1 s url data] by (simp add: c st)
  qed
  then show ?thesis by (simp add: VerifyAndGet_def u wp_bind [of "on_world now"] wp_on_world wp_now)
qed

section \<open>Eviction\<close>

text \<open>Steps that only drop entries and blobs of the mirror's key.\<close>

definition trimmed :: "string \<Rightarrow> mirror_side sided \<Rightarrow> mirror_side sided \<Rightarrow> bool" where
  "trimmed pk st st' \<longleftrightarrow> sound st' \<and> mm_web (sd st') = mm_web (sd st) \<and> mm_asked (sd st') = mm_asked (sd st) \<and> mirror_ok pk (rows_of st') (owned_in st')
     \<and> set (rows_of st') \<subseteq> set (rows_of st) \<and> (quiet (sd_world st) \<longrightarrow> quiet (sd_world st'))
     \<and> (\<forall>pk' h. owns pk' h (owned_in st') \<longrightarrow> owns pk' h (owned_in st))
     \<and> (\<forall>pk' h. pk' \<noteq> pk \<longrightarrow> owns pk' h (owned_in st) \<longrightarrow> owns pk' h (owned_in st'))"

lemma trimmed_refl: "sound st \<Longrightarrow> mirror_ok pk (rows_of st) (owned_in st) \<Longrightarrow> trimmed pk st st"
  by (simp add: trimmed_def)

lemma trimmed_trans: "trimmed pk st st1 \<Longrightarrow> trimmed pk st1 st2 \<Longrightarrow> trimmed pk st st2"
  unfolding trimmed_def
proof (elim conjE, intro conjI)
  show "set (rows_of st1) \<subseteq> set (rows_of st) \<Longrightarrow> set (rows_of st2) \<subseteq> set (rows_of st1) \<Longrightarrow> set (rows_of st2) \<subseteq> set (rows_of st)"
    by (rule subset_trans)
qed (assumption | simp only: | blast)+

lemma trimmed_filter:
  assumes "sound st" "mirror_ok pk (rows_of st) (owned_in st)" "still (sd_world st) w"
  shows "trimmed pk st (st\<lparr>sd_world := w, sd := (sd st)\<lparr>mm_rows := filter P (rows_of st)\<rparr>\<rparr>)" "trimmed pk st (st\<lparr>sd_world := w\<rparr>)"
  using assms mirror_ok_filter [OF assms(2)] by (auto simp: trimmed_def sound_still still_def)

lemma wp_quiet: "keeps quiet m \<Longrightarrow> wp m Q w \<Longrightarrow> wp m (\<lambda>r w'. (quiet w \<longrightarrow> quiet w') \<and> Q r w') w"
  by (cases "quiet w") (auto intro: wp_conj dest: keepsD)

definition evicted :: "string \<Rightarrow> string \<Rightarrow> mirror_side sided \<Rightarrow> unit result \<Rightarrow> mirror_side sided \<Rightarrow> bool" where
  "evicted pk k st r st' \<longleftrightarrow> trimmed pk st st'
     \<and> (rows_of st' = filter (\<lambda>x. mr_key x \<noteq> k) (rows_of st) \<or> isl r \<and> \<not> quiet (sd_world st) \<and> rows_of st' = rows_of st)"

lemma evictOne_spec:
  assumes "sound st" "mirror_ok (mc_owner (ms_config s)) (rows_of st) (owned_in st)"
  shows "wp (evictOne s k sha) (evicted (mc_owner (ms_config s)) k st) st"
proof -
  let ?pk = "mc_owner (ms_config s)" and ?rows = "filter (\<lambda>x. mr_key x \<noteq> k) (rows_of st)"
  have ok: "mirror_ok ?pk ?rows (owned_in st)" by (rule mirror_ok_filter [OF assms(2)])
  have fin: "evicted ?pk k st r st'" if "trimmed ?pk st st'" "rows_of st' = ?rows" for r st'
    using that by (simp add: evicted_def)
  have release: "wp (and_then (wrap ''release blob reference'' (on_world (DeleteReference (ms_blobs s) ?pk h))) (\<lambda>_. ret (Inr ())))
      (evicted ?pk k st) st1"
    if st1: "trimmed ?pk st st1" "rows_of st1 = ?rows" "owned_in st1 = owned_in st" and none: "\<forall>x \<in> set ?rows. mr_sha x \<noteq> Some h" for st1 h
  proof (rule wp_then_wrap)
    have w1: "db_inv (w_db (sd_world st1))" "w_saved (sd_world st1) = None" using st1(1) by (simp_all add: trimmed_def sound_def)
    let ?Q = "\<lambda>r w. (quiet (sd_world st1) \<longrightarrow> quiet w) \<and> db_inv (w_db w) \<and> w_saved w = None
        \<and> (owned (w_db w) = owned_in st \<or> owned (w_db w) = drop_owner ?pk h (owned_in st))"
    have "wp (DeleteReference (ms_blobs s) ?pk h) (\<lambda>r w. db_inv (w_db w) \<and> w_saved w = None
        \<and> (owned (w_db w) = owned_in st \<or> owned (w_db w) = drop_owner ?pk h (owned_in st))) (sd_world st1)"
      by (rule wp_mono [OF DeleteReference_spec [OF w1]]) (use w1 st1(3) in \<open>auto split: sum.splits\<close>)
    then have "wp (DeleteReference (ms_blobs s) ?pk h) ?Q (sd_world st1)" by (rule wp_quiet [OF keeps_quiet_blobs(2)])
    moreover have "trimmed ?pk st (st1\<lparr>sd_world := w\<rparr>)" if "?Q r w" for r w
    proof -
      have "mirror_ok ?pk ?rows (owned w')" if "owned w' = owned_in st \<or> owned w' = drop_owner ?pk h (owned_in st)" for w' :: dbstate
        using that ok none unfolding mirror_ok_def by (fastforce simp: owns_drop_owner)
      then show ?thesis using that st1 by (auto simp: trimmed_def sound_def owns_drop_owner)
    qed
    ultimately show "wp (on_world (DeleteReference (ms_blobs s) ?pk h)) (\<lambda>_ st'. trimmed ?pk st st' \<and> rows_of st' = ?rows) st1"
      unfolding wp_on_world using st1(2) by (auto elim: wp_mono)
  qed (use fin in \<open>auto simp: wp_ret\<close>)
  show ?thesis
    unfolding evictOne_def
  proof (rule wp_then_wrap)
    show "wp (on_rows (q_DeleteMirroredMedia k)) (\<lambda>r st'. trimmed ?pk st st' \<and> owned_in st' = owned_in st
        \<and> (if isl r then \<not> quiet (sd_world st) \<and> rows_of st' = rows_of st else rows_of st' = ?rows)) st"
      by (rule wp_on_rows) (use trimmed_filter [OF assms] in \<open>auto simp: q_DeleteMirroredMedia_def still_def\<close>)
  next
    fix x and st1
    assume "trimmed ?pk st st1 \<and> owned_in st1 = owned_in st
        \<and> (if isl (Inr x) then \<not> quiet (sd_world st) \<and> rows_of st1 = rows_of st else rows_of st1 = ?rows)"
    then have st1: "trimmed ?pk st st1" "owned_in st1 = owned_in st" "rows_of st1 = ?rows" by simp_all
    then have s1: "sound st1" "mirror_ok ?pk (rows_of st1) (owned_in st1)" by (simp_all add: trimmed_def)
    have count: "wp (on_rows (q_CountMirroredMediaForBlob (Some h))) (\<lambda>r st'. trimmed ?pk st st' \<and> owned_in st' = owned_in st \<and> rows_of st' = ?rows
        \<and> (\<forall>n. r = Inr n \<longrightarrow> n = int (length (filter (\<lambda>r. mr_sha r = Some h) ?rows)))) st1" for h
      by (rule wp_on_rows)
        (use st1 trimmed_trans [OF st1(1) trimmed_filter(2) [OF s1]] trimmed_trans [OF st1(1) trimmed_filter(1) [OF s1, where P = "\<lambda>_. True"]]
          in \<open>auto simp: q_CountMirroredMediaForBlob_def still_def\<close>)
    show "wp (case sha of None \<Rightarrow> ret (Inr ()) | Some h \<Rightarrow> and_then (wrap ''count mirror refs'' (on_rows (q_CountMirroredMediaForBlob sha))) (\<lambda>remaining.
        if remaining > 0 then ret (Inr ())
        else and_then (wrap ''release blob reference'' (on_world (DeleteReference (ms_blobs s) ?pk h))) (\<lambda>_. ret (Inr ()))))
      (evicted ?pk k st) st1"
    proof (cases sha)
      case (Some h)
      show ?thesis
        unfolding Some option.case
      proof (rule wp_then_wrap [OF count])
        fix n st2
        assume n: "trimmed ?pk st st2 \<and> owned_in st2 = owned_in st \<and> rows_of st2 = ?rows
          \<and> (\<forall>m. Inr n = Inr m \<longrightarrow> m = int (length (filter (\<lambda>r. mr_sha r = Some h) ?rows)))"
        then have st2: "trimmed ?pk st st2" "rows_of st2 = ?rows" "owned_in st2 = owned_in st"
          and "0 < n \<or> (\<forall>x \<in> set ?rows. mr_sha x \<noteq> Some h)" by (auto simp: filter_empty_conv)
        then show "wp (if 0 < n then ret (Inr ())
            else and_then (wrap ''release blob reference'' (on_world (DeleteReference (ms_blobs s) ?pk h))) (\<lambda>_. ret (Inr ())))
            (evicted ?pk k st) st2"
          using release [OF st2, of h] fin [OF st2(1,2)] by (simp only: wp_if wp_ret split: if_split) blast
      qed (use fin in auto)
    qed (use st1 fin in \<open>simp add: wp_ret\<close>)
  qed (auto simp: evicted_def)
qed

definition no_negative :: "mirror_row list \<Rightarrow> bool" where
  "no_negative rows \<longleftrightarrow> (\<forall>r \<in> set rows. 0 \<le> mr_size r)"

lemma total_nonneg: "no_negative rows \<Longrightarrow> 0 \<le> total_size rows"
  by (auto simp: total_size_def no_negative_def intro!: sum_list_nonneg)

lemma total_Cons: "total_size (r # rows) = (if mr_status r = ''ok'' then mr_size r else 0) + total_size rows"
  by (simp add: total_size_def)

lemma total_drop:
  assumes "distinct (map mr_key rows)" "c \<in> set rows" "mr_status c = ''ok''"
  shows "total_size (filter (\<lambda>x. mr_key x \<noteq> mr_key c) rows) = total_size rows - mr_size c"
  using assms(1,2)
proof (induction rows)
  case (Cons r rows)
  have "filter (\<lambda>x. mr_key x \<noteq> mr_key c) rows = rows" if "c = r"
    using Cons.prems(1) that by (auto simp: filter_id_conv image_iff)
  then show ?case using Cons assms(3) by (auto simp: total_Cons)
qed simp

lemma evict_loop_trims:
  assumes "sound st" "mirror_ok (mc_owner (ms_config s)) (rows_of st) (owned_in st)"
  shows "wp (evict_loop s target cs current n) (\<lambda>_. trimmed (mc_owner (ms_config s)) st) st"
  using assms
proof (induction cs arbitrary: current n st)
  case Nil
  then show ?case by (simp add: wp_ret trimmed_refl)
next
  case (Cons c cs)
  let ?pk = "mc_owner (ms_config s)"
  have rest: "wp (evict_loop s target cs current' n') (\<lambda>_. trimmed ?pk st) st1" if st1: "trimmed ?pk st st1" for st1 current' n'
  proof -
    have "sound st1" "mirror_ok ?pk (rows_of st1) (owned_in st1)" using st1 by (simp_all add: trimmed_def)
    from Cons.IH [OF this] show ?thesis by (rule wp_mono) (rule trimmed_trans [OF st1])
  qed
  have "wp (evictOne s (mr_key c) (mr_sha c)) (\<lambda>r. wp (case r of Inl _ \<Rightarrow> evict_loop s target cs current n
      | Inr _ \<Rightarrow> evict_loop s target cs (i64 (current - mr_size c)) (n + 1)) (\<lambda>_. trimmed ?pk st)) st"
    by (rule wp_mono [OF evictOne_spec [OF Cons.prems]]) (auto simp: evicted_def intro!: rest split: sum.split)
  then show ?case using trimmed_refl [OF Cons.prems] by (simp add: wp_if wp_bind wp_ret)
qed

text \<open>With no failing call the loop drops a prefix of the candidates, until the target is reached.\<close>

definition drained :: "int \<Rightarrow> mirror_row list \<Rightarrow> mirror_row list \<Rightarrow> int \<Rightarrow> mirror_row list \<Rightarrow> bool" where
  "drained target cs rows x rows' \<longleftrightarrow> (\<exists>j \<le> length cs. rows' = filter (\<lambda>r. mr_key r \<notin> mr_key ` set (take j cs)) rows
     \<and> total_size rows' \<le> x \<and> (x \<le> target \<or> j = length cs))"

lemma drained_Cons:
  assumes "drained target cs (filter (\<lambda>x. mr_key x \<noteq> mr_key c) rows) x rows'"
  shows "drained target (c # cs) rows x rows'"
proof -
  obtain j where j: "j \<le> length cs" "rows' = filter (\<lambda>r. mr_key r \<notin> mr_key ` set (take j cs)) (filter (\<lambda>x. mr_key x \<noteq> mr_key c) rows)"
    "total_size rows' \<le> x" "x \<le> target \<or> j = length cs" using assms by (auto simp: drained_def)
  have "rows' = filter (\<lambda>r. mr_key r \<notin> mr_key ` set (take (Suc j) (c # cs))) rows"
    unfolding j(2) by (simp add: conj_commute)
  then show ?thesis using j unfolding drained_def by (intro exI [of _ "Suc j"]) auto
qed

lemma evict_loop_drains:
  assumes "sound st" "mirror_ok (mc_owner (ms_config s)) (rows_of st) (owned_in st)" "quiet (sd_world st)" "no_negative (rows_of st)"
    and "total_size (rows_of st) \<le> current" "in_i64 current"
    and "distinct (map mr_key cs)" "set cs \<subseteq> {r \<in> set (rows_of st). mr_status r = ''ok''}"
  shows "wp (evict_loop s target cs current n) (\<lambda>(x, _) st'. drained target cs (rows_of st) x (rows_of st')) st"
  using assms
proof (induction cs arbitrary: current n st)
  case Nil
  then show ?case by (simp add: wp_ret drained_def)
next
  case (Cons c cs)
  let ?pk = "mc_owner (ms_config s)" and ?rows = "filter (\<lambda>x. mr_key x \<noteq> mr_key c) (rows_of st)"
  have c: "c \<in> set (rows_of st)" "mr_status c = ''ok''" using Cons.prems(8) by auto
  have total: "total_size ?rows = total_size (rows_of st) - mr_size c" using Cons.prems(2) c by (intro total_drop) (auto simp: mirror_ok_def)
  have neg: "no_negative ?rows" "0 \<le> mr_size c" using Cons.prems(4) c by (auto simp: no_negative_def)
  have low: "mr_size c \<le> current" using Cons.prems(5) total_nonneg [OF neg(1)] total by linarith
  have "in_i64 (current - mr_size c)" using Cons.prems(6) neg(2) low by (auto simp: in_i64_def)
  then have nxt: "total_size ?rows \<le> i64 (current - mr_size c)" "in_i64 (i64 (current - mr_size c))"
    using total Cons.prems(5) by simp_all
  have left: "set cs \<subseteq> {r \<in> set ?rows. mr_status r = ''ok''}" using Cons.prems(7,8) by (auto simp: image_iff)
  have rest: "wp (evict_loop s target cs current' n') (\<lambda>(x, _) st'. drained target (c # cs) (rows_of st) x (rows_of st')) st1"
    if st1: "trimmed ?pk st st1" "rows_of st1 = ?rows" and cur: "total_size ?rows \<le> current'" "in_i64 current'" for st1 current' n'
  proof -
    have "wp (evict_loop s target cs current' n') (\<lambda>(x, _) st'. drained target cs (rows_of st1) x (rows_of st')) st1"
      by (rule Cons.IH) (use st1 cur neg left Cons.prems(3,7) in \<open>simp_all add: trimmed_def\<close>)
    then show ?thesis by (rule wp_mono) (auto simp: st1(2) intro: drained_Cons)
  qed
  have "wp (evictOne s (mr_key c) (mr_sha c)) (\<lambda>r. wp (case r of Inl _ \<Rightarrow> evict_loop s target cs current n
      | Inr _ \<Rightarrow> evict_loop s target cs (i64 (current - mr_size c)) (n + 1))
      (\<lambda>(x, _) st'. drained target (c # cs) (rows_of st) x (rows_of st'))) st"
    by (rule wp_mono [OF evictOne_spec [OF Cons.prems(1,2)]])
      (use Cons.prems(3,5,6) neg total nxt in \<open>auto simp: evicted_def intro!: rest split: sum.split\<close>)
  moreover have "drained target (c # cs) (rows_of st) current (rows_of st)" if "current \<le> target"
    unfolding drained_def using that Cons.prems(5) by (intro exI [of _ 0]) simp
  ultimately show ?case by (simp add: wp_if wp_bind wp_ret)
qed

definition live :: "mirror_row list \<Rightarrow> mirror_row list" where
  "live rows = filter (\<lambda>r. mr_status r = ''ok'') rows"

definition lru :: "mirror_row list \<Rightarrow> mirror_row list" where
  "lru rows = sort_key mr_accessed (sort_key mr_fetched (live rows))"

lemma total_live: "total_size rows = sum_list (map mr_size (live rows))"
  by (simp add: total_size_def live_def)

lemma expireFailures_spec:
  assumes "sound st" "mirror_ok pk (rows_of st) (owned_in st)"
  shows "wp (expireFailures s) (\<lambda>_ st'. trimmed pk st st' \<and> live (rows_of st') = live (rows_of st)) st"
proof -
  have del: "wp (on_rows (q_DeleteStaleMirrorFailures x t)) (\<lambda>_ st'. trimmed pk st st' \<and> live (rows_of st') = live (rows_of st)) st1"
    if st1: "trimmed pk st st1" "live (rows_of st1) = live (rows_of st)" and x: "x \<noteq> ''ok''" for st1 x t
  proof -
    have s1: "sound st1" "mirror_ok pk (rows_of st1) (owned_in st1)" using st1 by (simp_all add: trimmed_def)
    have "live (filter (\<lambda>r. \<not> (mr_status r = x \<and> mr_fetched r < t)) rows) = live rows" for rows
      using x by (auto simp: live_def intro!: filter_cong)
    then show ?thesis
      using st1(2) trimmed_trans [OF st1(1) trimmed_filter(2) [OF s1]] trimmed_trans [OF st1(1) trimmed_filter(1) [OF s1]]
      by (intro wp_on_rows) (auto simp: q_DeleteStaleMirrorFailures_def)
  qed
  have second: "wp (if mc_refused (ms_config s) > 0 then on_rows (q_DeleteStaleMirrorFailures ''refused'' t) else ret (Inr ()))
      (\<lambda>_ st'. trimmed pk st st' \<and> live (rows_of st') = live (rows_of st)) st1"
    if "trimmed pk st st1 \<and> live (rows_of st1) = live (rows_of st)" for st1 t
    using that del by (simp add: wp_if wp_ret)
  have first: "wp (if mc_negative (ms_config s) > 0 then on_rows (q_DeleteStaleMirrorFailures ''unreachable'' t) else ret (Inr ()))
      (\<lambda>_ st'. trimmed pk st st' \<and> live (rows_of st') = live (rows_of st)) st" for t
    using del [OF trimmed_refl [OF assms]] trimmed_refl [OF assms] by (simp add: wp_if wp_ret)
  show ?thesis
    unfolding expireFailures_def wp_bind wp_on_world wp_now wp_ret
    by (simp only: same_world, rule wp_mono [OF first], rule second)
qed

lemma wp_read_rows:
  assumes "q (rows_of st) = (r, rows_of st)" "\<And>w. still (sd_world st) w \<Longrightarrow> Q r (st\<lparr>sd_world := w\<rparr>)"
    "\<And>w. still (sd_world st) w \<Longrightarrow> \<not> quiet (sd_world st) \<Longrightarrow> Q (Inl ErrIO) (st\<lparr>sd_world := w\<rparr>)"
  shows "wp (on_rows q) Q st"
proof (rule wp_on_rows)
  fix w r' rows assume w: "still (sd_world st) w" and "q (rows_of st) = (r', rows)"
  then have "r' = r" "st\<lparr>sd_world := w, sd := (sd st)\<lparr>mm_rows := rows\<rparr>\<rparr> = st\<lparr>sd_world := w\<rparr>" using assms(1) by auto
  then show "Q r' (st\<lparr>sd_world := w, sd := (sd st)\<lparr>mm_rows := rows\<rparr>\<rparr>)" using assms(2) [OF w] by simp
qed (use assms(3) in blast)

lemma Evict_trims:
  assumes "sound st" "mirror_ok (mc_owner (ms_config s)) (rows_of st) (owned_in st)"
  shows "wp (Evict s) (\<lambda>_. trimmed (mc_owner (ms_config s)) st) st"
proof -
  let ?pk = "mc_owner (ms_config s)"
  have read: "wp (on_rows q) (\<lambda>_. trimmed ?pk st) st1" if "trimmed ?pk st st1" "\<And>rows. snd (q rows) = rows" for q :: "'a mirror_query" and st1
  proof -
    have s1: "sound st1" "mirror_ok ?pk (rows_of st1) (owned_in st1)" using that(1) by (simp_all add: trimmed_def)
    show ?thesis
      by (rule wp_read_rows [where r = "fst (q (rows_of st1))"])
        (use that(2) trimmed_trans [OF that(1) trimmed_filter(2) [OF s1]] in \<open>auto simp: prod_eq_iff\<close>)
  qed
  have loop: "wp (evict_loop s target cs current n) (\<lambda>_. trimmed ?pk st) st1" if "trimmed ?pk st st1" for st1 target cs current n
  proof -
    have "sound st1" "mirror_ok ?pk (rows_of st1) (owned_in st1)" using that by (simp_all add: trimmed_def)
    from evict_loop_trims [OF this] show ?thesis by (rule wp_mono) (rule trimmed_trans [OF that])
  qed
  have body: "wp (and_then (wrap ''sum mirror cache'' (on_rows q_SumMirroredMediaSize)) (\<lambda>before.
          if mc_cache_max (ms_config s) \<le> 0 \<or> before \<le> mc_cache_max (ms_config s)
          then ret (Inr \<lparr>er_before = before, er_after = before, er_evicted = 0\<rparr>)
          else and_then (wrap ''list mirror LRU'' (on_rows (q_ListMirroredMediaLRU evictScanBatch))) (\<lambda>candidates. do {
            (current, n) \<leftarrow> evict_loop s (lowWaterMark s) candidates before 0;
            ret (Inr \<lparr>er_before = before, er_after = current, er_evicted = n\<rparr>)
          }))) (\<lambda>_. trimmed ?pk st) st1" if "trimmed ?pk st st1" for st1
    by (intro wp_then_wrap [OF read [OF that]] wp_ifI wp_then_wrap [OF read])
      (auto simp: q_SumMirroredMediaSize_def q_ListMirroredMediaLRU_def wp_ret wp_bind split_def intro!: wp_mono [OF loop])
  show ?thesis
  proof (cases "mirror_enabled s")
    case True
    then have "Evict s = do { _ \<leftarrow> expireFailures s;
        and_then (wrap ''sum mirror cache'' (on_rows q_SumMirroredMediaSize)) (\<lambda>before.
          if mc_cache_max (ms_config s) \<le> 0 \<or> before \<le> mc_cache_max (ms_config s)
          then ret (Inr \<lparr>er_before = before, er_after = before, er_evicted = 0\<rparr>)
          else and_then (wrap ''list mirror LRU'' (on_rows (q_ListMirroredMediaLRU evictScanBatch))) (\<lambda>candidates. do {
            (current, n) \<leftarrow> evict_loop s (lowWaterMark s) candidates before 0;
            ret (Inr \<lparr>er_before = before, er_after = current, er_evicted = n\<rparr>)
          })) }" by (simp add: Evict_def)
    then show ?thesis by (simp only: wp_bind [of "expireFailures s"]) (rule wp_mono [OF expireFailures_spec [OF assms]], rule body, simp)
  qed (simp add: Evict_def wp_ret trimmed_refl [OF assms])
qed

text \<open>Dropping a prefix of the candidates drops the least recently viewed entries.\<close>

lemma lru_facts:
  "mset (lru rows) = mset (live rows)" "set (lru rows) = set (live rows)" "sorted (map mr_accessed (lru rows))"
  by (simp_all add: lru_def)

lemma drained_lru:
  assumes "distinct (map mr_key rows)" "drained target (take n (lru rows)) rows x rows'"
  shows "(\<forall>a \<in> set (live rows'). \<forall>b \<in> set (live rows). b \<notin> set rows' \<longrightarrow> mr_accessed b \<le> mr_accessed a)
    \<and> (x \<le> target \<or> live rows' = [] \<or> length (live rows') + n = length (live rows)) \<and> total_size rows' \<le> x"
proof -
  let ?L = "lru rows"
  obtain j where j: "j \<le> length (take n ?L)" "rows' = filter (\<lambda>r. mr_key r \<notin> mr_key ` set (take j (take n ?L))) rows"
    "total_size rows' \<le> x" "x \<le> target \<or> j = length (take n ?L)" using assms(2) unfolding drained_def by blast
  define i where "i = min j n"
  let ?K = "mr_key ` set (take i ?L)"
  have rows': "rows' = filter (\<lambda>r. mr_key r \<notin> ?K) rows" using j(2) by (simp add: i_def min.commute)
  have "distinct (map mr_key (live rows))" using assms(1) by (auto simp: live_def distinct_map intro: inj_on_subset)
  then have "distinct (map mr_key ?L)" using lru_facts(1) by (metis mset_eq_imp_distinct_iff mset_map)
  then have dist: "distinct (map mr_key (take i ?L @ drop i ?L))" by simp
  have "filter (\<lambda>r. mr_key r \<notin> ?K) (take i ?L) = []" by (auto simp: filter_empty_conv)
  moreover have "filter (\<lambda>r. mr_key r \<notin> ?K) (drop i ?L) = drop i ?L"
    using dist unfolding map_append distinct_append by (auto simp: filter_id_conv)
  ultimately have keep: "filter (\<lambda>r. mr_key r \<notin> ?K) ?L = drop i ?L"
    by (metis append_Nil append_take_drop_id filter_append)
  have "live rows' = filter (\<lambda>r. mr_key r \<notin> ?K) (live rows)" unfolding rows' live_def filter_filter by (rule filter_cong) auto
  then have m: "mset (live rows') = mset (drop i ?L)" using keep lru_facts(1) by (metis mset_filter)
  then have kept: "set (live rows') = set (drop i ?L)" by (metis set_mset_mset)
  have order: "mr_accessed b \<le> mr_accessed a" if "a \<in> set (live rows')" "b \<in> set (live rows)" "b \<notin> set rows'" for a b
  proof -
    have "b \<in> set ?L" using that(2) lru_facts(2) by simp
    moreover have "b \<notin> set (drop i ?L)" using that(3) kept by (auto simp: live_def)
    ultimately have "b \<in> set (take i ?L)" by (metis Un_iff append_take_drop_id set_append)
    moreover have "sorted (map mr_accessed (take i ?L @ drop i ?L))" using lru_facts(3) by simp
    ultimately show ?thesis using that(1) unfolding kept map_append sorted_append by simp
  qed
  have "length (live rows') = length ?L - i" using m by (metis length_drop size_mset)
  moreover have "length ?L = length (live rows)" using lru_facts(1) by (metis size_mset)
  ultimately have "j = length (take n ?L) \<Longrightarrow> live rows' = [] \<or> length (live rows') + n = length (live rows)"
    by (auto simp: i_def min_def split: if_splits)
  then show ?thesis using order j(3,4) by blast
qed

lemma lowWaterMark_le:
  assumes "0 < mc_cache_max (ms_config s)" "mc_cache_max (ms_config s) * 100 < 2 ^ 63"
  shows "lowWaterMark s \<le> mc_cache_max (ms_config s)"
proof -
  let ?m = "mc_cache_max (ms_config s)"
  define pct where "pct = (if mc_low_pct (ms_config s) \<le> 0 \<or> mc_low_pct (ms_config s) > 100 then 90 else mc_low_pct (ms_config s))"
  have p: "0 < pct" "pct \<le> 100" by (auto simp: pct_def)
  have m: "0 \<le> ?m * pct" "?m * pct \<le> ?m * 100" using assms(1) p by auto
  then have "i64 (?m * pct) = ?m * pct" using assms(2) by (simp add: in_i64_def)
  moreover have "?m * pct div 100 \<le> ?m" using m(2) by linarith
  ultimately show ?thesis using m(1) by (simp add: lowWaterMark_def Let_def pct_def [symmetric] go_div_nonneg)
qed

definition evicted_to :: "mirror_service \<Rightarrow> mirror_row list \<Rightarrow> mirror_row list \<Rightarrow> bool" where
  "evicted_to s rows rows' \<longleftrightarrow> (\<forall>a \<in> set (live rows'). \<forall>b \<in> set (live rows). b \<notin> set rows' \<longrightarrow> mr_accessed b \<le> mr_accessed a)
     \<and> (total_size rows' \<le> mc_cache_max (ms_config s) \<or> length (live rows') + 512 = length (live rows))"

lemma Evict_drains:
  assumes "mirror_enabled s" "sound st" "mirror_ok (mc_owner (ms_config s)) (rows_of st) (owned_in st)" "quiet (sd_world st)"
    and "no_negative (rows_of st)" "in_i64 (total_size (rows_of st))"
    and "0 < mc_cache_max (ms_config s)" "mc_cache_max (ms_config s) * 100 < 2 ^ 63"
  shows "wp (Evict s) (\<lambda>r st'. \<not> isl r \<and> evicted_to s (rows_of st) (rows_of st')) st"
proof -
  let ?pk = "mc_owner (ms_config s)" and ?max = "mc_cache_max (ms_config s)"
  have eq: "Evict s = do { _ \<leftarrow> expireFailures s;
      and_then (wrap ''sum mirror cache'' (on_rows q_SumMirroredMediaSize)) (\<lambda>before.
        if before \<le> ?max then ret (Inr \<lparr>er_before = before, er_after = before, er_evicted = 0\<rparr>)
        else and_then (wrap ''list mirror LRU'' (on_rows (q_ListMirroredMediaLRU evictScanBatch))) (\<lambda>candidates. do {
          (current, n) \<leftarrow> evict_loop s (lowWaterMark s) candidates before 0;
          ret (Inr \<lparr>er_before = before, er_after = current, er_evicted = n\<rparr>)
        })) }" using assms(1,7) by (simp add: Evict_def)
  show ?thesis
    unfolding eq wp_bind [of "expireFailures s"]
  proof (rule wp_mono [OF expireFailures_spec [OF assms(2,3)]])
    fix x and st1
    assume st1: "trimmed ?pk st st1 \<and> live (rows_of st1) = live (rows_of st)"
    then have total: "total_size (rows_of st1) = total_size (rows_of st)" and lru: "lru (rows_of st1) = lru (rows_of st)"
      by (simp_all add: total_live lru_def)
    have loop: "wp (evict_loop s (lowWaterMark s) (take 512 (lru (rows_of st))) (total_size (rows_of st)) 0)
        (\<lambda>p. wp (case p of (current, n) \<Rightarrow> ret (Inr \<lparr>er_before = total_size (rows_of st), er_after = current, er_evicted = n\<rparr>))
          (\<lambda>r st'. \<not> isl r \<and> evicted_to s (rows_of st) (rows_of st'))) (st1\<lparr>sd_world := w\<rparr>)"
      if w: "still (sd_world st1) w" for w
    proof (rule wp_mono [OF evict_loop_drains])
      have d: "distinct (map mr_key (rows_of st1))" using st1 by (simp add: trimmed_def mirror_ok_def)
      have "distinct (map mr_key (live (rows_of st1)))" using d by (auto simp: live_def distinct_map intro: inj_on_subset)
      then have "distinct (map mr_key (lru (rows_of st1)))" using lru_facts(1) by (metis mset_eq_imp_distinct_iff mset_map)
      then show "distinct (map mr_key (take 512 (lru (rows_of st))))" by (simp add: lru take_map [symmetric])
      show "set (take 512 (lru (rows_of st))) \<subseteq> {r \<in> set (rows_of (st1\<lparr>sd_world := w\<rparr>)). mr_status r = ''ok''}"
        using set_take_subset lru_facts(2) [of "rows_of st1"] by (fastforce simp: lru live_def)
      fix p :: "int \<times> int" and st' assume dr: "(case p of (x, _) \<Rightarrow> \<lambda>st'. drained (lowWaterMark s) (take 512 (lru (rows_of st))) (rows_of (st1\<lparr>sd_world := w\<rparr>)) x (rows_of st')) st'"
      obtain x n where p: "p = (x, n)" by (cases p)
      from dr have "drained (lowWaterMark s) (take 512 (lru (rows_of st1))) (rows_of st1) x (rows_of st')" by (simp add: p lru)
      from drained_lru [OF d this] have "evicted_to s (rows_of st) (rows_of st')"
        using st1 lowWaterMark_le [OF assms(7,8)] assms(7) by (auto simp: evicted_to_def total_live)
      then show "wp (case p of (current, n) \<Rightarrow> ret (Inr \<lparr>er_before = total_size (rows_of st), er_after = current, er_evicted = n\<rparr>))
          (\<lambda>r st'. \<not> isl r \<and> evicted_to s (rows_of st) (rows_of st')) st'" by (simp add: p wp_ret)
    qed (use st1 w total assms in \<open>auto simp: trimmed_def sound_still still_def no_negative_def\<close>)
    have same: "evicted_to s (rows_of st) (rows_of st1)" if "total_size (rows_of st) \<le> ?max"
    proof -
      have "set (live (rows_of st)) \<subseteq> set (rows_of st1)" using st1 by (metis filter_is_subset live_def)
      then show ?thesis using that total by (auto simp: evicted_to_def)
    qed
    have q1: "quiet (sd_world st1)" using st1 assms(4) by (simp add: trimmed_def)
    show "wp (and_then (wrap ''sum mirror cache'' (on_rows q_SumMirroredMediaSize)) (\<lambda>before.
        if before \<le> ?max then ret (Inr \<lparr>er_before = before, er_after = before, er_evicted = 0\<rparr>)
        else and_then (wrap ''list mirror LRU'' (on_rows (q_ListMirroredMediaLRU evictScanBatch))) (\<lambda>candidates. do {
          (current, n) \<leftarrow> evict_loop s (lowWaterMark s) candidates before 0;
          ret (Inr \<lparr>er_before = before, er_after = current, er_evicted = n\<rparr>)
        }))) (\<lambda>r st'. \<not> isl r \<and> evicted_to s (rows_of st) (rows_of st')) st1"
    proof (rule wp_then_wrap [where P = "\<lambda>r st'. r = Inr (total_size (rows_of st)) \<and> (\<exists>w. still (sd_world st1) w \<and> st' = st1\<lparr>sd_world := w\<rparr>)"])
      show "wp (on_rows q_SumMirroredMediaSize) (\<lambda>r st'. r = Inr (total_size (rows_of st)) \<and> (\<exists>w. still (sd_world st1) w \<and> st' = st1\<lparr>sd_world := w\<rparr>)) st1"
        by (rule wp_read_rows) (use q1 assms(6) total in \<open>auto simp: q_SumMirroredMediaSize_def\<close>)
    next
      fix before st2 assume "Inr before = Inr (total_size (rows_of st)) \<and> (\<exists>w. still (sd_world st1) w \<and> st2 = st1\<lparr>sd_world := w\<rparr>)"
      then obtain w where b: "before = total_size (rows_of st)" and w: "still (sd_world st1) w" "st2 = st1\<lparr>sd_world := w\<rparr>" by auto
      have list: "wp (on_rows (q_ListMirroredMediaLRU evictScanBatch)) (\<lambda>r st'. r = Inr (take 512 (lru (rows_of st)))
          \<and> (\<exists>w. still (sd_world st1) w \<and> st' = st1\<lparr>sd_world := w\<rparr>)) st2"
        by (rule wp_read_rows)
          (use q1 w lru in \<open>auto simp: q_ListMirroredMediaLRU_def evictScanBatch_def lru_def live_def still_def intro: still_trans\<close>)
      show "wp (if before \<le> ?max then ret (Inr \<lparr>er_before = before, er_after = before, er_evicted = 0\<rparr>)
        else and_then (wrap ''list mirror LRU'' (on_rows (q_ListMirroredMediaLRU evictScanBatch))) (\<lambda>candidates. do {
          (current, n) \<leftarrow> evict_loop s (lowWaterMark s) candidates before 0;
          ret (Inr \<lparr>er_before = before, er_after = current, er_evicted = n\<rparr>)
        })) (\<lambda>r st'. \<not> isl r \<and> evicted_to s (rows_of st) (rows_of st')) st2"
        by (intro wp_ifI wp_then_wrap [OF list]) (use same loop b w in \<open>auto simp: wp_ret wp_bind\<close>)
    qed auto
  qed
qed

text \<open>What can happen to the mirror: views, evictions, and whatever the other parts of the server do that leaves it the blobs of
  its key.\<close>

inductive mirror_step :: "mirror_service \<Rightarrow> mirror_side sided \<Rightarrow> mirror_side sided \<Rightarrow> bool" for s where
  view: "mirror_step s st (snd (run_state (VerifyAndGet s enc e sig) st))"
| evict: "mirror_step s st (snd (run_state (Evict s) st))"
| outside: "sound st' \<Longrightarrow> rows_of st' = rows_of st
    \<Longrightarrow> (\<And>h. owns (mc_owner (ms_config s)) h (owned_in st) \<Longrightarrow> owns (mc_owner (ms_config s)) h (owned_in st')) \<Longrightarrow> mirror_step s st st'"

abbreviation backed_mirror :: "mirror_service \<Rightarrow> mirror_side sided \<Rightarrow> bool" where
  "backed_mirror s st \<equiv> sound st \<and> mirror_ok (mc_owner (ms_config s)) (rows_of st) (owned_in st)"

lemma mirror_step_backed:
  assumes "enc_ok (ms_blobs s)" "mirror_step s st st'" "backed_mirror s st"
  shows "backed_mirror s st'"
  using assms(2)
proof cases
  case (view enc e sig)
  then show ?thesis using wp_run [OF VerifyAndGet_spec run_pair, of s st enc e sig] assms(1,3) by simp
next
  case evict
  then show ?thesis using wp_run [OF Evict_trims run_pair, of st s] assms(3) by (simp add: trimmed_def)
next
  case outside
  then show ?thesis using assms(3) mirror_ok_mono by metis
qed

lemma mirror_steps_backed:
  assumes "enc_ok (ms_blobs s)" "(mirror_step s)\<^sup>*\<^sup>* st st'" "backed_mirror s st"
  shows "backed_mirror s st'"
  using assms(2,3) by (induction rule: rtranclp_induct) (use mirror_step_backed [OF assms(1)] in blast)+

section \<open>Properties\<close>

text \<open>C37. Whatever a client sends to the media mirror and whichever calls fail: without a link that this server signed and
  that has not expired, no URL is asked for, nothing is read, and the state stays exactly as it was. With one, either the entry
  of that URL answers, no URL is asked for and nothing changes but the entry's time of access, or exactly that URL is asked
  for, once, and then at most one owner is added: the mirror's key, of a blob that the checks accept and whose hash is that of
  the bytes received; a failed fetch adds none.\<close>
theorem mirror_view_outcome:
  assumes "enc_ok (ms_blobs s)" "sound st" "run_state (VerifyAndGet s enc e sig) st = (r, st')"
  shows "viewed s enc e sig st r st' \<and> sound st'"
  using wp_run [OF VerifyAndGet_spec [OF assms(1,2)] assms(3)] by blast

text \<open>C38. Whatever is viewed and evicted, in any order and whichever calls fail, every entry of the mirror that claims a blob
  is backed by a blob of the mirror's key, so an eviction in progress or cut short never leaves an entry without its blob.\<close>
theorem mirror_entries_backed:
  assumes "enc_ok (ms_blobs s)" "(mirror_step s)\<^sup>*\<^sup>* st st'" "sound st" "rows_of st = []"
  shows "\<forall>r \<in> set (rows_of st'). mr_status r = ''ok'' \<longrightarrow> (\<exists>h. mr_sha r = Some h \<and> owns (mc_owner (ms_config s)) h (owned_in st'))"
proof -
  have "backed_mirror s st" using assms(3,4) by (simp add: mirror_ok_def)
  from mirror_steps_backed [OF assms(1,2) this] show ?thesis by (auto simp: mirror_ok_def)
qed

text \<open>C39. An eviction with no failing call brings the mirror within its cap, or drops 512 entries towards it, and it drops the
  entries viewed least recently: none that stays was viewed before one that goes.\<close>
theorem eviction_drains:
  assumes "mirror_enabled s" "sound st" "mirror_ok (mc_owner (ms_config s)) (rows_of st) (owned_in st)" "quiet (sd_world st)"
    and "no_negative (rows_of st)" "in_i64 (total_size (rows_of st))"
    and "0 < mc_cache_max (ms_config s)" "mc_cache_max (ms_config s) * 100 < 2 ^ 63"
    and "run_state (Evict s) st = (r, st')"
  shows "\<not> isl r \<and> evicted_to s (rows_of st) (rows_of st')"
  by (rule wp_run [OF Evict_drains [OF assms(1-8)] assms(9)])

text \<open>C40. The media mirror does not look at the list of removed hashes. With no failing call, when a valid link is opened for a URL
  that has no entry yet, and the bytes found there pass the mirror's checks and are not stored, they are stored for the mirror's
  key and served, although their hash is on the list and a moderated \<^verbatim>\<open>PUT /upload\<close> of the same bytes, by any key, is refused;
  and the hash stays on the list. (No encryptor is configured.)\<close>
theorem mirror_restores_removed_hash:
  assumes "sound st" "quiet (sd_world st)" "valid_link s (w_now (sd_world st)) enc e sig url" "storable s url data st"
    and "\<forall>r \<in> set (rows_of st). mr_key r \<noteq> urlHash s url"
    and "is_removed (ml_sha (ms_lib s) data) (w_db (sd_world st))" "sv_moderation c"
    and "run_state (VerifyAndGet s enc e sig) st = (r, st')"
  shows "(\<exists>x. r = Inr x \<and> md_data x = data) \<and> owns (mc_owner (ms_config s)) (ml_sha (ms_lib s) data) (owned_in st')
    \<and> is_removed (ml_sha (ms_lib s) data) (w_db (sd_world st'))
    \<and> isl (fst (run_state (UploadBlob c (ml_sha (ms_lib s) data) pk data mode declared) (sd_world st)))"
proof -
  have "stored s data st r st'" by (rule wp_run [OF view_stores [OF assms(1-5)] assms(8)])
  moreover have "db_inv (w_db (sd_world st))" using assms(1) by (simp add: sound_def)
  note wp_run [OF removed_refused(1) [OF assms(2) this assms(7,6)] run_pair, of pk data mode declared]
  ultimately show ?thesis using assms(6) by (auto simp: stored_def is_removed_def dest!: others_tables)
qed

section \<open>Examples\<close>

definition mirror_example_lib :: mirror_lib where
  "mirror_example_lib = \<lparr>ml_hmac = (\<lambda>_ _. [1, 2, 3]), ml_sha = sv_hash open_services, ml_detect = (\<lambda>_. ''image/png''), ml_dims = (\<lambda>_. Some (2, 2)),
     ml_parse = (\<lambda>_. Some \<lparr>up_scheme = ''https'', up_host = ''h'', up_user = False, up_path = [], up_tail = [], up_fragment = []\<rparr>),
     ml_string = (\<lambda>_. []), ml_hostname = (\<lambda>h. h), ml_port = (\<lambda>_. [])\<rparr>"

definition mirror_example :: mirror_service where
  "mirror_example = \<lparr>ms_config = DefaultMediaMirrorConfig\<lparr>mc_enabled := True, mc_max_object := 10, mc_cache_max := 3\<rparr>, ms_signer = Some \<lparr>sg_key = [1], sg_ttl = 0\<rparr>,
     ms_blobs = sv_blobs open_services, ms_lib = mirror_example_lib\<rparr>"

definition mirror_start :: "dbstate \<Rightarrow> mirror_side sided" where
  "mirror_start d = \<lparr>sd_world = start_world d, sd = \<lparr>mm_rows = [], mm_web = (\<lambda>_. Fetched 200 2 (Some [7, 8])), mm_asked = []\<rparr>\<rparr>"

abbreviation "example_view \<equiv> VerifyAndGet mirror_example (EncodeURL ''https://h'') 0 (raw_encode [1, 2, 3])"

lemma mirror_example_ok: "enc_ok (ms_blobs mirror_example)" "sound (mirror_start single_db)" "sound (mirror_start removed_db)"
  using open_services_enc balanced_examples(2)
  by (simp_all add: mirror_example_def sound_def mirror_start_def balanced_def removed_db_def)

lemma mirror_restores_removed_hash_witness:
  "owns (mc_owner (ms_config mirror_example)) ''hh'' (owned_in (snd (run_state example_view (mirror_start removed_db))))
    \<and> is_removed ''hh'' removed_db"
proof
  show r: "is_removed ''hh'' removed_db" by (simp add: removed_db_def is_removed_def)
  have h: "ml_sha (ms_lib mirror_example) [7, 8] = ''hh''" by code_simp
  have q: "quiet (sd_world (mirror_start removed_db))" "rows_of (mirror_start removed_db) = []" by (simp_all add: mirror_start_def)
  have link: "valid_link mirror_example (w_now (sd_world (mirror_start removed_db))) (EncodeURL ''https://h'') 0 (raw_encode [1, 2, 3]) ''https://h''"
  proof -
    have "DecodeURL (EncodeURL ''https://h'') = Inr ''https://h''" "PreCheckURL (ms_lib mirror_example) ''https://h''"
      "Verify (ml_hmac (ms_lib mirror_example)) \<lparr>sg_key = [1], sg_ttl = 0\<rparr> (w_now (sd_world (mirror_start removed_db))) ''https://h'' 0
        (raw_encode [1, 2, 3]) = None" by code_simp+
    then show ?thesis by (simp add: valid_link_def mirror_example_def)
  qed
  have ok: "acceptable mirror_example [7, 8]" "fetched_body mirror_example (mm_web (sd (mirror_start removed_db)) ''https://h'') = Inr [7, 8]"
    by code_simp+
  have "storable mirror_example ''https://h'' [7, 8] (mirror_start removed_db)"
    unfolding storable_def h using ok
    by (simp add: mirror_start_def mirror_example_def open_services_def plain_service_def in_i64_def Unix_def)
      (simp add: removed_db_def single_db_def accounts_db_def sample_db_def sample_blob_def blob_of_def has_hash_def)
  from mirror_restores_removed_hash [OF mirror_example_ok(3) q(1) link this _ _ _ run_pair, where c = open_services] r
  show "owns (mc_owner (ms_config mirror_example)) ''hh'' (owned_in (snd (run_state example_view (mirror_start removed_db))))"
    by (simp add: h q(2) mirror_start_def open_services_def)
qed

definition viewed_once :: "mirror_side sided" where
  "viewed_once = snd (run_state example_view (mirror_start single_db))"

lemma viewed_facts:
  "map mr_status (rows_of viewed_once) = [''ok'']" "\<not> isl (fst (run_state example_view (mirror_start single_db)))"
proof -
  have "case run_state example_view (mirror_start single_db) of (r, st') \<Rightarrow> map mr_status (rows_of st') = [''ok''] \<and> \<not> isl r"
    by code_simp
  then show "map mr_status (rows_of viewed_once) = [''ok'']" "\<not> isl (fst (run_state example_view (mirror_start single_db)))"
    by (simp_all add: viewed_once_def split: prod.splits)
qed

definition cached_row :: "string \<Rightarrow> int \<Rightarrow> mirror_row" where
  "cached_row key t = \<lparr>mr_key = key, mr_url = key, mr_status = ''ok'', mr_reason = None, mr_sha = Some ''h'', mr_size = 2, mr_mime = None,
     mr_fetched = t, mr_accessed = t\<rparr>"

definition owner_example :: mirror_service where
  "owner_example = mirror_example\<lparr>ms_config := (ms_config mirror_example)\<lparr>mc_owner := ''a''\<rparr>\<rparr>"

definition two_cached :: "mirror_side sided" where
  "two_cached = (mirror_start single_db)\<lparr>sd := (sd (mirror_start single_db))\<lparr>mm_rows := [cached_row ''u'' 1, cached_row ''v'' 2]\<rparr>\<rparr>"

lemma mirror_view_outcome_witness: "\<exists>h. owns (mc_owner (ms_config mirror_example)) h (owned_in viewed_once)"
proof -
  obtain x where r: "run_state example_view (mirror_start single_db) = (Inr x, viewed_once)"
    using run_Inr [OF viewed_facts(2)] by (auto simp: viewed_once_def)
  have rows: "rows_of (mirror_start single_db) = []" by (simp add: mirror_start_def)
  have "viewed mirror_example (EncodeURL ''https://h'') 0 (raw_encode [1, 2, 3]) (mirror_start single_db) (Inr x) viewed_once"
    using mirror_view_outcome [OF mirror_example_ok(1,2) r] by blast
  then have "one_more (mc_owner (ms_config mirror_example)) (md_sha x) (owned_in (mirror_start single_db)) (owned_in viewed_once)"
    by (auto simp: viewed_def cached_answer_def rows fetched_def)
  then show ?thesis by (auto simp: one_more_def)
qed

lemma viewed_reachable: "(mirror_step mirror_example)\<^sup>*\<^sup>* (mirror_start single_db) viewed_once"
  unfolding viewed_once_def by (rule r_into_rtranclp, rule mirror_step.view)

lemma mirror_entries_backed_witness:
  "\<exists>r \<in> set (rows_of viewed_once). \<exists>h. mr_sha r = Some h \<and> owns (mc_owner (ms_config mirror_example)) h (owned_in viewed_once)"
proof -
  obtain r where r: "rows_of viewed_once = [r]" "mr_status r = ''ok''" using viewed_facts(1) by (auto simp: map_eq_Cons_conv)
  have "rows_of (mirror_start single_db) = []" by (simp add: mirror_start_def)
  from mirror_entries_backed [OF mirror_example_ok(1) viewed_reachable mirror_example_ok(2) this] show ?thesis
    using r by simp
qed

lemma eviction_drains_witness: "total_size (rows_of (snd (run_state (Evict owner_example) two_cached))) \<le> 3"
proof -
  have rows: "rows_of two_cached = [cached_row ''u'' 1, cached_row ''v'' 2]" by (simp add: two_cached_def)
  have total: "total_size (rows_of two_cached) = 4" "no_negative (rows_of two_cached)" "length (live (rows_of two_cached)) = 2"
    by (simp_all add: rows total_size_def no_negative_def live_def cached_row_def)
  have c: "mirror_enabled owner_example" "mc_cache_max (ms_config owner_example) = 3" "mc_owner (ms_config owner_example) = ''a''"
    by (simp_all add: mirror_enabled_def mirror_example_def owner_example_def)
  have w: "sd_world two_cached = start_world single_db" by (simp add: two_cached_def mirror_start_def)
  have ok: "sound two_cached" "quiet (sd_world two_cached)" using mirror_example_ok(2)
    by (simp_all add: sound_def w mirror_start_def quiet_def)
  have "owns ''a'' ''h'' (owned single_db)" by code_simp
  then have "mirror_ok (mc_owner (ms_config owner_example)) (rows_of two_cached) (owned_in two_cached)"
    by (simp add: mirror_ok_def rows c w cached_row_def)
  from eviction_drains [OF c(1) ok(1) this ok(2) total(2) _ _ _ run_pair] show ?thesis
    by (auto simp: evicted_to_def total c in_i64_def)
qed

end
