(* ===== verification/Spec2Isabelle.thy ===== *)
theory Spec2Isabelle
  imports BlobReads OperatorRules GC Expiration ChunkedLimits TusOutcome AdminAuth UrlSign BatchRules PaymentRules Endpoints MirrorRules
begin

text \<open>
  The Blossom blob server (Go). This development models the server's own logic from the HTTP request down to the rows of the
  database, and proves what it guarantees about who owns which blob, what is charged, what is stored and what is refused, and
  where the code falls short of what it means to do. File names are relative to \<^verbatim>\<open>src/\<close>; Go packages live under
  \<^verbatim>\<open>src/src/\<close>, \<^verbatim>\<open>src/api/gin/\<close>, \<^verbatim>\<open>src/db/\<close> and \<^verbatim>\<open>src/internal/\<close>.

  The program and its parts. A client signs a Nostr event that permits one verb on one hash; the middleware checks it and the
  payment gate may ask for a payment; the handler checks blocklist, access rules, quota, size, type and daily limits and the list
  of removed hashes, stores the bytes once per hash (a row of \<^verbatim>\<open>blobs\<close>, one row of \<^verbatim>\<open>blob_references\<close> per owner, an object in
  the storage backend, sealed when the server encrypts) and charges the owner's account. Other ways in are chunked uploads,
  resumable (tus) uploads, batches, mirroring from another server and the media mirror of remote images. Blobs go away
  through an owner's delete, the operator's delete, moderation, expiry and the garbage collector.

  Effects. \<open>Prelude\<close> has the state monad of the programs (\<open>'a prog\<close>), Go's errors as a datatype with \<open>errors_is\<close> for
  \<^verbatim>\<open>errors.Is\<close>, results as sums, 64-bit and 32-bit arithmetic with its wrap-around (\<open>i64\<close>, \<open>i32\<close>) and a weakest-precondition
  calculus (\<open>wp\<close>, the collections \<open>wp_simp\<close>, \<open>wp_intro\<close>, and \<open>keeps\<close> with \<open>keeps_rule\<close> for state predicates that a program
  preserves). \<open>World\<close> has the state of a request: tables with the open transaction, stored objects, chunk files, clock,
  randomness, counters, and the failures to come (\<open>w_faults\<close>): every database, storage and file call takes the next element and
  fails without effect when it is \<open>True\<close>. A theorem with no condition on \<open>w_faults\<close> holds whichever calls fail; \<open>quiet w\<close> says
  that no call fails, and is a hypothesis exactly where a statement needs it. \<open>Side\<close> adds tables that one component alone uses.
  The clock stands still while a request is served, unless a definition takes a clock of its own. A request is one step; where
  interleaved requests matter, the steps of the two are written out in sequence.

  Theories, the code they model, and their state:
  \<^item> \<open>Database\<close> (\<^verbatim>\<open>db/blobs.sql.go\<close>, \<^verbatim>\<open>blob_references.sql.go\<close>, \<^verbatim>\<open>users.sql.go\<close>, \<^verbatim>\<open>gc.sql.go\<close>, \<^verbatim>\<open>models.go\<close>): the tables as
    lists of rows in \<open>dbstate\<close>, every query as a function \<open>q_<Name>\<close> with Postgres' constraints and column ranges. The queries of
    the other tables stand with their components.
  \<^item> \<open>BlobState\<close>, \<open>Accounts\<close>: the abstract view of the tables: \<open>owned\<close> maps a hash to its blob and the set of its owners,
    \<open>db_inv\<close> is the invariant of the tables, \<open>balanced\<close> says that each account is the sum of what its blobs are charged.
  \<^item> \<open>Encryption\<close> (\<^verbatim>\<open>internal/encryption/encryption.go\<close>), \<open>BlobService\<close> (\<^verbatim>\<open>src/service/blob_service.go\<close>), \<open>BlobReads\<close>: storing with
    deduplication and deleting references as refinements of adding and dropping an owner, what is read back, listings.
  \<^item> \<open>QuotaService\<close>, \<open>QuotaRules\<close> (\<^verbatim>\<open>src/service/quota_service.go\<close>): accounts, the check before a charge, recalculation.
  \<^item> \<open>Cache\<close> (\<^verbatim>\<open>internal/cache/memory.go\<close>), \<open>RateLimit\<close> (\<^verbatim>\<open>internal/ratelimit/ratelimit.go\<close>): the LRU cache with its size counter, and
    the request and bandwidth limiters over it.
  \<^item> \<open>Policy\<close> (\<^verbatim>\<open>acr_service.go\<close>, \<^verbatim>\<open>mime_type.go\<close>, \<^verbatim>\<open>setting_service.go\<close>, \<^verbatim>\<open>upload_limits_service.go\<close>, \<^verbatim>\<open>pkg/mimetypes/resolve.go\<close>),
    \<open>Moderation\<close> (\<^verbatim>\<open>moderation_service.go\<close> and its three tables).
  \<^item> \<open>Upload\<close>, \<open>UploadRules\<close>, \<open>OperatorRules\<close> (\<^verbatim>\<open>src/bud-01\<close>, \<^verbatim>\<open>bud-02\<close>, \<^verbatim>\<open>bud-04\<close>, \<^verbatim>\<open>bud-06\<close>): the Blossom operations, and the
    operator's delete.
  \<^item> \<open>GC\<close> (\<^verbatim>\<open>gc_service.go\<close>), \<open>Expiration\<close> (\<^verbatim>\<open>expiration_service.go\<close>, \<^verbatim>\<open>expiration.sql.go\<close>): the two sweeps.
  \<^item> \<open>Chunked\<close>, \<open>ChunkedRules\<close>, \<open>ChunkedLimits\<close> (\<^verbatim>\<open>chunked_upload_service.go\<close>, \<^verbatim>\<open>upload_sessions.sql.go\<close>): sessions, chunk files,
    assembly.
  \<^item> \<open>Tus\<close>, \<open>TusRules\<close>, \<open>TusSweep\<close>, \<open>TusOutcome\<close> (\<^verbatim>\<open>tus_store.go\<close>, \<^verbatim>\<open>tus_uploads.sql.go\<close>, \<^verbatim>\<open>api/gin/tus_controller.go\<close>): the store of
    resumable uploads and the handlers of the protocol.
  \<^item> \<open>Encoding\<close>, \<open>Auth\<close> (\<^verbatim>\<open>auth_middleware.go\<close>), \<open>AdminAuth\<close> (\<^verbatim>\<open>admin_auth.go\<close>), \<open>UrlSign\<close> (\<^verbatim>\<open>pkg/urlsign/urlsign.go\<close>): who is asking.
  \<^item> \<open>Batch\<close>, \<open>BatchRules\<close> (\<^verbatim>\<open>batch_service.go\<close>, \<^verbatim>\<open>batch_controller.go\<close>).
  \<^item> \<open>Payments\<close>, \<open>PaymentRules\<close> (\<^verbatim>\<open>payments.sql.go\<close>, \<^verbatim>\<open>payment_service.go\<close>, \<^verbatim>\<open>payment_middleware.go\<close>, the requests of the Lightning and
    Cashu clients).
  \<^item> \<open>Endpoints\<close> (\<^verbatim>\<open>bud02_controller.go\<close>, \<^verbatim>\<open>bud06_controller.go\<close>, \<^verbatim>\<open>search_controller.go\<close>, \<^verbatim>\<open>routes.go\<close>): the composition of middleware,
    gate and handler.
  \<^item> \<open>MediaMirror\<close>, \<open>MirrorRules\<close> (\<^verbatim>\<open>media_mirror_service.go\<close>, \<^verbatim>\<open>media_mirror.sql.go\<close>, \<^verbatim>\<open>internal/safefetch/url.go\<close>,
    \<^verbatim>\<open>media_mirror_controller.go\<close>): signing, viewing, fetching and evicting. The side state records every URL asked for, so that a
    theorem can say that nothing was fetched.

  Interfaces. \<open>atomic_counter\<close> (\<open>Cache\<close>) is what a limiter asks of a counter, interpreted as \<open>mem\<close> on the in-process cache;
  \<open>ledger\<close> (\<open>QuotaService\<close>) is what the upload and delete paths ask of the accounts, interpreted as \<open>quota\<close> on the quota
  service; \<open>resumable\<close> (\<open>TusRules\<close>) is what a store of resumable uploads promises, interpreted as \<open>tus\<close> on the store.

  Lemma groups. Each operation has a lemma \<open><operation>_spec\<close> or \<open>_wp\<close> that gives its weakest precondition under any failures, the
  lemmas \<open>keeps_quiet_...\<close> say that it uses up no failures when there are none, and \<open>..._outcome\<close>, \<open>..._refines\<close> and
  \<open>..._keeps_balanced\<close> are the properties. A theorem whose name ends in \<open>_witness\<close> applies the property it is named after to
  concrete data.

  Bounds and fuel. Chunk counts, sizes and times are kept at their Go widths, and hypotheses such as \<open>in_i64\<close> say where a sum must
  fit; where it need not, the overflow is a theorem. Loops are structural except the sweep of expired resumable uploads,
  \<open>sweep_batches\<close>, whose first argument bounds the number of batches: a number above the number of expired uploads is never
  used up (\<open>sweep_terminates\<close>), because a full batch removes every upload it lists or ends the sweep.

  Parameters. What is not code of the repository is an argument of the definitions, with laws only where stated: AES-GCM (opening
  undoes sealing), SHA-256 and HMAC, the decoders of JSON, base64 checksums, URLs and images, the type sniffer, the Nostr
  signature check, the Lightning node and the Cashu mints, other web servers, UUIDs, and the order of ranging over a Go map.

  Not modelled: federation over Nostr relays (its workers are never started), video transcoding, image processing, torrents
  and IPFS (they drive processes and libraries), AI moderation and replication (never enabled, never constructed), analytics and
  the operator's pages (read-only), notifications, the clients of an external platform, the storage backends behind their
  interface, ranges and redirects of \<^verbatim>\<open>GET\<close>, the zip and tar writers of batches, tickers and locks of the background workers
  (the result of taking a lock is a parameter), configuration, wiring, logs and metrics. Statements whose rows come without
  \<^verbatim>\<open>ORDER BY\<close> return them in table order.
\<close>

end
